(* ===== verification/Fox_Prelude.thy ===== *)
theory Fox_Prelude
  imports Complex_Main "HOL-Library.Word" "HOL-Library.AList" "HOL-Library.Sublist"
begin

text \<open>
  The part of the Go language and of its standard library that the gateway's own code uses,
  and the generic lemmas the components share.

  \<^item> Strings are byte strings (\<open>string\<close>, one \<open>char\<close> per byte), as in Go: \<open>length\<close> is
    \<^verbatim>\<open>len(s)\<close>. \<open>prefix\<close> and \<open>suffix\<close> of HOL-Library.Sublist are
    \<^verbatim>\<open>strings.HasPrefix\<close> and \<^verbatim>\<open>strings.HasSuffix\<close>.
  \<^item> Times are nanoseconds since the Unix epoch (\<open>gotime\<close>); the zero \<^verbatim>\<open>time.Time\<close> is
    the instant \<open>zero_time\<close>, one second resolution of which is -62135596800.
  \<^item> \<^verbatim>\<open>int64\<close> and \<^verbatim>\<open>uint64\<close> counters whose wrap-around matters are 64-bit words.
  \<^item> An \<^verbatim>\<open>error\<close> result is a \<open>go_error\<close> option or the left part of a sum.
\<close>

unbundle bit_operations_syntax

named_theorems go_eval \<open>unfolding equations that evaluate the string functions on literals\<close>
named_theorems pool_simps \<open>frame and lookup facts about the pools\<close>

type_synonym gotime = int
type_synonym duration = int
type_synonym go_error = string
type_synonym 'a result = "go_error + 'a"

subsection \<open>Times and durations\<close>

definition second :: duration where "second = 1000000000"
definition minute :: duration where "minute = 60 * second"
definition hour :: duration where "hour = 60 * minute"

definition zero_time :: gotime where "zero_time = - 62135596800 * second"

definition is_zero :: "gotime \<Rightarrow> bool" where "is_zero t \<longleftrightarrow> t = zero_time"

text \<open>Integer division and remainder of Go truncate towards zero.\<close>

definition go_div :: "int \<Rightarrow> int \<Rightarrow> int" where
  "go_div a b = sgn a * sgn b * (\<bar>a\<bar> div \<bar>b\<bar>)"

definition go_rem :: "int \<Rightarrow> int \<Rightarrow> int" where
  "go_rem a b = sgn a * (\<bar>a\<bar> mod \<bar>b\<bar>)"

definition milliseconds :: "duration \<Rightarrow> int" where
  "milliseconds d = go_div d 1000000"

lemmas time_defs = second_def minute_def hour_def

lemma go_rem_bounds: "0 < b \<Longrightarrow> - b < go_rem a b \<and> go_rem a b < b"
proof -
  assume b: "0 < b"
  have "0 \<le> \<bar>a\<bar> mod \<bar>b\<bar>" and "\<bar>a\<bar> mod \<bar>b\<bar> < b"
    using b by auto
  then show ?thesis
    by (cases "a = 0"; cases "0 < a") (auto simp: go_rem_def b)
qed

lemma go_rem_nonneg: "0 \<le> a \<Longrightarrow> 0 < b \<Longrightarrow> go_rem a b = a mod b"
  by (cases "a = 0") (auto simp: go_rem_def)

text \<open>
  The index computation \<^verbatim>\<open>idx := int((v - 1) % int64(n)); if idx < 0 { idx += n }\<close> over a
  signed 64-bit counter: the subtraction wraps, the remainder keeps the dividend's sign.
\<close>

definition rr_index_signed :: "64 word \<Rightarrow> nat \<Rightarrow> nat" where
  "rr_index_signed v n =
     (let idx = go_rem (sint (v - 1)) (int n) in nat (if idx < 0 then idx + int n else idx))"

text \<open>The unsigned form \<^verbatim>\<open>idx = int((v - 1) % uint64(n))\<close>.\<close>

definition rr_index_unsigned :: "64 word \<Rightarrow> nat \<Rightarrow> nat" where
  "rr_index_unsigned v n = unat (v - 1) mod n"

lemma rr_index_signed_less: "0 < n \<Longrightarrow> rr_index_signed v n < n"
  using go_rem_bounds [of "int n" "sint (v - 1)"]
  by (auto simp: rr_index_signed_def Let_def)

lemma rr_index_unsigned_less: "0 < n \<Longrightarrow> rr_index_unsigned v n < n"
  by (simp add: rr_index_unsigned_def)

lemma rr_index_unsigned_Suc:
  "k < 2 ^ 64 \<Longrightarrow> rr_index_unsigned (word_of_nat k + 1) n = k mod n"
  by (simp add: rr_index_unsigned_def unat_of_nat)

subsection \<open>Strings\<close>

definition trim_prefix :: "string \<Rightarrow> string \<Rightarrow> string" where
  "trim_prefix p s = (if prefix p s then drop (length p) s else s)"

definition trim_suffix :: "string \<Rightarrow> string \<Rightarrow> string" where
  "trim_suffix p s = (if suffix p s then take (length s - length p) s else s)"

fun contains :: "string \<Rightarrow> string \<Rightarrow> bool" where
  "contains sub [] \<longleftrightarrow> sub = []"
| "contains sub (c # s) \<longleftrightarrow> prefix sub (c # s) \<or> contains sub s"

lemma contains_sublist: "contains sub s \<longleftrightarrow> sublist sub s"
  by (induction s) (auto simp: sublist_Cons_right)

lemma trim_prefix_append [simp]: "trim_prefix p (p @ s) = s"
  by (simp add: trim_prefix_def)

lemma trim_prefix_idle: "\<not> prefix p s \<Longrightarrow> trim_prefix p s = s"
  by (simp add: trim_prefix_def)

lemma trim_suffix_append [simp]: "trim_suffix p (s @ p) = s"
  by (simp add: trim_suffix_def suffix_def)

lemma prefix_append_trim: "prefix p s \<Longrightarrow> p @ trim_prefix p s = s"
  by (auto simp: trim_prefix_def prefix_def)

text \<open>
  \<^verbatim>\<open>strings.TrimSpace\<close> removes leading and trailing white space runes. The UTF-8 encodings of
  the runes with \<^verbatim>\<open>unicode.IsSpace\<close> are the sequences below; UTF-8 is self-synchronising, so
  a string starts (ends) with such a rune exactly when it starts (ends) with its encoding.
\<close>

definition space_seqs :: "string list" where
  "space_seqs =
     [[CHR 0x09], [CHR 0x0A], [CHR 0x0B], [CHR 0x0C], [CHR 0x0D], [CHR 0x20],
      [CHR 0xC2, CHR 0x85], [CHR 0xC2, CHR 0xA0], [CHR 0xE1, CHR 0x9A, CHR 0x80],
      [CHR 0xE2, CHR 0x80, CHR 0x80], [CHR 0xE2, CHR 0x80, CHR 0x81],
      [CHR 0xE2, CHR 0x80, CHR 0x82], [CHR 0xE2, CHR 0x80, CHR 0x83],
      [CHR 0xE2, CHR 0x80, CHR 0x84], [CHR 0xE2, CHR 0x80, CHR 0x85],
      [CHR 0xE2, CHR 0x80, CHR 0x86], [CHR 0xE2, CHR 0x80, CHR 0x87],
      [CHR 0xE2, CHR 0x80, CHR 0x88], [CHR 0xE2, CHR 0x80, CHR 0x89],
      [CHR 0xE2, CHR 0x80, CHR 0x8A], [CHR 0xE2, CHR 0x80, CHR 0xA8],
      [CHR 0xE2, CHR 0x80, CHR 0xA9], [CHR 0xE2, CHR 0x80, CHR 0xAF],
      [CHR 0xE2, CHR 0x81, CHR 0x9F], [CHR 0xE3, CHR 0x80, CHR 0x80]]"

definition seq_len :: "string list \<Rightarrow> string \<Rightarrow> nat" where
  "seq_len qs s = (case find (\<lambda>q. prefix q s) qs of None \<Rightarrow> 0 | Some q \<Rightarrow> length q)"

lemma seq_len_le: "seq_len qs s \<le> length s"
  by (auto simp: seq_len_def find_Some_iff prefix_length_le split: option.splits)

function trim_by :: "string list \<Rightarrow> string \<Rightarrow> string" where
  "trim_by qs s = (if seq_len qs s = 0 then s else trim_by qs (drop (seq_len qs s) s))"
  by pat_completeness auto
termination
proof (relation "measure (\<lambda>(qs, s). length s)", goal_cases)
  case 1
  then show ?case by simp
next
  case (2 qs s)
  then show ?case using seq_len_le [of qs s] by simp
qed

declare trim_by.simps [simp del]

definition TrimSpace :: "string \<Rightarrow> string" where
  "TrimSpace s = rev (trim_by (map rev space_seqs) (rev (trim_by space_seqs s)))"

lemma trim_by_stops: "seq_len qs (trim_by qs s) = 0"
proof (induction qs s rule: trim_by.induct)
  case (1 qs s)
  then show ?case by (cases "seq_len qs s = 0") (simp_all add: trim_by.simps [of qs s])
qed

lemma trim_by_fixed: "seq_len qs s = 0 \<Longrightarrow> trim_by qs s = s"
  by (simp add: trim_by.simps)

lemma trim_by_suffix: "suffix (trim_by qs s) s"
proof (induction qs s rule: trim_by.induct)
  case (1 qs s)
  show ?case
  proof (cases "seq_len qs s = 0")
    case True
    then show ?thesis by (simp add: trim_by.simps)
  next
    case False
    then have "suffix (trim_by qs (drop (seq_len qs s) s)) (drop (seq_len qs s) s)"
      using "1.IH" by simp
    moreover have "suffix (drop (seq_len qs s) s) s" by (rule suffix_drop)
    ultimately show ?thesis
      using False by (simp add: trim_by.simps [of qs s] suffix_order.order_trans)
  qed
qed

lemma seq_len_zero_iff: "[] \<notin> set qs \<Longrightarrow> seq_len qs s = 0 \<longleftrightarrow> (\<forall>q \<in> set qs. \<not> prefix q s)"
  by (auto simp: seq_len_def find_None_iff find_Some_iff split: option.splits) (metis nth_mem)+

lemma space_seqs_nonempty: "[] \<notin> set space_seqs" "[] \<notin> set (map rev space_seqs)"
  by (auto simp: space_seqs_def)

lemma TrimSpace_idem [simp]: "TrimSpace (TrimSpace s) = TrimSpace s"
proof -
  define l where "l = trim_by space_seqs s"
  define r where "r = trim_by (map rev space_seqs) (rev l)"
  have tr: "TrimSpace s = rev r" by (simp add: TrimSpace_def l_def r_def)
  have "suffix r (rev l)" by (simp add: r_def trim_by_suffix)
  then have pre: "prefix (rev r) l" by (simp add: suffix_to_prefix)
  have "\<forall>q \<in> set space_seqs. \<not> prefix q l"
    using trim_by_stops [of space_seqs s] seq_len_zero_iff [OF space_seqs_nonempty(1)]
    by (simp add: l_def)
  then have "\<forall>q \<in> set space_seqs. \<not> prefix q (rev r)"
    using pre prefix_order.order_trans by blast
  then have "seq_len space_seqs (rev r) = 0"
    by (simp add: seq_len_zero_iff [OF space_seqs_nonempty(1)])
  then have "trim_by space_seqs (rev r) = rev r" by (rule trim_by_fixed)
  moreover have "trim_by (map rev space_seqs) r = r"
    by (rule trim_by_fixed) (simp only: r_def trim_by_stops)
  ultimately show ?thesis by (simp only: tr) (simp add: TrimSpace_def)
qed

text \<open>
  \<^verbatim>\<open>strings.ToLower\<close>: ASCII letters, and the two other runes whose lower case is an ASCII letter
  (U+0130 and the Kelvin sign U+212A). Further non-ASCII letters keep their bytes here; the
  gateway only compares the results with ASCII words, on which the two functions agree.
\<close>

definition upper_chars :: string where "upper_chars = ''ABCDEFGHIJKLMNOPQRSTUVWXYZ''"
definition lower_chars :: string where "lower_chars = ''abcdefghijklmnopqrstuvwxyz''"

definition lower_char :: "char \<Rightarrow> char" where
  "lower_char c = (case map_of (zip upper_chars lower_chars) c of None \<Rightarrow> c | Some d \<Rightarrow> d)"

fun ToLower :: "string \<Rightarrow> string" where
  "ToLower [] = []"
| "ToLower (c # s) =
     (if prefix [CHR 0xC4, CHR 0xB0] (c # s) then CHR ''i'' # ToLower (drop 1 s)
      else if prefix [CHR 0xE2, CHR 0x84, CHR 0xAA] (c # s) then CHR ''k'' # ToLower (drop 2 s)
      else lower_char c # ToLower s)"

definition newline :: char where "newline = CHR 0x0A"

text \<open>\<^verbatim>\<open>strings.Join\<close>, \<^verbatim>\<open>strings.Split\<close> at a single byte, and \<^verbatim>\<open>strings.FieldsFunc\<close>.\<close>

fun join :: "string \<Rightarrow> string list \<Rightarrow> string" where
  "join sep [] = []"
| "join sep [x] = x"
| "join sep (x # y # xs) = x @ sep @ join sep (y # xs)"

fun split_at :: "char \<Rightarrow> string \<Rightarrow> string list" where
  "split_at d [] = [[]]"
| "split_at d (c # s) =
     (if c = d then [] # split_at d s
      else (case split_at d s of [] \<Rightarrow> [[c]] | w # ws \<Rightarrow> (c # w) # ws))"

lemma split_at_nonempty [simp]: "split_at d s \<noteq> []"
  by (induction s) (auto split: list.splits)

lemma split_at_no_sep: "w \<in> set (split_at d s) \<Longrightarrow> d \<notin> set w"
  by (induction s arbitrary: w) (auto split: list.splits if_splits)

lemma split_at_plain: "d \<notin> set w \<Longrightarrow> split_at d w = [w]"
  by (induction w) auto

lemma split_at_append: "d \<notin> set w \<Longrightarrow> split_at d (w @ d # s) = w # split_at d s"
  by (induction w) auto

text \<open>Joining words that do not contain the separator and splitting again gives the words.\<close>

lemma split_at_join:
  "ws \<noteq> [] \<Longrightarrow> \<forall>w \<in> set ws. d \<notin> set w \<Longrightarrow> split_at d (join [d] ws) = ws"
  by (induction "[d]" ws rule: join.induct) (auto simp: split_at_plain split_at_append)

lemma join_split_at: "join [d] (split_at d s) = s"
proof (induction s)
  case (Cons c s)
  then show ?case
    by (cases "split_at d s" rule: list.exhaust; cases "tl (split_at d s)") auto
qed simp

fun fields_func :: "(char \<Rightarrow> bool) \<Rightarrow> string \<Rightarrow> string \<Rightarrow> string list" where
  "fields_func p cur [] = (if cur = [] then [] else [cur])"
| "fields_func p cur (c # s) =
     (if p c then (if cur = [] then [] else [cur]) @ fields_func p [] s
      else fields_func p (cur @ [c]) s)"

lemma fields_func_nonempty: "w \<in> set (fields_func p cur s) \<Longrightarrow> w \<noteq> []"
  by (induction p cur s rule: fields_func.induct) (auto split: if_splits)

text \<open>Slicing \<^verbatim>\<open>s[:k]\<close> and \<^verbatim>\<open>s[len(s)-k:]\<close> panics when \<open>k\<close> exceeds the length.\<close>

definition slice_to :: "string \<Rightarrow> nat \<Rightarrow> string option" where
  "slice_to s k = (if k \<le> length s then Some (take k s) else None)"

definition slice_last :: "string \<Rightarrow> nat \<Rightarrow> string option" where
  "slice_last s k = (if k \<le> length s then Some (drop (length s - k) s) else None)"

lemmas string_eval = trim_prefix_def trim_suffix_def lower_char_def upper_chars_def lower_chars_def

declare string_eval [go_eval]

subsection \<open>Linear searches\<close>

text \<open>The loop \<^verbatim>\<open>for i, e := range xs { if P(e) { idx = i; break } }\<close>.\<close>

fun find_index :: "('a \<Rightarrow> bool) \<Rightarrow> 'a list \<Rightarrow> nat option" where
  "find_index P [] = None"
| "find_index P (x # xs) = (if P x then Some 0 else map_option Suc (find_index P xs))"

lemma find_index_None: "find_index P xs = None \<longleftrightarrow> (\<forall>x \<in> set xs. \<not> P x)"
  by (induction xs) auto

lemma find_index_Some:
  "find_index P xs = Some i \<Longrightarrow> i < length xs \<and> P (xs ! i) \<and> (\<forall>j < i. \<not> P (xs ! j))"
proof (induction xs arbitrary: i)
  case (Cons x xs)
  then show ?case by (cases i) (auto split: if_splits simp: less_Suc_eq_0_disj)
qed simp

lemma find_index_exists: "x \<in> set xs \<Longrightarrow> P x \<Longrightarrow> \<exists>i. find_index P xs = Some i"
  by (induction xs) auto

text \<open>Replacing one element of a list: membership and filtering away from that element.\<close>

lemma set_update_subset: "i < length xs \<Longrightarrow> x \<in> set (xs[i := y]) \<Longrightarrow> x = y \<or> x \<in> set xs"
  using set_update_subset_insert by fastforce

lemma filter_update_out:
  "i < length xs \<Longrightarrow> \<not> P (xs ! i) \<Longrightarrow> \<not> P y \<Longrightarrow> filter P (xs[i := y]) = filter P xs"
proof (induction xs arbitrary: i)
  case (Cons x xs)
  then show ?case by (cases i) auto
qed simp

lemma map_update_same: "i < length xs \<Longrightarrow> f y = f (xs ! i) \<Longrightarrow> map f (xs[i := y]) = map f xs"
  by (simp add: map_update list_update_same_conv)

lemma distinct_map_update:
  "i < length xs \<Longrightarrow> f y = f (xs ! i) \<Longrightarrow> distinct (map f xs) \<Longrightarrow> distinct (map f (xs[i := y]))"
  by (simp add: map_update_same)

text \<open>
  The round-robin scan \<^verbatim>\<open>for i := 0; i < n; i++ { idx := (next + i) % n; if ok(xs[idx]) ... }\<close>:
  the first index from the cursor on, cyclically, whose element satisfies the test.
\<close>

definition rr_scan :: "('a \<Rightarrow> bool) \<Rightarrow> 'a list \<Rightarrow> nat \<Rightarrow> nat option" where
  "rr_scan P xs start =
     find (\<lambda>j. P (xs ! j)) (map (\<lambda>i. (start + i) mod length xs) [0..<length xs])"

lemma rr_scan_Some:
  "rr_scan P xs start = Some j \<Longrightarrow> j < length xs \<and> P (xs ! j)"
  by (auto simp: rr_scan_def find_Some_iff intro!: mod_less_divisor)

lemma rr_indices: "set (map (\<lambda>i. (start + i) mod n) [0..<n]) = {0..<n}"
proof (cases "n = 0")
  case False
  have "j \<in> (\<lambda>i. (start + i) mod n) ` {0..<n}" if "j < n" for j
  proof
    let ?i = "(j + n - start mod n) mod n"
    show "?i \<in> {0..<n}" using False by simp
    have sm: "start mod n < n" using False by simp
    have "(start + ?i) mod n = (start mod n + (j + n - start mod n)) mod n"
      by (simp add: mod_simps)
    also have "\<dots> = (j + n) mod n" using sm by simp
    finally show "j = (start + ?i) mod n" using that by simp
  qed
  then show ?thesis using False by auto
qed simp

lemma rr_scan_None: "rr_scan P xs start = None \<longleftrightarrow> (\<forall>x \<in> set xs. \<not> P x)"
proof -
  have "rr_scan P xs start = None \<longleftrightarrow> (\<forall>j \<in> {0..<length xs}. \<not> P (xs ! j))"
    using rr_indices [of start "length xs"] by (auto simp: rr_scan_def find_None_iff)
  then show ?thesis unfolding all_set_conv_all_nth by auto
qed

lemma rr_scan_first:
  assumes "rr_scan P xs start = Some j"
  obtains k where "k < length xs" "j = (start + k) mod length xs"
    "\<And>i. i < k \<Longrightarrow> \<not> P (xs ! ((start + i) mod length xs))"
  using assms by (auto simp: rr_scan_def find_Some_iff)

subsection \<open>Decimal numbers\<close>

text \<open>\<^verbatim>\<open>strconv.Itoa\<close> and \<^verbatim>\<open>strconv.Atoi\<close> (\<^verbatim>\<open>ParseInt(s, 10, 64)\<close>), errors as \<open>None\<close>.\<close>

definition digit_chars :: string where "digit_chars = ''0123456789''"

definition digit_char :: "nat \<Rightarrow> char" where "digit_char d = digit_chars ! d"

definition digit_val :: "char \<Rightarrow> nat option" where
  "digit_val c = find_index (\<lambda>d. d = c) digit_chars"

fun nat_string :: "nat \<Rightarrow> string" where
  "nat_string n = (if n < 10 then [digit_char n] else nat_string (n div 10) @ [digit_char (n mod 10)])"

declare nat_string.simps [simp del]

definition Itoa :: "int \<Rightarrow> string" where
  "Itoa i = (if i < 0 then CHR ''-'' # nat_string (nat (- i)) else nat_string (nat i))"

fun parse_digits :: "nat \<Rightarrow> string \<Rightarrow> nat option" where
  "parse_digits acc [] = Some acc"
| "parse_digits acc (c # s) =
     (case digit_val c of None \<Rightarrow> None | Some d \<Rightarrow> parse_digits (10 * acc + d) s)"

definition parse_nat :: "string \<Rightarrow> nat option" where
  "parse_nat s = (if s = [] then None else parse_digits 0 s)"

definition int64_range :: "int \<Rightarrow> bool" where
  "int64_range i \<longleftrightarrow> - (2 ^ 63) \<le> i \<and> i < 2 ^ 63"

definition Atoi :: "string \<Rightarrow> int option" where
  "Atoi s =
     (let v = (case s of
                 [] \<Rightarrow> None
               | c # r \<Rightarrow> if c = CHR ''-'' then map_option (\<lambda>n. - int n) (parse_nat r)
                        else if c = CHR ''+'' then map_option int (parse_nat r)
                        else map_option int (parse_nat s))
      in case v of Some i \<Rightarrow> if int64_range i then Some i else None | None \<Rightarrow> None)"

lemma digit_val_char: "d < 10 \<Longrightarrow> digit_val (digit_char d) = Some d"
proof -
  assume "d < 10"
  then have "d \<in> {0, 1, 2, 3, 4, 5, 6, 7, 8, 9}" by auto
  then show ?thesis by (auto simp: digit_val_def digit_char_def digit_chars_def)
qed

lemma nat_string_nonempty [simp]: "nat_string n \<noteq> []"
  by (subst nat_string.simps) simp

lemma parse_digits_append:
  "parse_digits acc (s @ t) = (case parse_digits acc s of None \<Rightarrow> None | Some v \<Rightarrow> parse_digits v t)"
  by (induction s arbitrary: acc) (auto split: option.splits)

lemma parse_digits_nat_string: "\<exists>k. parse_digits acc (nat_string n) = Some (acc * 10 ^ k + n) \<and> n < 10 ^ k"
proof (induction n arbitrary: acc rule: nat_string.induct)
  case (1 n)
  show ?case
  proof (cases "n < 10")
    case True
    then show ?thesis
      by (intro exI [of _ 1]) (simp add: nat_string.simps [of n] digit_val_char)
  next
    case False
    then obtain k where k: "parse_digits acc (nat_string (n div 10)) = Some (acc * 10 ^ k + n div 10)"
        "n div 10 < 10 ^ k"
      using "1.IH" by blast
    have "parse_digits acc (nat_string n) = Some (10 * (acc * 10 ^ k + n div 10) + n mod 10)"
      using False k by (simp add: nat_string.simps [of n] parse_digits_append digit_val_char)
    also have "10 * (acc * 10 ^ k + n div 10) + n mod 10 = acc * 10 ^ Suc k + n"
      by (simp add: algebra_simps)
    finally show ?thesis using k(2) by (intro exI [of _ "Suc k"]) (auto simp: div_less_iff_less_mult)
  qed
qed

lemma parse_nat_string [simp]: "parse_nat (nat_string n) = Some n"
  using parse_digits_nat_string [of 0 n] by (auto simp: parse_nat_def)

lemma nat_string_digits: "set (nat_string n) \<subseteq> set digit_chars"
proof (induction n rule: nat_string.induct)
  case (1 n)
  have "digit_char d \<in> set digit_chars" if "d < 10" for d
    using that by (simp add: digit_char_def digit_chars_def del: set_simps)
  with "1" show ?case by (subst nat_string.simps) auto
qed

lemma nat_string_first: "nat_string n = c # r \<Longrightarrow> c \<noteq> CHR ''-'' \<and> c \<noteq> CHR ''+''"
  using nat_string_digits [of n] by (auto simp: digit_chars_def)

theorem Atoi_Itoa: "int64_range i \<Longrightarrow> Atoi (Itoa i) = Some i"
proof (cases "i < 0")
  case True
  then show "int64_range i \<Longrightarrow> Atoi (Itoa i) = Some i" by (simp add: Atoi_def Itoa_def)
next
  case False
  obtain c r where cr: "nat_string (nat i) = c # r" by (cases "nat_string (nat i)") auto
  then have "c \<noteq> CHR ''-'' \<and> c \<noteq> CHR ''+''" by (rule nat_string_first)
  moreover have "parse_nat (c # r) = Some (nat i)" using cr parse_nat_string [of "nat i"] by simp
  ultimately show "int64_range i \<Longrightarrow> Atoi (Itoa i) = Some i"
    using False by (simp add: Atoi_def Itoa_def cr)
qed

end
