(* ===== verification/KeyStore.thy ===== *)
theory KeyStore
  imports Fox_Prelude
begin

text \<open>
  The Redis rows of the gateway keys, \<^verbatim>\<open>internal/db/db.go\<close>: the hash written by
  \<^verbatim>\<open>SaveGatewayKey\<close>, the counters of \<^verbatim>\<open>IncrementGatewayKeyTokens\<close> and
  \<^verbatim>\<open>IncrementGatewayKeyRequests\<close>, deletion, and the parser of \<^verbatim>\<open>LoadGatewayKeys\<close>.

  Redis and its client are outside the repository. A hash is a map from field to text, HSET
  overwrites the given fields, HINCRBY adds to a decimal field or fails and leaves it, DEL removes
  the hash; the client writes numbers in decimal and a boolean as the text \<open>eb\<close> gives it, which
  is a parameter. Calls that time out are not modelled: each write takes effect.
\<close>

record GatewayKeyDTO =
  d_Key :: string
  d_Name :: string
  d_Role :: string
  d_AllowedModels :: "string list"
  d_RPM :: int
  d_Burst :: int
  d_TokenQuota :: int
  d_TokensUsed :: int
  d_Requests :: int
  d_CreatedAt :: gotime
  d_Disabled :: bool

type_synonym redis_hash = "string \<rightharpoonup> string"
type_synonym key_rows = "string \<rightharpoonup> redis_hash"

definition field :: "redis_hash \<Rightarrow> string \<Rightarrow> string" where
  "field h f = (case h f of None \<Rightarrow> [] | Some v \<Rightarrow> v)"

definition row :: "string \<Rightarrow> key_rows \<Rightarrow> redis_hash" where
  "row k st = (case st k of None \<Rightarrow> Map.empty | Some h \<Rightarrow> h)"

definition unix :: "gotime \<Rightarrow> int" where
  "unix t = t div second"

definition dto_fields :: "(bool \<Rightarrow> string) \<Rightarrow> gotime \<Rightarrow> GatewayKeyDTO \<Rightarrow> (string \<times> string) list" where
  "dto_fields eb now d =
     [(''key'', d_Key d), (''name'', d_Name d), (''role'', d_Role d),
      (''allowed_models'', join '','' (d_AllowedModels d)), (''rpm'', Itoa (d_RPM d)),
      (''burst'', Itoa (d_Burst d)), (''token_quota'', Itoa (d_TokenQuota d)),
      (''tokens_used'', Itoa (d_TokensUsed d)), (''requests'', Itoa (d_Requests d)),
      (''created_at'', Itoa (unix (d_CreatedAt d))), (''disabled'', eb (d_Disabled d)),
      (''updated_at'', Itoa (unix now))]"

definition SaveGatewayKey :: "(bool \<Rightarrow> string) \<Rightarrow> gotime \<Rightarrow> GatewayKeyDTO \<Rightarrow> key_rows \<Rightarrow> key_rows" where
  "SaveGatewayKey eb now d st = st(d_Key d \<mapsto> row (d_Key d) st ++ map_of (dto_fields eb now d))"

definition DeleteGatewayKey :: "string \<Rightarrow> key_rows \<Rightarrow> key_rows" where
  "DeleteGatewayKey k st = st(k := None)"

definition hincrby :: "string \<Rightarrow> int \<Rightarrow> redis_hash \<Rightarrow> redis_hash" where
  "hincrby f amount h =
     (case h f of
        None \<Rightarrow> h(f \<mapsto> Itoa amount)
      | Some v \<Rightarrow>
          (case Atoi v of
             None \<Rightarrow> h
           | Some n \<Rightarrow> if int64_range (n + amount) then h(f \<mapsto> Itoa (n + amount)) else h))"

definition IncrementGatewayKeyTokens :: "string \<Rightarrow> int \<Rightarrow> key_rows \<Rightarrow> key_rows" where
  "IncrementGatewayKeyTokens k amount st = st(k \<mapsto> hincrby ''tokens_used'' amount (row k st))"

definition IncrementGatewayKeyRequests :: "string \<Rightarrow> key_rows \<Rightarrow> key_rows" where
  "IncrementGatewayKeyRequests k st = st(k \<mapsto> hincrby ''requests'' 1 (row k st))"

definition atoiSafe :: "string \<Rightarrow> int" where
  "atoiSafe s = (case Atoi s of None \<Rightarrow> 0 | Some n \<Rightarrow> n)"

definition parse_models :: "string \<Rightarrow> string list" where
  "parse_models am =
     (if am = [] then [] else filter (\<lambda>m. m \<noteq> []) (map TrimSpace (split_at (CHR '','') am)))"

definition parseGatewayKeyFromRedis :: "redis_hash \<Rightarrow> GatewayKeyDTO option" where
  "parseGatewayKeyFromRedis vals =
     (if field vals ''key'' = [] then None
      else let ts = atoiSafe (field vals ''created_at'')
           in Some \<lparr>d_Key = field vals ''key'', d_Name = field vals ''name'', d_Role = field vals ''role'',
                    d_AllowedModels = parse_models (field vals ''allowed_models''),
                    d_RPM = atoiSafe (field vals ''rpm''), d_Burst = atoiSafe (field vals ''burst''),
                    d_TokenQuota = atoiSafe (field vals ''token_quota''),
                    d_TokensUsed = atoiSafe (field vals ''tokens_used''),
                    d_Requests = atoiSafe (field vals ''requests''),
                    d_CreatedAt = (if ts > 0 then ts * second else zero_time),
                    d_Disabled = (field vals ''disabled'' = ''true'' \<or> field vals ''disabled'' = ''1'')\<rparr>)"

text \<open>
  \<^verbatim>\<open>LoadGatewayKeys\<close> over the row keys in the order SCAN yields them, or the error of the scan.
\<close>

definition LoadGatewayKeys :: "go_error + string list \<Rightarrow> key_rows \<Rightarrow> go_error + GatewayKeyDTO list" where
  "LoadGatewayKeys scan st =
     (case scan of
        Inl e \<Rightarrow> Inl e
      | Inr ks \<Rightarrow> Inr (List.map_filter (\<lambda>k. parseGatewayKeyFromRedis (row k st)) ks))"

subsection \<open>What the rows represent\<close>

definition bool_codec :: "(bool \<Rightarrow> string) \<Rightarrow> bool" where
  "bool_codec eb \<longleftrightarrow> eb True \<in> {''true'', ''1''} \<and> eb False \<notin> {''true'', ''1''}"

definition in_range :: "GatewayKeyDTO \<Rightarrow> bool" where
  "in_range d \<longleftrightarrow> int64_range (d_RPM d) \<and> int64_range (d_Burst d) \<and> int64_range (d_TokenQuota d)
     \<and> int64_range (d_TokensUsed d) \<and> int64_range (d_Requests d) \<and> int64_range (unix (d_CreatedAt d))"

definition row_of :: "(bool \<Rightarrow> string) \<Rightarrow> GatewayKeyDTO \<Rightarrow> redis_hash \<Rightarrow> bool" where
  "row_of eb d h \<longleftrightarrow> list_all (\<lambda>(f, v). f = ''updated_at'' \<or> h f = Some v) (dto_fields eb 0 d)"

text \<open>What a saved key looks like when it is read back.\<close>

definition reread :: "GatewayKeyDTO \<Rightarrow> GatewayKeyDTO" where
  "reread d = d\<lparr>d_AllowedModels := parse_models (join '','' (d_AllowedModels d)),
                d_CreatedAt := (if 0 < unix (d_CreatedAt d) then unix (d_CreatedAt d) * second else zero_time)\<rparr>"

lemma row_of_fields:
  "row_of eb d h \<longleftrightarrow>
     h ''key'' = Some (d_Key d) \<and> h ''name'' = Some (d_Name d) \<and> h ''role'' = Some (d_Role d)
     \<and> h ''allowed_models'' = Some (join '','' (d_AllowedModels d)) \<and> h ''rpm'' = Some (Itoa (d_RPM d))
     \<and> h ''burst'' = Some (Itoa (d_Burst d)) \<and> h ''token_quota'' = Some (Itoa (d_TokenQuota d))
     \<and> h ''tokens_used'' = Some (Itoa (d_TokensUsed d)) \<and> h ''requests'' = Some (Itoa (d_Requests d))
     \<and> h ''created_at'' = Some (Itoa (unix (d_CreatedAt d))) \<and> h ''disabled'' = Some (eb (d_Disabled d))"
  by (simp add: row_of_def dto_fields_def)

lemma parse_row:
  assumes "row_of eb d h" and "bool_codec eb" and "in_range d" and "d_Key d \<noteq> []"
  shows "parseGatewayKeyFromRedis h = Some (reread d)"
proof -
  have "(eb (d_Disabled d) = ''true'' \<or> eb (d_Disabled d) = ''1'') = d_Disabled d"
    using assms(2) by (cases "d_Disabled d") (auto simp: bool_codec_def)
  then show ?thesis
    using assms(1,3,4)
    by (simp add: parseGatewayKeyFromRedis_def field_def row_of_fields reread_def in_range_def atoiSafe_def
        Atoi_Itoa Let_def)
qed

lemma row_of_save: "row_of eb d (h ++ map_of (dto_fields eb now d))"
  by (simp add: row_of_fields dto_fields_def map_add_def)

lemma row_of_tokens:
  assumes "row_of eb d h" and "int64_range (d_TokensUsed d)" and "int64_range (d_TokensUsed d + n)"
  shows "row_of eb (d\<lparr>d_TokensUsed := d_TokensUsed d + n\<rparr>) (hincrby ''tokens_used'' n h)"
  using assms by (simp add: row_of_fields hincrby_def Atoi_Itoa)

lemma row_of_requests:
  assumes "row_of eb d h" and "int64_range (d_Requests d)" and "int64_range (d_Requests d + 1)"
  shows "row_of eb (d\<lparr>d_Requests := d_Requests d + 1\<rparr>) (hincrby ''requests'' 1 h)"
  using assms by (simp add: row_of_fields hincrby_def Atoi_Itoa)

text \<open>A whitelist survives the trip when its patterns are trimmed, non-empty and free of commas.\<close>

definition clean_models :: "string list \<Rightarrow> bool" where
  "clean_models ms \<longleftrightarrow> list_all (\<lambda>m. m \<noteq> [] \<and> TrimSpace m = m \<and> CHR '','' \<notin> set m) ms"

lemma join_empty: "join s ms = [] \<Longrightarrow> m \<in> set ms \<Longrightarrow> m = []"
  by (induction s ms arbitrary: m rule: join.induct) auto

lemma parse_models_join: "clean_models ms \<Longrightarrow> parse_models (join '','' ms) = ms"
proof (cases "ms = []")
  case False
  assume clean: "clean_models ms"
  then have c: "\<forall>m \<in> set ms. m \<noteq> [] \<and> TrimSpace m = m \<and> CHR '','' \<notin> set m"
    by (simp add: clean_models_def list_all_iff)
  then have "join '','' ms \<noteq> []" using False join_empty [of "'',''" ms "hd ms"] by auto
  moreover have "split_at (CHR '','') (join '','' ms) = ms" using c by (intro split_at_join [OF False]) auto
  moreover have "map TrimSpace ms = ms" using c by (simp add: map_idI)
  moreover have "filter (\<lambda>m. m \<noteq> []) ms = ms" using c by (simp add: filter_True)
  ultimately show ?thesis by (simp add: parse_models_def)
qed (simp add: parse_models_def)

end
