(* ===== verification/Auth.thy ===== *)
theory Auth
  imports KeyStore
begin

text \<open>
  Gateway keys and the two middlewares that gate the endpoints, \<^verbatim>\<open>internal/auth/auth.go\<close>, and the
  session store, \<^verbatim>\<open>internal/auth/session_store.go\<close>.

  The key map is an association list with distinct keys; its order stands for the order in which
  Go iterates over the map, which is arbitrary, so every statement about all managers covers every
  iteration order. An operation returns the manager and the rows of Redis after its writes
  (\<open>None\<close>: no store). Token counters are 64-bit integers that wrap.
\<close>

definition RoleInference :: string where "RoleInference = ''inference''"
definition RoleAdmin :: string where "RoleAdmin = ''admin''"

record GatewayKeyInfo =
  gk_Key :: string
  gk_KeyMasked :: string
  gk_Name :: string
  gk_Role :: string
  gk_AllowedModels :: "string list"
  gk_RPM :: int
  gk_Burst :: int
  gk_TokenQuota :: int
  gk_TokensUsed :: int
  gk_Requests :: int
  gk_CreatedAt :: gotime
  gk_Disabled :: bool

definition wrap64 :: "int \<Rightarrow> int" where
  "wrap64 i = sint (word_of_int i :: 64 word)"

lemma wrap64_id: "int64_range i \<Longrightarrow> wrap64 i = i"
  by (simp add: wrap64_def int64_range_def signed_of_int signed_take_bit_int_eq_self)

subsection \<open>Model patterns and masks\<close>

definition MatchModel :: "string \<Rightarrow> string \<Rightarrow> bool" where
  "MatchModel pattern model \<longleftrightarrow>
     (if pattern = model then True
      else if suffix ''*'' pattern then prefix (trim_suffix ''*'' pattern) model
      else if suffix ''/*'' pattern then prefix (trim_suffix ''/*'' pattern @ ''/'') model
      else False)"

definition IsModelAllowed :: "string list \<Rightarrow> string \<Rightarrow> bool" where
  "IsModelAllowed allowed model \<longleftrightarrow>
     allowed = [] \<or> list_ex (\<lambda>pattern. MatchModel pattern model) allowed"

definition MaskKey :: "string \<Rightarrow> string" where
  "MaskKey key =
     (if length key > 12 then take 8 key @ ''...'' @ drop (length key - 4) key else key)"

subsection \<open>The key manager\<close>

type_synonym Manager = "(string \<times> GatewayKeyInfo) list"

definition gatewayKeyDTOFromInfo :: "GatewayKeyInfo \<Rightarrow> GatewayKeyDTO" where
  "gatewayKeyDTOFromInfo i =
     \<lparr>d_Key = gk_Key i, d_Name = gk_Name i, d_Role = gk_Role i, d_AllowedModels = gk_AllowedModels i,
      d_RPM = gk_RPM i, d_Burst = gk_Burst i, d_TokenQuota = gk_TokenQuota i,
      d_TokensUsed = gk_TokensUsed i, d_Requests = gk_Requests i, d_CreatedAt = gk_CreatedAt i,
      d_Disabled = gk_Disabled i\<rparr>"

definition info_of_dto :: "GatewayKeyDTO \<Rightarrow> GatewayKeyInfo" where
  "info_of_dto d =
     \<lparr>gk_Key = d_Key d, gk_KeyMasked = MaskKey (d_Key d), gk_Name = d_Name d,
      gk_Role = (if d_Role d = [] then RoleInference else d_Role d),
      gk_AllowedModels = d_AllowedModels d, gk_RPM = d_RPM d, gk_Burst = d_Burst d,
      gk_TokenQuota = d_TokenQuota d, gk_TokensUsed = d_TokensUsed d, gk_Requests = d_Requests d,
      gk_CreatedAt = d_CreatedAt d, gk_Disabled = d_Disabled d\<rparr>"

definition loadGatewayKeys :: "go_error + GatewayKeyDTO list \<Rightarrow> go_error + GatewayKeyInfo list" where
  "loadGatewayKeys dtos = map_sum id (map info_of_dto) dtos"

text \<open>
  The store of a manager: the boolean encoding of the Redis client, the time of the write, and the
  rows; \<open>None\<close> when the gateway runs without Redis.
\<close>

type_synonym key_store = "((bool \<Rightarrow> string) \<times> gotime \<times> key_rows) option"

definition on_rows :: "((bool \<Rightarrow> string) \<Rightarrow> gotime \<Rightarrow> key_rows \<Rightarrow> key_rows) \<Rightarrow> key_store \<Rightarrow> key_store" where
  "on_rows f s = map_option (\<lambda>(eb, now, st). (eb, now, f eb now st)) s"

definition saveGatewayKey :: "GatewayKeyInfo \<Rightarrow> key_store \<Rightarrow> key_store" where
  "saveGatewayKey i = on_rows (\<lambda>eb now. SaveGatewayKey eb now (gatewayKeyDTOFromInfo i))"

definition Valid :: "Manager \<Rightarrow> string \<Rightarrow> bool" where
  "Valid am key \<longleftrightarrow> (case map_of am key of None \<Rightarrow> False | Some info \<Rightarrow> am \<noteq> [] \<and> \<not> gk_Disabled info)"

definition GetKey :: "Manager \<Rightarrow> string \<Rightarrow> GatewayKeyInfo option" where
  "GetKey am key = map_of am key"

definition LookupKey :: "Manager \<Rightarrow> string \<Rightarrow> (int \<times> int) option" where
  "LookupKey am key = map_option (\<lambda>i. (gk_RPM i, gk_Burst i)) (map_of am key)"

definition CountAdmins :: "Manager \<Rightarrow> nat" where
  "CountAdmins am = length (filter (\<lambda>(k, i). gk_Role i = RoleAdmin \<and> \<not> gk_Disabled i) am)"

definition AddWithRole ::
  "gotime \<Rightarrow> string \<Rightarrow> string \<Rightarrow> string \<Rightarrow> string list option \<Rightarrow> int \<Rightarrow> int \<Rightarrow> int
    \<Rightarrow> Manager \<Rightarrow> key_store \<Rightarrow> GatewayKeyInfo \<times> Manager \<times> key_store" where
  "AddWithRole now key name role allowed rpm burst quota am st =
     (let info = \<lparr>gk_Key = key, gk_KeyMasked = MaskKey key, gk_Name = name,
                  gk_Role = (if role = [] then RoleInference else role),
                  gk_AllowedModels = (case allowed of None \<Rightarrow> [] | Some ms \<Rightarrow> ms),
                  gk_RPM = rpm, gk_Burst = burst, gk_TokenQuota = quota, gk_TokensUsed = 0,
                  gk_Requests = 0, gk_CreatedAt = now, gk_Disabled = False\<rparr>
      in (info, AList.update key info am, saveGatewayKey info st))"

definition RemoveKey :: "string \<Rightarrow> Manager \<Rightarrow> key_store \<Rightarrow> Manager \<times> key_store" where
  "RemoveKey key am st = (AList.delete key am, on_rows (\<lambda>_ _. DeleteGatewayKey key) st)"

definition updated_info ::
  "string \<Rightarrow> string \<Rightarrow> string list option \<Rightarrow> int \<Rightarrow> int \<Rightarrow> int \<Rightarrow> bool option \<Rightarrow> GatewayKeyInfo \<Rightarrow> GatewayKeyInfo" where
  "updated_info name role allowed rpm burst quota disabled i =
     i\<lparr>gk_Name := (if name \<noteq> [] then name else gk_Name i),
       gk_Role := (if role = RoleAdmin \<or> role = RoleInference then role else gk_Role i),
       gk_AllowedModels := (case allowed of None \<Rightarrow> gk_AllowedModels i | Some ms \<Rightarrow> ms),
       gk_RPM := (if rpm \<ge> 0 then rpm else gk_RPM i),
       gk_Burst := (if burst \<ge> 0 then burst else gk_Burst i),
       gk_TokenQuota := (if quota \<ge> 0 then quota else gk_TokenQuota i),
       gk_Disabled := (case disabled of None \<Rightarrow> gk_Disabled i | Some d \<Rightarrow> d),
       gk_KeyMasked := MaskKey (gk_Key i)\<rparr>"

definition UpdateKey ::
  "string \<Rightarrow> string \<Rightarrow> string \<Rightarrow> string list option \<Rightarrow> int \<Rightarrow> int \<Rightarrow> int \<Rightarrow> bool option
    \<Rightarrow> Manager \<Rightarrow> key_store \<Rightarrow> bool \<times> Manager \<times> key_store" where
  "UpdateKey key name role allowed rpm burst quota disabled am st =
     (case map_of am key of
        None \<Rightarrow> (False, am, st)
      | Some i \<Rightarrow>
          (let i' = updated_info name role allowed rpm burst quota disabled i
           in (True, AList.update key i' am, saveGatewayKey i' st)))"

definition counted_info :: "int \<Rightarrow> GatewayKeyInfo \<Rightarrow> GatewayKeyInfo" where
  "counted_info amount i0 =
     (let i = i0\<lparr>gk_TokensUsed := wrap64 (gk_TokensUsed i0 + amount), gk_Requests := wrap64 (gk_Requests i0 + 1)\<rparr>
      in if gk_TokenQuota i > 0 \<and> gk_TokensUsed i \<ge> gk_TokenQuota i then i\<lparr>gk_Disabled := True\<rparr> else i)"

definition IncrementTokens :: "string \<Rightarrow> int \<Rightarrow> Manager \<Rightarrow> key_store \<Rightarrow> Manager \<times> key_store" where
  "IncrementTokens key amount am st =
     (case map_of am key of
        None \<Rightarrow> (am, st)
      | Some i0 \<Rightarrow>
          (let i = counted_info amount i0;
               st1 = on_rows (\<lambda>_ _. IncrementGatewayKeyTokens key amount) st;
               st2 = on_rows (\<lambda>_ _. IncrementGatewayKeyRequests key) st1
           in (AList.update key i am, if gk_Disabled i then saveGatewayKey i st2 else st2)))"

definition IncrementRequests :: "string \<Rightarrow> Manager \<Rightarrow> key_store \<Rightarrow> Manager \<times> key_store" where
  "IncrementRequests key am st =
     (case map_of am key of
        None \<Rightarrow> (am, st)
      | Some i \<Rightarrow>
          (AList.update key (i\<lparr>gk_Requests := wrap64 (gk_Requests i + 1)\<rparr>) am,
           on_rows (\<lambda>_ _. IncrementGatewayKeyRequests key) st))"

definition ResolveKey :: "Manager \<Rightarrow> string \<Rightarrow> string option" where
  "ResolveKey am s =
     (if map_of am s \<noteq> None then Some s
      else map_option fst (find (\<lambda>(k, i). gk_KeyMasked i = s \<or> MaskKey k = s) am))"

subsection \<open>Construction and bootstrap\<close>

record boot_env =
  GATEWAY_API_KEYS :: string
  GATEWAY_KEY_FILE :: string
  key_file_data :: "string option"
  gateway_key_txt :: "string option"
  GATEWAY_AUTH_DISABLE :: string
  GATEWAY_NO_AUTOBOOTSTRAP :: string
  random_key :: string
  boot_time :: gotime

definition split_keys :: "string \<Rightarrow> string \<Rightarrow> string list" where
  "split_keys seps s =
     filter (\<lambda>k. k \<noteq> []) (map TrimSpace (fields_func (\<lambda>c. c \<in> set seps) [] s))"

definition bootstrapKeys :: "boot_env \<Rightarrow> string list" where
  "bootstrapKeys env =
     (if GATEWAY_API_KEYS env \<noteq> [] then split_keys [CHR '','', CHR 0x0A] (GATEWAY_API_KEYS env) else [])
     @ (if GATEWAY_KEY_FILE env \<noteq> []
        then (case key_file_data env of
                Some s \<Rightarrow> split_keys [CHR '','', CHR 0x0A, CHR 0x0D] s | None \<Rightarrow> [])
        else (case gateway_key_txt env of
                Some s \<Rightarrow> split_keys [CHR '','', CHR 0x0A, CHR 0x0D] s | None \<Rightarrow> []))"

definition bootstrap_info :: "gotime \<Rightarrow> string \<Rightarrow> GatewayKeyInfo" where
  "bootstrap_info now k =
     \<lparr>gk_Key = k, gk_KeyMasked = MaskKey k, gk_Name = ''bootstrap'', gk_Role = RoleAdmin,
      gk_AllowedModels = [], gk_RPM = 0, gk_Burst = 0, gk_TokenQuota = 0, gk_TokensUsed = 0,
      gk_Requests = 0, gk_CreatedAt = now, gk_Disabled = False\<rparr>"

fun add_bootstrap :: "gotime \<Rightarrow> string list \<Rightarrow> Manager \<times> key_store \<Rightarrow> Manager \<times> key_store" where
  "add_bootstrap now [] (am, st) = (am, st)"
| "add_bootstrap now (k # ks) (am, st) =
     (if map_of am k = None
      then add_bootstrap now ks (AList.update k (bootstrap_info now k) am, saveGatewayKey (bootstrap_info now k) st)
      else add_bootstrap now ks (am, st))"

definition NewManager ::
  "boot_env \<Rightarrow> go_error + GatewayKeyDTO list \<Rightarrow> key_store \<Rightarrow> Manager \<times> key_store" where
  "NewManager env dtos st =
     (let am0 = (if st = None then []
                 else case loadGatewayKeys dtos of
                        Inl _ \<Rightarrow> []
                      | Inr infos \<Rightarrow> fold (\<lambda>i. AList.update (gk_Key i) i) infos []);
          (am1, st1) = (if am0 = [] then add_bootstrap (boot_time env) (bootstrapKeys env) (am0, st) else (am0, st))
      in if am1 \<noteq> [] then (am1, st1)
         else if GATEWAY_AUTH_DISABLE env = ''1'' then (am1, st1)
         else if GATEWAY_NO_AUTOBOOTSTRAP env = ''1'' then (am1, st1)
         else let k = ''gw-'' @ random_key env; i = bootstrap_info (boot_time env) k
              in (AList.update k i am1, saveGatewayKey i st1))"

subsection \<open>Sessions\<close>

record session =
  s_key :: string
  s_createdAt :: gotime
  s_lastSeen :: gotime

type_synonym SessionStore = "string \<rightharpoonup> session"

definition SessionTTL :: duration where "SessionTTL = 7 * 24 * hour"

definition CreateSession :: "go_error + string \<Rightarrow> gotime \<Rightarrow> string \<Rightarrow> SessionStore \<Rightarrow> (go_error + string) \<times> SessionStore" where
  "CreateSession rand now apiKey s =
     (case rand of
        Inl e \<Rightarrow> (Inl (''rand: '' @ e), s)
      | Inr token \<Rightarrow> (Inr token, s(token \<mapsto> \<lparr>s_key = apiKey, s_createdAt = now, s_lastSeen = now\<rparr>)))"

definition LookupSession :: "gotime \<Rightarrow> string \<Rightarrow> SessionStore \<Rightarrow> string \<times> SessionStore" where
  "LookupSession now token s =
     (if token = [] then ([], s)
      else case s token of
             None \<Rightarrow> ([], s)
           | Some sess \<Rightarrow>
               if now - s_createdAt sess > SessionTTL then ([], s(token := None))
               else (s_key sess, s(token \<mapsto> sess\<lparr>s_lastSeen := now\<rparr>)))"

definition RevokeSession :: "string \<Rightarrow> SessionStore \<Rightarrow> SessionStore" where
  "RevokeSession token s = (if token = [] then s else s(token := None))"

definition cleanup :: "gotime \<Rightarrow> SessionStore \<Rightarrow> SessionStore" where
  "cleanup now s =
     (\<lambda>token. case s token of
        None \<Rightarrow> None
      | Some sess \<Rightarrow> if now - s_createdAt sess > SessionTTL then None else Some sess)"

subsection \<open>The middlewares\<close>

text \<open>
  What the middleware reads of a request: the path, the \<^verbatim>\<open>Authorization\<close> and \<^verbatim>\<open>Accept\<close> headers
  (empty when absent) and the session cookie. The outcome of a middleware is to pass the request
  on, with the client key it put in the context if any, to answer with a status, or to redirect to
  the login page; \<open>clear\<close> says that the answer clears the session cookie.
\<close>

record request =
  rq_path :: string
  rq_auth :: string
  rq_accept :: string
  rq_cookie :: "string option"

datatype gate = Pass "string option" | Abort int bool | ToLogin bool

definition public_paths :: "string list" where
  "public_paths = [''/health'', ''/'', ''/dashboard'', ''/login'', ''/logout'', ''/metrics'']"

text \<open>
  The key a request presents. The session lookup, when configured, changes the session store;
  without one the cookie is taken as the key.
\<close>

definition extract_key :: "(string \<Rightarrow> 's \<Rightarrow> string \<times> 's) option \<Rightarrow> request \<Rightarrow> 's \<Rightarrow> string \<times> 's" where
  "extract_key sl rq s =
     (if prefix ''Bearer '' (rq_auth rq) then (trim_prefix ''Bearer '' (rq_auth rq), s)
      else case rq_cookie rq of
             Some ck \<Rightarrow> if ck \<noteq> [] then (case sl of Some f \<Rightarrow> f ck s | None \<Rightarrow> (ck, s)) else ([], s)
           | None \<Rightarrow> ([], s))"

definition AuthMiddleware ::
  "bool \<Rightarrow> (string \<Rightarrow> 's \<Rightarrow> string \<times> 's) option \<Rightarrow> Manager \<Rightarrow> request \<Rightarrow> 's \<Rightarrow> gate \<times> 's" where
  "AuthMiddleware authDisabled sl am rq s =
     (if rq_path rq \<in> set public_paths then (Pass None, s)
      else if authDisabled then (Pass None, s)
      else if am = [] then (Abort 503 False, s)
      else let (key, s1) = extract_key sl rq s
           in if key = []
              then (if contains ''text/html'' (rq_accept rq) \<and> \<not> prefix ''/api/'' (rq_path rq)
                    then (ToLogin False, s1) else (Abort 401 False, s1))
              else if \<not> Valid am key
              then (if rq_cookie rq \<noteq> None \<and> contains ''text/html'' (rq_accept rq) then (ToLogin True, s1)
                    else (Abort 401 (rq_cookie rq \<noteq> None), s1))
              else (Pass (Some key), s1))"

definition AdminMiddleware :: "bool \<Rightarrow> Manager \<Rightarrow> string option \<Rightarrow> gate" where
  "AdminMiddleware authDisabled am client_key =
     (if authDisabled then Pass client_key
      else case client_key of
             None \<Rightarrow> Abort 401 False
           | Some fullKey \<Rightarrow>
               (case GetKey am fullKey of
                  None \<Rightarrow> Abort 401 False
                | Some info \<Rightarrow> if gk_Role info \<noteq> RoleAdmin then Abort 403 False else Pass client_key))"

text \<open>The chain mounted on the administrative endpoints (\<^verbatim>\<open>main.go\<close>).\<close>

definition admin_chain ::
  "bool \<Rightarrow> (string \<Rightarrow> 's \<Rightarrow> string \<times> 's) option \<Rightarrow> Manager \<Rightarrow> request \<Rightarrow> 's \<Rightarrow> gate \<times> 's" where
  "admin_chain authDisabled sl am rq s =
     (case AuthMiddleware authDisabled sl am rq s of
        (Pass ck, s1) \<Rightarrow> (AdminMiddleware authDisabled am ck, s1)
      | r \<Rightarrow> r)"

subsection \<open>What the middlewares guarantee\<close>

lemma Valid_iff: "Valid am key \<longleftrightarrow> (\<exists>info. map_of am key = Some info \<and> \<not> gk_Disabled info)"
  by (auto simp: Valid_def split: option.splits)

text \<open>A request presents a key by its bearer token or by a cookie that the session lookup resolves.\<close>

definition presents :: "(string \<Rightarrow> 's \<Rightarrow> string \<times> 's) option \<Rightarrow> request \<Rightarrow> 's \<Rightarrow> string \<Rightarrow> bool" where
  "presents sl rq s key \<longleftrightarrow>
     rq_auth rq = ''Bearer '' @ key
     \<or> (\<not> prefix ''Bearer '' (rq_auth rq)
        \<and> (\<exists>ck. rq_cookie rq = Some ck \<and> (case sl of Some f \<Rightarrow> fst (f ck s) = key | None \<Rightarrow> ck = key)))"

lemma extract_key_presents: "fst (extract_key sl rq s) = key \<Longrightarrow> key \<noteq> [] \<Longrightarrow> presents sl rq s key"
proof (cases "prefix ''Bearer '' (rq_auth rq)")
  case True
  assume "fst (extract_key sl rq s) = key"
  with True have "key = trim_prefix ''Bearer '' (rq_auth rq)" by (simp add: extract_key_def)
  with prefix_append_trim [OF True] show ?thesis by (simp add: presents_def del: append_Cons append.simps)
next
  case False
  assume "fst (extract_key sl rq s) = key" "key \<noteq> []"
  with False show ?thesis
    by (auto simp: extract_key_def presents_def split: option.splits if_splits)
qed

lemma AuthMiddleware_pass:
  "fst (AuthMiddleware d sl am rq s) = Pass ck \<longleftrightarrow>
     (if rq_path rq \<in> set public_paths \<or> d then ck = None
      else am \<noteq> [] \<and> (\<exists>key. ck = Some key \<and> key \<noteq> [] \<and> fst (extract_key sl rq s) = key \<and> Valid am key))"
  by (auto simp: AuthMiddleware_def Let_def split_beta)

text \<open>
  C19: The authentication gate is fail-closed. Outside the six public paths, and unless the operator
  disabled authentication, a request is passed on only with a key that it presented itself (as a
  bearer token, or through a cookie resolved by the session store), that is registered and that is
  not disabled; with no key registered every such request is answered 503.
\<close>

theorem auth_gate_sound:
  assumes "rq_path rq \<notin> set public_paths"
  shows "case fst (AuthMiddleware False sl am rq s) of
           Pass ck \<Rightarrow> \<exists>key info. ck = Some key \<and> presents sl rq s key
                        \<and> map_of am key = Some info \<and> \<not> gk_Disabled info
         | Abort st _ \<Rightarrow> st = (if am = [] then 503 else 401)
         | ToLogin _ \<Rightarrow> am \<noteq> [] \<and> contains ''text/html'' (rq_accept rq)"
proof (cases "fst (AuthMiddleware False sl am rq s)")
  case (Pass ck)
  then have "\<exists>key. ck = Some key \<and> key \<noteq> [] \<and> fst (extract_key sl rq s) = key \<and> Valid am key"
    using assms AuthMiddleware_pass [of False sl am rq s ck] by simp
  then show ?thesis using Pass extract_key_presents [of sl rq s] by (auto simp: Valid_iff)
next
  case (Abort st b)
  then show ?thesis using assms by (auto simp: AuthMiddleware_def Let_def split_beta split: if_splits)
next
  case (ToLogin b)
  then show ?thesis using assms by (auto simp: AuthMiddleware_def Let_def split_beta split: if_splits)
qed

definition ex_info :: "string \<Rightarrow> string \<Rightarrow> GatewayKeyInfo" where
  "ex_info k role = (bootstrap_info 0 k)\<lparr>gk_Role := role\<rparr>"

definition ex_request :: request where
  "ex_request = \<lparr>rq_path = ''/api/keys'', rq_auth = ''Bearer gw-1'', rq_accept = [], rq_cookie = None\<rparr>"

theorem auth_gate_sound_witness:
  "case fst (AuthMiddleware False (Some (LookupSession 0)) [(''gw-1'', ex_info ''gw-1'' ''inference'')] ex_request Map.empty) of
     Pass ck \<Rightarrow> \<exists>key info. ck = Some key \<and> presents (Some (LookupSession 0)) ex_request Map.empty key
                  \<and> map_of [(''gw-1'', ex_info ''gw-1'' ''inference'')] key = Some info \<and> \<not> gk_Disabled info
   | Abort st _ \<Rightarrow> st = (if [(''gw-1'', ex_info ''gw-1'' ''inference'')] = [] then 503 else 401)
   | ToLogin _ \<Rightarrow> [(''gw-1'', ex_info ''gw-1'' ''inference'')] \<noteq> [] \<and> contains ''text/html'' (rq_accept ex_request)"
  by (rule auth_gate_sound) (simp add: ex_request_def public_paths_def)

lemma admin_chain_pass:
  assumes "fst (admin_chain False sl am rq s) = Pass ck"
  shows "\<exists>key info. ck = Some key \<and> presents sl rq s key \<and> map_of am key = Some info
           \<and> gk_Role info = RoleAdmin \<and> \<not> gk_Disabled info"
proof -
  from assms obtain ck' where auth: "fst (AuthMiddleware False sl am rq s) = Pass ck'"
      and adm: "AdminMiddleware False am ck' = Pass ck"
    by (auto simp: admin_chain_def split: prod.splits gate.splits)
  from adm obtain key info where k: "ck' = Some key" "ck = Some key" "map_of am key = Some info" "gk_Role info = RoleAdmin"
    by (auto simp: AdminMiddleware_def GetKey_def split: option.splits if_splits)
  with auth have "key \<noteq> []" "fst (extract_key sl rq s) = key" "Valid am key"
    by (auto simp: AuthMiddleware_pass split: if_splits)
  with k show ?thesis using extract_key_presents [of sl rq s key] by (auto simp: Valid_iff)
qed

text \<open>
  An administrative endpoint is reached only with an enabled administrator key: when the chain
  of both middlewares passes a request on, on whatever path, the key is registered, not disabled
  and has the administrator role.
\<close>

theorem admin_gate_sound:
  assumes "fst (admin_chain False sl am rq s) = Pass ck"
  shows "\<exists>key info. ck = Some key \<and> presents sl rq s key \<and> map_of am key = Some info
           \<and> gk_Role info = RoleAdmin \<and> \<not> gk_Disabled info"
  using assms by (rule admin_chain_pass)

theorem admin_gate_sound_witness:
  "\<exists>key info. Some ''gw-1'' = Some key \<and> presents (Some (LookupSession 0)) ex_request Map.empty key
     \<and> map_of [(''gw-1'', ex_info ''gw-1'' ''admin'')] key = Some info
     \<and> gk_Role info = RoleAdmin \<and> \<not> gk_Disabled info"
  by (rule admin_gate_sound)
     (simp add: admin_chain_def AuthMiddleware_def ex_request_def public_paths_def extract_key_def trim_prefix_def
       Valid_def ex_info_def bootstrap_info_def AdminMiddleware_def GetKey_def RoleAdmin_def)

subsection \<open>Quota\<close>

definition count_all :: "string \<Rightarrow> int list \<Rightarrow> Manager \<times> key_store \<Rightarrow> Manager \<times> key_store" where
  "count_all key amounts ms = fold (\<lambda>n (am, st). IncrementTokens key n am st) amounts ms"

lemma IncrementTokens_map:
  "map_of am key = Some i \<Longrightarrow> map_of (fst (IncrementTokens key n am st)) = (map_of am)(key \<mapsto> counted_info n i)"
  by (simp add: IncrementTokens_def Let_def update_conv')

lemma count_all_map:
  assumes "map_of am key = Some i"
  shows "map_of (fst (count_all key ns (am, st))) key = Some (fold counted_info ns i)"
  using assms
proof (induction ns arbitrary: am st i)
  case (Cons n ns)
  let ?r = "IncrementTokens key n am st"
  have "map_of (fst ?r) key = Some (counted_info n i)" using Cons.prems by (simp add: IncrementTokens_map)
  from Cons.IH [OF this, of "snd ?r"] show ?case by (simp add: count_all_def)
qed (simp add: count_all_def)

lemma counted_disabled: "gk_Disabled i \<Longrightarrow> gk_Disabled (counted_info n i)"
  by (simp add: counted_info_def Let_def)

lemma fold_counted_disabled: "gk_Disabled i \<Longrightarrow> gk_Disabled (fold counted_info ns i)"
  by (induction ns arbitrary: i) (auto simp: counted_disabled)

lemma fold_counted:
  assumes "0 < gk_TokenQuota i" and "\<not> gk_Disabled i" and "0 \<le> gk_TokensUsed i" and "\<forall>n \<in> set ns. 0 \<le> n"
    and "gk_TokensUsed i + sum_list ns < 2 ^ 63" and "gk_TokensUsed i < gk_TokenQuota i"
  shows "gk_Disabled (fold counted_info ns i) \<longleftrightarrow> gk_TokensUsed i + sum_list ns \<ge> gk_TokenQuota i"
  using assms
proof (induction ns arbitrary: i)
  case (Cons n ns)
  let ?j = "counted_info n i"
  have nn: "0 \<le> n" "0 \<le> sum_list ns" using Cons.prems(4) by (auto intro: sum_list_nonneg)
  then have w: "wrap64 (gk_TokensUsed i + n) = gk_TokensUsed i + n"
    using Cons.prems(3,5) by (intro wrap64_id) (simp add: int64_range_def)
  have q: "gk_TokenQuota ?j = gk_TokenQuota i" and u: "gk_TokensUsed ?j = gk_TokensUsed i + n"
    and d: "gk_Disabled ?j \<longleftrightarrow> gk_TokensUsed i + n \<ge> gk_TokenQuota i"
    using Cons.prems(1,2) by (auto simp: counted_info_def Let_def w)
  show ?case
  proof (cases "gk_TokensUsed i + n \<ge> gk_TokenQuota i")
    case True
    then show ?thesis using d fold_counted_disabled [of ?j ns] nn by simp
  next
    case False
    then show ?thesis using Cons.IH [of ?j] Cons.prems q u d nn by (simp add: add.assoc)
  qed
qed simp

text \<open>
  C20: The token quota is enforced exactly. A key with a positive quota that is enabled and below
  its quota is rejected after a series of accounted requests if and only if the tokens consumed
  have reached the quota, for any split of the consumption over requests, as long as the 64-bit
  counter does not overflow.
\<close>

theorem quota_enforced:
  assumes "map_of am key = Some i" and "0 < gk_TokenQuota i" and "\<not> gk_Disabled i"
    and "0 \<le> gk_TokensUsed i" and "gk_TokensUsed i < gk_TokenQuota i"
    and "\<forall>n \<in> set ns. 0 \<le> n" and "gk_TokensUsed i + sum_list ns < 2 ^ 63"
  shows "Valid (fst (count_all key ns (am, st))) key \<longleftrightarrow> gk_TokensUsed i + sum_list ns < gk_TokenQuota i"
  using count_all_map [OF assms(1), of ns st] fold_counted [of i ns] assms by (auto simp: Valid_iff)

theorem quota_enforced_witness:
  "Valid (fst (count_all ''k'' [30, 40, 50] ([(''k'', (ex_info ''k'' ''inference'')\<lparr>gk_TokenQuota := 100\<rparr>)], None))) ''k''
     \<longleftrightarrow> gk_TokensUsed ((ex_info ''k'' ''inference'')\<lparr>gk_TokenQuota := 100\<rparr>) + sum_list [30, 40, 50]
          < gk_TokenQuota ((ex_info ''k'' ''inference'')\<lparr>gk_TokenQuota := 100\<rparr>)"
  by (rule quota_enforced) (simp_all add: ex_info_def bootstrap_info_def)

subsection \<open>Memory and Redis agree\<close>

datatype key_op =
    KAdd gotime string string string "string list option" int int int
  | KRemove string
  | KUpdate string string string "string list option" int int int "bool option"
  | KTokens string int
  | KRequest string

fun key_apply :: "key_op \<Rightarrow> Manager \<times> key_store \<Rightarrow> Manager \<times> key_store" where
  "key_apply (KAdd now k nm role al rpm burst q) (am, st) = snd (AddWithRole now k nm role al rpm burst q am st)"
| "key_apply (KRemove k) (am, st) = RemoveKey k am st"
| "key_apply (KUpdate k nm role al rpm burst q d) (am, st) = snd (UpdateKey k nm role al rpm burst q d am st)"
| "key_apply (KTokens k n) (am, st) = IncrementTokens k n am st"
| "key_apply (KRequest k) (am, st) = IncrementRequests k am st"

text \<open>Values of 64-bit integer arguments, and counters that do not overflow.\<close>

fun op_ok :: "Manager \<Rightarrow> key_op \<Rightarrow> bool" where
  "op_ok am (KAdd now k nm role al rpm burst q) \<longleftrightarrow>
     k \<noteq> [] \<and> int64_range rpm \<and> int64_range burst \<and> int64_range q \<and> int64_range (unix now)"
| "op_ok am (KRemove k) \<longleftrightarrow> True"
| "op_ok am (KUpdate k nm role al rpm burst q d) \<longleftrightarrow> int64_range rpm \<and> int64_range burst \<and> int64_range q"
| "op_ok am (KTokens k n) \<longleftrightarrow>
     (case map_of am k of None \<Rightarrow> True
      | Some i \<Rightarrow> int64_range (gk_TokensUsed i + n) \<and> int64_range (gk_Requests i + 1))"
| "op_ok am (KRequest k) \<longleftrightarrow>
     (case map_of am k of None \<Rightarrow> True | Some i \<Rightarrow> int64_range (gk_Requests i + 1))"

fun run_ok :: "key_op list \<Rightarrow> Manager \<times> key_store \<Rightarrow> bool" where
  "run_ok [] ms \<longleftrightarrow> True"
| "run_ok (p # ps) ms \<longleftrightarrow> op_ok (fst ms) p \<and> run_ok ps (key_apply p ms)"

definition mirror_at :: "(bool \<Rightarrow> string) \<Rightarrow> string \<Rightarrow> GatewayKeyInfo option \<Rightarrow> redis_hash option \<Rightarrow> bool" where
  "mirror_at eb k i h \<longleftrightarrow>
     (case i of
        None \<Rightarrow> h = None
      | Some i' \<Rightarrow> k \<noteq> [] \<and> gk_Key i' = k \<and> gk_KeyMasked i' = MaskKey k \<and> in_range (gatewayKeyDTOFromInfo i')
          \<and> (\<exists>h'. h = Some h' \<and> row_of eb (gatewayKeyDTOFromInfo i') h'))"

definition mirror :: "(bool \<Rightarrow> string) \<Rightarrow> Manager \<times> key_store \<Rightarrow> bool" where
  "mirror eb ms \<longleftrightarrow> (\<exists>t rows. snd ms = Some (eb, t, rows) \<and> (\<forall>k. mirror_at eb k (map_of (fst ms) k) (rows k)))"

lemmas dto_simps = gatewayKeyDTOFromInfo_def in_range_def

lemma mirror_save:
  assumes "gk_Key i \<noteq> []" "gk_KeyMasked i = MaskKey (gk_Key i)" "in_range (gatewayKeyDTOFromInfo i)"
  shows "mirror_at eb (gk_Key i) (Some i) (SaveGatewayKey eb t (gatewayKeyDTOFromInfo i) rows (gk_Key i))"
  using assms row_of_save [of eb "gatewayKeyDTOFromInfo i"]
  by (simp add: mirror_at_def SaveGatewayKey_def) (simp add: gatewayKeyDTOFromInfo_def)

lemma save_other: "k \<noteq> gk_Key i \<Longrightarrow> SaveGatewayKey eb t (gatewayKeyDTOFromInfo i) rows k = rows k"
  by (simp add: SaveGatewayKey_def gatewayKeyDTOFromInfo_def)

lemma mirror_put:
  assumes "mirror eb (am, Some (eb, t, rows))" and "gk_Key i = k" "k \<noteq> []" "gk_KeyMasked i = MaskKey k"
    and "in_range (gatewayKeyDTOFromInfo i)" and "\<forall>k'. k' \<noteq> k \<longrightarrow> rows' k' = rows k'"
  shows "mirror eb (AList.update k i am, saveGatewayKey i (Some (eb, t, rows')))"
  using assms mirror_save [of i eb t rows'] save_other [of _ i eb t rows']
  by (auto simp: mirror_def saveGatewayKey_def on_rows_def update_conv')

lemma mirror_row:
  assumes "mirror eb (am, Some (eb, t, rows))" and "map_of am k = Some i"
  obtains h where "rows k = Some h" "row_of eb (gatewayKeyDTOFromInfo i) h" "k \<noteq> []" "gk_Key i = k"
    "gk_KeyMasked i = MaskKey k" "in_range (gatewayKeyDTOFromInfo i)"
proof -
  have "mirror_at eb k (map_of am k) (rows k)" using assms(1) by (simp add: mirror_def)
  then show thesis using assms(2) that by (auto simp: mirror_at_def)
qed

lemma mirror_step:
  assumes "mirror eb (am, Some (eb, t, rows))" and "map_of am k = Some i"
    and "gk_Key i' = k" "gk_KeyMasked i' = MaskKey k" "in_range (gatewayKeyDTOFromInfo i')"
    and "rows' k = Some h'" "row_of eb (gatewayKeyDTOFromInfo i') h'" and "\<forall>k'. k' \<noteq> k \<longrightarrow> rows' k' = rows k'"
  shows "mirror eb (AList.update k i' am, Some (eb, t, rows'))"
proof -
  have "k \<noteq> []" by (rule mirror_row [OF assms(1,2)])
  then have "mirror_at eb k (Some i') (rows' k)" using assms(3-7) by (simp add: mirror_at_def)
  then show ?thesis using assms(1,8) by (auto simp: mirror_def update_conv')
qed

lemma counted_in_range:
  assumes "in_range (gatewayKeyDTOFromInfo i)" and "int64_range (gk_TokensUsed i + n)" and "int64_range (gk_Requests i + 1)"
  shows "in_range (gatewayKeyDTOFromInfo (counted_info n i))"
  using assms by (simp add: counted_info_def dto_simps wrap64_id Let_def)

lemma counted_keys: "gk_Key (counted_info n i) = gk_Key i" "gk_KeyMasked (counted_info n i) = gk_KeyMasked i"
  by (simp_all add: counted_info_def Let_def)

lemma counted_row:
  assumes "row_of eb (gatewayKeyDTOFromInfo i) h" and "in_range (gatewayKeyDTOFromInfo i)"
    and "int64_range (gk_TokensUsed i + n)" and "int64_range (gk_Requests i + 1)"
    and "gk_Disabled (counted_info n i) = gk_Disabled i"
  shows "row_of eb (gatewayKeyDTOFromInfo (counted_info n i)) (hincrby ''requests'' 1 (hincrby ''tokens_used'' n h))"
proof -
  let ?d = "gatewayKeyDTOFromInfo i"
  have "row_of eb (?d\<lparr>d_TokensUsed := d_TokensUsed ?d + n\<rparr>) (hincrby ''tokens_used'' n h)"
    using assms(1-3) by (intro row_of_tokens) (simp_all add: dto_simps)
  from row_of_requests [OF this]
  have "row_of eb (?d\<lparr>d_TokensUsed := d_TokensUsed ?d + n, d_Requests := d_Requests ?d + 1\<rparr>)
      (hincrby ''requests'' 1 (hincrby ''tokens_used'' n h))"
    using assms(2,4) by (simp add: dto_simps)
  moreover have "?d\<lparr>d_TokensUsed := d_TokensUsed ?d + n, d_Requests := d_Requests ?d + 1\<rparr> = gatewayKeyDTOFromInfo (counted_info n i)"
    using assms(3-5) by (auto simp: counted_info_def dto_simps wrap64_id Let_def split: if_splits)
  ultimately show ?thesis by simp
qed

lemma mirror_tokens:
  assumes m: "mirror eb (am, Some (eb, t, rows))" and ok: "op_ok am (KTokens k n)"
  shows "mirror eb (IncrementTokens k n am (Some (eb, t, rows)))"
proof (cases "map_of am k")
  case None
  then show ?thesis using m by (simp add: IncrementTokens_def)
next
  case (Some i)
  from mirror_row [OF m Some] obtain h where h: "rows k = Some h" "row_of eb (gatewayKeyDTOFromInfo i) h"
    "k \<noteq> []" "gk_Key i = k" "gk_KeyMasked i = MaskKey k" "in_range (gatewayKeyDTOFromInfo i)" .
  have rng: "int64_range (gk_TokensUsed i + n)" "int64_range (gk_Requests i + 1)" using ok Some by auto
  let ?i = "counted_info n i"
  let ?rows = "IncrementGatewayKeyRequests k (IncrementGatewayKeyTokens k n rows)"
  have inr: "in_range (gatewayKeyDTOFromInfo ?i)" by (rule counted_in_range [OF h(6) rng])
  have other: "\<forall>k'. k' \<noteq> k \<longrightarrow> ?rows k' = rows k'"
    by (simp add: IncrementGatewayKeyRequests_def IncrementGatewayKeyTokens_def)
  have res: "IncrementTokens k n am (Some (eb, t, rows)) =
      (AList.update k ?i am, if gk_Disabled ?i then saveGatewayKey ?i (Some (eb, t, ?rows)) else Some (eb, t, ?rows))"
    using Some by (simp add: IncrementTokens_def Let_def on_rows_def)
  show ?thesis
  proof (cases "gk_Disabled ?i")
    case True
    have "mirror eb (AList.update k ?i am, saveGatewayKey ?i (Some (eb, t, ?rows)))"
      using h by (intro mirror_put [OF m _ _ _ inr other]) (simp_all add: counted_keys)
    with True show ?thesis by (simp add: res)
  next
    case False
    then have "gk_Disabled ?i = gk_Disabled i" using counted_disabled by blast
    then have "row_of eb (gatewayKeyDTOFromInfo ?i) (hincrby ''requests'' 1 (hincrby ''tokens_used'' n h))"
      by (rule counted_row [OF h(2,6) rng])
    moreover have "?rows k = Some (hincrby ''requests'' 1 (hincrby ''tokens_used'' n h))"
      using h(1) by (simp add: IncrementGatewayKeyRequests_def IncrementGatewayKeyTokens_def row_def)
    ultimately have "mirror eb (AList.update k ?i am, Some (eb, t, ?rows))"
      using h by (intro mirror_step [OF m Some _ _ inr _ _ other]) (simp_all add: counted_keys)
    with False show ?thesis by (simp add: res)
  qed
qed

lemma mirror_request:
  assumes m: "mirror eb (am, Some (eb, t, rows))" and ok: "op_ok am (KRequest k)"
  shows "mirror eb (IncrementRequests k am (Some (eb, t, rows)))"
proof (cases "map_of am k")
  case None
  then show ?thesis using m by (simp add: IncrementRequests_def)
next
  case (Some i)
  from mirror_row [OF m Some] obtain h where h: "rows k = Some h" "row_of eb (gatewayKeyDTOFromInfo i) h"
    "k \<noteq> []" "gk_Key i = k" "gk_KeyMasked i = MaskKey k" "in_range (gatewayKeyDTOFromInfo i)" .
  have rng: "int64_range (gk_Requests i + 1)" using ok Some by auto
  let ?i = "i\<lparr>gk_Requests := wrap64 (gk_Requests i + 1)\<rparr>"
  have "row_of eb ((gatewayKeyDTOFromInfo i)\<lparr>d_Requests := d_Requests (gatewayKeyDTOFromInfo i) + 1\<rparr>) (hincrby ''requests'' 1 h)"
    using h(6) rng by (intro row_of_requests [OF h(2)]) (simp_all add: dto_simps)
  then have r: "row_of eb (gatewayKeyDTOFromInfo ?i) (hincrby ''requests'' 1 h)"
    using rng by (simp add: dto_simps wrap64_id)
  have "mirror eb (AList.update k ?i am, Some (eb, t, IncrementGatewayKeyRequests k rows))"
    using h rng by (intro mirror_step [OF m Some _ _ _ _ r])
      (simp_all add: IncrementGatewayKeyRequests_def row_def dto_simps wrap64_id)
  with Some show ?thesis by (simp add: IncrementRequests_def on_rows_def)
qed

lemma mirror_apply:
  assumes m: "mirror eb (am, Some (eb, t, rows))" and ok: "op_ok am p"
  shows "mirror eb (key_apply p (am, Some (eb, t, rows)))"
proof (cases p)
  case (KAdd now k nm role al rpm burst q)
  then show ?thesis
    using ok m by (auto simp: AddWithRole_def Let_def dto_simps int64_range_def intro!: mirror_put)
next
  case (KRemove k)
  have "mirror_at eb k None None" by (simp add: mirror_at_def)
  then show ?thesis
    using m KRemove by (auto simp: mirror_def RemoveKey_def on_rows_def delete_conv' DeleteGatewayKey_def)
next
  case (KUpdate k nm role al rpm burst q d)
  show ?thesis
  proof (cases "map_of am k")
    case None
    then show ?thesis using m KUpdate by (simp add: UpdateKey_def)
  next
    case (Some i)
    from mirror_row [OF m Some] have h: "k \<noteq> []" "gk_Key i = k" "gk_KeyMasked i = MaskKey k" "in_range (gatewayKeyDTOFromInfo i)"
      by blast+
    have "mirror eb (AList.update k (updated_info nm role al rpm burst q d i) am,
        saveGatewayKey (updated_info nm role al rpm burst q d i) (Some (eb, t, rows)))"
      using h ok KUpdate by (intro mirror_put [OF m]) (auto simp: updated_info_def dto_simps)
    with Some KUpdate show ?thesis by (simp add: UpdateKey_def Let_def)
  qed
next
  case (KTokens k n)
  then show ?thesis using mirror_tokens m ok by auto
next
  case (KRequest k)
  then show ?thesis using mirror_request m ok by auto
qed

lemma mirror_run: "mirror eb ms \<Longrightarrow> run_ok ps ms \<Longrightarrow> mirror eb (fold key_apply ps ms)"
proof (induction ps arbitrary: ms)
  case (Cons p ps)
  then obtain am t rows where ms: "ms = (am, Some (eb, t, rows))" by (cases ms) (auto simp: mirror_def)
  then show ?case using Cons mirror_apply [of eb am t rows p] by simp
qed simp

lemma fold_load:
  assumes "\<forall>i \<in> set infos. f (gk_Key i) = Some i"
  shows "map_of (fold (\<lambda>i. AList.update (gk_Key i) i) infos al) k =
           (if k \<in> gk_Key ` set infos then f k else map_of al k)"
  using assms by (induction infos arbitrary: al) (auto simp: update_conv')

definition restarted :: "GatewayKeyInfo \<Rightarrow> GatewayKeyInfo" where
  "restarted i = info_of_dto (reread (gatewayKeyDTOFromInfo i))"

lemma restarted_sel [simp]:
  "gk_Key (restarted i) = gk_Key i" "gk_Disabled (restarted i) = gk_Disabled i"
  by (simp_all add: restarted_def info_of_dto_def reread_def gatewayKeyDTOFromInfo_def)

lemma loaded_infos:
  assumes m: "mirror eb (am, Some (eb, t, rows))" and eb: "bool_codec eb" and ks: "set ks = dom rows"
  shows "\<exists>infos. loadGatewayKeys (LoadGatewayKeys (Inr ks) rows) = Inr infos
           \<and> set infos = restarted ` ran (map_of am)"
proof -
  have at: "mirror_at eb k (map_of am k) (rows k)" for k using m by (simp add: mirror_def)
  have parse: "parseGatewayKeyFromRedis (row k rows) = Some (reread (gatewayKeyDTOFromInfo i))"
    if "map_of am k = Some i" for k i
  proof (rule mirror_row [OF m that])
    fix h assume "rows k = Some h" "row_of eb (gatewayKeyDTOFromInfo i) h" "k \<noteq> []" "gk_Key i = k"
      "in_range (gatewayKeyDTOFromInfo i)"
    then show ?thesis
      using parse_row [OF _ eb, of "gatewayKeyDTOFromInfo i" h] by (simp add: row_def gatewayKeyDTOFromInfo_def)
  qed
  have "rows k = None \<longleftrightarrow> map_of am k = None" for k
    using at [of k] by (cases "map_of am k") (auto simp: mirror_at_def)
  then have dom: "dom rows = dom (map_of am)" by (simp add: dom_def)
  let ?f = "\<lambda>k. info_of_dto (the (parseGatewayKeyFromRedis (row k rows)))"
  have pd: "parseGatewayKeyFromRedis (row k rows) \<noteq> None" if "k \<in> set ks" for k
    using that ks dom parse by fastforce
  have "map info_of_dto (List.map_filter (\<lambda>k. parseGatewayKeyFromRedis (row k rows)) ks) = map ?f ks"
    using pd by (induction ks) (auto simp: List.map_filter_def)
  then have "loadGatewayKeys (LoadGatewayKeys (Inr ks) rows) = Inr (map ?f ks)"
    by (simp add: loadGatewayKeys_def LoadGatewayKeys_def)
  moreover have "set (map ?f ks) = restarted ` ran (map_of am)"
  proof -
    have "set (map ?f ks) = ?f ` dom (map_of am)" by (simp add: ks dom)
    also have "\<dots> = (\<lambda>k. restarted (the (map_of am k))) ` dom (map_of am)"
      by (rule image_cong [OF refl]) (auto simp: parse restarted_def)
    also have "\<dots> = restarted ` ((\<lambda>k. the (map_of am k)) ` dom (map_of am))" by (simp add: image_image)
    also have "(\<lambda>k. the (map_of am k)) ` dom (map_of am) = ran (map_of am)"
      by (auto simp: ran_def dom_def image_def)
    finally show ?thesis .
  qed
  ultimately show ?thesis by blast
qed

lemma mirror_restart:
  assumes m: "mirror eb (am, Some (eb, t, rows))" and "bool_codec eb" and "am \<noteq> []" and "set ks = dom rows"
    and "NewManager env (LoadGatewayKeys (Inr ks) rows) (Some st) = (am', st')"
  shows "map_of am' k = map_option restarted (map_of am k) \<and> st' = Some st \<and> Valid am' k = Valid am k"
proof -
  from loaded_infos [OF m assms(2,4)] obtain infos where
    inf: "loadGatewayKeys (LoadGatewayKeys (Inr ks) rows) = Inr infos" "set infos = restarted ` ran (map_of am)" by blast
  have key: "gk_Key i = k" if "map_of am k = Some i" for i k using mirror_row [OF m that] by blast
  let ?f = "\<lambda>k. map_option restarted (map_of am k)"
  have "gk_Key ` ran (map_of am) = dom (map_of am)"
  proof
    show "gk_Key ` ran (map_of am) \<subseteq> dom (map_of am)" using key by (force simp: ran_def)
    show "dom (map_of am) \<subseteq> gk_Key ` ran (map_of am)"
    proof
      fix k assume "k \<in> dom (map_of am)"
      then obtain i where "map_of am k = Some i" by auto
      with key [OF this] show "k \<in> gk_Key ` ran (map_of am)" by (auto intro: ranI)
    qed
  qed
  then have keys: "gk_Key ` set infos = dom (map_of am)" by (simp add: inf(2) image_image)
  have "\<forall>i \<in> set infos. ?f (gk_Key i) = Some i" using inf(2) key by (fastforce simp: ran_def)
  then have all: "map_of (fold (\<lambda>i. AList.update (gk_Key i) i) infos []) k = ?f k" for k
    using fold_load [of infos ?f "[]" k] keys by auto
  have "fold (\<lambda>i. AList.update (gk_Key i) i) infos [] \<noteq> []"
  proof
    assume "fold (\<lambda>i. AList.update (gk_Key i) i) infos [] = []"
    then have "?f (fst (hd am)) = None" using all [of "fst (hd am)"] by simp
    then show False using assms(3) by (cases am) auto
  qed
  then have "am' = fold (\<lambda>i. AList.update (gk_Key i) i) infos []" "st' = Some st"
    using assms(5) inf(1) by (auto simp: NewManager_def Let_def)
  with all show ?thesis by (auto simp: Valid_iff)
qed

text \<open>
  A restart loses no key and no decision. After any sequence of creating, removing and updating
  keys and of accounting requests, with every write reaching Redis and no counter overflowing, a new
  manager built from Redis holds exactly the same keys, each with the fields it had, except that the
  creation time is cut to seconds and the whitelist is what the comma-separated text parses to; in
  particular the same keys are valid.
\<close>

theorem restart_restores:
  assumes "bool_codec eb" and "run_ok ps ([], Some (eb, t, Map.empty))"
    and "fold key_apply ps ([], Some (eb, t, Map.empty)) = (am, Some (eb, t, rows))"
    and "am \<noteq> []" and "set ks = dom rows"
    and "NewManager env (LoadGatewayKeys (Inr ks) rows) (Some (eb, t, rows)) = (am', st')"
  shows "map_of am' k = map_option restarted (map_of am k) \<and> st' = Some (eb, t, rows) \<and> Valid am' k = Valid am k"
proof -
  have "mirror eb ([], Some (eb, t, Map.empty))" by (simp add: mirror_def mirror_at_def)
  from mirror_run [OF this assms(2)] have "mirror eb (am, Some (eb, t, rows))" by (simp add: assms(3))
  from mirror_restart [OF this assms(1,4-6)] show ?thesis .
qed

definition ex_codec :: "bool \<Rightarrow> string" where "ex_codec b = (if b then ''1'' else ''0'')"

definition ex_boot :: boot_env where
  "ex_boot = \<lparr>GATEWAY_API_KEYS = [], GATEWAY_KEY_FILE = [], key_file_data = None, gateway_key_txt = None,
     GATEWAY_AUTH_DISABLE = [], GATEWAY_NO_AUTOBOOTSTRAP = [], random_key = ''r'', boot_time = 0\<rparr>"

definition ex_rows :: key_rows where
  "ex_rows = SaveGatewayKey ex_codec 0 (gatewayKeyDTOFromInfo (ex_info ''gw-1'' ''admin'')) Map.empty"

definition ex_restart :: "Manager \<times> key_store" where
  "ex_restart = NewManager ex_boot (LoadGatewayKeys (Inr [''gw-1'']) ex_rows) (Some (ex_codec, 0, ex_rows))"

theorem restart_restores_witness:
  "map_of (fst ex_restart) ''gw-1'' = map_option restarted (map_of [(''gw-1'', ex_info ''gw-1'' ''admin'')] ''gw-1'')
   \<and> snd ex_restart = Some (ex_codec, 0, ex_rows)
   \<and> Valid (fst ex_restart) ''gw-1'' = Valid [(''gw-1'', ex_info ''gw-1'' ''admin'')] ''gw-1''"
proof (rule restart_restores)
  show "bool_codec ex_codec" by (simp add: bool_codec_def ex_codec_def)
  show "run_ok [KAdd 0 ''gw-1'' ''bootstrap'' ''admin'' None 0 0 0] ([], Some (ex_codec, 0, Map.empty))"
    by (simp add: int64_range_def unix_def)
  show "fold key_apply [KAdd 0 ''gw-1'' ''bootstrap'' ''admin'' None 0 0 0] ([], Some (ex_codec, 0, Map.empty))
      = ([(''gw-1'', ex_info ''gw-1'' ''admin'')], Some (ex_codec, 0, ex_rows))"
    by (simp add: AddWithRole_def Let_def ex_info_def bootstrap_info_def ex_rows_def saveGatewayKey_def on_rows_def)
  show "set [''gw-1''] = dom ex_rows" by (simp add: ex_rows_def SaveGatewayKey_def gatewayKeyDTOFromInfo_def ex_info_def bootstrap_info_def)
  show "NewManager ex_boot (LoadGatewayKeys (Inr [''gw-1'']) ex_rows) (Some (ex_codec, 0, ex_rows)) = (fst ex_restart, snd ex_restart)"
    by (simp add: ex_restart_def)
qed simp

text \<open>
  A whitelist made of trimmed, non-empty patterns without commas means the same after a restart.
\<close>

theorem restart_keeps_whitelist:
  assumes "clean_models (gk_AllowedModels i)"
  shows "IsModelAllowed (gk_AllowedModels (restarted i)) model = IsModelAllowed (gk_AllowedModels i) model"
  using parse_models_join [OF assms] by (simp add: restarted_def info_of_dto_def reread_def gatewayKeyDTOFromInfo_def)

theorem restart_keeps_whitelist_witness:
  "IsModelAllowed (gk_AllowedModels (restarted ((ex_info ''k'' ''inference'')\<lparr>gk_AllowedModels := [''grok-*'', ''cb/x'']\<rparr>))) ''cb/y''
     = IsModelAllowed (gk_AllowedModels ((ex_info ''k'' ''inference'')\<lparr>gk_AllowedModels := [''grok-*'', ''cb/x'']\<rparr>)) ''cb/y''"
  by (rule restart_keeps_whitelist) (simp add: clean_models_def TrimSpace_def trim_by.simps seq_len_def space_seqs_def)

text \<open>
  The condition matters. A key may be created with the whitelist \<^verbatim>\<open>[""]\<close>, which admits no model
  name but the empty one; it is saved as the empty text, and after a restart the key has no
  whitelist at all and every model is allowed.
\<close>

theorem empty_pattern_becomes_unrestricted:
  assumes "model \<noteq> []"
  shows "\<not> IsModelAllowed [[]] model
    \<and> IsModelAllowed (gk_AllowedModels (restarted (fst (AddWithRole now k nm role (Some [[]]) rpm burst q am st)))) model"
  using assms
  by (simp add: IsModelAllowed_def MatchModel_def AddWithRole_def Let_def restarted_def info_of_dto_def reread_def
      gatewayKeyDTOFromInfo_def parse_models_def)

theorem empty_pattern_becomes_unrestricted_witness:
  "\<not> IsModelAllowed [[]] ''grok-4''
   \<and> IsModelAllowed (gk_AllowedModels (restarted (fst (AddWithRole 0 ''k'' ''n'' ''inference'' (Some [[]]) 0 0 0 [] None)))) ''grok-4''"
  by (rule empty_pattern_becomes_unrestricted) simp

subsection \<open>Sessions end\<close>

datatype session_event = SLookup gotime string | SRevoke string | SCleanup gotime | SCreate "go_error + string" gotime string

fun session_apply :: "session_event \<Rightarrow> SessionStore \<Rightarrow> SessionStore" where
  "session_apply (SLookup now t) s = snd (LookupSession now t s)"
| "session_apply (SRevoke t) s = RevokeSession t s"
| "session_apply (SCleanup now) s = cleanup now s"
| "session_apply (SCreate r now k) s = snd (CreateSession r now k s)"

text \<open>A token is bound once: later sessions get other tokens (256 random bits).\<close>

fun rebinds :: "string \<Rightarrow> session_event \<Rightarrow> bool" where
  "rebinds t (SCreate r now k) \<longleftrightarrow> r = Inr t"
| "rebinds t _ \<longleftrightarrow> False"

definition bound :: "string \<Rightarrow> string \<Rightarrow> gotime \<Rightarrow> SessionStore \<Rightarrow> bool" where
  "bound t k c s \<longleftrightarrow> (case s t of None \<Rightarrow> True | Some x \<Rightarrow> s_key x = k \<and> s_createdAt x = c)"

lemma bound_apply: "bound t k c s \<Longrightarrow> \<not> rebinds t e \<Longrightarrow> bound t k c (session_apply e s)"
  by (cases e) (auto simp: bound_def LookupSession_def RevokeSession_def cleanup_def CreateSession_def
      split: option.splits sum.splits)

lemma bound_run: "bound t k c s \<Longrightarrow> \<forall>e \<in> set es. \<not> rebinds t e \<Longrightarrow> bound t k c (fold session_apply es s)"
  by (induction es arbitrary: s) (auto simp: bound_apply)

text \<open>
  A session never outlives seven days. Whatever lookups, logins, logouts and cleanups happen
  after a session was created, a lookup of its token yields the key it was created for or nothing,
  and nothing once seven days have passed since its creation, however recently it was used.
\<close>

theorem session_bounded:
  assumes "CreateSession (Inr t) c k s0 = (Inr t, s1)" and "\<forall>e \<in> set es. \<not> rebinds t e"
  shows "fst (LookupSession now t (fold session_apply es s1)) \<in> (if now - c > SessionTTL then {[]} else {[], k})"
proof -
  have "bound t k c s1" using assms(1) by (auto simp: CreateSession_def bound_def)
  then have "bound t k c (fold session_apply es s1)" by (rule bound_run [OF _ assms(2)])
  then show ?thesis by (auto simp: bound_def LookupSession_def split: option.splits)
qed

theorem session_bounded_witness:
  "fst (LookupSession (8 * 24 * hour) ''t'' (fold session_apply [SLookup (6 * 24 * hour) ''t'']
      (snd (CreateSession (Inr ''t'') 0 ''gw-1'' Map.empty)))) \<in> (if 8 * 24 * hour - 0 > SessionTTL then {[]} else {[], ''gw-1''})"
  by (rule session_bounded) (simp_all add: CreateSession_def)

end
