(* ===== verification/RateLimit.thy ===== *)
theory RateLimit
  imports Auth
begin

text \<open>
  The three request guards: the token-bucket limiter with its middleware
  (\<^verbatim>\<open>internal/ratelimit/ratelimit.go\<close>), the login limiter (\<^verbatim>\<open>login_limiter.go\<close>) and the
  cross-origin guard (\<^verbatim>\<open>csrf_guard.go\<close>).

  A bucket's \<^verbatim>\<open>float64\<close> tokens are rational numbers here: the rounding of the refill is not
  modelled. Each call reads the clock once, under the limiter's mutex.
\<close>

subsection \<open>The token bucket\<close>

record clientBucket =
  cb_tokens :: rat
  cb_lastTime :: gotime

record Limiter =
  rl_limit :: int
  rl_burst :: int
  rl_window :: duration
  rl_clients :: "string \<rightharpoonup> clientBucket"

definition NewLimiter :: "int \<Rightarrow> int \<Rightarrow> duration \<Rightarrow> Limiter" where
  "NewLimiter limit burst window =
     \<lparr>rl_limit = limit, rl_burst = burst, rl_window = window, rl_clients = Map.empty\<rparr>"

definition Seconds :: "duration \<Rightarrow> rat" where
  "Seconds d = of_int d / of_int second"

definition AllowWithLimit :: "gotime \<Rightarrow> string \<Rightarrow> int \<Rightarrow> int \<Rightarrow> Limiter \<Rightarrow> bool \<times> Limiter" where
  "AllowWithLimit now clientID rpm burst0 rl =
     (if rpm \<le> 0 then (True, rl)
      else let burst = (if burst0 \<le> 0 then rpm else burst0)
           in case rl_clients rl clientID of
                None \<Rightarrow>
                  (True, rl\<lparr>rl_clients := (rl_clients rl)(clientID \<mapsto> \<lparr>cb_tokens = of_int burst - 1, cb_lastTime = now\<rparr>)\<rparr>)
              | Some bucket \<Rightarrow>
                  (let elapsed = now - cb_lastTime bucket;
                       refill = Seconds elapsed * of_int rpm / Seconds (rl_window rl);
                       tokens = min (cb_tokens bucket + refill) (of_int burst)
                   in if tokens \<ge> 1
                      then (True, rl\<lparr>rl_clients := (rl_clients rl)(clientID \<mapsto> \<lparr>cb_tokens = tokens - 1, cb_lastTime = now\<rparr>)\<rparr>)
                      else (False, rl\<lparr>rl_clients := (rl_clients rl)(clientID \<mapsto> \<lparr>cb_tokens = tokens, cb_lastTime = now\<rparr>)\<rparr>)))"

definition Allow :: "gotime \<Rightarrow> string \<Rightarrow> Limiter \<Rightarrow> bool \<times> Limiter" where
  "Allow now clientID rl = AllowWithLimit now clientID (rl_limit rl) (rl_burst rl) rl"

definition cleanup_clients :: "gotime \<Rightarrow> Limiter \<Rightarrow> Limiter" where
  "cleanup_clients now rl =
     rl\<lparr>rl_clients := (\<lambda>c. case rl_clients rl c of
          None \<Rightarrow> None
        | Some b \<Rightarrow> if cb_lastTime b < now - 10 * minute then None else Some b)\<rparr>"

text \<open>
  The middleware. \<open>lookup\<close> is the \<^verbatim>\<open>AuthLookup\<close> interface (\<open>None\<close>: none configured). The result
  says whether the request is passed on; otherwise it is answered with status 429.
\<close>

definition limits :: "(string \<Rightarrow> (int \<times> int) option) option \<Rightarrow> string option \<Rightarrow> Limiter \<Rightarrow> (int \<times> int) option" where
  "limits lookup client_key rl =
     (case (client_key, lookup) of
        (Some key, Some lk) \<Rightarrow>
          (if key = [] then Some (rl_limit rl, rl_burst rl)
           else case lk key of
                  None \<Rightarrow> Some (rl_limit rl, rl_burst rl)
                | Some (kRPM, kBurst) \<Rightarrow>
                    if kRPM = 0 then None
                    else Some (if kRPM > 0 then kRPM else rl_limit rl, if kBurst > 0 then kBurst else rl_burst rl))
      | _ \<Rightarrow> Some (rl_limit rl, rl_burst rl))"

definition Middleware ::
  "(string \<Rightarrow> (int \<times> int) option) option \<Rightarrow> gotime \<Rightarrow> string \<Rightarrow> string \<Rightarrow> string option \<Rightarrow> Limiter \<Rightarrow> bool \<times> Limiter" where
  "Middleware lookup now path ip client_key rl =
     (if path \<in> {''/health'', ''/'', ''/dashboard''} then (True, rl)
      else case limits lookup client_key rl of
             None \<Rightarrow> (True, rl)
           | Some (rpm, burst) \<Rightarrow>
               AllowWithLimit now (case client_key of Some k \<Rightarrow> k | None \<Rightarrow> ip) rpm burst rl)"

subsection \<open>The login limiter\<close>

record loginEntry =
  minuteWindow :: "gotime list"
  hourWindow :: "gotime list"

type_synonym loginLimiter = "string \<rightharpoonup> loginEntry"

definition trimBefore :: "gotime list \<Rightarrow> gotime \<Rightarrow> gotime list" where
  "trimBefore ts cutoff = filter (\<lambda>t. t > cutoff) ts"

definition login_entry :: "string \<Rightarrow> loginLimiter \<Rightarrow> loginEntry" where
  "login_entry ip l = (case l ip of Some e \<Rightarrow> e | None \<Rightarrow> \<lparr>minuteWindow = [], hourWindow = []\<rparr>)"

definition login_attempt :: "gotime \<Rightarrow> string \<Rightarrow> loginLimiter \<Rightarrow> bool \<times> loginLimiter" where
  "login_attempt now ip l =
     (let e0 = login_entry ip l;
          e = \<lparr>minuteWindow = trimBefore (minuteWindow e0) (now - minute),
               hourWindow = trimBefore (hourWindow e0) (now - hour)\<rparr>
      in if length (minuteWindow e) \<ge> 5 then (False, l(ip \<mapsto> e))
         else if length (hourWindow e) \<ge> 20 then (False, l(ip \<mapsto> e))
         else (True, l(ip \<mapsto> \<lparr>minuteWindow = minuteWindow e @ [now], hourWindow = hourWindow e @ [now]\<rparr>)))"

definition login_cleanup :: "gotime \<Rightarrow> loginLimiter \<Rightarrow> loginLimiter" where
  "login_cleanup now l =
     (\<lambda>ip. case l ip of
        None \<Rightarrow> None
      | Some e \<Rightarrow>
          (let hw = trimBefore (hourWindow e) (now - hour)
           in if hw = [] then None
              else Some \<lparr>minuteWindow = trimBefore (minuteWindow e) (now - minute), hourWindow = hw\<rparr>))"

subsection \<open>The cross-origin guard\<close>

text \<open>\<^verbatim>\<open>strings.Index\<close>: the position of the first occurrence.\<close>

fun str_index :: "string \<Rightarrow> string \<Rightarrow> nat option" where
  "str_index sub [] = (if sub = [] then Some 0 else None)"
| "str_index sub (c # s) = (if prefix sub (c # s) then Some 0 else map_option Suc (str_index sub s))"

definition sameOrigin :: "string \<Rightarrow> string \<Rightarrow> bool" where
  "sameOrigin originURL hostPort \<longleftrightarrow>
     (let rest = (case str_index ''://'' originURL of Some i \<Rightarrow> drop (i + 3) originURL | None \<Rightarrow> originURL);
          host = (case str_index ''/'' rest of Some i \<Rightarrow> take i rest | None \<Rightarrow> rest)
      in host = hostPort)"

record csrf_request =
  cq_method :: string
  cq_has_cookie :: bool
  cq_auth :: string
  cq_host :: string
  cq_origin :: string
  cq_referer :: string

definition csrfGuard :: "csrf_request \<Rightarrow> bool" where
  "csrfGuard q \<longleftrightarrow>
     (if cq_method q \<in> {''GET'', ''HEAD'', ''OPTIONS''} then True
      else if \<not> cq_has_cookie q then True
      else if prefix ''Bearer '' (cq_auth q) then True
      else if cq_origin q = [] \<and> cq_referer q = [] then True
      else if cq_origin q \<noteq> [] then sameOrigin (cq_origin q) (cq_host q)
      else if cq_referer q \<noteq> [] \<and> \<not> sameOrigin (cq_referer q) (cq_host q) then False
      else True)"

subsection \<open>What the limiter asks of the key manager\<close>

text \<open>
  The \<^verbatim>\<open>AuthLookup\<close> interface: a lookup finds exactly the registered keys.
\<close>

locale auth_lookup =
  fixes lookup :: "'m \<Rightarrow> string \<Rightarrow> (int \<times> int) option"
    and registered :: "'m \<Rightarrow> string set"
  assumes lookup_registered: "lookup m k \<noteq> None \<longleftrightarrow> k \<in> registered m"
begin

lemma unregistered_global:
  "k \<notin> registered m \<Longrightarrow> limits (Some (lookup m)) (Some k) rl = Some (rl_limit rl, rl_burst rl)"
  using lookup_registered [of m k] by (cases "lookup m k") (auto simp: limits_def)

lemma bypass_registered: "limits (Some (lookup m)) ck rl = None \<Longrightarrow> \<exists>k burst. ck = Some k \<and> k \<in> registered m \<and> lookup m k = Some (0, burst)"
  using lookup_registered by (auto simp: limits_def split: option.splits if_splits)

end

interpretation kl: auth_lookup LookupKey "\<lambda>am. dom (map_of am)"
  by unfold_locales (auto simp: LookupKey_def)

text \<open>
  Only a registered key whose own limit is zero escapes the limiter. On every other path the
  middleware charges the request to a bucket: with no client key or an unregistered one to the
  global limits, with a registered key to its own limits where they are positive.
\<close>

theorem only_unlimited_keys_bypass:
  assumes "path \<notin> {''/health'', ''/'', ''/dashboard''}"
  shows "Middleware (Some (LookupKey am)) now path ip ck rl =
    (case ck of
       Some k \<Rightarrow>
         (case (if k = [] then None else map_of am k) of
            Some i \<Rightarrow> if gk_RPM i = 0 then (True, rl)
                     else AllowWithLimit now k (if gk_RPM i > 0 then gk_RPM i else rl_limit rl)
                            (if gk_Burst i > 0 then gk_Burst i else rl_burst rl) rl
          | None \<Rightarrow> AllowWithLimit now k (rl_limit rl) (rl_burst rl) rl)
     | None \<Rightarrow> AllowWithLimit now ip (rl_limit rl) (rl_burst rl) rl)"
  using assms kl.unregistered_global [of _ am rl]
  by (cases ck) (auto simp: Middleware_def limits_def LookupKey_def split: option.splits)

theorem only_unlimited_keys_bypass_witness:
  "Middleware (Some (LookupKey [(''k'', ex_info ''k'' ''inference'')])) 0 ''/v1/models'' ''ip'' (Some ''k'') (NewLimiter 60 10 minute)
     = (True, NewLimiter 60 10 minute)"
  using only_unlimited_keys_bypass [of "''/v1/models''" "[(''k'', ex_info ''k'' ''inference'')]" 0 "''ip''" "Some ''k''"]
  by (simp add: ex_info_def bootstrap_info_def)

subsection \<open>How much a client can be granted\<close>

datatype limiter_event = LAllow gotime string int int | LClean gotime

fun limiter_run :: "limiter_event list \<Rightarrow> Limiter \<Rightarrow> (gotime \<times> string \<times> bool) list \<times> Limiter" where
  "limiter_run [] rl = ([], rl)"
| "limiter_run (LAllow now c rpm burst # es) rl =
     (let (ok, rl1) = AllowWithLimit now c rpm burst rl; (out, rl2) = limiter_run es rl1
      in ((now, c, ok) # out, rl2))"
| "limiter_run (LClean now # es) rl = limiter_run es (cleanup_clients now rl)"

definition granted :: "string \<Rightarrow> (gotime \<times> string \<times> bool) list \<Rightarrow> nat" where
  "granted c out = length (filter (\<lambda>(t, c', ok). c' = c \<and> ok) out)"

fun ltime :: "limiter_event \<Rightarrow> gotime" where
  "ltime (LAllow now c rpm burst) = now"
| "ltime (LClean now) = now"

fun uses :: "string \<Rightarrow> int \<Rightarrow> int \<Rightarrow> limiter_event \<Rightarrow> bool" where
  "uses c r b (LAllow now c' rpm burst) \<longleftrightarrow> (c' = c \<longrightarrow> rpm = r \<and> burst = b)"
| "uses c r b (LClean now) \<longleftrightarrow> True"

definition rate :: "int \<Rightarrow> duration \<Rightarrow> rat" where
  "rate r w = of_int r / of_int w"

lemma refill_rate: "Seconds d * of_int r / Seconds w = of_int d * rate r w"
  by (simp add: Seconds_def rate_def time_defs)

text \<open>
  What is maintained for one client while its requests are counted from the time \<open>t0\<close> on: \<open>A\<close>
  requests were granted and the time is \<open>t\<close>.
\<close>

definition bucket_inv :: "rat \<Rightarrow> int \<Rightarrow> gotime \<Rightarrow> nat \<Rightarrow> clientBucket option \<Rightarrow> gotime \<Rightarrow> bool" where
  "bucket_inv q b t0 A bucket t \<longleftrightarrow>
     (case bucket of
        None \<Rightarrow> of_nat A \<le> q * of_int (t - t0)
      | Some k \<Rightarrow> 0 \<le> cb_tokens k \<and> cb_lastTime k \<le> t
          \<and> of_nat A + cb_tokens k \<le> of_int b + q * of_int (cb_lastTime k - t0))"

lemma bucket_inv_mono: "bucket_inv q b t0 A k t \<Longrightarrow> t \<le> t' \<Longrightarrow> 0 \<le> q \<Longrightarrow> bucket_inv q b t0 A k t'"
proof -
  assume inv: "bucket_inv q b t0 A k t" and le: "t \<le> t'" "0 \<le> q"
  then have "q * of_int (t - t0) \<le> q * of_int (t' - t0)" by (intro mult_left_mono) simp_all
  with inv le show ?thesis by (auto simp: bucket_inv_def split: option.splits)
qed

lemma bucket_inv_bound:
  assumes "bucket_inv q b t0 A k t" and "0 \<le> q" "0 \<le> b" and "t \<le> t'"
  shows "of_nat A \<le> of_int b + q * of_int (t' - t0)"
proof (cases k)
  case None
  then show ?thesis using bucket_inv_mono [OF assms(1,4,2)] assms(3) by (simp add: bucket_inv_def)
next
  case (Some x)
  then have "cb_lastTime x \<le> t'" "of_nat A \<le> of_int b + q * of_int (cb_lastTime x - t0)"
    using assms(1,4) by (auto simp: bucket_inv_def)
  moreover from this(1) have "q * of_int (cb_lastTime x - t0) \<le> q * of_int (t' - t0)"
    using assms(2) by (intro mult_left_mono) simp_all
  ultimately show ?thesis by linarith
qed

lemma AllowWithLimit_other:
  "c' \<noteq> c \<Longrightarrow> rl_clients (snd (AllowWithLimit now c' r b rl)) c = rl_clients rl c"
  "rl_window (snd (AllowWithLimit now c' r b rl)) = rl_window rl"
  by (auto simp: AllowWithLimit_def Let_def split: option.splits)

lemma AllowWithLimit_known:
  assumes "0 < r" "0 < b" "rl_clients rl c = Some k" "q = rate r (rl_window rl)"
  shows "let tokens = min (cb_tokens k + of_int (now - cb_lastTime k) * q) (of_int b)
    in fst (AllowWithLimit now c r b rl) = (1 \<le> tokens)
       \<and> rl_clients (snd (AllowWithLimit now c r b rl)) c
         = Some \<lparr>cb_tokens = (if 1 \<le> tokens then tokens - 1 else tokens), cb_lastTime = now\<rparr>"
  using assms by (simp add: AllowWithLimit_def Let_def refill_rate)

lemma bucket_inv_Allow:
  assumes "0 < r" "0 < b" and q: "q = rate r (rl_window rl)" "0 \<le> q" and inv: "bucket_inv q b t0 A (rl_clients rl c) now"
  shows "bucket_inv q b t0 (A + of_bool (fst (AllowWithLimit now c r b rl)))
           (rl_clients (snd (AllowWithLimit now c r b rl)) c) now"
proof (cases "rl_clients rl c")
  case None
  then show ?thesis using assms by (auto simp: AllowWithLimit_def Let_def bucket_inv_def)
next
  case (Some k)
  let ?tokens = "min (cb_tokens k + of_int (now - cb_lastTime k) * q) (of_int b)"
  have k: "0 \<le> cb_tokens k" "cb_lastTime k \<le> now" "of_nat A + cb_tokens k \<le> of_int b + q * of_int (cb_lastTime k - t0)"
    using inv Some by (auto simp: bucket_inv_def)
  have "0 \<le> of_int (now - cb_lastTime k) * q" using k(2) q(2) by simp
  then have t0: "0 \<le> ?tokens" using k(1) assms(2) by simp
  have "?tokens \<le> cb_tokens k + of_int (now - cb_lastTime k) * q" by simp
  moreover have "q * of_int (cb_lastTime k - t0) + of_int (now - cb_lastTime k) * q = q * of_int (now - t0)"
    by (simp add: algebra_simps)
  ultimately have "of_nat A + ?tokens \<le> of_int b + q * of_int (now - t0)" using k(3) by linarith
  with t0 show ?thesis
    using AllowWithLimit_known [OF assms(1,2) Some q(1), of now] by (auto simp: Let_def bucket_inv_def)
qed

lemma bucket_inv_clean:
  assumes "0 \<le> q" "of_int b \<le> q * of_int (10 * minute)" and inv: "bucket_inv q b t0 A (rl_clients rl c) now"
  shows "bucket_inv q b t0 A (rl_clients (cleanup_clients now rl) c) now"
proof (cases "rl_clients rl c")
  case (Some k)
  show ?thesis
  proof (cases "cb_lastTime k < now - 10 * minute")
    case True
    then have "q * of_int (cb_lastTime k - t0) \<le> q * of_int (now - 10 * minute - t0)"
      using assms(1) by (intro mult_left_mono) simp_all
    moreover have "q * of_int (now - 10 * minute - t0) = q * of_int (now - t0) - q * of_int (10 * minute)"
      by (simp add: algebra_simps)
    moreover have "of_nat A + cb_tokens k \<le> of_int b + q * of_int (cb_lastTime k - t0)" "0 \<le> cb_tokens k"
      using inv Some by (auto simp: bucket_inv_def)
    ultimately have "of_nat A \<le> q * of_int (now - t0)" using assms(2) by linarith
    with True Some show ?thesis by (simp add: cleanup_clients_def bucket_inv_def)
  qed (use inv Some in \<open>simp add: cleanup_clients_def\<close>)
qed (use inv in \<open>simp add: cleanup_clients_def\<close>)

lemma granted_bound:
  assumes "0 < r" "0 < b" "0 < w" "of_int b \<le> rate r w * of_int (10 * minute)"
    and "rl_window rl = w" and "bucket_inv (rate r w) b t0 A (rl_clients rl c) t"
    and "sorted (map ltime es)" "\<forall>e \<in> set es. t \<le> ltime e \<and> ltime e \<le> T" "t \<le> T" "\<forall>e \<in> set es. uses c r b e"
  shows "of_nat (A + granted c (fst (limiter_run es rl))) \<le> of_int b + rate r w * of_int (T - t0)"
  using assms(5-)
proof (induction es arbitrary: rl A t)
  case Nil
  have "0 \<le> rate r w" using assms by (simp add: rate_def)
  then show ?case using bucket_inv_bound [OF Nil.prems(2) _ _ Nil.prems(5)] assms(2) by (simp add: granted_def)
next
  case (Cons e es)
  have q: "0 \<le> rate r w" using assms by (simp add: rate_def)
  have inv: "bucket_inv (rate r w) b t0 A (rl_clients rl c) (ltime e)"
    using bucket_inv_mono [OF Cons.prems(2) _ q] Cons.prems(4) by simp
  have rest: "sorted (map ltime es)" "\<forall>e' \<in> set es. ltime e \<le> ltime e' \<and> ltime e' \<le> T" "ltime e \<le> T" "\<forall>e \<in> set es. uses c r b e"
    using Cons.prems by auto
  show ?case
  proof (cases e)
    case (LClean now)
    then show ?thesis
      using Cons.IH [of "cleanup_clients now rl" A now] bucket_inv_clean [OF q assms(4)] inv rest Cons.prems(1)
      by (simp add: cleanup_clients_def)
  next
    case (LAllow now c' r' b')
    let ?res = "AllowWithLimit now c' r' b' rl"
    show ?thesis
    proof (cases "c' = c")
      case True
      then have u: "r' = r" "b' = b" using Cons.prems(6) LAllow by auto
      have "bucket_inv (rate r w) b t0 (A + of_bool (fst ?res)) (rl_clients (snd ?res) c) now"
        unfolding u True by (rule bucket_inv_Allow [OF assms(1,2) _ q]) (use inv LAllow Cons.prems(1) in simp_all)
      then show ?thesis
        using Cons.IH [of "snd ?res" "A + of_bool (fst ?res)" now] rest LAllow u True Cons.prems(1)
        by (auto simp: split_beta Let_def granted_def AllowWithLimit_other ac_simps)
    next
      case False
      then show ?thesis
        using Cons.IH [of "snd ?res" A now] inv rest LAllow Cons.prems(1)
        by (simp add: split_beta Let_def granted_def AllowWithLimit_other)
    qed
  qed
qed



text \<open>
  The proviso is needed. A key with one request per minute and a burst of one hundred can spend
  its burst, wait ten minutes until the cleanup drops its bucket, and spend a full burst again
  although only ten requests have been earned.
\<close>

theorem cleanup_refunds_burst:
  "fst (AllowWithLimit (10 * minute + 2) c 1 100
            (cleanup_clients (10 * minute + 1)
              (rl\<lparr>rl_clients := (rl_clients rl)(c \<mapsto> \<lparr>cb_tokens = 0, cb_lastTime = 0\<rparr>)\<rparr>))) = True
         \<and> map_option cb_tokens (rl_clients (snd (AllowWithLimit (10 * minute + 2) c 1 100
            (cleanup_clients (10 * minute + 1)
              (rl\<lparr>rl_clients := (rl_clients rl)(c \<mapsto> \<lparr>cb_tokens = 0, cb_lastTime = 0\<rparr>)\<rparr>)))) c) = Some 99"
  by (simp add: AllowWithLimit_def cleanup_clients_def Let_def time_defs)

subsection \<open>How often one address can try to log in\<close>

datatype login_event = Attempt gotime string | LoginClean gotime

fun login_time :: "login_event \<Rightarrow> gotime" where
  "login_time (Attempt now ip) = now"
| "login_time (LoginClean now) = now"

text \<open>The times of the attempts of one address that were let through.\<close>

fun accepted :: "string \<Rightarrow> login_event list \<Rightarrow> loginLimiter \<Rightarrow> gotime list" where
  "accepted ip [] l = []"
| "accepted ip (Attempt now ip' # es) l =
     (let (ok, l1) = login_attempt now ip' l
      in (if ok \<and> ip' = ip then [now] else []) @ accepted ip es l1)"
| "accepted ip (LoginClean now # es) l = accepted ip es (login_cleanup now l)"

definition in_window :: "duration \<Rightarrow> gotime \<Rightarrow> gotime list \<Rightarrow> nat" where
  "in_window d t ts = length (filter (\<lambda>x. t - d < x \<and> x \<le> t) ts)"

definition tracks :: "gotime \<Rightarrow> duration \<Rightarrow> gotime list \<Rightarrow> gotime list \<Rightarrow> bool" where
  "tracks t d win acc \<longleftrightarrow> (\<forall>u \<ge> t. filter (\<lambda>x. x > u - d) win = filter (\<lambda>x. x > u - d) acc)"

lemma tracks_mono: "tracks t d win acc \<Longrightarrow> t \<le> t' \<Longrightarrow> tracks t' d win acc"
  by (auto simp: tracks_def)

lemma tracks_trim: "tracks t d win acc \<Longrightarrow> t \<le> now \<Longrightarrow> trimBefore win (now - d) = filter (\<lambda>x. x > now - d) acc"
  by (simp add: tracks_def trimBefore_def)

lemma filter_later: "now \<le> u \<Longrightarrow> filter (\<lambda>x. x > u - d) (filter (\<lambda>x. x > now - d) xs) = filter (\<lambda>x. x > u - d) (xs :: int list)"
  unfolding filter_filter by (rule filter_cong) auto

lemma tracks_trimmed: "tracks t d win acc \<Longrightarrow> t \<le> now \<Longrightarrow> tracks now d (trimBefore win (now - d)) acc"
proof -
  assume "tracks t d win acc" and "t \<le> now"
  then have eq: "trimBefore win (now - d) = filter (\<lambda>x. x > now - d) acc" by (rule tracks_trim)
  show ?thesis unfolding tracks_def eq by (intro allI impI filter_later)
qed

lemma tracks_snoc: "tracks t d win acc \<Longrightarrow> tracks t d (win @ [x]) (acc @ [x])"
  by (simp add: tracks_def)

lemma window_snoc:
  assumes "\<forall>t. in_window d t acc \<le> n" and "length (filter (\<lambda>x. x > now - d) acc) < n"
  shows "\<forall>t. in_window d t (acc @ [now]) \<le> n"
proof
  fix t
  show "in_window d t (acc @ [now]) \<le> n"
  proof (cases "now \<le> t")
    case True
    have "filter (\<lambda>x. t - d < x \<and> x \<le> t) acc = filter (\<lambda>x. t - d < x \<and> x \<le> t) (filter (\<lambda>x. x > now - d) acc)"
      unfolding filter_filter using True by (intro filter_cong) auto
    then have "length (filter (\<lambda>x. t - d < x \<and> x \<le> t) acc) < n"
      using assms(2) length_filter_le [of "\<lambda>x. t - d < x \<and> x \<le> t" "filter (\<lambda>x. x > now - d) acc"] by simp
    then show ?thesis by (auto simp: in_window_def)
  next
    case False
    then show ?thesis using assms(1) by (simp add: in_window_def)
  qed
qed

definition login_inv :: "gotime \<Rightarrow> loginEntry \<Rightarrow> gotime list \<Rightarrow> bool" where
  "login_inv t e acc \<longleftrightarrow> tracks t minute (minuteWindow e) acc \<and> tracks t hour (hourWindow e) acc
     \<and> (\<forall>u. in_window minute u acc \<le> 5) \<and> (\<forall>u. in_window hour u acc \<le> 20)"

lemma login_inv_mono: "login_inv t e acc \<Longrightarrow> t \<le> t' \<Longrightarrow> login_inv t' e acc"
  by (auto simp: login_inv_def intro: tracks_mono)

lemma login_attempt_inv:
  assumes "login_inv now (login_entry ip l) acc"
  shows "login_inv now (login_entry ip (snd (login_attempt now ip l)))
           (acc @ (if fst (login_attempt now ip l) then [now] else []))"
proof -
  let ?m = "trimBefore (minuteWindow (login_entry ip l)) (now - minute)"
  let ?h = "trimBefore (hourWindow (login_entry ip l)) (now - hour)"
  have m: "tracks now minute ?m acc" "?m = filter (\<lambda>x. x > now - minute) acc"
    and h: "tracks now hour ?h acc" "?h = filter (\<lambda>x. x > now - hour) acc"
    using assms by (auto simp: login_inv_def intro: tracks_trimmed tracks_trim)
  have win: "\<forall>u. in_window minute u acc \<le> 5" "\<forall>u. in_window hour u acc \<le> 20"
    using assms by (simp_all add: login_inv_def)
  show ?thesis
  proof (cases "length ?m \<ge> 5 \<or> length ?h \<ge> 20")
    case True
    then have "fst (login_attempt now ip l) = False"
      "login_entry ip (snd (login_attempt now ip l)) = \<lparr>minuteWindow = ?m, hourWindow = ?h\<rparr>"
      by (auto simp: login_attempt_def Let_def login_entry_def)
    then show ?thesis using m(1) h(1) win by (simp add: login_inv_def)
  next
    case False
    then have "fst (login_attempt now ip l)"
      "login_entry ip (snd (login_attempt now ip l)) = \<lparr>minuteWindow = ?m @ [now], hourWindow = ?h @ [now]\<rparr>"
      by (auto simp: login_attempt_def Let_def login_entry_def)
    moreover have "\<forall>u. in_window minute u (acc @ [now]) \<le> 5" "\<forall>u. in_window hour u (acc @ [now]) \<le> 20"
      using False m(2) h(2) window_snoc [OF win(1), of now] window_snoc [OF win(2), of now] by auto
    ultimately show ?thesis using tracks_snoc [OF m(1), of now] tracks_snoc [OF h(1), of now] by (simp add: login_inv_def)
  qed
qed

lemma login_attempt_other: "ip' \<noteq> ip \<Longrightarrow> login_entry ip (snd (login_attempt now ip' l)) = login_entry ip l"
  by (simp add: login_attempt_def Let_def login_entry_def)

lemma login_cleanup_inv:
  assumes "login_inv now (login_entry ip l) acc"
  shows "login_inv now (login_entry ip (login_cleanup now l)) acc"
proof (cases "l ip")
  case None
  then show ?thesis using assms by (simp add: login_cleanup_def login_entry_def)
next
  case (Some e)
  then have e: "login_entry ip l = e" by (simp add: login_entry_def)
  let ?h = "trimBefore (hourWindow e) (now - hour)" and ?m = "trimBefore (minuteWindow e) (now - minute)"
  have t: "tracks now minute ?m acc" "?m = filter (\<lambda>x. x > now - minute) acc"
    "tracks now hour ?h acc" "?h = filter (\<lambda>x. x > now - hour) acc"
    using assms by (auto simp: login_inv_def e intro: tracks_trimmed tracks_trim)
  show ?thesis
  proof (cases "?h = []")
    case True
    then have "\<forall>x \<in> set acc. \<not> x > now - hour" using t(4) by (metis (mono_tags, lifting) filter_empty_conv)
    then have "\<forall>x \<in> set acc. \<not> x > now - minute" by (force simp: time_defs)
    then have "?m = []" using t(2) by (simp add: filter_empty_conv)
    with True t assms Some show ?thesis by (simp add: login_cleanup_def login_entry_def login_inv_def)
  qed (use t assms Some in \<open>simp add: login_cleanup_def login_entry_def login_inv_def Let_def\<close>)
qed

lemma accepted_inv:
  assumes "login_inv t (login_entry ip l) acc" and "sorted (map login_time es)" and "\<forall>e \<in> set es. t \<le> login_time e"
  shows "in_window minute u (acc @ accepted ip es l) \<le> 5 \<and> in_window hour u (acc @ accepted ip es l) \<le> 20"
  using assms
proof (induction es arbitrary: t l acc)
  case Nil
  then show ?case by (simp add: login_inv_def)
next
  case (Cons e es)
  have inv: "login_inv (login_time e) (login_entry ip l) acc"
    using Cons.prems login_inv_mono by auto
  have rest: "sorted (map login_time es)" "\<forall>e' \<in> set es. login_time e \<le> login_time e'" using Cons.prems by auto
  show ?case
  proof (cases e)
    case (LoginClean now)
    then show ?thesis
      using Cons.IH [of now "login_cleanup now l" acc] login_cleanup_inv [of now ip l acc] inv rest by simp
  next
    case (Attempt now ip')
    let ?l = "snd (login_attempt now ip' l)"
    show ?thesis
    proof (cases "ip' = ip")
      case True
      then show ?thesis
        using Cons.IH [OF login_attempt_inv [of now ip l acc]] inv rest Attempt by (auto simp: Let_def split_beta)
    next
      case False
      then show ?thesis
        using Cons.IH [of now ?l acc] inv rest Attempt login_attempt_other [OF False, of now l] by (auto simp: Let_def split_beta)
    qed
  qed
qed

text \<open>
  One address gets at most five login attempts through in any minute and twenty in any hour,
  over any interleaving with other addresses and with the cleanup of the limiter.
\<close>

theorem login_attempts_bounded:
  assumes "sorted (map login_time es)"
  shows "in_window minute u (accepted ip es Map.empty) \<le> 5 \<and> in_window hour u (accepted ip es Map.empty) \<le> 20"
proof (cases es)
  case (Cons e es')
  have "login_inv (login_time e) (login_entry ip Map.empty) []"
    by (simp add: login_inv_def login_entry_def tracks_def in_window_def)
  from accepted_inv [OF this assms] show ?thesis using assms Cons by auto
qed (simp add: in_window_def)

theorem login_attempts_bounded_witness:
  "in_window minute 9 (accepted ''a'' (map (\<lambda>t. Attempt (int t) ''a'') [0..<8]) Map.empty) \<le> 5
   \<and> in_window hour 9 (accepted ''a'' (map (\<lambda>t. Attempt (int t) ''a'') [0..<8]) Map.empty) \<le> 20"
  by (rule login_attempts_bounded) (simp add: upt_rec)

subsection \<open>Cross-origin requests\<close>

lemma str_index_at: "CHR '':'' \<notin> set s \<Longrightarrow> str_index ''://'' (s @ ''://'' @ r) = Some (length s)"
  by (induction s) auto

lemma str_index_slash: "CHR ''/'' \<notin> set h \<Longrightarrow> str_index ''/'' (h @ CHR ''/'' # p) = Some (length h)"
  by (induction h) auto

lemma str_index_none: "CHR ''/'' \<notin> set h \<Longrightarrow> str_index ''/'' h = None"
  by (induction h) auto

lemma sameOrigin_url:
  assumes "CHR '':'' \<notin> set s" and "CHR ''/'' \<notin> set h" and "p = [] \<or> hd p = CHR ''/''"
  shows "sameOrigin (s @ ''://'' @ h @ p) target \<longleftrightarrow> h = target"
proof -
  have "drop (length s + 3) (s @ ''://'' @ h @ p) = h @ p" by simp
  moreover have "(case str_index ''/'' (h @ p) of Some i \<Rightarrow> take i (h @ p) | None \<Rightarrow> h @ p) = h"
    using assms(2,3) str_index_slash [OF assms(2)] str_index_none [OF assms(2)] by (cases p) auto
  ultimately show ?thesis
    using str_index_at [OF assms(1), of "h @ p"] by (simp only: sameOrigin_def Let_def option.case)
qed

text \<open>
  A state-changing request that carries the session cookie and no bearer token is passed on,
  when it names its origin \<^verbatim>\<open>scheme://host/path\<close>, if and only if that host is the gateway's own.
\<close>

theorem csrf_blocks_foreign_origin:
  assumes "cq_method q \<notin> {''GET'', ''HEAD'', ''OPTIONS''}" and "cq_has_cookie q" and "\<not> prefix ''Bearer '' (cq_auth q)"
    and "cq_origin q = s @ ''://'' @ h @ p \<or> cq_origin q = [] \<and> cq_referer q = s @ ''://'' @ h @ p"
    and "CHR '':'' \<notin> set s" and "CHR ''/'' \<notin> set h" and "p = [] \<or> hd p = CHR ''/''"
  shows "csrfGuard q \<longleftrightarrow> h = cq_host q"
  using assms(1-4) sameOrigin_url [OF assms(5-7), of "cq_host q"] by (auto simp: csrfGuard_def)

theorem csrf_blocks_foreign_origin_witness:
  "csrfGuard \<lparr>cq_method = ''POST'', cq_has_cookie = True, cq_auth = [], cq_host = ''gw.example'',
     cq_origin = ''https'' @ ''://'' @ ''evil.example'' @ [], cq_referer = []\<rparr> \<longleftrightarrow> ''evil.example'' = ''gw.example''"
  using csrf_blocks_foreign_origin [of "\<lparr>cq_method = ''POST'', cq_has_cookie = True, cq_auth = [], cq_host = ''gw.example'',
     cq_origin = ''https'' @ ''://'' @ ''evil.example'' @ [], cq_referer = []\<rparr>" "''https''" "''evil.example''" "[]"]
  by simp

end
