(* ===== verification/Registry.thy ===== *)
theory Registry
  imports Fox_Prelude
begin

text \<open>
  The runtime registries of \<^verbatim>\<open>internal/proxy\<close>: name validation (\<^verbatim>\<open>validate.go\<close>), custom models
  and one-hop aliases (\<^verbatim>\<open>custom.go\<close>), and combos with the strategies fallback and round robin
  (\<^verbatim>\<open>combo.go\<close>).

  A registry is the in-memory cache; the answer of the Redis call an operation makes is an
  argument (\<open>None\<close>: no store). A Go map is a partial function; the missing entry of
  \<^verbatim>\<open>fallbackSeq\<close> counts as 0. Methods on a nil registry are not modelled.
\<close>

subsection \<open>Names\<close>

datatype registry_error =
    Required string | TooLong string | DotDot string | BadChars string
  | BadUpstreamName | SelfAlias | ComboPrefix | BadStrategy | TooManyModels nat | NoModels
  | StoreError go_error

definition name_chars :: string where
  "name_chars = ''ABCDEFGHIJKLMNOPQRSTUVWXYZabcdefghijklmnopqrstuvwxyz0123456789._/-''"

definition validNameRegex :: "string \<Rightarrow> bool" where
  "validNameRegex s \<longleftrightarrow> 1 \<le> length s \<and> length s \<le> 64 \<and> list_all (\<lambda>c. c \<in> set name_chars) s"

definition validateName :: "string \<Rightarrow> string \<Rightarrow> registry_error option" where
  "validateName name field =
     (if name = [] then Some (Required field)
      else if length name > 64 then Some (TooLong field)
      else if contains ''..'' name then Some (DotDot field)
      else if \<not> validNameRegex name then Some (BadChars field)
      else None)"

definition name_ok :: "string \<Rightarrow> bool" where
  "name_ok s \<longleftrightarrow> s \<noteq> [] \<and> length s \<le> 64 \<and> set s \<subseteq> set name_chars \<and> \<not> sublist ''..'' s"

lemma validateName_None: "validateName s f = None \<longleftrightarrow> name_ok s"
  by (auto simp: validateName_def validNameRegex_def name_ok_def contains_sublist list_all_iff Suc_le_eq)

subsection \<open>Custom models and aliases\<close>

record CustomModel =
  cm_Upstream :: string
  cm_ModelName :: string
  cm_OwnedBy :: string

record CustomRegistry =
  cr_models :: "string \<rightharpoonup> CustomModel"
  cr_aliases :: "string \<rightharpoonup> string"

definition NewCustomRegistry :: CustomRegistry where
  "NewCustomRegistry = \<lparr>cr_models = Map.empty, cr_aliases = Map.empty\<rparr>"

text \<open>The answer of a store write: \<open>None\<close> without a store, otherwise the error it returned, if any.\<close>

type_synonym write_result = "go_error option option"

definition write_error :: "write_result \<Rightarrow> go_error option" where
  "write_error r = (case r of None \<Rightarrow> None | Some e \<Rightarrow> e)"

definition LoadCustom ::
  "((go_error + (string \<rightharpoonup> CustomModel)) \<times> (go_error + (string \<rightharpoonup> string))) option
    \<Rightarrow> CustomRegistry \<Rightarrow> go_error option \<times> CustomRegistry" where
  "LoadCustom st r =
     (case st of
        None \<Rightarrow> (None, r)
      | Some (Inl e, _) \<Rightarrow> (Some e, r)
      | Some (Inr _, Inl e) \<Rightarrow> (Some e, r)
      | Some (Inr ms, Inr as) \<Rightarrow> (None, r\<lparr>cr_models := ms, cr_aliases := as\<rparr>))"

definition ResolveCustom :: "CustomRegistry \<Rightarrow> string \<Rightarrow> string \<times> string \<times> string" where
  "ResolveCustom r model =
     (let resolved = (case cr_aliases r model of
                        Some target \<Rightarrow> if target \<noteq> [] then target else model
                      | None \<Rightarrow> model)
      in case cr_models r resolved of
           Some cm \<Rightarrow> (resolved, cm_Upstream cm, cm_ModelName cm)
         | None \<Rightarrow> (resolved, [], []))"

definition normalise_model :: "string \<Rightarrow> CustomModel \<Rightarrow> CustomModel" where
  "normalise_model i0 cm0 =
     (let i = TrimSpace i0;
          cm = \<lparr>cm_Upstream = TrimSpace (cm_Upstream cm0), cm_ModelName = TrimSpace (cm_ModelName cm0),
                cm_OwnedBy = TrimSpace (cm_OwnedBy cm0)\<rparr>;
          cm1 = (if cm_ModelName cm = []
                 then cm\<lparr>cm_ModelName := (if cm_Upstream cm = ''codebuddy'' then trim_prefix ''cb/'' i else i)\<rparr>
                 else cm)
      in if cm_OwnedBy cm1 = [] then cm1\<lparr>cm_OwnedBy := cm_Upstream cm1\<rparr> else cm1)"

definition AddModel ::
  "write_result \<Rightarrow> string \<Rightarrow> CustomModel \<Rightarrow> CustomRegistry \<Rightarrow> registry_error option \<times> CustomRegistry" where
  "AddModel st i0 cm0 r =
     (let i = TrimSpace i0; cm = normalise_model i0 cm0
      in case validateName i ''id'' of
           Some e \<Rightarrow> (Some e, r)
         | None \<Rightarrow>
             if cm_Upstream cm \<notin> {''codebuddy'', ''grok''} then (Some BadUpstreamName, r)
             else (case write_error st of
                     Some e \<Rightarrow> (Some (StoreError e), r)
                   | None \<Rightarrow> (None, r\<lparr>cr_models := (cr_models r)(i \<mapsto> cm)\<rparr>)))"

definition DeleteModel :: "write_result \<Rightarrow> string \<Rightarrow> CustomRegistry \<Rightarrow> registry_error option \<times> CustomRegistry" where
  "DeleteModel st i r =
     (case write_error st of
        Some e \<Rightarrow> (Some (StoreError e), r)
      | None \<Rightarrow> (None, r\<lparr>cr_models := (cr_models r)(i := None)\<rparr>))"

definition AddAlias ::
  "write_result \<Rightarrow> string \<Rightarrow> string \<Rightarrow> CustomRegistry \<Rightarrow> registry_error option \<times> CustomRegistry" where
  "AddAlias st alias0 target0 r =
     (let alias = TrimSpace alias0; target = TrimSpace target0
      in case validateName alias ''alias'' of
           Some e \<Rightarrow> (Some e, r)
         | None \<Rightarrow>
             (case validateName target ''target'' of
                Some e \<Rightarrow> (Some e, r)
              | None \<Rightarrow>
                  if alias = target then (Some SelfAlias, r)
                  else (case write_error st of
                          Some e \<Rightarrow> (Some (StoreError e), r)
                        | None \<Rightarrow> (None, r\<lparr>cr_aliases := (cr_aliases r)(alias \<mapsto> target)\<rparr>))))"

definition DeleteAlias :: "write_result \<Rightarrow> string \<Rightarrow> CustomRegistry \<Rightarrow> registry_error option \<times> CustomRegistry" where
  "DeleteAlias st alias r =
     (case write_error st of
        Some e \<Rightarrow> (Some (StoreError e), r)
      | None \<Rightarrow> (None, r\<lparr>cr_aliases := (cr_aliases r)(alias := None)\<rparr>))"

subsection \<open>Combos\<close>

record Combo =
  co_Name :: string
  co_Strategy :: string
  co_Models :: "string list"
  co_Description :: string

text \<open>
  The combo cache together with the process-wide counters of \<^verbatim>\<open>fallbackCounter\<close>, a Go
  \<^verbatim>\<open>map[string]int64\<close>.
\<close>

record ComboRegistry =
  combos :: "string \<rightharpoonup> Combo"
  fallbackSeq :: "string \<Rightarrow> 64 word"

definition NewComboRegistry :: ComboRegistry where
  "NewComboRegistry = \<lparr>combos = Map.empty, fallbackSeq = (\<lambda>_. 0)\<rparr>"

definition LoadCombos :: "(go_error + (string \<rightharpoonup> Combo)) option \<Rightarrow> ComboRegistry \<Rightarrow> go_error option \<times> ComboRegistry" where
  "LoadCombos st r =
     (case st of
        None \<Rightarrow> (None, r)
      | Some (Inl e) \<Rightarrow> (Some e, r)
      | Some (Inr cs) \<Rightarrow> (None, r\<lparr>combos := cs\<rparr>))"

definition fallbackCounter :: "string \<Rightarrow> ComboRegistry \<Rightarrow> 64 word \<times> ComboRegistry" where
  "fallbackCounter name r =
     (let v = fallbackSeq r name + 1 in (v, r\<lparr>fallbackSeq := (fallbackSeq r)(name := v)\<rparr>))"

text \<open>The counter used by \<^verbatim>\<open>Resolve\<close>: the shared one unless it is missing, failed or zero.\<close>

definition combo_counter :: "(go_error + 64 word) option \<Rightarrow> string \<Rightarrow> ComboRegistry \<Rightarrow> 64 word \<times> ComboRegistry" where
  "combo_counter incr name r =
     (let counter = (case incr of Some (Inr v) \<Rightarrow> v | _ \<Rightarrow> 0)
      in if counter = 0 then fallbackCounter name r else (counter, r))"

definition ResolveCombo ::
  "(go_error + 64 word) option \<Rightarrow> string \<Rightarrow> ComboRegistry \<Rightarrow> string option \<times> ComboRegistry" where
  "ResolveCombo incr model r =
     (if \<not> prefix ''combo/'' model then (None, r)
      else let name = trim_prefix ''combo/'' model
           in case combos r name of
                None \<Rightarrow> (None, r)
              | Some c \<Rightarrow>
                  if co_Models c = [] then (None, r)
                  else if co_Strategy c = ''round_robin''
                  then (let (counter, r1) = combo_counter incr name r
                        in (Some (co_Models c ! rr_index_signed counter (length (co_Models c))), r1))
                  else (Some (co_Models c ! 0), r))"

fun after_in :: "string \<Rightarrow> string list \<Rightarrow> string option" where
  "after_in m (x # y # rest) = (if x = m then Some y else after_in m (y # rest))"
| "after_in m _ = None"

definition NextInFallback :: "string \<Rightarrow> string \<Rightarrow> ComboRegistry \<Rightarrow> string option" where
  "NextInFallback name failedModel r =
     (case combos r name of
        None \<Rightarrow> None
      | Some c \<Rightarrow> if co_Strategy c \<noteq> ''fallback'' \<or> co_Models c = [] then None
                 else after_in failedModel (co_Models c))"

definition GetCombo :: "string \<Rightarrow> ComboRegistry \<Rightarrow> Combo option" where
  "GetCombo name r = combos r name"

definition normalise_combo :: "Combo \<Rightarrow> Combo" where
  "normalise_combo c =
     \<lparr>co_Name = TrimSpace (co_Name c),
      co_Strategy = (if TrimSpace (co_Strategy c) = [] then ''fallback'' else TrimSpace (co_Strategy c)),
      co_Models = filter (\<lambda>m. m \<noteq> []) (map TrimSpace (co_Models c)),
      co_Description = TrimSpace (co_Description c)\<rparr>"

definition AddCombo :: "write_result \<Rightarrow> Combo \<Rightarrow> ComboRegistry \<Rightarrow> registry_error option \<times> ComboRegistry" where
  "AddCombo st c0 r =
     (let c = normalise_combo c0
      in case validateName (co_Name c) ''name'' of
           Some e \<Rightarrow> (Some e, r)
         | None \<Rightarrow>
             if prefix ''combo/'' (co_Name c) then (Some ComboPrefix, r)
             else if co_Strategy c \<notin> {''fallback'', ''round_robin''} then (Some BadStrategy, r)
             else if length (co_Models c) > 32 then (Some (TooManyModels (length (co_Models c))), r)
             else if co_Models c = [] then (Some NoModels, r)
             else (case write_error st of
                     Some e \<Rightarrow> (Some (StoreError e), r)
                   | None \<Rightarrow> (None, r\<lparr>combos := (combos r)(co_Name c \<mapsto> c)\<rparr>)))"

definition DeleteCombo :: "write_result \<Rightarrow> string \<Rightarrow> ComboRegistry \<Rightarrow> registry_error option \<times> ComboRegistry" where
  "DeleteCombo st name0 r =
     (let name = TrimSpace name0
      in if name = [] then (Some (Required ''name''), r)
         else case write_error st of
                Some e \<Rightarrow> (Some (StoreError e), r)
              | None \<Rightarrow> (None, r\<lparr>combos := (combos r)(name := None)\<rparr>))"

subsection \<open>What a registry promises\<close>

text \<open>
  A keyed store with validation: an accepted write makes exactly one key map to a normalised value
  of the accepted shape, an accepted removal makes exactly one key unmapped, and a refused
  operation changes nothing.
\<close>

datatype ('k, 'v) reg_op = Put write_result 'k 'v | Rem write_result 'k

locale registry =
  fixes put :: "write_result \<Rightarrow> 'k \<Rightarrow> 'v \<Rightarrow> 's \<Rightarrow> registry_error option \<times> 's"
    and rem :: "write_result \<Rightarrow> 'k \<Rightarrow> 's \<Rightarrow> registry_error option \<times> 's"
    and look :: "'s \<Rightarrow> 'k \<rightharpoonup> 'v"
    and wf :: "'k \<Rightarrow> 'v \<Rightarrow> bool"
  assumes put_ok: "put w k v s = (None, s') \<Longrightarrow> \<exists>k' v'. look s' = (look s)(k' \<mapsto> v') \<and> wf k' v'"
    and put_err: "put w k v s = (Some e, s') \<Longrightarrow> s' = s"
    and rem_ok: "rem w k s = (None, s') \<Longrightarrow> \<exists>k'. look s' = (look s)(k' := None)"
    and rem_err: "rem w k s = (Some e, s') \<Longrightarrow> s' = s"
begin

fun reg_apply :: "('k, 'v) reg_op \<Rightarrow> 's \<Rightarrow> 's" where
  "reg_apply (Put w k v) s = snd (put w k v s)"
| "reg_apply (Rem w k) s = snd (rem w k s)"

definition all_wf :: "'s \<Rightarrow> bool" where
  "all_wf s \<longleftrightarrow> (\<forall>k v. look s k = Some v \<longrightarrow> wf k v)"

lemma put_wf: "all_wf s \<Longrightarrow> all_wf (snd (put w k v s))"
proof (cases "put w k v s")
  case (Pair e s')
  assume ok: "all_wf s"
  show ?thesis
  proof (cases e)
    case None
    then obtain k' v' where "look s' = (look s)(k' \<mapsto> v')" "wf k' v'" using put_ok Pair by blast
    then show ?thesis using ok Pair by (auto simp: all_wf_def)
  qed (use ok Pair put_err [of w k v s] in auto)
qed

lemma rem_wf: "all_wf s \<Longrightarrow> all_wf (snd (rem w k s))"
proof (cases "rem w k s")
  case (Pair e s')
  assume ok: "all_wf s"
  show ?thesis
  proof (cases e)
    case None
    then obtain k' where "look s' = (look s)(k' := None)" using rem_ok Pair by blast
    then show ?thesis using ok Pair by (auto simp: all_wf_def)
  qed (use ok Pair rem_err [of w k s] in auto)
qed

lemma apply_wf: "all_wf s \<Longrightarrow> all_wf (reg_apply x s)"
  by (cases x) (simp_all add: put_wf rem_wf)

lemma run_wf: "all_wf s \<Longrightarrow> all_wf (fold reg_apply ops s)"
  by (induction ops arbitrary: s) (auto simp: apply_wf)

end

definition model_wf :: "string \<Rightarrow> CustomModel \<Rightarrow> bool" where
  "model_wf i cm \<longleftrightarrow> name_ok i \<and> cm_Upstream cm \<in> {''codebuddy'', ''grok''} \<and> cm_OwnedBy cm \<noteq> []
     \<and> (cm_ModelName cm = [] \<longrightarrow> i = ''cb/'' \<and> cm_Upstream cm = ''codebuddy'')"

definition alias_wf :: "string \<Rightarrow> string \<Rightarrow> bool" where
  "alias_wf a t \<longleftrightarrow> name_ok a \<and> name_ok t \<and> a \<noteq> t"

definition combo_wf :: "string \<Rightarrow> Combo \<Rightarrow> bool" where
  "combo_wf n c \<longleftrightarrow> co_Name c = n \<and> name_ok n \<and> \<not> prefix ''combo/'' n
     \<and> co_Strategy c \<in> {''fallback'', ''round_robin''}
     \<and> 1 \<le> length (co_Models c) \<and> length (co_Models c) \<le> 32
     \<and> (\<forall>m \<in> set (co_Models c). m \<noteq> [] \<and> TrimSpace m = m)"

lemma trim_cb_empty: "trim_prefix ''cb/'' i = [] \<Longrightarrow> i \<noteq> [] \<Longrightarrow> i = ''cb/''"
  by (auto simp: trim_prefix_def prefix_def split: if_splits)

lemma normalise_model_wf:
  "name_ok (TrimSpace i) \<Longrightarrow> cm_Upstream (normalise_model i cm) \<in> {''codebuddy'', ''grok''}
    \<Longrightarrow> model_wf (TrimSpace i) (normalise_model i cm)"
  by (auto simp: model_wf_def normalise_model_def Let_def name_ok_def dest: trim_cb_empty split: if_splits)

interpretation mr: registry AddModel DeleteModel cr_models model_wf
proof unfold_locales
  fix w i cm r r'
  show "\<exists>k' v'. cr_models r' = (cr_models r)(k' \<mapsto> v') \<and> model_wf k' v'" if "AddModel w i cm r = (None, r')"
    using that
    by (intro exI [of _ "TrimSpace i"] exI [of _ "normalise_model i cm"])
       (auto simp: AddModel_def Let_def validateName_None intro!: normalise_model_wf split: option.splits if_splits)
  show "\<exists>k'. cr_models r' = (cr_models r)(k' := None)" if "DeleteModel w i r = (None, r')"
    using that by (auto simp: DeleteModel_def split: option.splits)
qed (auto simp: AddModel_def DeleteModel_def Let_def split: option.splits if_splits)

interpretation ar: registry AddAlias DeleteAlias cr_aliases alias_wf
proof unfold_locales
  fix w a t r r'
  show "\<exists>k' v'. cr_aliases r' = (cr_aliases r)(k' \<mapsto> v') \<and> alias_wf k' v'" if "AddAlias w a t r = (None, r')"
    using that
    by (intro exI [of _ "TrimSpace a"] exI [of _ "TrimSpace t"])
       (auto simp: AddAlias_def Let_def validateName_None alias_wf_def split: option.splits if_splits)
  show "\<exists>k'. cr_aliases r' = (cr_aliases r)(k' := None)" if "DeleteAlias w a r = (None, r')"
    using that by (auto simp: DeleteAlias_def split: option.splits)
qed (auto simp: AddAlias_def DeleteAlias_def Let_def split: option.splits if_splits)

interpretation co: registry "\<lambda>w (_ :: string). AddCombo w" DeleteCombo combos combo_wf
proof unfold_locales
  fix w c r r' and n :: string
  show "\<exists>k' v'. combos r' = (combos r)(k' \<mapsto> v') \<and> combo_wf k' v'" if "AddCombo w c r = (None, r')"
    using that
    by (intro exI [of _ "TrimSpace (co_Name c)"] exI [of _ "normalise_combo c"])
       (auto simp: AddCombo_def Let_def validateName_None combo_wf_def normalise_combo_def Suc_le_eq
         filter_map comp_def split: option.splits if_splits)
  show "\<exists>k'. combos r' = (combos r)(k' := None)" if "DeleteCombo w n r = (None, r')"
    using that by (auto simp: DeleteCombo_def Let_def split: option.splits if_splits)
qed (auto simp: AddCombo_def DeleteCombo_def Let_def split: option.splits if_splits)

subsection \<open>Runs and resolution\<close>

datatype combo_event =
    CAdd write_result Combo | CDelete write_result string | CResolve "(go_error + 64 word) option" string

fun combo_apply :: "combo_event \<Rightarrow> ComboRegistry \<Rightarrow> ComboRegistry" where
  "combo_apply (CAdd w c) r = snd (AddCombo w c r)"
| "combo_apply (CDelete w n) r = snd (DeleteCombo w n r)"
| "combo_apply (CResolve incr m) r = snd (ResolveCombo incr m r)"

lemma combo_counter_combos [simp]: "combos (snd (combo_counter incr n r)) = combos r"
  by (simp add: combo_counter_def fallbackCounter_def Let_def)

lemma ResolveCombo_combos [simp]: "combos (snd (ResolveCombo incr m r)) = combos r"
  by (auto simp: ResolveCombo_def Let_def split_beta split: option.splits)

lemma combo_apply_wf: "co.all_wf r \<Longrightarrow> co.all_wf (combo_apply ev r)"
proof (cases ev)
  case (CResolve incr m)
  then show "co.all_wf r \<Longrightarrow> ?thesis" by (simp add: co.all_wf_def)
qed (simp_all add: co.put_wf co.rem_wf)

lemma combo_run_wf: "co.all_wf r \<Longrightarrow> co.all_wf (fold combo_apply es r)"
  by (induction es arbitrary: r) (auto simp: combo_apply_wf)

lemma ResolveCombo_at:
  "ResolveCombo incr (''combo/'' @ n) r =
     (case combos r n of
        None \<Rightarrow> (None, r)
      | Some c \<Rightarrow>
          if co_Models c = [] then (None, r)
          else if co_Strategy c = ''round_robin''
          then (let (counter, r1) = combo_counter incr n r
                in (Some (co_Models c ! rr_index_signed counter (length (co_Models c))), r1))
          else (Some (co_Models c ! 0), r))"
  by (simp add: ResolveCombo_def trim_prefix_def Let_def)

lemma ResolveCombo_hit:
  assumes "combos r n = Some c" and "co_Models c \<noteq> []"
  shows "\<exists>m \<in> set (co_Models c). fst (ResolveCombo incr (''combo/'' @ n) r) = Some m"
proof -
  have "rr_index_signed v (length (co_Models c)) < length (co_Models c)" for v
    using assms(2) by (intro rr_index_signed_less) simp
  then show ?thesis using assms by (auto simp only: ResolveCombo_at) (simp_all add: Let_def split_beta)
qed

text \<open>
  C33: Through any history of adding, deleting and resolving combos, every cached combo has a valid
  name outside the reserved prefix, a known strategy and 1 to 32 trimmed, non-empty models; and
  resolving \<^verbatim>\<open>combo/<name>\<close> yields one of its models for every value of the shared counter,
  negative and wrapped ones included, while an unknown name is not resolved.
\<close>

theorem combo_resolves:
  "let r = fold combo_apply es NewComboRegistry; res = fst (ResolveCombo incr (''combo/'' @ n) r)
   in case combos r n of
        None \<Rightarrow> res = None
      | Some c \<Rightarrow> combo_wf n c \<and> (\<exists>m \<in> set (co_Models c). m \<noteq> [] \<and> res = Some m)"
proof -
  let ?r = "fold combo_apply es NewComboRegistry"
  have wf: "co.all_wf ?r"
    by (rule combo_run_wf) (simp add: co.all_wf_def NewComboRegistry_def)
  show ?thesis
  proof (cases "combos ?r n")
    case None
    then show ?thesis by (simp only: ResolveCombo_at Let_def) simp
  next
    case (Some c)
    with wf have c: "combo_wf n c" by (simp add: co.all_wf_def)
    then have "co_Models c \<noteq> []" by (auto simp: combo_wf_def)
    from ResolveCombo_hit [OF Some this, of incr] obtain m where
      m: "m \<in> set (co_Models c)" "fst (ResolveCombo incr (''combo/'' @ n) ?r) = Some m" by blast
    then have "m \<noteq> []" using c by (auto simp: combo_wf_def)
    with m c Some show ?thesis unfolding Let_def by (simp only: option.case) blast
  qed
qed

lemma rr_index_signed_Suc: "k < 2 ^ 63 \<Longrightarrow> rr_index_signed (word_of_nat (Suc k)) n = k mod n"
proof -
  assume k: "k < 2 ^ 63"
  have "sint (word_of_nat (Suc k) - 1 :: 64 word) = int k"
    using k by (simp add: signed_of_nat signed_take_bit_int_eq_self)
  then show ?thesis by (simp add: rr_index_signed_def go_rem_def sgn_if Let_def zmod_int [symmetric])
qed

text \<open>
  Round robin over the shared counter is fair: as many consecutive counter values as the combo
  has models visit every model exactly once, in order, starting at the counter.
\<close>

theorem combo_round_robin:
  assumes "combos r n = Some c" and "co_Strategy c = ''round_robin''" and "co_Models c \<noteq> []"
    and "k + length (co_Models c) < 2 ^ 63"
  shows "map (\<lambda>i. fst (ResolveCombo (Some (Inr (word_of_nat (Suc (k + i))))) (''combo/'' @ n) r)) [0..<length (co_Models c)]
           = map Some (rotate k (co_Models c))"
proof -
  let ?ms = "co_Models c"
  have step: "fst (ResolveCombo (Some (Inr (word_of_nat (Suc (k + i))))) (''combo/'' @ n) r)
      = Some (?ms ! ((k + i) mod length ?ms))" if "i < length ?ms" for i
  proof -
    have lt: "Suc (k + i) < 2 ^ 64" "k + i < 2 ^ 63" using that assms(4) by auto
    then have "word_of_nat (Suc (k + i)) \<noteq> (0 :: 64 word)"
      by (simp add: word_of_nat_eq_0_iff nat_dvd_not_less del: of_nat_Suc)
    then have "combo_counter (Some (Inr (word_of_nat (Suc (k + i))))) n r = (word_of_nat (Suc (k + i)), r)"
      by (simp add: combo_counter_def del: of_nat_Suc)
    then show ?thesis
      using assms rr_index_signed_Suc [OF lt(2), of "length ?ms"]
      by (simp only: ResolveCombo_at option.case if_False if_True Let_def split) simp
  qed
  have "map (\<lambda>i. ?ms ! ((k + i) mod length ?ms)) [0..<length ?ms] = rotate k ?ms"
    by (rule nth_equalityI) (auto simp: nth_rotate)
  moreover have "map (\<lambda>i. fst (ResolveCombo (Some (Inr (word_of_nat (Suc (k + i))))) (''combo/'' @ n) r)) [0..<length ?ms]
      = map Some (map (\<lambda>i. ?ms ! ((k + i) mod length ?ms)) [0..<length ?ms])"
    unfolding map_map comp_def by (rule map_cong [OF refl]) (simp only: step set_upt atLeastLessThan_iff)
  ultimately show ?thesis by simp
qed

definition ex_combos :: ComboRegistry where
  "ex_combos = NewComboRegistry\<lparr>combos := [''team'' \<mapsto>
     \<lparr>co_Name = ''team'', co_Strategy = ''round_robin'', co_Models = [''cb/a'', ''grok-4'', ''cb/b''], co_Description = []\<rparr>]\<rparr>"

theorem combo_round_robin_witness:
  "map (\<lambda>i. fst (ResolveCombo (Some (Inr (word_of_nat (Suc (4 + i))))) (''combo/'' @ ''team'') ex_combos))
     [0..<length [''cb/a'', ''grok-4'', ''cb/b'']] = map Some (rotate 4 [''cb/a'', ''grok-4'', ''cb/b''])"
  using combo_round_robin [of ex_combos "''team''"
    "\<lparr>co_Name = ''team'', co_Strategy = ''round_robin'', co_Models = [''cb/a'', ''grok-4'', ''cb/b''], co_Description = []\<rparr>" 4]
  by (simp add: ex_combos_def del: append_Cons)

text \<open>
  What an administrator registers is what a request resolves to, one alias hop deep: after a
  custom model and an alias to it were accepted, the alias resolves to the model's identifier with
  its upstream and upstream name; the alias table is consulted once, so an alias to an alias stops
  at the intermediate name.
\<close>

theorem custom_resolves:
  assumes "AddModel w1 i cm r = (None, r1)" and "AddAlias w2 a i r1 = (None, r2)"
    and "AddAlias w3 b a r2 = (None, r3)" and "cr_aliases r = Map.empty" and "cr_models r = Map.empty"
  shows "ResolveCustom r3 (TrimSpace a) =
           (TrimSpace i, cm_Upstream (normalise_model i cm), cm_ModelName (normalise_model i cm))
         \<and> cm_Upstream (normalise_model i cm) \<in> {''codebuddy'', ''grok''}
         \<and> (TrimSpace b \<noteq> TrimSpace a \<and> (ResolveCustom r3 (TrimSpace b) = (TrimSpace a, [], [])))"
proof -
  have m: "cr_models r3 = [TrimSpace i \<mapsto> normalise_model i cm]" "cm_Upstream (normalise_model i cm) \<in> {''codebuddy'', ''grok''}"
    using assms by (auto simp: AddModel_def AddAlias_def Let_def split: option.splits if_splits)
  have a: "cr_aliases r3 = [TrimSpace a \<mapsto> TrimSpace i, TrimSpace b \<mapsto> TrimSpace a]"
    "TrimSpace a \<noteq> TrimSpace i" "TrimSpace b \<noteq> TrimSpace a" "TrimSpace a \<noteq> []" "TrimSpace i \<noteq> []"
    using assms by (auto simp: AddModel_def AddAlias_def Let_def validateName_None name_ok_def split: option.splits if_splits)
  show ?thesis using m a by (auto simp: ResolveCustom_def Let_def)
qed

lemma trim_words: "TrimSpace ''cb/k3'' = ''cb/k3''" "TrimSpace ''mine'' = ''mine''" "TrimSpace ''ours'' = ''ours''"
  "TrimSpace ''codebuddy'' = ''codebuddy''" "TrimSpace ''cb/'' = ''cb/''" "TrimSpace [] = []"
  by (simp_all add: TrimSpace_def trim_by.simps seq_len_def space_seqs_def)

definition ex_model :: CustomModel where
  "ex_model = \<lparr>cm_Upstream = ''codebuddy'', cm_ModelName = [], cm_OwnedBy = []\<rparr>"

definition ex_custom :: CustomRegistry where
  "ex_custom = snd (AddAlias None ''ours'' ''mine'' (snd (AddAlias None ''mine'' ''cb/k3''
     (snd (AddModel None ''cb/k3'' ex_model NewCustomRegistry)))))"

theorem custom_resolves_witness:
  "ResolveCustom ex_custom ''mine'' = (''cb/k3'', ''codebuddy'', ''k3'')
   \<and> ResolveCustom ex_custom ''ours'' = (''mine'', [], [])"
proof -
  note ev = AddModel_def AddAlias_def Let_def validateName_def validNameRegex_def name_chars_def write_error_def
    trim_words normalise_model_def ex_model_def trim_prefix_def NewCustomRegistry_def
  have 1: "AddModel None ''cb/k3'' ex_model NewCustomRegistry
      = (None, snd (AddModel None ''cb/k3'' ex_model NewCustomRegistry))"
    by (simp add: ev)
  have 2: "AddAlias None ''mine'' ''cb/k3'' r = (None, snd (AddAlias None ''mine'' ''cb/k3'' r))" for r
    by (simp add: ev)
  have 3: "AddAlias None ''ours'' ''mine'' r = (None, snd (AddAlias None ''ours'' ''mine'' r))" for r
    by (simp add: ev)
  show ?thesis
    using custom_resolves [OF 1 2 3]
    by (simp add: ex_custom_def NewCustomRegistry_def trim_words normalise_model_def ex_model_def trim_prefix_def Let_def)
qed

text \<open>
  The default model name can be empty. Registering the identifier \<^verbatim>\<open>cb/\<close> for CodeBuddy without
  a model name is accepted, and the name derived by stripping the prefix is the empty string.
\<close>

theorem cb_slash_has_no_name:
  "AddModel w ''cb/'' \<lparr>cm_Upstream = ''codebuddy'', cm_ModelName = [], cm_OwnedBy = []\<rparr> NewCustomRegistry
     = (case write_error w of
          Some e \<Rightarrow> (Some (StoreError e), NewCustomRegistry)
        | None \<Rightarrow> (None, NewCustomRegistry\<lparr>cr_models := [''cb/'' \<mapsto>
            \<lparr>cm_Upstream = ''codebuddy'', cm_ModelName = [], cm_OwnedBy = ''codebuddy''\<rparr>]\<rparr>))"
  by (simp add: AddModel_def Let_def validateName_def validNameRegex_def name_chars_def trim_words
      normalise_model_def trim_prefix_def NewCustomRegistry_def split: option.splits)

subsection \<open>The fallback chain\<close>

text \<open>\<open>chain\<close> follows \<^verbatim>\<open>NextInFallback\<close> for at most \<open>k\<close> hops.\<close>

fun chain :: "nat \<Rightarrow> string \<Rightarrow> string \<Rightarrow> ComboRegistry \<Rightarrow> string list" where
  "chain 0 name m r = [m]"
| "chain (Suc k) name m r = (case NextInFallback name m r of None \<Rightarrow> [m] | Some m' \<Rightarrow> m # chain k name m' r)"

lemma after_in_split: "m \<notin> set xs \<Longrightarrow> after_in m (xs @ m # y # ys) = Some y"
  by (induction xs rule: induct_list012) auto

lemma after_in_last: "m \<notin> set xs \<Longrightarrow> after_in m (xs @ [m]) = None"
  by (induction xs rule: induct_list012) auto

lemma chain_suffix:
  assumes "combos r name = Some c" and "co_Strategy c = ''fallback''" and "co_Models c = xs @ m # ys"
    and "distinct (co_Models c)" and "length ys \<le> k"
  shows "chain k name m r = m # ys"
  using assms(3,5)
proof (induction ys arbitrary: xs m k)
  case Nil
  then have "NextInFallback name m r = None"
    using assms(1,2,4) after_in_last [of m xs] by (simp add: NextInFallback_def)
  then show ?case by (cases k) simp_all
next
  case (Cons y ys)
  then have "NextInFallback name m r = Some y"
    using assms(1,2,4) after_in_split [of m xs y ys] by (simp add: NextInFallback_def)
  moreover obtain k' where "k = Suc k'" using Cons.prems by (cases k) auto
  ultimately show ?case using Cons.IH [of "xs @ [m]" y k'] Cons.prems by simp
qed

text \<open>
  Following \<^verbatim>\<open>NextInFallback\<close> from the model that \<^verbatim>\<open>Resolve\<close> returns visits the models of a
  fallback combo in order, each once, and then stops, when the list has no duplicates.
\<close>

theorem fallback_chain_complete:
  assumes "combos r n = Some c" and "co_Strategy c = ''fallback''" and "distinct (co_Models c)"
    and "fst (ResolveCombo incr (''combo/'' @ n) r) = Some m" and "length (co_Models c) \<le> k"
  shows "chain k n m r = co_Models c"
proof (cases "co_Models c")
  case Nil
  then show ?thesis using assms(1,4) by (simp only: ResolveCombo_at) simp
next
  case (Cons x xs)
  then have "m = x" using assms(1,2,4) by (simp only: ResolveCombo_at) simp
  then show ?thesis using chain_suffix [OF assms(1,2), of "[]" x xs k] Cons assms(3,5) by simp
qed

definition ex_fallback :: "string list \<Rightarrow> ComboRegistry" where
  "ex_fallback ms = NewComboRegistry\<lparr>combos := [''f'' \<mapsto>
     \<lparr>co_Name = ''f'', co_Strategy = ''fallback'', co_Models = ms, co_Description = []\<rparr>]\<rparr>"

theorem fallback_chain_complete_witness:
  "chain 9 ''f'' ''a'' (ex_fallback [''a'', ''b'', ''c'']) = [''a'', ''b'', ''c'']"
  using fallback_chain_complete [of "ex_fallback [''a'', ''b'', ''c'']" "''f''"
      "\<lparr>co_Name = ''f'', co_Strategy = ''fallback'', co_Models = [''a'', ''b'', ''c''], co_Description = []\<rparr>" None "''a''" 9]
    ResolveCombo_at [of None "''f''"]
  by (simp add: ex_fallback_def del: chain.simps)

text \<open>
  With a duplicate in the list, which \<^verbatim>\<open>AddCombo\<close> accepts, the chain never reaches the models
  after it: it alternates for ever.
\<close>

theorem fallback_chain_duplicate_loops:
  "fst (AddCombo None \<lparr>co_Name = ''f'', co_Strategy = ''fallback'', co_Models = [''a'', ''b'', ''a'', ''c''], co_Description = []\<rparr> r) = None
   \<and> ''c'' \<notin> set (chain k ''f'' ''a'' (ex_fallback [''a'', ''b'', ''a'', ''c'']))
   \<and> length (chain k ''f'' ''a'' (ex_fallback [''a'', ''b'', ''a'', ''c''])) = Suc k"
proof -
  let ?r = "ex_fallback [''a'', ''b'', ''a'', ''c'']"
  have next': "NextInFallback ''f'' ''a'' ?r = Some ''b''" "NextInFallback ''f'' ''b'' ?r = Some ''a''"
    by (simp_all add: NextInFallback_def ex_fallback_def)
  define r' where "r' = ?r"
  have steps: "NextInFallback ''f'' ''a'' r' = Some ''b''" "NextInFallback ''f'' ''b'' r' = Some ''a''"
    using next' by (simp_all add: r'_def)
  have "(''c'' \<notin> set (chain k ''f'' ''a'' r') \<and> length (chain k ''f'' ''a'' r') = Suc k)
      \<and> (''c'' \<notin> set (chain k ''f'' ''b'' r') \<and> length (chain k ''f'' ''b'' r') = Suc k)" for k
    by (induction k) (simp_all add: steps)
  then have "''c'' \<notin> set (chain k ''f'' ''a'' ?r) \<and> length (chain k ''f'' ''a'' ?r) = Suc k"
    unfolding r'_def by blast
  moreover have "TrimSpace ''f'' = ''f''" "TrimSpace ''fallback'' = ''fallback''" "TrimSpace ''a'' = ''a''"
    "TrimSpace ''b'' = ''b''" "TrimSpace ''c'' = ''c''"
    by (simp_all add: TrimSpace_def trim_by.simps seq_len_def space_seqs_def)
  ultimately show ?thesis
    by (simp add: AddCombo_def Let_def normalise_combo_def validateName_def validNameRegex_def name_chars_def write_error_def)
qed

end
