(* ===== verification/Json.thy ===== *)
theory Json
  imports Fox_Prelude
begin

text \<open>
  Decoded JSON values as \<^verbatim>\<open>encoding/json\<close> produces them in an \<^verbatim>\<open>any\<close>: an object is a
  \<^verbatim>\<open>map[string]any\<close>, kept as an association list that is only read and written through
  \<open>map_of\<close>, \<open>AList.update\<close> and \<open>AList.delete\<close>, so that its order carries no meaning. Numbers
  are rational. A request body is the decoded value, or \<open>None\<close> when the bytes are not JSON.
\<close>

datatype json =
    JNull | JBool bool | JNum rat | JStr string | JArr "json list" | JObj "(string \<times> json) list"

type_synonym fields = "(string \<times> json) list"

definition jstr :: "fields \<Rightarrow> string \<Rightarrow> string option" where
  "jstr m k = (case map_of m k of Some (JStr s) \<Rightarrow> Some s | _ \<Rightarrow> None)"

definition jnum :: "fields \<Rightarrow> string \<Rightarrow> rat option" where
  "jnum m k = (case map_of m k of Some (JNum n) \<Rightarrow> Some n | _ \<Rightarrow> None)"

definition jarr :: "fields \<Rightarrow> string \<Rightarrow> json list option" where
  "jarr m k = (case map_of m k of Some (JArr xs) \<Rightarrow> Some xs | _ \<Rightarrow> None)"

definition jobj :: "fields \<Rightarrow> string \<Rightarrow> fields option" where
  "jobj m k = (case map_of m k of Some (JObj o') \<Rightarrow> Some o' | _ \<Rightarrow> None)"

text \<open>
  Decoding into a variable of type \<^verbatim>\<open>map[string]any\<close>: an object gives its map, \<^verbatim>\<open>null\<close> leaves the
  map nil (reading it is fine, writing to it panics), anything else is an error.
\<close>

datatype map_result = MErr | MNil | MOk fields

definition as_map :: "json option \<Rightarrow> map_result" where
  "as_map b = (case b of Some (JObj m) \<Rightarrow> MOk m | Some JNull \<Rightarrow> MNil | _ \<Rightarrow> MErr)"

lemma jstr_update [simp]: "jstr (AList.update k v m) k' = (if k' = k then (case v of JStr s \<Rightarrow> Some s | _ \<Rightarrow> None) else jstr m k')"
  by (simp add: jstr_def update_conv')

lemma jarr_update [simp]: "jarr (AList.update k v m) k' = (if k' = k then (case v of JArr s \<Rightarrow> Some s | _ \<Rightarrow> None) else jarr m k')"
  by (simp add: jarr_def update_conv')

lemma jstr_delete [simp]: "jstr (AList.delete k m) k' = (if k' = k then None else jstr m k')"
  by (simp add: jstr_def delete_conv')

lemma jarr_delete [simp]: "jarr (AList.delete k m) k' = (if k' = k then None else jarr m k')"
  by (simp add: jarr_def delete_conv')

subsection \<open>Decoding into a struct\<close>

text \<open>
  Decoding a field of a struct fails when the JSON value has the wrong type; null and absent fields
  leave the zero value. Field names are matched exactly (Go also accepts other capitalisations).
  An integer field accepts the integers of 64 bits; how a number is spelt (Go refuses \<^verbatim>\<open>1.0\<close> for an
  integer) is not represented.
\<close>

definition dec_string :: "fields \<Rightarrow> string \<Rightarrow> string option" where
  "dec_string m k =
     (case map_of m k of None \<Rightarrow> Some [] | Some JNull \<Rightarrow> Some [] | Some (JStr s) \<Rightarrow> Some s | Some _ \<Rightarrow> None)"

definition dec_bool :: "fields \<Rightarrow> string \<Rightarrow> bool option" where
  "dec_bool m k =
     (case map_of m k of None \<Rightarrow> Some False | Some JNull \<Rightarrow> Some False | Some (JBool b) \<Rightarrow> Some b | Some _ \<Rightarrow> None)"

definition dec_int :: "fields \<Rightarrow> string \<Rightarrow> int option" where
  "dec_int m k =
     (case map_of m k of
        None \<Rightarrow> Some 0 | Some JNull \<Rightarrow> Some 0
      | Some (JNum n) \<Rightarrow> if n = of_int \<lfloor>n\<rfloor> \<and> int64_range \<lfloor>n\<rfloor> then Some \<lfloor>n\<rfloor> else None
      | Some _ \<Rightarrow> None)"

text \<open>A pointer field: absent and null give nil.\<close>

definition dec_ptr :: "(fields \<Rightarrow> string \<Rightarrow> 'a option) \<Rightarrow> fields \<Rightarrow> string \<Rightarrow> 'a option option" where
  "dec_ptr dec m k =
     (case map_of m k of None \<Rightarrow> Some None | Some JNull \<Rightarrow> Some None | Some _ \<Rightarrow> map_option Some (dec m k))"

definition dec_float :: "fields \<Rightarrow> string \<Rightarrow> rat option" where
  "dec_float m k =
     (case map_of m k of None \<Rightarrow> Some 0 | Some JNull \<Rightarrow> Some 0 | Some (JNum n) \<Rightarrow> Some n | Some _ \<Rightarrow> None)"

definition json_string :: "json \<Rightarrow> string option" where
  "json_string v = (case v of JStr s \<Rightarrow> Some s | JNull \<Rightarrow> Some [] | _ \<Rightarrow> None)"

definition json_list :: "(json \<Rightarrow> 'a option) \<Rightarrow> json \<Rightarrow> 'a list option" where
  "json_list dec v = (case v of JArr xs \<Rightarrow> those (map dec xs) | JNull \<Rightarrow> Some [] | _ \<Rightarrow> None)"

definition dec_list :: "(json \<Rightarrow> 'a option) \<Rightarrow> fields \<Rightarrow> string \<Rightarrow> 'a list option" where
  "dec_list dec m k = (case map_of m k of None \<Rightarrow> Some [] | Some v \<Rightarrow> json_list dec v)"

text \<open>An object, or null for the zero value of the struct.\<close>

definition json_fields :: "json \<Rightarrow> fields option" where
  "json_fields v = (case v of JObj m \<Rightarrow> Some m | JNull \<Rightarrow> Some [] | _ \<Rightarrow> None)"

end
