(* ===== verification/ModelList.thy ===== *)
theory ModelList
  imports Registry Json
begin

text \<open>
  The model listing of \<^verbatim>\<open>GET /v1/models\<close> (\<^verbatim>\<open>proxy.go\<close>) and the detection and naming helpers for
  Anthropic clients (\<^verbatim>\<open>anthropic_models.go\<close>). The listings of the two registries are arguments:
  a Go map is enumerated in an arbitrary order. Request headers are a function of the canonical
  header name; an absent header reads as the empty string.
\<close>

definition grok_models :: "string list" where
  "grok_models = [
    ''grok-4.5'', ''grok-4.5-high'', ''grok-4.5-medium'', ''grok-4.5-low'', ''grok-4.5-xhigh'',
    ''grok-4.5-auto'', ''grok-4.5-none'', ''grok-4'', ''grok-4-fast-reasoning'', ''grok-code-fast-1'']"

definition codebuddy_models :: "string list" where
  "codebuddy_models = [
    ''cb/gpt-5.6-sol'', ''cb/gpt-5.6-terra'', ''cb/gpt-5.6-luna'', ''cb/gpt-5.5'', ''cb/gpt-5.4'',
    ''cb/gpt-5.2'', ''cb/gpt-5.1'', ''cb/gpt-5'', ''cb/gpt-4.1'', ''cb/gpt-5.3-codex'',
    ''cb/gpt-5.1-codex'', ''cb/gpt-5.1-codex-mini'', ''cb/claude-opus-4.7-1m'', ''cb/claude-opus-4.6'',
    ''cb/claude-sonnet-4.6'', ''cb/claude-haiku-4.5'', ''cb/gemini-3.1-pro'', ''cb/gemini-3.5-flash'',
    ''cb/gemini-3.0-flash'', ''cb/gemini-2.5-pro'', ''cb/gemini-2.5-flash'', ''cb/gemini-3.1-flash-lite'',
    ''cb/o3'', ''cb/o4-mini'', ''cb/glm-5.2'', ''cb/glm-5.1'', ''cb/glm-5.0'', ''cb/glm-4.6'',
    ''cb/deepseek-v3'', ''cb/deepseek-v3.2'', ''cb/kimi-k2.5'', ''cb/kimi-k3'', ''cb/default-model'']"

type_synonym headers = "string \<Rightarrow> string"

definition isAnthropicClient :: "headers \<Rightarrow> bool" where
  "isAnthropicClient h \<longleftrightarrow>
     h ''X-Api-Key'' \<noteq> [] \<or> h ''Anthropic-Version'' \<noteq> [] \<or> h ''Anthropic-Beta'' \<noteq> []
     \<or> contains ''anthropic'' (ToLower (h ''Accept''))
     \<or> prefix ''anthropic'' (ToLower (h ''User-Agent'')) \<or> prefix ''claude'' (ToLower (h ''User-Agent''))"

text \<open>Upper-casing the first byte, ASCII letters only.\<close>

definition titleCase :: "string \<Rightarrow> string" where
  "titleCase s =
     (case s of
        [] \<Rightarrow> []
      | c # r \<Rightarrow> (case find (\<lambda>(l, u). l = c) (zip lower_chars upper_chars) of Some (_, u) \<Rightarrow> u # r | None \<Rightarrow> c # r))"

definition pretty_part :: "string \<Rightarrow> string" where
  "pretty_part p =
     (let l = ToLower p
      in if l = ''gpt'' then ''GPT'' else if l = ''glm'' then ''GLM'' else if l = ''deepseek'' then ''DeepSeek''
         else titleCase p)"

definition prettyCBName :: "string \<Rightarrow> string" where
  "prettyCBName s = join '' '' (map pretty_part (filter (\<lambda>p. p \<noteq> []) (split_at (CHR ''-'') s)))"

definition grok_display :: "string \<Rightarrow> string" where
  "grok_display rest =
     (if ToLower rest = ''code-fast-1'' then ''Grok Code Fast 1''
      else case split_at (CHR ''-'') rest of
             [] \<Rightarrow> ''Grok ''
           | [v] \<Rightarrow> ''Grok '' @ v
           | v # ps \<Rightarrow>
               (let sfx = join ''-'' ps
                in if sfx \<in> {''high'', ''medium'', ''low'', ''xhigh'', ''auto'', ''none''}
                   then ''Grok '' @ v @ '' ('' @ titleCase sfx @ '')''
                   else if sfx = ''fast-reasoning'' then ''Grok '' @ v @ '' (Fast Reasoning)''
                   else ''Grok '' @ v @ '' '' @ sfx))"

definition displayNameForModel :: "string \<Rightarrow> string" where
  "displayNameForModel i =
     (let lower = ToLower i
      in if i = [] then []
         else if prefix ''combo/'' lower then ''Combo: '' @ drop 6 i
         else if prefix ''grok-'' lower then grok_display (drop 5 i)
         else if prefix ''cb/'' lower then prettyCBName (drop 3 i) @ '' (CodeBuddy)''
         else titleCase i)"

definition model_entry :: "string \<Rightarrow> string \<Rightarrow> fields" where
  "model_entry i owner = [(''id'', JStr i), (''object'', JStr ''model''), (''owned_by'', JStr owner)]"

definition enrich :: "fields \<Rightarrow> fields" where
  "enrich m =
     (let i = (case jstr m ''id'' of Some s \<Rightarrow> s | None \<Rightarrow> [])
      in AList.update ''created_at'' (JStr ''2025-01-01T00:00:00Z'')
           (AList.update ''display_name'' (JStr (displayNameForModel i)) (AList.update ''type'' (JStr ''model'') m)))"

definition list_entry :: "string \<times> CustomModel \<Rightarrow> fields" where
  "list_entry e = model_entry (fst e) (if cm_OwnedBy (snd e) = [] then cm_Upstream (snd e) else cm_OwnedBy (snd e))"

definition list_models :: "(string \<times> CustomModel) list \<Rightarrow> Combo list \<Rightarrow> headers \<Rightarrow> fields list" where
  "list_models customs cbs h =
     (let models = map (\<lambda>i. model_entry i ''xai'') grok_models @ map (\<lambda>i. model_entry i ''codebuddy'') codebuddy_models
                   @ map list_entry customs @ map (\<lambda>c. model_entry (''combo/'' @ co_Name c) ''foxrouters'') cbs
      in if isAnthropicClient h then map enrich models else models)"

lemma enrich_keeps:
  "k \<notin> {''type'', ''display_name'', ''created_at''} \<Longrightarrow> map_of (enrich m) k = map_of m k"
  by (simp add: enrich_def Let_def update_conv')

text \<open>
  The listing serves both client families: the entries seen by an Anthropic client are those an
  OpenAI client sees, in the same order and with the same OpenAI fields, plus the three fields the
  Anthropic format asks for; every registered custom model and every combo is listed.
\<close>

theorem listing_serves_both:
  "list_all2 (\<lambda>m m'. \<forall>k. map_of m' k = map_of m k \<or> map_of m k = None)
       (list_models customs cbs (\<lambda>_. [])) (list_models customs cbs h)
   \<and> (isAnthropicClient h \<longrightarrow>
        (\<forall>m \<in> set (list_models customs cbs h). \<exists>i. jstr m ''id'' = Some i \<and> jstr m ''display_name'' = Some (displayNameForModel i)
           \<and> jstr m ''type'' = Some ''model''))
   \<and> (\<forall>(i, cm) \<in> set customs. \<exists>m \<in> set (list_models customs cbs h). jstr m ''id'' = Some i)
   \<and> (\<forall>c \<in> set cbs. \<exists>m \<in> set (list_models customs cbs h). jstr m ''id'' = Some (''combo/'' @ co_Name c))"
proof -
  let ?base = "list_models customs cbs (\<lambda>_. [])"
  have off: "\<not> isAnthropicClient (\<lambda>_. [])" by (simp add: isAnthropicClient_def)
  have eq: "list_models customs cbs h = (if isAnthropicClient h then map enrich ?base else ?base)"
    using off by (simp add: list_models_def Let_def)
  have shape: "\<exists>i ow. m = model_entry i ow" if "m \<in> set ?base" for m
    using that off by (auto simp: list_models_def Let_def list_entry_def)
  have ent: "map_of (model_entry i ow) k = None" if "k \<in> {''type'', ''display_name'', ''created_at''}" for i ow k
    using that by (auto simp: model_entry_def)
  have keep: "map_of (enrich m) k = map_of m k \<or> map_of m k = None" if base: "m \<in> set ?base" for m k
  proof (cases "k \<in> {''type'', ''display_name'', ''created_at''}")
    case True
    obtain i ow where "m = model_entry i ow" using shape [OF base] by blast
    then show ?thesis using ent [OF True] by simp
  next
    case False
    then show ?thesis using enrich_keeps by simp
  qed
  have idk: "jstr (enrich m) ''id'' = jstr m ''id''" for m by (simp add: jstr_def enrich_keeps)
  have 1: "list_all2 (\<lambda>m m'. \<forall>k. map_of m' k = map_of m k \<or> map_of m k = None) ?base (list_models customs cbs h)"
    unfolding eq by (auto simp: list_all2_conv_all_nth keep)
  have 2: "\<exists>i. jstr m ''id'' = Some i \<and> jstr m ''display_name'' = Some (displayNameForModel i) \<and> jstr m ''type'' = Some ''model''"
    if a: "isAnthropicClient h" and m: "m \<in> set (list_models customs cbs h)" for m
  proof -
    from m a obtain m0 where m0: "m0 \<in> set ?base" "m = enrich m0" by (auto simp: eq)
    then obtain i ow where "m0 = model_entry i ow" using shape by blast
    then show ?thesis using m0(2) idk [of m0] by (simp add: enrich_def Let_def jstr_def model_entry_def update_conv')
  qed
  have mem: "\<exists>m \<in> set (list_models customs cbs h). jstr m ''id'' = Some i" if "\<exists>m \<in> set ?base. jstr m ''id'' = Some i" for i
    using that by (auto simp: eq idk)
  have base: "set (map list_entry customs) \<subseteq> set ?base"
    "set (map (\<lambda>c. model_entry (''combo/'' @ co_Name c) ''foxrouters'') cbs) \<subseteq> set ?base"
    using off by (simp_all add: list_models_def Let_def subset_iff)
  have nm: "jstr (model_entry i ow) ''id'' = Some i" for i ow by (simp add: model_entry_def jstr_def)
  have 3: "\<exists>m \<in> set (list_models customs cbs h). jstr m ''id'' = Some i" if c: "(i, cm) \<in> set customs" for i cm
  proof (rule mem, rule bexI)
    show "list_entry (i, cm) \<in> set ?base" using base(1) c by auto
  qed (simp add: list_entry_def nm)
  have 4: "\<exists>m \<in> set (list_models customs cbs h). jstr m ''id'' = Some (''combo/'' @ co_Name c)" if c: "c \<in> set cbs" for c
  proof (rule mem, rule bexI)
    show "model_entry (''combo/'' @ co_Name c) ''foxrouters'' \<in> set ?base" using base(2) c by auto
  qed (rule nm)
  show ?thesis by (intro conjI 1 impI ballI 2) (use 3 4 in auto)
qed

end
