(* ===== verification/Pools.thy ===== *)
theory Pools
  imports Fox_Prelude
begin

text \<open>
  What the two credential pools share: the retry loop of \<^verbatim>\<open>ProxyGrok\<close> and \<^verbatim>\<open>ProxyCodeBuddy\<close>
  (\<^verbatim>\<open>for attempt := 0; attempt < total; attempt++\<close>), the round-robin cursor, and the contract under
  which the loop reaches a working credential.
\<close>

datatype 'r attempt_result = AServed 'r | AExhausted | ACancelled

text \<open>
  The loop: give up when the client has gone, pick the next credential, use it, and either stop
  with the result of the attempt or go on.
\<close>

fun retry ::
  "('s \<Rightarrow> bool) \<Rightarrow> ('s \<Rightarrow> (nat \<times> 's) option) \<Rightarrow> (nat \<Rightarrow> 's \<Rightarrow> 'r option \<times> 's) \<Rightarrow> nat \<Rightarrow> 's
    \<Rightarrow> 'r attempt_result \<times> 's" where
  "retry stop nxt step 0 s = (AExhausted, s)"
| "retry stop nxt step (Suc k) s =
     (if stop s then (ACancelled, s)
      else case nxt s of
             None \<Rightarrow> (AExhausted, s)
           | Some (i, s1) \<Rightarrow>
               (case step i s1 of
                  (Some r, s2) \<Rightarrow> (AServed r, s2)
                | (None, s2) \<Rightarrow> retry stop nxt step k s2))"

lemma retry_preserves:
  assumes "P s" and "\<And>s i s'. P s \<Longrightarrow> nxt s = Some (i, s') \<Longrightarrow> P s'" and "\<And>s i. P s \<Longrightarrow> P (snd (step i s))"
  shows "P (snd (retry stop nxt step k s))"
  using assms(1)
proof (induction k arbitrary: s)
  case (Suc k)
  show ?case
  proof (cases "stop s \<or> nxt s = None")
    case True
    then show ?thesis using Suc.prems by (cases "nxt s") (auto split: prod.splits)
  next
    case False
    then obtain i s1 where n: "nxt s = Some (i, s1)" by auto
    have p2: "P (snd (step i s1))" using assms(2,3) Suc.prems n by blast
    then show ?thesis using False n Suc.IH by (cases "step i s1") (auto split: option.splits)
  qed
qed simp

lemma retry_cost:
  fixes cost :: "'s \<Rightarrow> nat"
  assumes "\<And>s i s'. nxt s = Some (i, s') \<Longrightarrow> cost s' = cost s" and "\<And>s i. cost (snd (step i s)) \<le> cost s + b"
  shows "cost (snd (retry stop nxt step k s)) \<le> cost s + k * b"
proof (induction k arbitrary: s)
  case (Suc k)
  show ?case
  proof (cases "stop s \<or> nxt s = None")
    case True
    then show ?thesis by auto
  next
    case False
    then obtain i s1 where n: "nxt s = Some (i, s1)" by auto
    obtain r s2 where st: "step i s1 = (r, s2)" by fastforce
    have "cost s2 \<le> cost s + b" using assms(2) [of i s1] assms(1) [OF n] by (simp add: st)
    then show ?thesis using False Suc.IH [of s2] by (cases r) (simp_all add: n st)
  qed
qed simp

lemma retry_served:
  assumes "P s" and "\<And>s i s'. P s \<Longrightarrow> nxt s = Some (i, s') \<Longrightarrow> P s' \<and> R i s'" and "\<And>s i. P s \<Longrightarrow> P (snd (step i s))"
    and "\<And>s i r s'. P s \<Longrightarrow> R i s \<Longrightarrow> step i s = (Some r, s') \<Longrightarrow> Q r s'"
    and "retry stop nxt step k s = (AServed r, s')"
  shows "Q r s'"
  using assms(1,5)
proof (induction k arbitrary: s)
  case (Suc k)
  then obtain i s1 where n: "nxt s = Some (i, s1)" by (auto split: if_splits option.splits)
  obtain x s2 where st: "step i s1 = (x, s2)" by fastforce
  have "P s1" "R i s1" using assms(2) Suc.prems(1) n by blast+
  moreover then have "P s2" using assms(3) [of s1 i] st by simp
  ultimately show ?case
    using Suc.IH [of s2] Suc.prems(2) n st assms(4) [of s1 i] by (cases x) (auto split: if_splits)
qed simp

text \<open>Distance from the cursor \<open>c\<close> to the index \<open>j\<close>, going round a pool of size \<open>n\<close>.\<close>

definition ahead :: "nat \<Rightarrow> nat \<Rightarrow> nat \<Rightarrow> nat" where
  "ahead n c j = (j + n - c mod n) mod n"

lemma ahead_less: "0 < n \<Longrightarrow> ahead n c j < n"
  by (simp add: ahead_def)

lemma ahead_hits: "j < n \<Longrightarrow> (c + ahead n c j) mod n = j"
proof -
  assume j: "j < n"
  then have cm: "c mod n < n" by simp
  have "(c + ahead n c j) mod n = (c mod n + (j + n - c mod n)) mod n"
    by (simp add: ahead_def mod_simps)
  also have "\<dots> = (j + n) mod n" using cm by simp
  finally show ?thesis using j by simp
qed

lemma ahead_unique: "j < n \<Longrightarrow> k < n \<Longrightarrow> (c + k) mod n = j \<Longrightarrow> ahead n c j = k"
proof -
  assume jk: "j < n" "k < n" "(c + k) mod n = j"
  then have cm: "c mod n < n" by simp
  have "ahead n c j = ((c + k) mod n + (n - c mod n)) mod n" using jk(3) cm by (simp add: ahead_def)
  also have "\<dots> = (c mod n + k + (n - c mod n)) mod n" by (metis mod_add_left_eq)
  also have "c mod n + k + (n - c mod n) = k + n" using cm by simp
  finally show ?thesis using jk(2) by simp
qed

lemma ahead_step:
  assumes "j < n" and "k < ahead n c j"
  shows "ahead n (((c + k) mod n + 1) mod n) j < ahead n c j"
proof -
  have n: "0 < n" using assms(1) by simp
  let ?d = "ahead n c j"
  have d: "?d < n" using ahead_less [OF n] .
  have "(((c + k) mod n + 1) mod n + (?d - k - 1)) mod n = (c + k + 1 + (?d - k - 1)) mod n"
    by (simp add: mod_simps)
  also have "c + k + 1 + (?d - k - 1) = c + ?d" using assms(2) by simp
  finally have "(((c + k) mod n + 1) mod n + (?d - k - 1)) mod n = j" using ahead_hits [OF assms(1)] by simp
  then have "ahead n (((c + k) mod n + 1) mod n) j = ?d - k - 1" using d by (intro ahead_unique [OF assms(1)]) simp_all
  then show ?thesis using assms(2) by simp
qed

lemma rr_scan_ahead:
  assumes "rr_scan P xs c = Some i" and "j < length xs" and "P (xs ! j)"
  shows "\<exists>k \<le> ahead (length xs) c j. i = (c + k) mod length xs"
proof -
  from assms(1) obtain k where k: "k < length xs" "i = (c + k) mod length xs"
      "\<And>m. m < k \<Longrightarrow> \<not> P (xs ! ((c + m) mod length xs))"
    by (rule rr_scan_first) blast
  have "\<not> ahead (length xs) c j < k" using k(3) [of "ahead (length xs) c j"] assms(3) ahead_hits [OF assms(2), of c] by auto
  with k(2) show ?thesis by (intro exI [of _ k]) simp
qed

text \<open>
  The contract of a pool with a retry loop. \<open>good s j\<close> means that credential \<open>j\<close> is usable and
  would be preferred; picking goes round from the cursor and does not pass a good credential;
  using one credential leaves the others good.
\<close>

locale retry_pool =
  fixes len :: "'s \<Rightarrow> nat" and cur :: "'s \<Rightarrow> nat" and good :: "'s \<Rightarrow> nat \<Rightarrow> bool"
    and nxt :: "'s \<Rightarrow> (nat \<times> 's) option" and step :: "nat \<Rightarrow> 's \<Rightarrow> 'r option \<times> 's" and stop :: "'s \<Rightarrow> bool"
  assumes nxt_good: "j < len s \<Longrightarrow> good s j \<Longrightarrow> \<exists>k s'. k \<le> ahead (len s) (cur s) j
      \<and> nxt s = Some ((cur s + k) mod len s, s')
      \<and> len s' = len s \<and> cur s' = ((cur s + k) mod len s + 1) mod len s \<and> good s' j"
    and step_good: "i \<noteq> j \<Longrightarrow> good s j \<Longrightarrow>
      len (snd (step i s)) = len s \<and> cur (snd (step i s)) = cur s \<and> good (snd (step i s)) j"
begin

lemma retry_reaches:
  assumes "j < len s" and "good s j" and "\<And>s. good s j \<Longrightarrow> \<not> stop s"
    and "\<And>s. good s j \<Longrightarrow> fst (step j s) \<noteq> None" and "ahead (len s) (cur s) j < n"
  shows "\<exists>r. fst (retry stop nxt step n s) = AServed r"
  using assms(1,2,5)
proof (induction n arbitrary: s)
  case (Suc n)
  from nxt_good [OF Suc.prems(1,2)] obtain k s1 where k: "k \<le> ahead (len s) (cur s) j"
      "nxt s = Some ((cur s + k) mod len s, s1)" "len s1 = len s"
      "cur s1 = ((cur s + k) mod len s + 1) mod len s" "good s1 j"
    by blast
  let ?i = "(cur s + k) mod len s"
  have go: "\<not> stop s" using assms(3) Suc.prems(2) by blast
  show ?case
  proof (cases "fst (step ?i s1)")
    case (Some r)
    then show ?thesis using go k(2) by (cases "step ?i s1") auto
  next
    case None
    then have ij: "?i \<noteq> j" using assms(4) k(5) by metis
    then have lt: "k < ahead (len s) (cur s) j"
      using k(1) ahead_hits [OF Suc.prems(1), of "cur s"] by (metis le_neq_implies_less)
    let ?s2 = "snd (step ?i s1)"
    have s2: "len ?s2 = len s" "cur ?s2 = (?i + 1) mod len s" "good ?s2 j"
      using step_good [OF ij k(5)] k(3,4) by auto
    have "ahead (len ?s2) (cur ?s2) j < n"
      using ahead_step [OF Suc.prems(1) lt] Suc.prems(3) s2 by simp
    then have "\<exists>r. fst (retry stop nxt step n ?s2) = AServed r"
      using Suc.IH [of ?s2] Suc.prems(1) s2 by simp
    then show ?thesis using go k(2) None by (cases "step ?i s1") auto
  qed
qed simp

lemma retry_all_reaches:
  assumes "j < len s" and "good s j" and "\<And>s. good s j \<Longrightarrow> \<not> stop s"
    and "\<And>s. good s j \<Longrightarrow> fst (step j s) \<noteq> None"
  shows "\<exists>r. fst (retry stop nxt step (len s) s) = AServed r"
proof (rule retry_reaches [OF assms])
  have "0 < len s" using assms(1) by simp
  then show "ahead (len s) (cur s) j < len s" by (rule ahead_less)
qed

end

text \<open>
  Cooldowns, the same in both pools: a disabled credential with a time of disabling is on cooldown,
  one without (the zero time) is disabled for good.
\<close>

definition cooled :: "gotime \<Rightarrow> bool \<Rightarrow> gotime \<Rightarrow> bool" where
  "cooled now disabled disabledAt \<longleftrightarrow> disabled \<and> \<not> is_zero disabledAt \<and> now - disabledAt > 10 * minute"

definition permanent :: "bool \<Rightarrow> gotime \<Rightarrow> bool" where
  "permanent disabled disabledAt \<longleftrightarrow> disabled \<and> is_zero disabledAt"

lemma permanent_not_cooled: "permanent d t \<Longrightarrow> \<not> cooled now d t"
  by (simp add: permanent_def cooled_def)

end
