(* ===== verification/ProxyPool.thy ===== *)
theory ProxyPool
  imports Fox_Prelude
begin

text \<open>
  The dashboard-managed proxy pool, \<^verbatim>\<open>internal/proxy/pool.go\<close>: validation of an entry, the
  cached slices \<open>pp_entries\<close> and \<open>pp_enabled\<close>, round-robin selection scoped to an upstream,
  auto-disable after consecutive failures, and the per-id transport cache.

  The pool's mutex makes each operation atomic, so an operation is a function on the pool.
  Redis is outside: an operation takes what the store call returns (\<open>None\<close> stands for a nil
  store) and yields the list of store writes it issues. A nil \<^verbatim>\<open>Upstreams\<close> slice is \<open>None\<close>.
  Methods on a nil receiver return the error \<^verbatim>\<open>pool not initialised\<close> and are not modelled.
\<close>

subsection \<open>Entries and their validation\<close>

record ProxyEntry =
  pe_ID :: string
  pe_Protocol :: string
  pe_Host :: string
  pe_Port :: int
  pe_Username :: string
  pe_Password :: string
  pe_Enabled :: bool
  pe_Label :: string
  pe_Upstreams :: "string list option"
  pe_CreatedAt :: gotime
  pe_LastUsedAt :: gotime
  pe_FailCount :: int

datatype proxy_error =
    BadUpstream string | BadProtocol string | HostRequired | HostTooLong | HostInvalid
  | BadPort int | LabelTooLong | CredentialTooLong | IdRequired | ProxyNotFound string
  | NoProxyFor string | IdGenFailed go_error | StoreFailed go_error

definition PROXY_FAIL_THRESHOLD :: int where "PROXY_FAIL_THRESHOLD = 5"

definition UpstreamAll :: string where "UpstreamAll = ''all''"
definition validUpstreams :: "string list" where "validUpstreams = [''all'', ''grok'', ''codebuddy'']"

definition ups_list :: "string list option \<Rightarrow> string list" where
  "ups_list o' = (case o' of None \<Rightarrow> [] | Some us \<Rightarrow> us)"

definition AppliesTo :: "ProxyEntry \<Rightarrow> string \<Rightarrow> bool" where
  "AppliesTo p up \<longleftrightarrow>
     ups_list (pe_Upstreams p) = []
     \<or> list_ex (\<lambda>u. u = UpstreamAll \<or> u = up) (ups_list (pe_Upstreams p))"

definition masked :: "ProxyEntry \<Rightarrow> ProxyEntry" where
  "masked p = (if pe_Password p \<noteq> [] then p\<lparr>pe_Password := ''***''\<rparr> else p)"

text \<open>
  The loop of \<^verbatim>\<open>normaliseUpstreams\<close>: values already appended are the ones \<^verbatim>\<open>seen\<close>, and
  \<^verbatim>\<open>hasAll\<close> is set exactly when \<open>UpstreamAll\<close> has been appended.
\<close>

fun normalise_loop :: "string list \<Rightarrow> string list \<Rightarrow> string list" where
  "normalise_loop out [] = out"
| "normalise_loop out (s # rest) =
     (let v = ToLower (TrimSpace s)
      in if v = [] then normalise_loop out rest
         else if v \<in> set out then normalise_loop out rest
         else normalise_loop (out @ [v]) rest)"

definition normaliseUpstreams :: "string list option \<Rightarrow> string list" where
  "normaliseUpstreams inp =
     (if ups_list inp = [] then [UpstreamAll]
      else let out = normalise_loop [] (ups_list inp)
           in if out = [] then [UpstreamAll]
              else if UpstreamAll \<in> set out then [UpstreamAll] else out)"

definition bad_host_chars :: string where
  "bad_host_chars = [CHR '' '', CHR 0x09, CHR 0x0D, CHR 0x0A, CHR ''/'', CHR 0x5C]"

definition validateEntry :: "ProxyEntry \<Rightarrow> proxy_error + ProxyEntry" where
  "validateEntry e0 =
     (let e = e0\<lparr>pe_Protocol := ToLower (TrimSpace (pe_Protocol e0)),
                 pe_Host := TrimSpace (pe_Host e0),
                 pe_Label := TrimSpace (pe_Label e0),
                 pe_Username := TrimSpace (pe_Username e0),
                 pe_Upstreams := Some (normaliseUpstreams (pe_Upstreams e0))\<rparr>
      in case find (\<lambda>u. u \<notin> set validUpstreams) (ups_list (pe_Upstreams e)) of
           Some u \<Rightarrow> Inl (BadUpstream u)
         | None \<Rightarrow>
             if pe_Protocol e \<notin> {''http'', ''socks5''} then Inl (BadProtocol (pe_Protocol e))
             else if pe_Host e = [] then Inl HostRequired
             else if length (pe_Host e) > 253 then Inl HostTooLong
             else if list_ex (\<lambda>c. c \<in> set bad_host_chars) (pe_Host e) then Inl HostInvalid
             else if pe_Port e < 1 \<or> pe_Port e > 65535 then Inl (BadPort (pe_Port e))
             else if length (pe_Label e) > 64 then Inl LabelTooLong
             else if length (pe_Username e) > 256 \<or> length (pe_Password e) > 256
             then Inl CredentialTooLong
             else Inr e)"

subsection \<open>The pool and its operations\<close>

datatype pool_write =
    WSaveProxy ProxyEntry | WDeleteProxy string | WFailCount string int | WLastUsed string gotime

record ProxyPool =
  pp_entries :: "ProxyEntry list"
  pp_enabled :: "ProxyEntry list"
  rrIndex :: "64 word"
  transports :: "string \<rightharpoonup> ProxyEntry"

definition NewProxyPool :: ProxyPool where
  "NewProxyPool = \<lparr>pp_entries = [], pp_enabled = [], rrIndex = 0, transports = Map.empty\<rparr>"

definition rebuildEnabledLocked :: "ProxyPool \<Rightarrow> ProxyPool" where
  "rebuildEnabledLocked p = p\<lparr>pp_enabled := filter pe_Enabled (pp_entries p)\<rparr>"

text \<open>\<open>dtoToEntry\<close> of \<^verbatim>\<open>Load\<close>: a stored entry without scope gets the scope \<^verbatim>\<open>{"all"}\<close>.\<close>

definition dtoToEntry :: "ProxyEntry \<Rightarrow> ProxyEntry" where
  "dtoToEntry d = (if ups_list (pe_Upstreams d) = [] then d\<lparr>pe_Upstreams := Some [UpstreamAll]\<rparr> else d)"

definition Load :: "(go_error + ProxyEntry list) option \<Rightarrow> ProxyPool \<Rightarrow> go_error option \<times> ProxyPool" where
  "Load dtos p =
     (case dtos of
        None \<Rightarrow> (None, rebuildEnabledLocked (p\<lparr>pp_entries := []\<rparr>))
      | Some (Inl err) \<Rightarrow> (Some err, p)
      | Some (Inr ds) \<Rightarrow> (None, rebuildEnabledLocked (p\<lparr>pp_entries := map dtoToEntry ds\<rparr>)))"

definition List :: "ProxyPool \<Rightarrow> ProxyEntry list" where
  "List p = map masked (pp_entries p)"

definition Get :: "string \<Rightarrow> ProxyPool \<Rightarrow> ProxyEntry option" where
  "Get pid p = (if pid = [] then None
               else map_option masked (find (\<lambda>e. pe_ID e = pid) (pp_entries p)))"

definition EnabledLen :: "ProxyPool \<Rightarrow> nat" where
  "EnabledLen p = length (pp_enabled p)"

type_synonym save_result = "(ProxyEntry \<Rightarrow> go_error option) option"

definition save_error :: "save_result \<Rightarrow> ProxyEntry \<Rightarrow> go_error option" where
  "save_error db e = (case db of None \<Rightarrow> None | Some save \<Rightarrow> save e)"

definition save_write :: "save_result \<Rightarrow> ProxyEntry \<Rightarrow> pool_write list" where
  "save_write db e = (if db = None then [] else [WSaveProxy e])"

definition Add ::
  "save_result \<Rightarrow> go_error + string \<Rightarrow> gotime \<Rightarrow> ProxyEntry \<Rightarrow> ProxyPool
    \<Rightarrow> (proxy_error + ProxyEntry) \<times> ProxyPool \<times> pool_write list" where
  "Add db newid now entry0 p =
     (case validateEntry entry0 of
        Inl e \<Rightarrow> (Inl e, p, [])
      | Inr entry1 \<Rightarrow>
          (case newid of
             Inl e \<Rightarrow> (Inl (IdGenFailed e), p, [])
           | Inr pid \<Rightarrow>
               (let entry = entry1\<lparr>pe_ID := pid, pe_CreatedAt := now, pe_FailCount := 0\<rparr>
                in case save_error db entry of
                     Some e \<Rightarrow> (Inl (StoreFailed e), p, save_write db entry)
                   | None \<Rightarrow>
                       (Inr entry,
                        rebuildEnabledLocked (p\<lparr>pp_entries := pp_entries p @ [entry]\<rparr>),
                        save_write db entry))))"

definition merge_update :: "ProxyEntry \<Rightarrow> ProxyEntry \<Rightarrow> ProxyEntry" where
  "merge_update inp current =
     current\<lparr>pe_Protocol := (if pe_Protocol inp \<noteq> [] then pe_Protocol inp else pe_Protocol current),
             pe_Host := (if pe_Host inp \<noteq> [] then pe_Host inp else pe_Host current),
             pe_Port := (if pe_Port inp \<noteq> 0 then pe_Port inp else pe_Port current),
             pe_Username := pe_Username inp,
             pe_Label := pe_Label inp,
             pe_Password := (if pe_Password inp \<noteq> ''***'' then pe_Password inp else pe_Password current),
             pe_Enabled := pe_Enabled inp,
             pe_Upstreams := (if pe_Upstreams inp \<noteq> None then pe_Upstreams inp else pe_Upstreams current)\<rparr>"

definition Update ::
  "save_result \<Rightarrow> string \<Rightarrow> ProxyEntry \<Rightarrow> ProxyPool
    \<Rightarrow> (proxy_error option \<times> ProxyEntry option) \<times> ProxyPool \<times> pool_write list" where
  "Update db pid inp p =
     (if pid = [] then ((Some IdRequired, None), p, [])
      else case find_index (\<lambda>e. pe_ID e = pid) (pp_entries p) of
             None \<Rightarrow> ((Some (ProxyNotFound pid), None), p, [])
           | Some idx \<Rightarrow>
               (case validateEntry (merge_update inp (pp_entries p ! idx)) of
                  Inl e \<Rightarrow> ((Some e, None), p, [])
                | Inr v \<Rightarrow>
                    (let current = v\<lparr>pe_FailCount := 0\<rparr>;
                         p1 = rebuildEnabledLocked (p\<lparr>pp_entries := (pp_entries p)[idx := current]\<rparr>);
                         p2 = p1\<lparr>transports := (transports p1)(pid := None)\<rparr>
                     in ((map_option StoreFailed (save_error db current), Some current),
                         p2, save_write db current))))"

definition Delete ::
  "(go_error option) option \<Rightarrow> string \<Rightarrow> ProxyPool \<Rightarrow> proxy_error option \<times> ProxyPool \<times> pool_write list" where
  "Delete db pid p =
     (if pid = [] then (Some IdRequired, p, [])
      else if find_index (\<lambda>e. pe_ID e = pid) (pp_entries p) = None
      then (Some (ProxyNotFound pid), p, [])
      else let p1 = rebuildEnabledLocked (p\<lparr>pp_entries := filter (\<lambda>e. pe_ID e \<noteq> pid) (pp_entries p)\<rparr>);
               p2 = p1\<lparr>transports := (transports p1)(pid := None)\<rparr>
           in case db of
                None \<Rightarrow> (None, p2, [])
              | Some r \<Rightarrow> (map_option StoreFailed r, p2, [WDeleteProxy pid]))"

definition Toggle ::
  "save_result \<Rightarrow> string \<Rightarrow> ProxyPool \<Rightarrow> (proxy_error option \<times> bool) \<times> ProxyPool \<times> pool_write list" where
  "Toggle db pid p =
     (case find_index (\<lambda>e. pe_ID e = pid) (pp_entries p) of
        None \<Rightarrow> ((Some (ProxyNotFound pid), False), p, [])
      | Some idx \<Rightarrow>
          (let e = pp_entries p ! idx;
               e1 = e\<lparr>pe_Enabled := \<not> pe_Enabled e\<rparr>;
               updated = (if pe_Enabled e1 then e1\<lparr>pe_FailCount := 0\<rparr> else e1)
           in ((map_option StoreFailed (save_error db updated), pe_Enabled updated),
               rebuildEnabledLocked (p\<lparr>pp_entries := (pp_entries p)[idx := updated]\<rparr>),
               save_write db updated)))"

text \<open>
  The store's answer to \<^verbatim>\<open>INCR fr:proxy:rr\<close>: no store, an error, or the new value of the shared
  signed counter.
\<close>

type_synonym incr_result = "(go_error + 64 word) option"

definition rr_pick :: "incr_result \<Rightarrow> nat \<Rightarrow> ProxyPool \<Rightarrow> nat \<times> ProxyPool" where
  "rr_pick incr n p =
     (case incr of
        Some (Inr v) \<Rightarrow> (rr_index_signed v n, p)
      | _ \<Rightarrow> (let v = rrIndex p + 1 in (rr_index_unsigned v n, p\<lparr>rrIndex := v\<rparr>)))"

definition scoped :: "string \<Rightarrow> ProxyPool \<Rightarrow> ProxyEntry list" where
  "scoped up p = filter (\<lambda>e. AppliesTo e up) (pp_enabled p)"

definition Next ::
  "incr_result \<Rightarrow> gotime \<Rightarrow> string \<Rightarrow> ProxyPool
    \<Rightarrow> (proxy_error + ProxyEntry) \<times> ProxyPool \<times> pool_write list" where
  "Next incr now up p =
     (let n = length (scoped up p)
      in if n = 0 then (Inl (NoProxyFor up), p, [])
         else let (idx, p1) = rr_pick incr n p; entry = scoped up p ! idx
              in (Inr entry, p1, if incr = None then [] else [WLastUsed (pe_ID entry) now]))"

definition MarkFailed :: "bool \<Rightarrow> string \<Rightarrow> ProxyPool \<Rightarrow> ProxyPool \<times> pool_write list" where
  "MarkFailed has_db pid p =
     (if pid = [] then (p, [])
      else case find_index (\<lambda>e. pe_ID e = pid) (pp_entries p) of
             None \<Rightarrow> (p, [])
           | Some idx \<Rightarrow>
               (let e = pp_entries p ! idx;
                    fc = pe_FailCount e + 1;
                    autoDisabled = (fc \<ge> PROXY_FAIL_THRESHOLD \<and> pe_Enabled e);
                    updated = (if autoDisabled then e\<lparr>pe_FailCount := fc, pe_Enabled := False\<rparr>
                               else e\<lparr>pe_FailCount := fc\<rparr>);
                    p1 = p\<lparr>pp_entries := (pp_entries p)[idx := updated]\<rparr>;
                    p2 = (if autoDisabled
                          then (rebuildEnabledLocked p1)\<lparr>transports := (transports p1)(pid := None)\<rparr>
                          else p1)
                in (p2, if \<not> has_db then []
                        else if autoDisabled then [WSaveProxy updated] else [WFailCount pid fc])))"

definition MarkSuccess :: "bool \<Rightarrow> string \<Rightarrow> ProxyPool \<Rightarrow> ProxyPool \<times> pool_write list" where
  "MarkSuccess has_db pid p =
     (if pid = [] then (p, [])
      else case find_index (\<lambda>e. pe_ID e = pid) (pp_entries p) of
             None \<Rightarrow> (p, [])
           | Some idx \<Rightarrow>
               (let e = pp_entries p ! idx
                in if pe_FailCount e \<noteq> 0
                   then (p\<lparr>pp_entries := (pp_entries p)[idx := e\<lparr>pe_FailCount := 0\<rparr>]\<rparr>,
                         if has_db then [WFailCount pid 0] else [])
                   else (p, [])))"

text \<open>
  The proxy URL (\<^verbatim>\<open>net/url.QueryEscape\<close> on the credentials) and the transport built for an entry.
  Parsing the URL (\<^verbatim>\<open>net/url.Parse\<close>) and creating the SOCKS5 dialer (golang.org/x/net/proxy) are
  parameters, each giving an error or success.
\<close>

definition unreserved_chars :: string where
  "unreserved_chars = ''ABCDEFGHIJKLMNOPQRSTUVWXYZabcdefghijklmnopqrstuvwxyz0123456789-_.~''"

definition QueryEscape :: "string \<Rightarrow> string" where
  "QueryEscape s =
     concat (map (\<lambda>c. if c \<in> set unreserved_chars then [c]
                     else if c = CHR '' '' then ''+''
                     else [CHR ''%'', ''0123456789ABCDEF'' ! (of_char c div 16), ''0123456789ABCDEF'' ! (of_char c mod 16)]) s)"

definition URL :: "ProxyEntry \<Rightarrow> string" where
  "URL p =
     (if pe_Host p = [] \<or> pe_Port p = 0 then []
      else if pe_Username p \<noteq> []
      then pe_Protocol p @ ''://'' @ QueryEscape (pe_Username p) @ '':'' @ QueryEscape (pe_Password p)
           @ ''@'' @ pe_Host p @ '':'' @ Itoa (pe_Port p)
      else pe_Protocol p @ ''://'' @ pe_Host p @ '':'' @ Itoa (pe_Port p))"

record transport_env =
  parse_url :: "string \<Rightarrow> go_error option"
  socks5 :: "string \<Rightarrow> (string \<times> string) option \<Rightarrow> go_error option"

definition buildTransport :: "transport_env \<Rightarrow> ProxyEntry \<Rightarrow> go_error + ProxyEntry" where
  "buildTransport env entry =
     (if pe_Protocol entry = ''http''
      then (case parse_url env (URL entry) of
              Some e \<Rightarrow> Inl (''parse proxy URL: '' @ e) | None \<Rightarrow> Inr entry)
      else if pe_Protocol entry = ''socks5''
      then (case socks5 env (pe_Host entry @ '':'' @ Itoa (pe_Port entry))
                   (if pe_Username entry \<noteq> [] then Some (pe_Username entry, pe_Password entry) else None) of
              Some e \<Rightarrow> Inl (''socks5 dialer: '' @ e) | None \<Rightarrow> Inr entry)
      else Inl (''unsupported protocol: '' @ [CHR 0x22] @ pe_Protocol entry @ [CHR 0x22]))"

text \<open>
  \<^verbatim>\<open>Transport\<close>: a cached transport is represented by the entry it was built from.
\<close>

definition Transport ::
  "transport_env \<Rightarrow> ProxyEntry \<Rightarrow> ProxyPool \<Rightarrow> (go_error + ProxyEntry) \<times> ProxyPool" where
  "Transport env entry p =
     (case transports p (pe_ID entry) of
        Some t \<Rightarrow> (Inr t, p)
      | None \<Rightarrow>
          (case buildTransport env entry of
             Inl e \<Rightarrow> (Inl e, p)
           | Inr t \<Rightarrow> (Inr t, p\<lparr>transports := (transports p)(pe_ID entry \<mapsto> t)\<rparr>)))"

text \<open>
  The two callers in \<^verbatim>\<open>internal/upstream/upstream.go\<close>. \<open>getClient\<close> returns the transport and the
  proxy id to account for (\<open>None\<close>: the direct client); \<open>markProxyResult\<close> reports the outcome of a
  call: a transport error, or a status of which 502, 503 and 504 count against the proxy.
\<close>

definition getClient ::
  "transport_env \<Rightarrow> incr_result \<Rightarrow> gotime \<Rightarrow> string \<Rightarrow> ProxyPool
    \<Rightarrow> (ProxyEntry \<times> string) option \<times> ProxyPool \<times> pool_write list" where
  "getClient env incr now up p =
     (case Next incr now up p of
        (Inl _, p1, w) \<Rightarrow> (None, p1, w)
      | (Inr entry, p1, w) \<Rightarrow>
          (case Transport env entry p1 of
             (Inl _, p2) \<Rightarrow>
               (let (p3, w3) = MarkFailed (incr \<noteq> None) (pe_ID entry) p2 in (None, p3, w @ w3))
           | (Inr t, p2) \<Rightarrow> (Some (t, pe_ID entry), p2, w)))"

definition markProxyResult ::
  "bool \<Rightarrow> string \<Rightarrow> go_error option \<Rightarrow> int \<Rightarrow> ProxyPool \<Rightarrow> ProxyPool \<times> pool_write list" where
  "markProxyResult has_db proxyID err statusCode p =
     (if proxyID = [] then (p, [])
      else if err \<noteq> None \<or> statusCode = 502 \<or> statusCode = 503 \<or> statusCode = 504
      then MarkFailed has_db proxyID p
      else MarkSuccess has_db proxyID p)"

subsection \<open>The pool invariant\<close>

text \<open>
  The failure counts of the cached \<open>pp_enabled\<close> slice may lag behind the entries; apart from them
  the slice is the enabled part of the entries, in order. An enabled entry is below the threshold.
\<close>

definition clear_fail :: "ProxyEntry \<Rightarrow> ProxyEntry" where
  "clear_fail e = e\<lparr>pe_FailCount := 0\<rparr>"

definition enabled_core :: "ProxyPool \<Rightarrow> ProxyEntry list" where
  "enabled_core p = filter pe_Enabled (map clear_fail (pp_entries p))"

definition fail_ok :: "ProxyEntry \<Rightarrow> bool" where
  "fail_ok e \<longleftrightarrow> 0 \<le> pe_FailCount e \<and> (pe_Enabled e \<longrightarrow> pe_FailCount e < PROXY_FAIL_THRESHOLD)"

definition pool_inv :: "ProxyPool \<Rightarrow> bool" where
  "pool_inv p \<longleftrightarrow> map clear_fail (pp_enabled p) = enabled_core p \<and> (\<forall>e \<in> set (pp_entries p). fail_ok e)"

lemma clear_fail_sel [simp]:
  "pe_ID (clear_fail e) = pe_ID e" "pe_Enabled (clear_fail e) = pe_Enabled e"
  "AppliesTo (clear_fail e) = AppliesTo e" "pe_Protocol (clear_fail e) = pe_Protocol e"
  "pe_Host (clear_fail e) = pe_Host e" "pe_Port (clear_fail e) = pe_Port e"
  "pe_Username (clear_fail e) = pe_Username e" "pe_Password (clear_fail e) = pe_Password e"
  "clear_fail (e\<lparr>pe_FailCount := n\<rparr>) = clear_fail e"
  by (auto simp: clear_fail_def AppliesTo_def fun_eq_iff)

lemma map_clear_filter:
  "map clear_fail (filter pe_Enabled xs) = filter pe_Enabled (map clear_fail xs)"
  "map clear_fail (filter (\<lambda>e. AppliesTo e u) xs) = filter (\<lambda>e. AppliesTo e u) (map clear_fail xs)"
  by (induction xs) auto

lemma rebuild_sel [simp]:
  "pp_entries (rebuildEnabledLocked p) = pp_entries p"
  "rrIndex (rebuildEnabledLocked p) = rrIndex p"
  "transports (rebuildEnabledLocked p) = transports p"
  "pp_enabled (rebuildEnabledLocked p) = filter pe_Enabled (pp_entries p)"
  by (simp_all add: rebuildEnabledLocked_def)

lemma pool_inv_rebuild: "(\<forall>e \<in> set (pp_entries p). fail_ok e) \<Longrightarrow> pool_inv (rebuildEnabledLocked p)"
  by (simp add: pool_inv_def enabled_core_def map_clear_filter)

lemma pool_inv_cong:
  "pp_entries q = pp_entries p \<Longrightarrow> pp_enabled q = pp_enabled p \<Longrightarrow> pool_inv q = pool_inv p"
  by (simp add: pool_inv_def enabled_core_def)

lemma fail_ok_update:
  "i < length xs \<Longrightarrow> \<forall>e \<in> set xs. fail_ok e \<Longrightarrow> fail_ok y \<Longrightarrow> \<forall>e \<in> set (xs[i := y]). fail_ok e"
  using set_update_subset_insert by fastforce

lemma pool_inv_fail_update:
  assumes "pool_inv p" and "i < length (pp_entries p)"
    and "clear_fail y = clear_fail (pp_entries p ! i)" and "fail_ok y"
  shows "pool_inv (p\<lparr>pp_entries := (pp_entries p)[i := y]\<rparr>)"
  using assms map_update_same [of i "pp_entries p" clear_fail y] fail_ok_update [of i "pp_entries p" y]
  by (simp add: pool_inv_def enabled_core_def)

lemma pool_inv_new: "pool_inv NewProxyPool"
  by (simp add: pool_inv_def NewProxyPool_def enabled_core_def)

lemma pool_inv_nth: "pool_inv p \<Longrightarrow> i < length (pp_entries p) \<Longrightarrow> fail_ok (pp_entries p ! i)"
  by (simp add: pool_inv_def)

lemma fail_ok_reset: "fail_ok (e\<lparr>pe_FailCount := 0\<rparr>)"
  by (simp add: fail_ok_def PROXY_FAIL_THRESHOLD_def)

lemma pool_inv_Add: "pool_inv p \<Longrightarrow> pool_inv (fst (snd (Add db nid now e p)))"
  by (auto simp: Add_def Let_def pool_inv_def fail_ok_def PROXY_FAIL_THRESHOLD_def enabled_core_def
      map_clear_filter split: sum.splits option.splits)

lemma pool_inv_transports [simp]: "pool_inv (p\<lparr>transports := t\<rparr>) = pool_inv p"
  by (rule pool_inv_cong) simp_all

lemma pool_inv_replace:
  assumes "pool_inv p" and "i < length (pp_entries p)" and "fail_ok y"
  shows "pool_inv (rebuildEnabledLocked (p\<lparr>pp_entries := (pp_entries p)[i := y]\<rparr>))"
proof (rule pool_inv_rebuild)
  have "\<forall>e \<in> set (pp_entries p). fail_ok e" using assms by (simp add: pool_inv_def)
  then show "\<forall>e \<in> set (pp_entries (p\<lparr>pp_entries := (pp_entries p)[i := y]\<rparr>)). fail_ok e"
    using fail_ok_update [OF assms(2) _ assms(3)] by simp
qed

lemma pool_inv_Update: "pool_inv p \<Longrightarrow> pool_inv (fst (snd (Update db pid inp p)))"
  by (auto simp: Update_def Let_def fail_ok_reset dest!: find_index_Some
      split: sum.splits option.splits intro!: pool_inv_replace)

lemma pool_inv_Delete: "pool_inv p \<Longrightarrow> pool_inv (fst (snd (Delete db pid p)))"
proof -
  assume inv: "pool_inv p"
  have "pool_inv (rebuildEnabledLocked (p\<lparr>pp_entries := filter (\<lambda>e. pe_ID e \<noteq> pid) (pp_entries p)\<rparr>))"
    using inv by (intro pool_inv_rebuild) (simp add: pool_inv_def)
  with inv show ?thesis by (simp add: Delete_def Let_def split: option.split)
qed

lemma fail_ok_toggled:
  "fail_ok (e\<lparr>pe_Enabled := True, pe_FailCount := 0\<rparr>)" "fail_ok e \<Longrightarrow> fail_ok (e\<lparr>pe_Enabled := False\<rparr>)"
  by (simp_all add: fail_ok_def PROXY_FAIL_THRESHOLD_def)

lemma pool_inv_Toggle: "pool_inv p \<Longrightarrow> pool_inv (fst (snd (Toggle db pid p)))"
  by (auto simp: Toggle_def Let_def fail_ok_toggled pool_inv_nth dest!: find_index_Some
      split: option.split intro!: pool_inv_replace)

lemma fail_ok_counted:
  assumes "fail_ok e" and "fc = pe_FailCount e + 1"
  shows "fail_ok (e\<lparr>pe_FailCount := fc, pe_Enabled := False\<rparr>)"
    and "\<not> (fc \<ge> PROXY_FAIL_THRESHOLD \<and> pe_Enabled e) \<Longrightarrow> fail_ok (e\<lparr>pe_FailCount := fc\<rparr>)"
  using assms by (auto simp: fail_ok_def)

lemma pool_inv_MarkFailed: "pool_inv p \<Longrightarrow> pool_inv (fst (MarkFailed b pid p))"
proof -
  assume inv: "pool_inv p"
  have ok: "fail_ok (pp_entries p ! i)" if "i < length (pp_entries p)" for i
    using inv that by (rule pool_inv_nth)
  show ?thesis
    using inv ok
    by (auto simp: MarkFailed_def Let_def fail_ok_counted dest!: find_index_Some split: option.split
        intro!: pool_inv_replace pool_inv_fail_update)
qed

lemma pool_inv_MarkSuccess: "pool_inv p \<Longrightarrow> pool_inv (fst (MarkSuccess b pid p))"
  by (auto simp: MarkSuccess_def Let_def fail_ok_reset dest!: find_index_Some split: option.splits
      intro!: pool_inv_fail_update)

lemma rr_pick_sel [simp]:
  "pp_entries (snd (rr_pick incr n p)) = pp_entries p" "pp_enabled (snd (rr_pick incr n p)) = pp_enabled p"
  "transports (snd (rr_pick incr n p)) = transports p"
  by (auto simp: rr_pick_def Let_def split: option.splits sum.splits)

lemma rr_pick_less: "0 < n \<Longrightarrow> fst (rr_pick incr n p) < n"
  by (auto simp: rr_pick_def Let_def rr_index_signed_less rr_index_unsigned_less split: option.splits sum.splits)

lemma Next_frame [simp]:
  "pp_entries (fst (snd (Next incr now up p))) = pp_entries p"
  "pp_enabled (fst (snd (Next incr now up p))) = pp_enabled p"
  "transports (fst (snd (Next incr now up p))) = transports p"
  by (auto simp: Next_def Let_def split_beta)

lemma Transport_frame [simp]:
  "pp_entries (snd (Transport env e p)) = pp_entries p" "pp_enabled (snd (Transport env e p)) = pp_enabled p"
  by (auto simp: Transport_def split: option.splits sum.splits)

subsection \<open>Runs\<close>

datatype pool_event =
    EAdd save_result "go_error + string" gotime ProxyEntry
  | EUpdate save_result string ProxyEntry
  | EDelete "(go_error option) option" string
  | EToggle save_result string
  | ENext incr_result gotime string
  | EFailed bool string
  | ESuccess bool string
  | ETransport transport_env ProxyEntry

fun pool_apply :: "pool_event \<Rightarrow> ProxyPool \<Rightarrow> ProxyPool" where
  "pool_apply (EAdd db nid now e) p = fst (snd (Add db nid now e p))"
| "pool_apply (EUpdate db pid e) p = fst (snd (Update db pid e p))"
| "pool_apply (EDelete db pid) p = fst (snd (Delete db pid p))"
| "pool_apply (EToggle db pid) p = fst (snd (Toggle db pid p))"
| "pool_apply (ENext incr now up) p = fst (snd (Next incr now up p))"
| "pool_apply (EFailed b pid) p = fst (MarkFailed b pid p)"
| "pool_apply (ESuccess b pid) p = fst (MarkSuccess b pid p)"
| "pool_apply (ETransport env e) p = snd (Transport env e p)"

definition pool_run :: "pool_event list \<Rightarrow> ProxyPool \<Rightarrow> ProxyPool" where
  "pool_run es p = fold pool_apply es p"

lemma pool_inv_apply: "pool_inv p \<Longrightarrow> pool_inv (pool_apply e p)"
  by (cases e)
     (simp_all add: pool_inv_Add pool_inv_Update pool_inv_Delete pool_inv_Toggle pool_inv_MarkFailed
       pool_inv_MarkSuccess pool_inv_cong [of "fst (snd (Next _ _ _ p))" p]
       pool_inv_cong [of "snd (Transport _ _ p)" p])

lemma pool_inv_run: "pool_inv p \<Longrightarrow> pool_inv (pool_run es p)"
  by (induction es arbitrary: p) (auto simp: pool_run_def pool_inv_apply)

subsection \<open>Selection\<close>

lemma map_clear_in:
  "map clear_fail xs = filter pe_Enabled (map clear_fail ys) \<Longrightarrow> e \<in> set xs
    \<Longrightarrow> \<exists>e' \<in> set ys. clear_fail e' = clear_fail e \<and> pe_Enabled e'"
proof -
  assume eq: "map clear_fail xs = filter pe_Enabled (map clear_fail ys)" and "e \<in> set xs"
  then have "clear_fail e \<in> set (filter pe_Enabled (map clear_fail ys))" by (metis image_eqI set_map)
  then obtain y where "y \<in> set ys" "clear_fail e = clear_fail y" "pe_Enabled e" by auto
  then show ?thesis by (metis clear_fail_sel(2))
qed

lemma clear_fail_eqD:
  assumes "clear_fail e = clear_fail e'"
  shows "pe_ID e = pe_ID e'" "pe_Enabled e = pe_Enabled e'" "AppliesTo e = AppliesTo e'"
    "pe_Protocol e = pe_Protocol e'" "pe_Host e = pe_Host e'" "pe_Port e = pe_Port e'"
    "pe_Username e = pe_Username e'" "pe_Password e = pe_Password e'"
  using assms by (metis clear_fail_sel)+

lemma scoped_empty_iff:
  assumes "pool_inv p"
  shows "scoped up p = [] \<longleftrightarrow> (\<forall>e \<in> set (pp_entries p). \<not> (pe_Enabled e \<and> AppliesTo e up))"
proof -
  have "scoped up p = [] \<longleftrightarrow> (\<forall>e \<in> set (map clear_fail (pp_enabled p)). \<not> AppliesTo e up)"
    by (auto simp: scoped_def filter_empty_conv)
  also have "\<dots> \<longleftrightarrow> (\<forall>e \<in> set (enabled_core p). \<not> AppliesTo e up)"
    using assms by (simp add: pool_inv_def)
  finally show ?thesis by (auto simp: enabled_core_def)
qed

lemma scoped_member:
  assumes "pool_inv p" and "e \<in> set (scoped up p)"
  obtains e' where "e' \<in> set (pp_entries p)" "clear_fail e' = clear_fail e" "pe_Enabled e'"
    "AppliesTo e' up" "pe_FailCount e' < PROXY_FAIL_THRESHOLD"
proof -
  have "e \<in> set (pp_enabled p)" "AppliesTo e up" using assms by (auto simp: scoped_def)
  with assms(1) obtain e' where e': "e' \<in> set (pp_entries p)" "clear_fail e' = clear_fail e" "pe_Enabled e'"
    using map_clear_in [of "pp_enabled p" "pp_entries p" e] by (auto simp: pool_inv_def enabled_core_def)
  moreover have "AppliesTo e' up" using clear_fail_eqD(3) [OF e'(2)] \<open>AppliesTo e up\<close> by simp
  moreover have "pe_FailCount e' < PROXY_FAIL_THRESHOLD"
    using assms(1) e' by (auto simp: pool_inv_def fail_ok_def)
  ultimately show thesis using that by blast
qed

lemma Next_cases:
  "fst (Next incr now up p) =
     (if scoped up p = [] then Inl (NoProxyFor up)
      else Inr (scoped up p ! fst (rr_pick incr (length (scoped up p)) p)))"
  by (simp add: Next_def Let_def split_beta)

lemma Next_Inr_scoped: "fst (Next incr now up p) = Inr e \<Longrightarrow> e \<in> set (scoped up p)"
  using rr_pick_less [of "length (scoped up p)" incr p] by (auto simp: Next_cases split: if_splits)

lemma pool_inv_Load:
  "\<forall>d \<in> set ds. fail_ok d \<Longrightarrow> pool_inv (snd (Load (Some (Inr ds)) p))"
  by (auto simp: Load_def intro!: pool_inv_rebuild simp: dtoToEntry_def fail_ok_def)

text \<open>
  C23: Whatever the administrators and the requests do after the pool was loaded, and whatever
  value the shared or the local counter has (negative and wrapped ones included), \<^verbatim>\<open>Next\<close> either
  returns an entry that is stored, enabled, in scope and below the failure threshold, or fails,
  and it fails exactly when no stored entry is enabled and in scope.
\<close>

theorem Next_selects:
  assumes "\<forall>d \<in> set ds. fail_ok d"
    and p: "p = pool_run es (snd (Load (Some (Inr ds)) NewProxyPool))"
  shows "(case fst (Next incr now up p) of
            Inl err \<Rightarrow> err = NoProxyFor up
              \<and> (\<forall>e \<in> set (pp_entries p). \<not> (pe_Enabled e \<and> AppliesTo e up))
          | Inr e \<Rightarrow> \<exists>e' \<in> set (pp_entries p). clear_fail e' = clear_fail e \<and> pe_Enabled e'
              \<and> AppliesTo e' up \<and> pe_FailCount e' < PROXY_FAIL_THRESHOLD)"
proof -
  have inv: "pool_inv p" unfolding p by (rule pool_inv_run [OF pool_inv_Load [OF assms(1)]])
  show ?thesis
  proof (cases "fst (Next incr now up p)")
    case (Inl err)
    then show ?thesis using scoped_empty_iff [OF inv, of up] by (auto simp: Next_cases split: if_splits)
  next
    case (Inr e)
    then show ?thesis using scoped_member [OF inv Next_Inr_scoped [OF Inr]] by (auto intro: bexI)
  qed
qed

definition ex_entry :: "string \<Rightarrow> string list \<Rightarrow> ProxyEntry" where
  "ex_entry i us = \<lparr>pe_ID = i, pe_Protocol = ''http'', pe_Host = i, pe_Port = 8080, pe_Username = [],
     pe_Password = [], pe_Enabled = True, pe_Label = [], pe_Upstreams = Some us, pe_CreatedAt = 0,
     pe_LastUsedAt = 0, pe_FailCount = 0\<rparr>"

lemma ex_entry_ok: "fail_ok (ex_entry i us)"
  by (simp add: ex_entry_def fail_ok_def PROXY_FAIL_THRESHOLD_def)

definition ex_pool :: ProxyPool where
  "ex_pool = pool_run [EFailed True ''a'']
     (snd (Load (Some (Inr [ex_entry ''a'' [''all''], ex_entry ''b'' [''grok'']])) NewProxyPool))"

theorem Next_selects_witness:
  "case fst (Next (Some (Inr (- 3))) 5 ''grok'' ex_pool) of
     Inl err \<Rightarrow> err = NoProxyFor ''grok''
       \<and> (\<forall>e \<in> set (pp_entries ex_pool). \<not> (pe_Enabled e \<and> AppliesTo e ''grok''))
   | Inr e \<Rightarrow> \<exists>e' \<in> set (pp_entries ex_pool). clear_fail e' = clear_fail e \<and> pe_Enabled e'
       \<and> AppliesTo e' ''grok'' \<and> pe_FailCount e' < PROXY_FAIL_THRESHOLD"
  by (rule Next_selects [OF _ ex_pool_def]) (simp add: ex_entry_ok)

subsection \<open>What the upstream client relies on\<close>

text \<open>
  The client's view of a pool of exits: reports of failure and success about an identifier, which
  identifiers are usable, and how many failures are counted against one. The laws bound the
  number of consecutive failures a usable exit can have.
\<close>

locale proxy_source =
  fixes inv :: "'p \<Rightarrow> bool"
    and usable :: "'p \<Rightarrow> string \<Rightarrow> bool"
    and fails :: "'p \<Rightarrow> string \<Rightarrow> nat"
    and failed :: "string \<Rightarrow> 'p \<Rightarrow> 'p"
    and succeeded :: "string \<Rightarrow> 'p \<Rightarrow> 'p"
    and threshold :: nat
  assumes inv_failed: "inv p \<Longrightarrow> inv (failed i p)"
    and inv_succeeded: "inv p \<Longrightarrow> inv (succeeded i p)"
    and usable_below: "inv p \<Longrightarrow> usable p i \<Longrightarrow> fails p i < threshold"
    and failed_counts: "inv p \<Longrightarrow> usable (failed i p) i \<Longrightarrow> usable p i \<and> fails (failed i p) i = Suc (fails p i)"
    and failed_other: "inv p \<Longrightarrow> j \<noteq> i \<Longrightarrow> usable (failed i p) j = usable p j"
    and succeeded_usable: "inv p \<Longrightarrow> usable (succeeded i p) j = usable p j"
    and succeeded_resets: "inv p \<Longrightarrow> usable p i \<Longrightarrow> fails (succeeded i p) i = 0"
begin

lemma inv_failures: "inv p \<Longrightarrow> inv ((failed i ^^ n) p)"
  by (induction n) (auto simp: inv_failed)

lemma failures_count:
  "inv p \<Longrightarrow> usable ((failed i ^^ n) p) i \<Longrightarrow> fails ((failed i ^^ n) p) i = fails p i + n"
proof (induction n)
  case (Suc n)
  then show ?case using failed_counts [OF inv_failures [OF Suc.prems(1)]] by simp
qed simp

lemma threshold_failures_disable: "inv p \<Longrightarrow> threshold \<le> n \<Longrightarrow> \<not> usable ((failed i ^^ n) p) i"
  using failures_count usable_below inv_failures by fastforce

lemma failures_other: "inv p \<Longrightarrow> j \<noteq> i \<Longrightarrow> usable ((failed i ^^ n) p) j = usable p j"
  by (induction n) (auto simp: failed_other inv_failures)

lemma success_forgives:
  "inv p \<Longrightarrow> usable p i \<Longrightarrow> usable ((failed i ^^ n) (succeeded i p)) i \<Longrightarrow> n < threshold"
  using failures_count [OF inv_succeeded] usable_below [OF inv_failures [OF inv_succeeded]] succeeded_resets
  by fastforce

end

text \<open>Entries carry distinct, non-empty identifiers (eight hexadecimal digits from crypto/rand).\<close>

definition ids_ok :: "ProxyPool \<Rightarrow> bool" where
  "ids_ok p \<longleftrightarrow> distinct (map pe_ID (pp_entries p)) \<and> [] \<notin> set (map pe_ID (pp_entries p))"

definition usable_id :: "ProxyPool \<Rightarrow> string \<Rightarrow> bool" where
  "usable_id p i \<longleftrightarrow> list_ex (\<lambda>e. pe_ID e = i \<and> pe_Enabled e) (pp_entries p)"

definition fail_count :: "ProxyPool \<Rightarrow> string \<Rightarrow> nat" where
  "fail_count p i = (case find (\<lambda>e. pe_ID e = i) (pp_entries p) of None \<Rightarrow> 0 | Some e \<Rightarrow> nat (pe_FailCount e))"

lemma ids_unique:
  assumes "ids_ok p" "i < length (pp_entries p)" "j < length (pp_entries p)"
    "pe_ID (pp_entries p ! i) = pe_ID (pp_entries p ! j)"
  shows "i = j"
  using assms nth_eq_iff_index_eq [of "map pe_ID (pp_entries p)" i j] by (simp add: ids_ok_def)

lemma find_at:
  assumes "ids_ok p" "i < length (pp_entries p)"
  shows "find (\<lambda>e. pe_ID e = pe_ID (pp_entries p ! i)) (pp_entries p) = Some (pp_entries p ! i)"
    and "find_index (\<lambda>e. pe_ID e = pe_ID (pp_entries p ! i)) (pp_entries p) = Some i"
proof -
  show "find (\<lambda>e. pe_ID e = pe_ID (pp_entries p ! i)) (pp_entries p) = Some (pp_entries p ! i)"
    using assms ids_unique [OF assms(1)] by (auto simp: find_Some_iff intro!: exI [of _ i]) (metis order.strict_trans order.strict_iff_not)
  obtain k where k: "find_index (\<lambda>e. pe_ID e = pe_ID (pp_entries p ! i)) (pp_entries p) = Some k"
    using find_index_exists assms(2) by (metis (mono_tags, lifting) nth_mem)
  then show "find_index (\<lambda>e. pe_ID e = pe_ID (pp_entries p ! i)) (pp_entries p) = Some i"
    using find_index_Some [OF k] ids_unique [OF assms(1) _ assms(2)] by auto
qed

lemma usable_id_nth:
  "usable_id p i \<longleftrightarrow> (\<exists>k < length (pp_entries p). pe_ID (pp_entries p ! k) = i \<and> pe_Enabled (pp_entries p ! k))"
  unfolding usable_id_def list_ex_iff by (metis in_set_conv_nth)

lemma fail_count_nth:
  "ids_ok p \<Longrightarrow> k < length (pp_entries p) \<Longrightarrow> fail_count p (pe_ID (pp_entries p ! k)) = nat (pe_FailCount (pp_entries p ! k))"
  by (simp add: fail_count_def find_at)

lemma MarkFailed_entries:
  assumes "ids_ok p" "k < length (pp_entries p)"
  shows "pp_entries (fst (MarkFailed b (pe_ID (pp_entries p ! k)) p)) =
    (pp_entries p)[k := (let e = pp_entries p ! k; e1 = e\<lparr>pe_FailCount := pe_FailCount e + 1\<rparr>
       in if pe_FailCount e + 1 \<ge> PROXY_FAIL_THRESHOLD \<and> pe_Enabled e then e1\<lparr>pe_Enabled := False\<rparr> else e1)]"
proof -
  have "pe_ID (pp_entries p ! k) \<noteq> []" using assms by (auto simp: ids_ok_def) (metis image_eqI nth_mem)
  then show ?thesis by (simp add: MarkFailed_def find_at(2) [OF assms] Let_def)
qed

lemma MarkFailed_absent: "i \<notin> set (map pe_ID (pp_entries p)) \<Longrightarrow> fst (MarkFailed b i p) = p"
  using find_index_None [of "\<lambda>e. pe_ID e = i" "pp_entries p"] by (auto simp: MarkFailed_def)

lemma reset_same: "pe_FailCount e = 0 \<Longrightarrow> e\<lparr>pe_FailCount := 0\<rparr> = e"
  by (cases e) simp

lemma MarkSuccess_entries:
  assumes "ids_ok p" "k < length (pp_entries p)"
  shows "pp_entries (fst (MarkSuccess b (pe_ID (pp_entries p ! k)) p)) =
    (pp_entries p)[k := (pp_entries p ! k)\<lparr>pe_FailCount := 0\<rparr>]"
proof -
  have "pe_ID (pp_entries p ! k) \<noteq> []" using assms by (auto simp: ids_ok_def) (metis image_eqI nth_mem)
  then show ?thesis by (auto simp: MarkSuccess_def find_at(2) [OF assms] Let_def reset_same)
qed

lemma MarkSuccess_absent: "i \<notin> set (map pe_ID (pp_entries p)) \<Longrightarrow> fst (MarkSuccess b i p) = p"
  using find_index_None [of "\<lambda>e. pe_ID e = i" "pp_entries p"] by (auto simp: MarkSuccess_def)

definition client_inv :: "ProxyPool \<Rightarrow> bool" where
  "client_inv p \<longleftrightarrow> pool_inv p \<and> ids_ok p"

lemma ids_ok_ids: "map pe_ID (pp_entries q) = map pe_ID (pp_entries p) \<Longrightarrow> ids_ok q = ids_ok p"
  by (simp add: ids_ok_def)

lemma MarkFailed_ids: "map pe_ID (pp_entries (fst (MarkFailed b i p))) = map pe_ID (pp_entries p)"
  by (auto simp: MarkFailed_def Let_def dest!: find_index_Some split: option.split intro!: map_update_same)

lemma MarkSuccess_ids: "map pe_ID (pp_entries (fst (MarkSuccess b i p))) = map pe_ID (pp_entries p)"
  by (auto simp: MarkSuccess_def Let_def dest!: find_index_Some split: option.split intro!: map_update_same)

lemma usable_id_other:
  assumes "k < length (pp_entries p)" "pp_entries q = (pp_entries p)[k := y]"
    "pe_ID y = pe_ID (pp_entries p ! k)" "j \<noteq> pe_ID y"
  shows "usable_id q j = usable_id p j"
  using assms by (auto simp: usable_id_nth nth_list_update)

lemma usable_id_fields:
  assumes "k < length (pp_entries p)" "pp_entries q = (pp_entries p)[k := y]"
    "pe_ID y = pe_ID (pp_entries p ! k)" "pe_Enabled y = pe_Enabled (pp_entries p ! k)"
  shows "usable_id q j = usable_id p j"
  using assms by (auto simp: usable_id_nth nth_list_update)

interpretation px: proxy_source client_inv usable_id fail_count
  "\<lambda>i p. fst (MarkFailed b i p)" "\<lambda>i p. fst (MarkSuccess b i p)" 5
  for b
proof unfold_locales
  fix p i j
  assume inv: "client_inv p"
  then have ids: "ids_ok p" and pinv: "pool_inv p" by (auto simp: client_inv_def)
  show "client_inv (fst (MarkFailed b i p))" "client_inv (fst (MarkSuccess b i p))"
    using ids pinv
    by (auto simp: client_inv_def pool_inv_MarkFailed pool_inv_MarkSuccess ids_ok_ids [OF MarkFailed_ids]
        ids_ok_ids [OF MarkSuccess_ids])
  have ids': "ids_ok (fst (MarkFailed b i p))" "ids_ok (fst (MarkSuccess b i p))"
    using ids by (simp_all add: ids_ok_ids [OF MarkFailed_ids] ids_ok_ids [OF MarkSuccess_ids])
  have known: "i \<notin> set (map pe_ID (pp_entries p)) \<or> (\<exists>k < length (pp_entries p). i = pe_ID (pp_entries p ! k))"
    by (auto simp: in_set_conv_nth)
  show "fail_count p i < 5" if "usable_id p i"
    using that pool_inv_nth [OF pinv] ids
    by (fastforce simp: usable_id_nth fail_count_nth fail_ok_def PROXY_FAIL_THRESHOLD_def)
  show "usable_id (fst (MarkFailed b i p)) j = usable_id p j" if "j \<noteq> i"
    using known
  proof (elim disjE exE conjE)
    fix k assume k: "k < length (pp_entries p)" "i = pe_ID (pp_entries p ! k)"
    show ?thesis
      by (rule usable_id_other [OF k(1)], unfold k(2), rule MarkFailed_entries [OF ids k(1)])
         (use that k in \<open>auto simp: Let_def\<close>)
  qed (simp add: MarkFailed_absent)
  show "usable_id (fst (MarkSuccess b i p)) j = usable_id p j"
    using known
  proof (elim disjE exE conjE)
    fix k assume k: "k < length (pp_entries p)" "i = pe_ID (pp_entries p ! k)"
    show ?thesis
      by (rule usable_id_fields [OF k(1)], unfold k(2), rule MarkSuccess_entries [OF ids k(1)]) simp_all
  qed (simp add: MarkSuccess_absent)
  show "fail_count (fst (MarkSuccess b i p)) i = 0" if "usable_id p i"
  proof -
    from that obtain k where k: "k < length (pp_entries p)" "i = pe_ID (pp_entries p ! k)"
      by (auto simp: usable_id_nth)
    then show ?thesis
      using fail_count_nth [OF ids'(2), of k] MarkSuccess_entries [OF ids k(1), of b] by simp
  qed
  show "usable_id p i \<and> fail_count (fst (MarkFailed b i p)) i = Suc (fail_count p i)"
    if u: "usable_id (fst (MarkFailed b i p)) i"
    using known
  proof (elim disjE exE conjE)
    assume "i \<notin> set (map pe_ID (pp_entries p))"
    with u show ?thesis by (auto simp: MarkFailed_absent usable_id_nth)
  next
    fix k assume k: "k < length (pp_entries p)" "i = pe_ID (pp_entries p ! k)"
    note en = MarkFailed_entries [OF ids k(1), of b, folded k(2)]
    let ?e = "pp_entries p ! k"
    obtain m where m: "m < length (pp_entries p)" "pe_ID (pp_entries (fst (MarkFailed b i p)) ! m) = i"
        "pe_Enabled (pp_entries (fst (MarkFailed b i p)) ! m)"
      using u en by (auto simp: usable_id_nth)
    have "m = k"
      using ids_unique [OF ids'(1), of m k] m k(1) en by (auto simp: Let_def k(2))
    then have stay: "\<not> (pe_FailCount ?e + 1 \<ge> PROXY_FAIL_THRESHOLD \<and> pe_Enabled ?e)" "pe_Enabled ?e"
      using m en k(1) by (auto simp: Let_def split: if_splits)
    then have "usable_id p i" using k by (auto simp: usable_id_nth)
    moreover have "fail_count (fst (MarkFailed b i p)) i = nat (pe_FailCount ?e + 1)"
      using fail_count_nth [OF ids'(1), of k] en k stay by (auto simp: Let_def)
    moreover have "0 \<le> pe_FailCount ?e" using pool_inv_nth [OF pinv k(1)] by (simp add: fail_ok_def)
    ultimately show ?thesis using fail_count_nth [OF ids k(1)] k by (simp add: nat_add_distrib)
  qed
qed
subsection \<open>Auto-disable\<close>

fun readmits :: "string \<Rightarrow> pool_event \<Rightarrow> bool" where
  "readmits i (EAdd db nid now e) \<longleftrightarrow> nid = Inr i"
| "readmits i (EUpdate db pid e) \<longleftrightarrow> pid = i"
| "readmits i (EToggle db pid) \<longleftrightarrow> pid = i"
| "readmits i _ \<longleftrightarrow> False"

lemma usable_id_set: "usable_id p i \<longleftrightarrow> (\<exists>e \<in> set (pp_entries p). pe_ID e = i \<and> pe_Enabled e)"
  by (simp add: usable_id_def list_ex_iff)

lemma validateEntry_keeps:
  "validateEntry e = Inr v \<Longrightarrow>
     pe_ID v = pe_ID e \<and> pe_Enabled v = pe_Enabled e \<and> pe_Password v = pe_Password e \<and> pe_Port v = pe_Port e"
  by (auto simp: validateEntry_def Let_def split: option.splits if_splits)

lemma usable_entries: "pp_entries q = pp_entries p \<Longrightarrow> usable_id q i = usable_id p i"
  by (simp add: usable_id_def)

lemma Add_usable:
  "usable_id (fst (snd (Add db nid now e p))) i \<Longrightarrow> nid \<noteq> Inr i \<Longrightarrow> usable_id p i"
  by (auto simp: Add_def Let_def usable_id_set split: sum.splits option.splits)

lemma Update_usable:
  "usable_id (fst (snd (Update db pid e p))) i \<Longrightarrow> pid \<noteq> i \<Longrightarrow> usable_id p i"
  by (auto simp: Update_def Let_def usable_id_nth nth_list_update merge_update_def dest!: find_index_Some validateEntry_keeps
      split: sum.splits option.splits if_splits)

lemma Delete_usable: "usable_id (fst (snd (Delete db pid p))) i \<Longrightarrow> usable_id p i"
  by (auto simp: Delete_def Let_def usable_id_set split: option.splits if_splits)

lemma Toggle_usable:
  "usable_id (fst (snd (Toggle db pid p))) i \<Longrightarrow> pid \<noteq> i \<Longrightarrow> usable_id p i"
  by (auto simp: Toggle_def Let_def usable_id_nth nth_list_update dest!: find_index_Some
      split: option.splits if_splits)

lemma MarkFailed_usable: "usable_id (fst (MarkFailed b pid p)) i \<Longrightarrow> usable_id p i"
  by (auto simp: MarkFailed_def Let_def usable_id_nth nth_list_update dest!: find_index_Some
      split: option.splits if_splits)

lemma MarkSuccess_usable: "usable_id (fst (MarkSuccess b pid p)) i \<Longrightarrow> usable_id p i"
  by (auto simp: MarkSuccess_def Let_def usable_id_nth nth_list_update dest!: find_index_Some
      split: option.splits if_splits)

lemmas usable_steps = Add_usable Update_usable Delete_usable Toggle_usable MarkFailed_usable MarkSuccess_usable

lemma apply_usable: "usable_id (pool_apply ev p) i \<Longrightarrow> \<not> readmits i ev \<Longrightarrow> usable_id p i"
  by (cases ev) (auto dest: usable_steps simp: usable_entries [of "fst (snd (Next _ _ _ p))" p]
      usable_entries [of "snd (Transport _ _ p)" p])

lemma run_usable: "\<not> usable_id p i \<Longrightarrow> \<forall>ev \<in> set es. \<not> readmits i ev \<Longrightarrow> \<not> usable_id (pool_run es p) i"
  by (induction es arbitrary: p) (auto simp: pool_run_def dest: apply_usable)

lemma Next_usable:
  assumes "pool_inv p" and "fst (Next incr now up p) = Inr e"
  shows "usable_id p (pe_ID e)"
proof -
  obtain e' where e': "e' \<in> set (pp_entries p)" "clear_fail e' = clear_fail e" "pe_Enabled e'"
    using scoped_member [OF assms(1) Next_Inr_scoped [OF assms(2)]] by blast
  show ?thesis
    unfolding usable_id_set by (rule bexI [OF _ e'(1)]) (simp add: clear_fail_eqD(1) [OF e'(2)] e'(3))
qed

lemma report_bad:
  "i \<noteq> [] \<Longrightarrow> err \<noteq> None \<or> st \<in> {502, 503, 504} \<Longrightarrow>
     (\<lambda>q. fst (markProxyResult b i err st q)) = (\<lambda>q. fst (MarkFailed b i q))"
  by (auto simp: markProxyResult_def fun_eq_iff)


lemma ex_pool_inv: "client_inv ex_pool"
proof -
  have "pool_inv ex_pool" unfolding ex_pool_def by (rule pool_inv_run [OF pool_inv_Load]) (simp add: ex_entry_ok)
  moreover have "ids_ok ex_pool" by (simp add: ex_pool_def pool_run_def Load_def NewProxyPool_def
      ids_ok_def ids_ok_ids [OF MarkFailed_ids] dtoToEntry_def ups_list_def ex_entry_def MarkFailed_def
      Let_def PROXY_FAIL_THRESHOLD_def)
  ultimately show ?thesis by (simp add: client_inv_def)
qed


subsection \<open>Rotation\<close>

text \<open>\<open>next_n\<close> issues \<open>k\<close> selections in a row for one upstream on a pool without a store.\<close>

fun next_n :: "string \<Rightarrow> nat \<Rightarrow> ProxyPool \<Rightarrow> (proxy_error + ProxyEntry) list" where
  "next_n up 0 p = []"
| "next_n up (Suc k) p = (let (r, p1, _) = Next None 0 up p in r # next_n up k p1)"

lemma Next_local:
  assumes "scoped up p \<noteq> []" and "rrIndex p = word_of_nat c" and "c < 2 ^ 64"
  shows "Next None now up p =
    (Inr (scoped up p ! (c mod length (scoped up p))), p\<lparr>rrIndex := word_of_nat (Suc c)\<rparr>, [])"
  using assms rr_index_unsigned_Suc [of c "length (scoped up p)"]
  by (simp add: Next_def Let_def rr_pick_def add.commute)

lemma scoped_rrIndex [simp]: "scoped up (p\<lparr>rrIndex := v\<rparr>) = scoped up p"
  by (simp add: scoped_def)

lemma next_n_local:
  assumes "scoped up p \<noteq> []" and "rrIndex p = word_of_nat c" and "c + k \<le> 2 ^ 64"
  shows "next_n up k p = map (\<lambda>i. Inr (scoped up p ! ((c + i) mod length (scoped up p)))) [0..<k]"
  using assms
proof (induction k arbitrary: c p)
  case (Suc k)
  have "next_n up (Suc k) p =
      Inr (scoped up p ! (c mod length (scoped up p))) # next_n up k (p\<lparr>rrIndex := word_of_nat (Suc c)\<rparr>)"
    using Suc.prems Next_local [of up p c 0] by simp
  also have "next_n up k (p\<lparr>rrIndex := word_of_nat (Suc c)\<rparr>) =
      map (\<lambda>i. Inr (scoped up p ! ((Suc c + i) mod length (scoped up p)))) [0..<k]"
    using Suc.IH [of "p\<lparr>rrIndex := word_of_nat (Suc c)\<rparr>" "Suc c"] Suc.prems by simp
  finally show ?case by (simp add: upt_conv_Cons map_Suc_upt [symmetric] comp_def del: upt_Suc map_Suc_upt)
qed simp

lemma rotate_mod: "xs \<noteq> [] \<Longrightarrow> map (\<lambda>i. xs ! ((c + i) mod length xs)) [0..<length xs] = rotate c xs"
  by (rule nth_equalityI) (auto simp: nth_rotate)

text \<open>
  Without a store, as many consecutive selections as there are enabled proxies in scope visit
  each of them exactly once, in the order of the pool starting at the cursor, as long as the
  64-bit cursor does not wrap in between.
\<close>

theorem Next_rotates:
  assumes "unat (rrIndex p) + length (scoped up p) \<le> 2 ^ 64"
  shows "next_n up (length (scoped up p)) p = map Inr (rotate (unat (rrIndex p)) (scoped up p))"
proof (cases "scoped up p = []")
  case False
  then have "next_n up (length (scoped up p)) p =
      map Inr (map (\<lambda>i. scoped up p ! ((unat (rrIndex p) + i) mod length (scoped up p))) [0..<length (scoped up p)])"
    using next_n_local [of up p "unat (rrIndex p)"] assms by simp
  then show ?thesis by (simp only: rotate_mod [OF False])
qed simp

theorem Next_rotates_witness:
  "next_n ''grok'' (length (scoped ''grok'' ex_pool)) ex_pool
     = map Inr (rotate (unat (rrIndex ex_pool)) (scoped ''grok'' ex_pool))
   \<and> map pe_ID (scoped ''grok'' ex_pool) = [''a'', ''b'']"
proof -
  have "rrIndex ex_pool = 0" and ids: "map pe_ID (scoped ''grok'' ex_pool) = [''a'', ''b'']"
    by (simp_all add: ex_pool_def pool_run_def Load_def NewProxyPool_def scoped_def AppliesTo_def
        dtoToEntry_def ups_list_def ex_entry_def MarkFailed_def Let_def PROXY_FAIL_THRESHOLD_def UpstreamAll_def)
  moreover from ids have "length (scoped ''grok'' ex_pool) = 2"
    by (metis length_map length_Cons list.size(3) numeral_2_eq_2)
  ultimately show ?thesis using Next_rotates [of ex_pool "''grok''"] by simp
qed

text \<open>
  All upstreams share one cursor. \<open>alternate\<close> lets two upstreams select in turn.
\<close>

fun alternate :: "nat \<Rightarrow> ProxyPool \<Rightarrow> (proxy_error + ProxyEntry) list" where
  "alternate 0 p = []"
| "alternate (Suc k) p =
     (let (r, p1, _) = Next None 0 ''grok'' p; (_, p2, _) = Next None 0 ''codebuddy'' p1
      in r # alternate k p2)"

lemma alternate_even:
  assumes "length (scoped ''grok'' p) = 2" and "scoped ''codebuddy'' p \<noteq> []"
    and "rrIndex p = word_of_nat (2 * c)" and "2 * c + 2 * k \<le> 2 ^ 64"
  shows "alternate k p = replicate k (Inr (scoped ''grok'' p ! 0))"
  using assms
proof (induction k arbitrary: c p)
  case (Suc k)
  let ?p1 = "p\<lparr>rrIndex := word_of_nat (Suc (2 * c))\<rparr>"
  let ?p2 = "p\<lparr>rrIndex := word_of_nat (Suc (Suc (2 * c)))\<rparr>"
  have ne: "scoped ''grok'' p \<noteq> []" using Suc.prems by auto
  have g: "Next None 0 ''grok'' p = (Inr (scoped ''grok'' p ! 0), ?p1, [])"
    using Next_local [of "''grok''" p "2 * c", OF ne] Suc.prems by simp
  have c: "fst (snd (Next None 0 ''codebuddy'' ?p1)) = ?p2"
    using Next_local [of "''codebuddy''" ?p1 "Suc (2 * c)" 0] Suc.prems by simp
  have "alternate (Suc k) p = Inr (scoped ''grok'' p ! 0) # alternate k ?p2"
    by (simp only: alternate.simps g Let_def split_beta fst_conv snd_conv c)
  then show ?case using Suc.IH [of ?p2 "Suc c"] Suc.prems by simp
qed simp

text \<open>
  The selections of two upstreams interfere. When Grok has two proxies in scope and CodeBuddy
  at least one, and the two upstreams select alternately, every selection for Grok returns the
  first proxy: the second is never used, although each upstream alone would rotate.
\<close>

theorem shared_cursor_starves:
  assumes "length (scoped ''grok'' p) = 2" and "scoped ''codebuddy'' p \<noteq> []"
    and "rrIndex p = 0" and "k \<le> 2 ^ 63"
  shows "alternate k p = replicate k (Inr (scoped ''grok'' p ! 0))"
  using alternate_even [of p 0 k] assms by simp

definition ex_shared :: ProxyPool where
  "ex_shared = snd (Load (Some (Inr [ex_entry ''g1'' [''grok''], ex_entry ''g2'' [''grok''], ex_entry ''c'' [''codebuddy'']])) NewProxyPool)"

lemma ex_shared_eval:
  "scoped ''grok'' ex_shared = [ex_entry ''g1'' [''grok''], ex_entry ''g2'' [''grok'']]"
  "scoped ''codebuddy'' ex_shared = [ex_entry ''c'' [''codebuddy'']]" "rrIndex ex_shared = 0"
  by (simp_all add: ex_shared_def Load_def NewProxyPool_def scoped_def AppliesTo_def UpstreamAll_def
      dtoToEntry_def ups_list_def ex_entry_def)

theorem shared_cursor_starves_witness:
  "alternate 1000 ex_shared = replicate 1000 (Inr (ex_entry ''g1'' [''grok'']))"
  using shared_cursor_starves [of ex_shared 1000] by (simp add: ex_shared_eval)
subsection \<open>Validation and the masked edit form\<close>

lemma normalise_loop_fixed:
  "\<forall>u \<in> set us. ToLower (TrimSpace u) = u \<and> u \<noteq> [] \<Longrightarrow> distinct (out @ us) \<Longrightarrow> normalise_loop out us = out @ us"
  by (induction us arbitrary: out) (auto simp: Let_def)

lemma normalise_loop_distinct: "distinct out \<Longrightarrow> distinct (normalise_loop out us)"
  by (induction out us rule: normalise_loop.induct) (auto simp: Let_def)

lemma normalise_loop_ne: "out \<noteq> [] \<Longrightarrow> normalise_loop out us \<noteq> []"
  by (induction out us rule: normalise_loop.induct) (auto simp: Let_def)

lemma word_fixed:
  "ToLower (TrimSpace ''all'') = ''all''" "ToLower (TrimSpace ''grok'') = ''grok''"
  "ToLower (TrimSpace ''codebuddy'') = ''codebuddy''" "ToLower (TrimSpace ''http'') = ''http''"
  "ToLower (TrimSpace ''socks5'') = ''socks5''"
  by (simp_all add: TrimSpace_def trim_by.simps seq_len_def space_seqs_def lower_char_def upper_chars_def lower_chars_def)

lemma normaliseUpstreams_shape:
  "distinct (normaliseUpstreams us)" "normaliseUpstreams us \<noteq> []"
  "UpstreamAll \<in> set (normaliseUpstreams us) \<Longrightarrow> normaliseUpstreams us = [UpstreamAll]"
  by (auto simp: normaliseUpstreams_def Let_def normalise_loop_distinct split: if_splits)

lemma normaliseUpstreams_idem:
  assumes "set (normaliseUpstreams us) \<subseteq> set validUpstreams"
  shows "normaliseUpstreams (Some (normaliseUpstreams us)) = normaliseUpstreams us"
proof -
  let ?vs = "normaliseUpstreams us"
  have "\<forall>u \<in> set ?vs. ToLower (TrimSpace u) = u \<and> u \<noteq> []"
    using assms by (auto simp: validUpstreams_def word_fixed)
  then have "normalise_loop [] ?vs = ?vs"
    using normalise_loop_fixed [of ?vs "[]"] normaliseUpstreams_shape(1) by simp
  then show ?thesis
    using normaliseUpstreams_shape(2,3) [of us]
    by (auto simp: normaliseUpstreams_def [of "Some ?vs"] ups_list_def Let_def)
qed

lemma validateEntry_Inr:
  assumes "validateEntry e = Inr v"
  shows "v = e\<lparr>pe_Protocol := ToLower (TrimSpace (pe_Protocol e)), pe_Host := TrimSpace (pe_Host e),
           pe_Label := TrimSpace (pe_Label e), pe_Username := TrimSpace (pe_Username e),
           pe_Upstreams := Some (normaliseUpstreams (pe_Upstreams e))\<rparr>"
    and "pe_Protocol v \<in> {''http'', ''socks5''}" "1 \<le> pe_Port v" "pe_Port v \<le> 65535"
    and "pe_Host v \<noteq> []" "length (pe_Host v) \<le> 253" "\<forall>c \<in> set (pe_Host v). c \<notin> set bad_host_chars"
    and "set (normaliseUpstreams (pe_Upstreams e)) \<subseteq> set validUpstreams"
    and "length (pe_Label v) \<le> 64" "length (pe_Username v) \<le> 256" "length (pe_Password v) \<le> 256"
  using assms
  by (auto simp: validateEntry_def Let_def find_None_iff ups_list_def list_ex_iff split: option.splits if_splits)

lemma validateEntry_idem:
  assumes "validateEntry e = Inr v"
  shows "validateEntry v = Inr v"
proof -
  note V = validateEntry_Inr [OF assms]
  have "ToLower (TrimSpace (pe_Protocol v)) = pe_Protocol v" using V(2) by (auto simp: word_fixed)
  moreover have "normaliseUpstreams (pe_Upstreams v) = normaliseUpstreams (pe_Upstreams e)"
    using normaliseUpstreams_idem [OF V(8)] by (subst V(1)) simp
  ultimately have same: "v\<lparr>pe_Protocol := ToLower (TrimSpace (pe_Protocol v)), pe_Host := TrimSpace (pe_Host v),
           pe_Label := TrimSpace (pe_Label v), pe_Username := TrimSpace (pe_Username v),
           pe_Upstreams := Some (normaliseUpstreams (pe_Upstreams v))\<rparr> = v"
    using V(1) by simp
  have "find (\<lambda>u. u \<notin> set validUpstreams) (normaliseUpstreams (pe_Upstreams e)) = None"
    using V(8) by (auto simp: find_None_iff)
  moreover have "ups_list (pe_Upstreams v) = normaliseUpstreams (pe_Upstreams e)"
    by (subst V(1)) (simp add: ups_list_def)
  ultimately show ?thesis
    using V(2-7,9-11) unfolding validateEntry_def same Let_def by (auto simp: list_ex_iff)
qed

definition entry_valid :: "ProxyEntry \<Rightarrow> bool" where
  "entry_valid e \<longleftrightarrow> validateEntry e = Inr e"

text \<open>
  Validation normalises: what it accepts is a fixed point of it, with a supported protocol, a
  host of 1 to 253 bytes without blanks or slashes, a port from 1 to 65535 and a duplicate-free,
  non-empty scope over the known upstreams in which \<^verbatim>\<open>"all"\<close> stands alone; and identity, enabled
  flag and password are untouched.
\<close>

theorem validateEntry_normalises:
  assumes "validateEntry e = Inr v"
  shows "validateEntry v = Inr v \<and> pe_Protocol v \<in> {''http'', ''socks5''}
    \<and> 1 \<le> pe_Port v \<and> pe_Port v \<le> 65535
    \<and> 0 < length (pe_Host v) \<and> length (pe_Host v) \<le> 253 \<and> set (pe_Host v) \<inter> set bad_host_chars = {}
    \<and> (\<exists>us. pe_Upstreams v = Some us \<and> us \<in> {[''all''], [''grok''], [''codebuddy''], [''grok'', ''codebuddy''], [''codebuddy'', ''grok'']})
    \<and> pe_ID v = pe_ID e \<and> pe_Enabled v = pe_Enabled e \<and> pe_Password v = pe_Password e"
proof -
  note V = validateEntry_Inr [OF assms]
  let ?us = "normaliseUpstreams (pe_Upstreams e)"
  have us: "?us \<in> {[''all''], [''grok''], [''codebuddy''], [''grok'', ''codebuddy''], [''codebuddy'', ''grok'']}"
  proof (cases "''all'' \<in> set ?us")
    case True
    then show ?thesis using normaliseUpstreams_shape(3) [of "pe_Upstreams e"] by (simp add: UpstreamAll_def)
  next
    case False
    then have sub: "set ?us \<subseteq> {''grok'', ''codebuddy''}" using V(8) by (auto simp: validUpstreams_def)
    have "length ?us \<le> 2"
      using card_mono [OF _ sub] distinct_card [OF normaliseUpstreams_shape(1) [of "pe_Upstreams e"]] by simp
    moreover obtain a bs where "?us = a # bs" using normaliseUpstreams_shape(2) by (cases ?us) auto
    ultimately show ?thesis
      using sub normaliseUpstreams_shape(1) [of "pe_Upstreams e"] by (cases bs) auto
  qed
  have "pe_Upstreams v = Some ?us" by (subst V(1)) simp
  with us have "\<exists>us. pe_Upstreams v = Some us \<and> us \<in> {[''all''], [''grok''], [''codebuddy''], [''grok'', ''codebuddy''], [''codebuddy'', ''grok'']}"
    by blast
  then show ?thesis
    using V(2-7) validateEntry_idem [OF assms] validateEntry_keeps [OF assms] by auto
qed

definition ex_raw :: ProxyEntry where
  "ex_raw = (ex_entry ''a'' ['' Grok '', ''grok''])\<lparr>pe_Protocol := '' HTTP''\<rparr>"

lemma ex_raw_valid: "validateEntry ex_raw = Inr (ex_entry ''a'' [''grok''])"
  by (simp add: validateEntry_def ex_raw_def ex_entry_def Let_def normaliseUpstreams_def ups_list_def
      TrimSpace_def trim_by.simps seq_len_def space_seqs_def lower_char_def upper_chars_def lower_chars_def
      UpstreamAll_def validUpstreams_def bad_host_chars_def)

theorem validateEntry_normalises_witness:
  "validateEntry (ex_entry ''a'' [''grok'']) = Inr (ex_entry ''a'' [''grok''])"
  using validateEntry_normalises [OF ex_raw_valid] by blast

lemma merge_masked: "pe_Host e \<noteq> [] \<Longrightarrow> merge_update (masked e) e = e"
  by (cases e) (auto simp: merge_update_def masked_def)

text \<open>
  The edit form round trip. The dashboard reads an entry with its password masked and sends
  it back: submitting what was read, unchanged, stores exactly the same entry, password included,
  with its failure count reset, and no other entry changes.
\<close>

theorem masked_form_roundtrip:
  assumes "ids_ok p" and "k < length (pp_entries p)" and "entry_valid (pp_entries p ! k)"
    and "Get (pe_ID (pp_entries p ! k)) p = Some m"
  shows "pp_entries (fst (snd (Update db (pe_ID (pp_entries p ! k)) m p)))
           = (pp_entries p)[k := (pp_entries p ! k)\<lparr>pe_FailCount := 0\<rparr>]
         \<and> pe_Password m \<in> {[], ''***''}"
proof -
  let ?e = "pp_entries p ! k"
  have m: "m = masked ?e" and ne: "pe_ID ?e \<noteq> []"
    using assms(4) find_at(1) [OF assms(1,2)] by (auto simp: Get_def split: if_splits)
  have "pe_Host ?e \<noteq> []" using assms(3) validateEntry_Inr(5) by (auto simp: entry_valid_def)
  then have "validateEntry (merge_update m ?e) = Inr ?e"
    using assms(3) by (simp add: m merge_masked entry_valid_def)
  then show ?thesis
    using ne find_at(2) [OF assms(1,2)] by (auto simp: Update_def Let_def m masked_def)
qed

theorem masked_form_roundtrip_witness:
  "pp_entries (fst (snd (Update None ''g1'' (masked (ex_entry ''g1'' [''grok''])) ex_shared)))
     = (pp_entries ex_shared)[0 := (ex_entry ''g1'' [''grok''])\<lparr>pe_FailCount := 0\<rparr>]"
proof -
  have en: "pp_entries ex_shared = [ex_entry ''g1'' [''grok''], ex_entry ''g2'' [''grok''], ex_entry ''c'' [''codebuddy'']]"
    by (simp add: ex_shared_def Load_def NewProxyPool_def dtoToEntry_def ups_list_def ex_entry_def)
  have "entry_valid (ex_entry ''g1'' [''grok''])"
    by (simp add: entry_valid_def validateEntry_def ex_entry_def Let_def normaliseUpstreams_def ups_list_def
      TrimSpace_def trim_by.simps seq_len_def space_seqs_def lower_char_def upper_chars_def lower_chars_def
      UpstreamAll_def validUpstreams_def bad_host_chars_def)
  then show ?thesis
    using masked_form_roundtrip [of ex_shared 0 "masked (ex_entry ''g1'' [''grok''])" None]
    by (simp add: en ids_ok_def Get_def ex_entry_def)
qed

subsection \<open>The transport cache\<close>

definition conn :: "ProxyEntry \<Rightarrow> string \<times> string \<times> int \<times> string \<times> string" where
  "conn e = (pe_Protocol e, pe_Host e, pe_Port e, pe_Username e, pe_Password e)"

text \<open>A cached transport connects the way the stored entry of its identifier says.\<close>

definition cache_ok :: "ProxyPool \<Rightarrow> bool" where
  "cache_ok p \<longleftrightarrow> (\<forall>i t. transports p i = Some t \<longrightarrow>
     (\<exists>e \<in> set (pp_entries p). pe_ID e = i \<and> conn e = conn t))"

lemma cache_okI: "(\<And>i t. transports p i = Some t \<Longrightarrow> \<exists>e \<in> set (pp_entries p). pe_ID e = i \<and> conn e = conn t) \<Longrightarrow> cache_ok p"
  by (auto simp: cache_ok_def)

lemma cache_ok_shrink:
  assumes "cache_ok p" and "\<And>i t. transports q i = Some t \<Longrightarrow> transports p i = Some t"
    and "\<And>e. e \<in> set (pp_entries p) \<Longrightarrow> transports q (pe_ID e) \<noteq> None \<Longrightarrow>
           \<exists>e' \<in> set (pp_entries q). pe_ID e' = pe_ID e \<and> conn e' = conn e"
  shows "cache_ok q"
proof (rule cache_okI)
  fix i t assume t: "transports q i = Some t"
  then obtain e where "e \<in> set (pp_entries p)" "pe_ID e = i" "conn e = conn t"
    using assms(1) assms(2) [OF t] unfolding cache_ok_def by blast
  then show "\<exists>e \<in> set (pp_entries q). pe_ID e = i \<and> conn e = conn t"
    using assms(3) [of e] t by auto
qed

lemma conn_fields [simp]:
  "conn (e\<lparr>pe_FailCount := n\<rparr>) = conn e" "conn (e\<lparr>pe_Enabled := b\<rparr>) = conn e"
  by (simp_all add: conn_def)

lemma update_keeps:
  assumes "i < length xs" "pe_ID y = pe_ID (xs ! i)" "conn y = conn (xs ! i)" "e \<in> set xs"
  shows "\<exists>e' \<in> set (xs[i := y]). pe_ID e' = pe_ID e \<and> conn e' = conn e"
proof -
  obtain k where "k < length xs" "e = xs ! k" using assms(4) by (auto simp: in_set_conv_nth)
  moreover from this have "xs[i := y] ! k \<in> set (xs[i := y])" by (intro nth_mem) simp
  ultimately show ?thesis using assms(1-3) by (intro bexI [of _ "xs[i := y] ! k"]) (auto simp: nth_list_update)
qed

lemma update_other:
  assumes "i < length xs" "e \<in> set xs" "pe_ID e \<noteq> pe_ID (xs ! i)"
  shows "e \<in> set (xs[i := y])"
  using assms by (metis in_set_conv_nth length_list_update nth_list_update_neq)

lemma cache_ok_Add: "cache_ok p \<Longrightarrow> cache_ok (fst (snd (Add db nid now e p)))"
  by (auto simp: Add_def Let_def split: sum.splits option.splits intro!: cache_ok_shrink [of p])

lemma cache_ok_Update: "cache_ok p \<Longrightarrow> cache_ok (fst (snd (Update db pid e p)))"
  by (auto simp: Update_def Let_def dest!: find_index_Some split: sum.splits option.splits if_splits
      intro!: cache_ok_shrink [of p] update_other bexI)

lemma cache_ok_Delete: "cache_ok p \<Longrightarrow> cache_ok (fst (snd (Delete db pid p)))"
  by (auto simp: Delete_def Let_def split: option.splits if_splits intro!: cache_ok_shrink [of p])

lemma cache_ok_Toggle: "cache_ok p \<Longrightarrow> cache_ok (fst (snd (Toggle db pid p)))"
  by (auto simp: Toggle_def Let_def dest!: find_index_Some split: option.splits
      intro!: cache_ok_shrink [of p] update_keeps)

lemma cache_ok_MarkFailed: "cache_ok p \<Longrightarrow> cache_ok (fst (MarkFailed b pid p))"
  by (auto simp: MarkFailed_def Let_def dest!: find_index_Some split: option.splits if_splits
      intro!: cache_ok_shrink [of p] update_keeps)

lemma cache_ok_MarkSuccess: "cache_ok p \<Longrightarrow> cache_ok (fst (MarkSuccess b pid p))"
  by (auto simp: MarkSuccess_def Let_def dest!: find_index_Some split: option.splits if_splits
      intro!: cache_ok_shrink [of p] update_keeps)

lemma cache_ok_cong:
  "pp_entries q = pp_entries p \<Longrightarrow> transports q = transports p \<Longrightarrow> cache_ok q = cache_ok p"
  by (simp add: cache_ok_def)

lemma buildTransport_Inr: "buildTransport env e = Inr t \<Longrightarrow> t = e"
  by (auto simp: buildTransport_def split: option.splits if_splits)

lemma cache_ok_Transport:
  assumes "cache_ok p" and "e' \<in> set (pp_entries p)" and "pe_ID e' = pe_ID e" and "conn e' = conn e"
  shows "cache_ok (snd (Transport env e p))"
  using assms by (auto simp: Transport_def cache_ok_def dest: buildTransport_Inr split: option.splits sum.splits)

lemma conn_clear: "clear_fail e = clear_fail e' \<Longrightarrow> conn e = conn e'"
  using clear_fail_eqD by (metis conn_def)

lemma getClient_state:
  "fst (snd (getClient env incr now up p)) =
     (let q = fst (snd (Next incr now up p)) in
      case fst (Next incr now up p) of Inl _ \<Rightarrow> q
      | Inr e \<Rightarrow> (case fst (Transport env e q) of
                   Inl _ \<Rightarrow> fst (MarkFailed (incr \<noteq> None) (pe_ID e) (snd (Transport env e q)))
                 | Inr _ \<Rightarrow> snd (Transport env e q)))"
  by (auto simp: getClient_def Let_def split_beta split: prod.splits sum.splits)

lemma cache_ok_getClient:
  assumes "cache_ok p" and "pool_inv p"
  shows "cache_ok (fst (snd (getClient env incr now up p)))"
proof -
  let ?q = "fst (snd (Next incr now up p))"
  have q: "cache_ok ?q" using assms(1) by (simp add: cache_ok_cong [of ?q p])
  have t: "cache_ok (snd (Transport env e ?q))" if sel: "fst (Next incr now up p) = Inr e" for e
  proof -
    obtain e' where e': "e' \<in> set (pp_entries p)" "clear_fail e' = clear_fail e"
      using scoped_member [OF assms(2) Next_Inr_scoped [OF sel]] by blast
    show ?thesis
      by (rule cache_ok_Transport [OF q, of e']) (simp_all add: e'(1) clear_fail_eqD(1) [OF e'(2)] conn_clear [OF e'(2)])
  qed
  show ?thesis
    unfolding getClient_state Let_def
    by (auto simp: q t cache_ok_MarkFailed split: sum.splits)
qed

datatype client_event =
    Admin pool_event
  | Client transport_env incr_result gotime string
  | Report bool string "go_error option" int

fun client_apply :: "client_event \<Rightarrow> ProxyPool \<Rightarrow> ProxyPool" where
  "client_apply (Admin ev) p = pool_apply ev p"
| "client_apply (Client env incr now up) p = fst (snd (getClient env incr now up p))"
| "client_apply (Report b i err st) p = fst (markProxyResult b i err st p)"

fun bare_transport :: "client_event \<Rightarrow> bool" where
  "bare_transport (Admin (ETransport env e)) \<longleftrightarrow> True"
| "bare_transport _ \<longleftrightarrow> False"

lemma getClient_inv: "pool_inv p \<Longrightarrow> pool_inv (fst (snd (getClient env incr now up p)))"
proof -
  assume inv: "pool_inv p"
  let ?q = "fst (snd (Next incr now up p))"
  have "pool_inv (snd (Transport env e ?q))" for e
    using inv by (subst pool_inv_cong [of _ p]) simp_all
  moreover have "pool_inv ?q" using inv by (subst pool_inv_cong [of _ p]) simp_all
  ultimately show ?thesis
    unfolding getClient_state Let_def by (auto simp: pool_inv_MarkFailed split: sum.splits)
qed

lemma client_apply_ok:
  "pool_inv p \<Longrightarrow> cache_ok p \<Longrightarrow> \<not> bare_transport ev \<Longrightarrow> pool_inv (client_apply ev p) \<and> cache_ok (client_apply ev p)"
proof (induction ev p rule: client_apply.induct)
  case (1 ev p)
  then have "cache_ok (pool_apply ev p)"
    by (cases ev) (simp_all add: cache_ok_Add cache_ok_Update cache_ok_Delete cache_ok_Toggle
        cache_ok_MarkFailed cache_ok_MarkSuccess cache_ok_cong [of "fst (snd (Next _ _ _ p))" p])
  with "1" show ?case by (simp add: pool_inv_apply)
qed (simp_all add: getClient_inv cache_ok_getClient markProxyResult_def pool_inv_MarkFailed
      pool_inv_MarkSuccess cache_ok_MarkFailed cache_ok_MarkSuccess)

lemma client_run_ok:
  "pool_inv p \<Longrightarrow> cache_ok p \<Longrightarrow> \<forall>ev \<in> set es. \<not> bare_transport ev \<Longrightarrow>
     pool_inv (fold client_apply es p) \<and> cache_ok (fold client_apply es p)"
  by (induction es arbitrary: p) (auto simp: client_apply_ok)

lemma getClient_cached:
  assumes "fst (getClient env incr now up p) = Some (t, i)"
  shows "transports (fst (snd (getClient env incr now up p))) i = Some t"
  using assms
  by (auto simp: getClient_def Let_def Transport_def dest: buildTransport_Inr
      split: prod.splits sum.splits option.splits)

lemma loaded_cache_ok: "cache_ok (snd (Load (Some (Inr ds)) NewProxyPool))"
  by (simp add: cache_ok_def Load_def NewProxyPool_def)

text \<open>
  As long as selecting an entry and building its transport is not interleaved with an
  administrator's change, the transport a request is given connects with the protocol, address
  and credentials that the stored entry of the reported proxy has, through any history of
  updates, deletions, toggles, failures and other requests since the pool was loaded.
\<close>

theorem client_uses_stored_settings:
  assumes "\<forall>d \<in> set ds. fail_ok d" and "\<forall>ev \<in> set es. \<not> bare_transport ev"
    and "p = fold client_apply es (snd (Load (Some (Inr ds)) NewProxyPool))"
    and "getClient env incr now up p = (Some (t, i), q, w)"
  shows "\<exists>e \<in> set (pp_entries q). pe_ID e = i \<and> conn e = conn t"
proof -
  have "pool_inv p \<and> cache_ok p"
    unfolding assms(3) by (rule client_run_ok [OF pool_inv_Load [OF assms(1)] loaded_cache_ok assms(2)])
  then have "cache_ok q" using cache_ok_getClient [of p env incr now up] assms(4) by simp
  moreover have "transports q i = Some t" using getClient_cached [of env incr now up p] assms(4) by simp
  ultimately show ?thesis by (simp add: cache_ok_def)
qed

definition ex_env :: transport_env where
  "ex_env = \<lparr>parse_url = \<lambda>_. None, socks5 = \<lambda>_ _. None\<rparr>"

definition ex_moved :: ProxyEntry where
  "ex_moved = (ex_entry ''g1'' [''grok''])\<lparr>pe_Host := ''new''\<rparr>"

lemma ex_moved_valid: "validateEntry ex_moved = Inr ex_moved"
  by (simp add: validateEntry_def ex_moved_def ex_entry_def Let_def normaliseUpstreams_def ups_list_def
      TrimSpace_def trim_by.simps seq_len_def space_seqs_def lower_char_def upper_chars_def lower_chars_def
      UpstreamAll_def validUpstreams_def bad_host_chars_def)

lemma ex_moved_merge: "merge_update ex_moved (ex_entry ''g1'' [''grok'']) = ex_moved"
  by (simp add: merge_update_def ex_moved_def ex_entry_def)

definition ex_one :: ProxyPool where
  "ex_one = snd (Load (Some (Inr [ex_entry ''g1'' [''grok'']])) NewProxyPool)"

lemma ex_one_eval:
  "pp_entries ex_one = [ex_entry ''g1'' [''grok'']]" "pp_enabled ex_one = [ex_entry ''g1'' [''grok'']]"
  "rrIndex ex_one = 0" "transports ex_one = Map.empty"
  by (simp_all add: ex_one_def Load_def NewProxyPool_def dtoToEntry_def ups_list_def ex_entry_def)

lemma ex_one_update:
  "fst (snd (Update None ''g1'' ex_moved ex_one)) = ex_one\<lparr>pp_entries := [ex_moved], pp_enabled := [ex_moved]\<rparr>"
proof -
  have "ex_moved\<lparr>pe_FailCount := 0\<rparr> = ex_moved" "pe_Enabled ex_moved" by (simp_all add: ex_moved_def ex_entry_def)
  moreover have "pe_ID (ex_entry ''g1'' [''grok'']) = ''g1''" by (simp add: ex_entry_def)
  ultimately show ?thesis
    by (simp add: Update_def Let_def ex_one_eval ex_moved_merge ex_moved_valid rebuildEnabledLocked_def)
qed

lemma ex_one_client:
  "getClient ex_env None 0 ''grok'' ex_one =
     (Some (ex_entry ''g1'' [''grok''], ''g1''),
      ex_one\<lparr>rrIndex := 1, transports := [''g1'' \<mapsto> ex_entry ''g1'' [''grok'']]\<rparr>, [])"
  by (simp add: getClient_def Next_def Let_def scoped_def AppliesTo_def UpstreamAll_def ups_list_def rr_pick_def
      rr_index_unsigned_def ex_one_eval Transport_def buildTransport_def ex_env_def ex_entry_def)

theorem client_uses_stored_settings_witness:
  "\<exists>e \<in> set (pp_entries (ex_one\<lparr>rrIndex := 1, transports := [''g1'' \<mapsto> ex_entry ''g1'' [''grok'']]\<rparr>)).
     pe_ID e = ''g1'' \<and> conn e = conn (ex_entry ''g1'' [''grok''])"
  by (rule client_uses_stored_settings [OF _ _ _ ex_one_client, where ds = "[ex_entry ''g1'' [''grok'']]" and es = "[]"])
     (simp_all add: ex_entry_ok ex_one_def)

text \<open>
  The hypothesis of C15 cannot be dropped. A request selects an entry, an administrator moves
  the entry to another host (which clears the cache), and the request then builds the transport of
  the entry it selected: from then on the cache holds the old host, and every later request that
  is given this proxy connects to the old host although the stored entry names the new one.
\<close>

theorem stale_transport_cached:
  "let e = ex_entry ''g1'' [''grok''];
       p1 = fst (snd (Update None ''g1'' ex_moved ex_one));
       p2 = snd (Transport ex_env e p1)
   in fst (Next None 0 ''grok'' ex_one) = Inr e
      \<and> fst (getClient ex_env None 0 ''grok'' p2) = Some (e, ''g1'')
      \<and> map pe_Host (pp_entries p2) = [''new''] \<and> pe_Host e = ''g1''"
  unfolding Let_def ex_one_update
  by (simp add: ex_one_eval Transport_def buildTransport_def ex_env_def getClient_def Next_def Let_def scoped_def
      AppliesTo_def UpstreamAll_def ups_list_def rr_pick_def rr_index_unsigned_def ex_moved_def ex_entry_def)

end
