(* ===== verification/GrokPool.thy ===== *)
theory GrokPool
  imports Pools ProxyPool
begin

text \<open>
  The Grok account pool, \<^verbatim>\<open>internal/upstream/grok.go\<close>: accounts with an OAuth token pair, selection in
  two passes, cooldown and permanent disabling, insertion and removal, and the token refresh.

  Accounts are the elements of the pool's list; a Go pointer to an account is its index. The
  formatting and parsing of RFC 3339 times and the decoding of the refresh answer are parameters.
  Redis writes are best effort and are not modelled here.
\<close>

definition REFRESH_BUFFER :: duration where "REFRESH_BUFFER = 10 * minute"
definition PRE_WARM_WINDOW :: duration where "PRE_WARM_WINDOW = 30 * minute"

record GrokAccount =
  ga_Email :: string
  ga_AccessToken :: string
  ga_RefreshToken :: string
  ga_IDToken :: string
  ga_ExpiresIn :: int
  ga_Expired :: string
  ga_LastRefresh :: string
  ga_Sub :: string
  ga_expiresAt :: gotime
  ga_disabled :: bool
  ga_disabledAt :: gotime

record GrokAccountManager =
  gm_accounts :: "GrokAccount list"
  gm_next :: nat

definition NewGrokAccountManager :: GrokAccountManager where
  "NewGrokAccountManager = \<lparr>gm_accounts = [], gm_next = 0\<rparr>"

definition IsExpired :: "gotime \<Rightarrow> GrokAccount \<Rightarrow> bool" where
  "IsExpired now a \<longleftrightarrow> now > ga_expiresAt a - REFRESH_BUFFER"

definition TokenStatus :: "gotime \<Rightarrow> GrokAccount \<Rightarrow> string" where
  "TokenStatus now a =
     (if ga_disabled a \<and> is_zero (ga_disabledAt a) then ''banned''
      else if ga_disabled a then ''cooldown''
      else if IsExpired now a then ''expired'' else ''active'')"

subsection \<open>Loading\<close>

definition load_account ::
  "(string \<Rightarrow> gotime option) \<Rightarrow> gotime \<Rightarrow> string \<Rightarrow> (string \<rightharpoonup> string) \<Rightarrow> GrokAccount option" where
  "load_account parse now email st =
     (let f = (\<lambda>k. case st k of None \<Rightarrow> [] | Some v \<Rightarrow> v)
      in if f ''access_token'' = [] \<or> f ''refresh_token'' = [] then None
         else let expIn = (if f ''expires_in'' \<noteq> [] then (case Atoi (f ''expires_in'') of Some n \<Rightarrow> n | None \<Rightarrow> 0) else 0);
                  expAt = (if f ''expired'' \<noteq> [] then (case parse (f ''expired'') of Some t \<Rightarrow> t | None \<Rightarrow> now)
                           else if expIn > 0 then now + expIn * second else now);
                  dis = (f ''disabled'' = ''true'' \<or> f ''disabled'' = ''1'');
                  disAt = (if dis \<and> f ''disabled_at'' \<noteq> []
                           then (case Atoi (f ''disabled_at'') of
                                   Some n \<Rightarrow> if n \<le> 0 then zero_time else n * second
                                 | None \<Rightarrow> zero_time)
                           else zero_time)
              in Some \<lparr>ga_Email = email, ga_AccessToken = f ''access_token'', ga_RefreshToken = f ''refresh_token'',
                       ga_IDToken = f ''id_token'', ga_ExpiresIn = expIn, ga_Expired = f ''expired'',
                       ga_LastRefresh = f ''last_refresh'', ga_Sub = f ''sub'', ga_expiresAt = expAt,
                       ga_disabled = dis, ga_disabledAt = disAt\<rparr>)"

definition LoadGrok ::
  "(string \<Rightarrow> gotime option) \<Rightarrow> gotime \<Rightarrow> (go_error + (string \<times> (string \<rightharpoonup> string)) list) option
    \<Rightarrow> GrokAccountManager \<Rightarrow> go_error option \<times> GrokAccountManager" where
  "LoadGrok parse now st am =
     (case st of
        None \<Rightarrow> (Some ''redis not available'', am)
      | Some (Inl e) \<Rightarrow> (Some e, am)
      | Some (Inr rows) \<Rightarrow>
          (None, am\<lparr>gm_accounts := List.map_filter (\<lambda>(email, r). load_account parse now email r) rows\<rparr>))"

subsection \<open>Selection\<close>

definition fresh :: "gotime \<Rightarrow> GrokAccount \<Rightarrow> bool" where
  "fresh now a \<longleftrightarrow> \<not> ga_disabled a \<and> now < ga_expiresAt a - REFRESH_BUFFER"

text \<open>The second pass: the enabled account that expires last, the first of them on a tie.\<close>

fun best_account :: "GrokAccount list \<Rightarrow> nat \<Rightarrow> (nat \<times> gotime) option \<Rightarrow> nat option" where
  "best_account [] i best = map_option fst best"
| "best_account (a # as) i best =
     (if ga_disabled a then best_account as (Suc i) best
      else case best of
             None \<Rightarrow> best_account as (Suc i) (Some (i, ga_expiresAt a))
           | Some (b, t) \<Rightarrow>
               if ga_expiresAt a > t then best_account as (Suc i) (Some (i, ga_expiresAt a))
               else best_account as (Suc i) best)"

text \<open>
  \<^verbatim>\<open>Next\<close> returns the index of the account; the flag says that a background refresh of it was
  started.
\<close>

definition GrokNext :: "gotime \<Rightarrow> GrokAccountManager \<Rightarrow> (go_error + nat \<times> bool) \<times> GrokAccountManager" where
  "GrokNext now am =
     (let as = gm_accounts am; n = length as
      in if n = 0 then (Inl ''no grok accounts'', am)
         else case rr_scan (fresh now) as (gm_next am) of
                Some idx \<Rightarrow> (Inr (idx, False), am\<lparr>gm_next := (idx + 1) mod n\<rparr>)
              | None \<Rightarrow>
                  (case best_account as 0 None of
                     Some b \<Rightarrow> (Inr (b, True), am\<lparr>gm_next := (gm_next am + 1) mod n\<rparr>)
                   | None \<Rightarrow> (Inl ''all grok accounts disabled'', am)))"

definition upd_account :: "nat \<Rightarrow> (GrokAccount \<Rightarrow> GrokAccount) \<Rightarrow> GrokAccountManager \<Rightarrow> GrokAccountManager" where
  "upd_account i f am = am\<lparr>gm_accounts := (gm_accounts am)[i := f (gm_accounts am ! i)]\<rparr>"

definition disable_for_good :: "GrokAccount \<Rightarrow> GrokAccount" where
  "disable_for_good a = a\<lparr>ga_disabled := True, ga_disabledAt := zero_time\<rparr>"

definition disable_cooldown :: "gotime \<Rightarrow> GrokAccount \<Rightarrow> GrokAccount" where
  "disable_cooldown now a = a\<lparr>ga_disabled := True, ga_disabledAt := now\<rparr>"

subsection \<open>Administration\<close>

definition GrokReenable :: "gotime \<Rightarrow> GrokAccountManager \<Rightarrow> GrokAccountManager" where
  "GrokReenable now am =
     am\<lparr>gm_accounts := map (\<lambda>a. if cooled now (ga_disabled a) (ga_disabledAt a) then a\<lparr>ga_disabled := False\<rparr> else a)
                          (gm_accounts am)\<rparr>"

definition new_account ::
  "(gotime \<Rightarrow> string) \<Rightarrow> gotime \<Rightarrow> string \<Rightarrow> string \<Rightarrow> string \<Rightarrow> string \<Rightarrow> string \<Rightarrow> int \<Rightarrow> GrokAccount" where
  "new_account fmt now email tok rt idt sub expiresIn =
     \<lparr>ga_Email = email, ga_AccessToken = tok, ga_RefreshToken = rt, ga_IDToken = idt,
      ga_ExpiresIn = expiresIn, ga_Expired = fmt (now + expiresIn * second), ga_LastRefresh = fmt now,
      ga_Sub = sub, ga_expiresAt = now + expiresIn * second, ga_disabled = False, ga_disabledAt = zero_time\<rparr>"

definition UpsertAccount ::
  "(gotime \<Rightarrow> string) \<Rightarrow> gotime \<Rightarrow> string \<Rightarrow> string \<Rightarrow> string \<Rightarrow> string \<Rightarrow> string \<Rightarrow> int
    \<Rightarrow> GrokAccountManager \<Rightarrow> (bool \<times> nat) \<times> GrokAccountManager" where
  "UpsertAccount fmt now email tok rt idt sub expiresIn0 am =
     (let expiresIn = (if expiresIn0 = 0 then 21600 else expiresIn0);
          acc = new_account fmt now email tok rt idt sub expiresIn
      in case find_index (\<lambda>a. ga_Email a = email) (gm_accounts am) of
           Some i \<Rightarrow> ((False, length (gm_accounts am)), am\<lparr>gm_accounts := (gm_accounts am)[i := acc]\<rparr>)
         | None \<Rightarrow> ((True, length (gm_accounts am) + 1), am\<lparr>gm_accounts := gm_accounts am @ [acc]\<rparr>))"

definition ImportAccountRaw ::
  "(gotime \<Rightarrow> string) \<Rightarrow> gotime \<Rightarrow> string \<Rightarrow> string \<Rightarrow> string \<Rightarrow> string \<Rightarrow> int
    \<Rightarrow> GrokAccountManager \<Rightarrow> (nat \<times> bool) \<times> GrokAccountManager" where
  "ImportAccountRaw fmt now email tok rt idt expiresIn am =
     (case find_index (\<lambda>a. ga_Email a = email) (gm_accounts am) of
        Some i \<Rightarrow> ((i, False), am)
      | None \<Rightarrow>
          ((length (gm_accounts am), True),
           am\<lparr>gm_accounts := gm_accounts am @
                [(new_account fmt now email tok rt idt [] expiresIn)\<lparr>ga_LastRefresh := []\<rparr>]\<rparr>))"

definition DeleteAccount :: "string \<Rightarrow> GrokAccountManager \<Rightarrow> bool \<times> GrokAccountManager" where
  "DeleteAccount email am =
     (case find_index (\<lambda>a. ga_Email a = email) (gm_accounts am) of
        None \<Rightarrow> (False, am)
      | Some i \<Rightarrow> (True, am\<lparr>gm_accounts := take i (gm_accounts am) @ drop (i + 1) (gm_accounts am)\<rparr>))"

definition cleanupBy :: "(GrokAccount \<Rightarrow> bool) \<Rightarrow> GrokAccountManager \<Rightarrow> nat \<times> GrokAccountManager" where
  "cleanupBy pred am =
     (length (filter pred (gm_accounts am)), am\<lparr>gm_accounts := filter (\<lambda>a. \<not> pred a) (gm_accounts am)\<rparr>)"

definition GrokCleanupDisabled :: "GrokAccountManager \<Rightarrow> nat \<times> GrokAccountManager" where
  "GrokCleanupDisabled = cleanupBy (\<lambda>a. permanent (ga_disabled a) (ga_disabledAt a))"

definition CleanupBanned :: "GrokAccountManager \<Rightarrow> nat \<times> GrokAccountManager" where
  "CleanupBanned = cleanupBy (\<lambda>a. permanent (ga_disabled a) (ga_disabledAt a))"

subsection \<open>Refreshing a token\<close>

record token_reply =
  tr_access_token :: string
  tr_refresh_token :: string
  tr_expires_in :: int
  tr_id_token :: string

definition apply_tokens :: "(gotime \<Rightarrow> string) \<Rightarrow> gotime \<Rightarrow> token_reply \<Rightarrow> GrokAccount \<Rightarrow> GrokAccount" where
  "apply_tokens fmt now t a =
     (let expIn = (if tr_expires_in t > 0 then tr_expires_in t else ga_ExpiresIn a);
          expAt = now + expIn * second
      in a\<lparr>ga_AccessToken := tr_access_token t,
           ga_RefreshToken := (if tr_refresh_token t \<noteq> [] then tr_refresh_token t else ga_RefreshToken a),
           ga_IDToken := (if tr_id_token t \<noteq> [] then tr_id_token t else ga_IDToken a),
           ga_ExpiresIn := expIn, ga_expiresAt := expAt, ga_LastRefresh := fmt now, ga_Expired := fmt expAt\<rparr>)"

text \<open>The answer of the token endpoint: a transport error, or a status with a body.\<close>

definition refresh_result ::
  "(string \<Rightarrow> go_error + token_reply) \<Rightarrow> go_error + int \<times> string \<Rightarrow> go_error + token_reply" where
  "refresh_result decode reply =
     (case reply of
        Inl e \<Rightarrow> Inl e
      | Inr (status, body) \<Rightarrow>
          if status \<noteq> 200 then Inl (''refresh ['' @ Itoa status @ '']: '' @ body) else decode body)"

subsection \<open>Model names\<close>

definition ExpandGrokAlias :: "string \<Rightarrow> string option" where
  "ExpandGrokAlias model =
     (if model = ''grok-4.5-high'' \<or> model = ''grok-4.5-xhigh'' then Some ''high''
      else if model = ''grok-4.5-medium'' then Some ''medium''
      else if model = ''grok-4.5-low'' then Some ''low''
      else if model = ''grok-4.5-auto'' then Some ''auto''
      else if model = ''grok-4.5-none'' then Some ''none''
      else None)"

definition IsGrokModel :: "string \<Rightarrow> bool" where
  "IsGrokModel model \<longleftrightarrow> prefix ''grok-'' model"

subsection \<open>Selection is sound and complete\<close>

lemma best_account_enabled:
  "best_account as i best = Some j \<Longrightarrow>
     (\<exists>t. best = Some (j, t)) \<or> (\<exists>k < length as. j = i + k \<and> \<not> ga_disabled (as ! k))"
proof (induction as i best rule: best_account.induct)
  case (2 a as i best)
  have shift: "(\<exists>t. best' = Some (j, t)) \<or> (\<exists>k < length as. j = Suc i + k \<and> \<not> ga_disabled (as ! k)) \<Longrightarrow>
      (\<exists>t. best' = Some (j, t)) \<or> (\<exists>k < length (a # as). j = i + k \<and> \<not> ga_disabled ((a # as) ! k))" for best'
    by (metis Suc_less_eq add_Suc add_Suc_right length_Cons nth_Cons_Suc)
  show ?case
  proof (cases "ga_disabled a")
    case True
    then show ?thesis using "2.IH"(1) "2.prems" shift by simp
  next
    case False
    then have here: "\<exists>k < length (a # as). i = i + k \<and> \<not> ga_disabled ((a # as) ! k)" by (intro exI [of _ 0]) simp
    show ?thesis
    proof (cases best)
      case None
      then show ?thesis using "2.IH"(2) [OF False None] "2.prems" False shift here by fastforce
    next
      case (Some p)
      obtain b t where bt: "best = Some (b, t)" using Some by (cases p) auto
      show ?thesis
      proof (cases "ga_expiresAt a > t")
        case True
        then show ?thesis using "2.IH"(3) [OF False bt refl True] "2.prems" False bt shift here by fastforce
      next
        case nt: False
        then show ?thesis using "2.IH"(4) [OF False bt refl nt] "2.prems" False bt shift [of best] by simp
      qed
    qed
  qed
qed auto

lemma best_account_None:
  "best_account as i best = None \<longleftrightarrow> best = None \<and> (\<forall>a \<in> set as. ga_disabled a)"
  by (induction as i best rule: best_account.induct) (auto split: option.splits)

lemma best_account_max:
  "best_account as i best = Some j \<Longrightarrow> j < i + length as \<Longrightarrow>
     (case best of None \<Rightarrow> True | Some (b, t) \<Rightarrow> b < i) \<Longrightarrow>
     (\<exists>t. (best = Some (j, t) \<or> (i \<le> j \<and> t = ga_expiresAt (as ! (j - i))))
        \<and> (\<forall>a \<in> set as. \<not> ga_disabled a \<longrightarrow> ga_expiresAt a \<le> t) \<and> (\<forall>b u. best = Some (b, u) \<longrightarrow> u \<le> t))"
proof (induction as i best rule: best_account.induct)
  case (1 i best)
  then show ?case by auto
next
  case (2 a as i best)
  have nth: "(a # as) ! (j - i) = as ! (j - Suc i)" if "Suc i \<le> j" using that by (simp add: nth_Cons')
  show ?case
  proof (cases "ga_disabled a")
    case True
    then obtain t where "best = Some (j, t) \<or> (Suc i \<le> j \<and> t = ga_expiresAt (as ! (j - Suc i)))"
      "\<forall>a \<in> set as. \<not> ga_disabled a \<longrightarrow> ga_expiresAt a \<le> t" "\<forall>b u. best = Some (b, u) \<longrightarrow> u \<le> t"
      using "2.IH"(1) "2.prems" by (auto split: option.splits)
    then show ?thesis using True nth by (intro exI [of _ t]) auto
  next
    case False
    show ?thesis
    proof (cases "\<exists>b t. best = Some (b, t) \<and> \<not> ga_expiresAt a > t")
      case True
      then obtain b t where bt: "best = Some (b, t)" "\<not> ga_expiresAt a > t" by blast
      then obtain t' where "best = Some (j, t') \<or> (Suc i \<le> j \<and> t' = ga_expiresAt (as ! (j - Suc i)))"
        "\<forall>a \<in> set as. \<not> ga_disabled a \<longrightarrow> ga_expiresAt a \<le> t'" "\<forall>b u. best = Some (b, u) \<longrightarrow> u \<le> t'"
        using "2.IH"(4) [OF False bt(1) refl bt(2)] "2.prems" False by auto
      then show ?thesis using False nth bt by (intro exI [of _ t']) auto
    next
      case new: False
      have "best_account as (Suc i) (Some (i, ga_expiresAt a)) = Some j"
        using "2.prems"(1) False new by (auto split: option.splits)
      then have "\<exists>t'. (Some (i, ga_expiresAt a) = Some (j, t') \<or> (Suc i \<le> j \<and> t' = ga_expiresAt (as ! (j - Suc i))))
          \<and> (\<forall>a \<in> set as. \<not> ga_disabled a \<longrightarrow> ga_expiresAt a \<le> t')
          \<and> (\<forall>b u. Some (i, ga_expiresAt a) = Some (b, u) \<longrightarrow> u \<le> t')"
      proof (cases best)
        case None
        with "2.IH"(2) [OF False None] \<open>best_account as (Suc i) (Some (i, ga_expiresAt a)) = Some j\<close> "2.prems"(2)
        show ?thesis by simp
      next
        case (Some p)
        obtain b u where bu: "best = Some (b, u)" "p = (b, u)" using Some by (cases p) auto
        then have "ga_expiresAt a > u" using new by auto
        with "2.IH"(3) [OF False Some, of b u] bu \<open>best_account as (Suc i) (Some (i, ga_expiresAt a)) = Some j\<close> "2.prems"(2)
        show ?thesis by simp
      qed
      then obtain t' where t': "Some (i, ga_expiresAt a) = Some (j, t') \<or> (Suc i \<le> j \<and> t' = ga_expiresAt (as ! (j - Suc i)))"
        "\<forall>a \<in> set as. \<not> ga_disabled a \<longrightarrow> ga_expiresAt a \<le> t'" "\<forall>b u. Some (i, ga_expiresAt a) = Some (b, u) \<longrightarrow> u \<le> t'"
        by blast
      have "u \<le> ga_expiresAt a" if "best = Some (b, u)" for b u using new that by force
      then show ?thesis using t' nth by (intro exI [of _ t']) fastforce
    qed
  qed
qed

lemma best_account_spec:
  assumes "best_account as 0 None = Some j"
  shows "j < length as" "\<not> ga_disabled (as ! j)" "\<forall>a \<in> set as. \<not> ga_disabled a \<longrightarrow> ga_expiresAt a \<le> ga_expiresAt (as ! j)"
  using best_account_enabled [OF assms] best_account_max [OF assms] by auto

text \<open>
  The account pool serves whenever it can. \<^verbatim>\<open>Next\<close> fails exactly when no account is enabled;
  otherwise it returns an enabled account, one whose token is outside the refresh window if there
  is one, and otherwise the enabled account that expires last, for which it starts a refresh. It
  changes nothing but the cursor.
\<close>

theorem grok_next_selects:
  "(case fst (GrokNext now am) of
     Inl e \<Rightarrow> \<forall>a \<in> set (gm_accounts am). ga_disabled a
   | Inr (i, refresh) \<Rightarrow>
       i < length (gm_accounts am) \<and> \<not> ga_disabled (gm_accounts am ! i)
       \<and> (refresh \<longleftrightarrow> (\<forall>a \<in> set (gm_accounts am). \<not> fresh now a))
       \<and> (if refresh then \<forall>a \<in> set (gm_accounts am). \<not> ga_disabled a \<longrightarrow> ga_expiresAt a \<le> ga_expiresAt (gm_accounts am ! i)
          else fresh now (gm_accounts am ! i)))
   \<and> gm_accounts (snd (GrokNext now am)) = gm_accounts am"
proof (rule conjI)
  show "gm_accounts (snd (GrokNext now am)) = gm_accounts am"
    by (auto simp: GrokNext_def Let_def split: option.splits)
  let ?as = "gm_accounts am"
  show "case fst (GrokNext now am) of
     Inl e \<Rightarrow> \<forall>a \<in> set ?as. ga_disabled a
   | Inr (i, refresh) \<Rightarrow> i < length ?as \<and> \<not> ga_disabled (?as ! i) \<and> (refresh \<longleftrightarrow> (\<forall>a \<in> set ?as. \<not> fresh now a))
       \<and> (if refresh then \<forall>a \<in> set ?as. \<not> ga_disabled a \<longrightarrow> ga_expiresAt a \<le> ga_expiresAt (?as ! i) else fresh now (?as ! i))"
  proof (cases "rr_scan (fresh now) ?as (gm_next am)")
    case (Some i)
    then have "i < length ?as" "fresh now (?as ! i)" using rr_scan_Some by fast+
    then show ?thesis using Some by (auto simp: GrokNext_def Let_def) (auto simp: fresh_def)
  next
    case None
    then have nf: "\<forall>a \<in> set ?as. \<not> fresh now a" by (simp add: rr_scan_None)
    show ?thesis
    proof (cases "best_account ?as 0 None")
      case (Some b)
      then show ?thesis using None nf best_account_spec [OF Some] by (auto simp: GrokNext_def Let_def)
    next
      case None2: None
      then show ?thesis using None nf best_account_None [of ?as 0 None] by (auto simp: GrokNext_def Let_def)
    qed
  qed
qed

lemma GrokNext_Inr:
  assumes "fst (GrokNext now am) = Inr (i, r)"
  shows "i < length (gm_accounts am)" "\<not> ga_disabled (gm_accounts am ! i)"
proof -
  have "rr_scan (fresh now) (gm_accounts am) (gm_next am) = Some i \<or> best_account (gm_accounts am) 0 None = Some i"
    using assms by (auto simp: GrokNext_def Let_def split: option.splits if_splits)
  then show "i < length (gm_accounts am)" "\<not> ga_disabled (gm_accounts am ! i)"
    using rr_scan_Some [of "fresh now" "gm_accounts am" "gm_next am" i] best_account_spec(1,2) [of "gm_accounts am" i]
    by (auto simp: fresh_def)
qed

lemma GrokNext_accounts [simp]: "gm_accounts (snd (GrokNext now am)) = gm_accounts am"
  by (auto simp: GrokNext_def Let_def split: option.splits)

text \<open>
  While every token is inside the refresh window the retries do not rotate. Whenever no account
  is fresh, every call of \<^verbatim>\<open>Next\<close> returns the same account, the one that expires last, whatever the
  cursor; as long as it is not disabled no other account of the pool is tried.
\<close>

theorem stale_pool_does_not_rotate:
  assumes "\<forall>a \<in> set (gm_accounts am). \<not> fresh now a" and "gm_accounts am' = gm_accounts am"
    and "\<not> ga_disabled a" and "a \<in> set (gm_accounts am)"
  shows "fst (GrokNext now am') = fst (GrokNext now am) \<and> (\<exists>i. fst (GrokNext now am) = Inr (i, True))"
proof -
  have "rr_scan (fresh now) (gm_accounts am) c = None" for c using assms(1) by (simp add: rr_scan_None)
  moreover obtain b where "best_account (gm_accounts am) 0 None = Some b"
    using best_account_None [of "gm_accounts am" 0 None] assms(3,4) by (cases "best_account (gm_accounts am) 0 None") auto
  moreover have "gm_accounts am \<noteq> []" using assms(4) by auto
  ultimately show ?thesis using assms(2) by (auto simp: GrokNext_def Let_def)
qed

definition ex_account :: "string \<Rightarrow> gotime \<Rightarrow> GrokAccount" where
  "ex_account e t = \<lparr>ga_Email = e, ga_AccessToken = e, ga_RefreshToken = e, ga_IDToken = [], ga_ExpiresIn = 0,
     ga_Expired = [], ga_LastRefresh = [], ga_Sub = [], ga_expiresAt = t, ga_disabled = False, ga_disabledAt = zero_time\<rparr>"

definition ex_accounts :: GrokAccountManager where
  "ex_accounts = \<lparr>gm_accounts = [ex_account ''a'' 0, ex_account ''b'' 5], gm_next = 0\<rparr>"

theorem grok_next_selects_witness:
  "(case fst (GrokNext 0 ex_accounts) of
      Inl e \<Rightarrow> False
    | Inr (i, refresh) \<Rightarrow> i = 1 \<and> refresh \<and> (\<forall>a \<in> set (gm_accounts ex_accounts). ga_expiresAt a \<le> ga_expiresAt (gm_accounts ex_accounts ! i)))
   \<and> gm_accounts (snd (GrokNext 0 ex_accounts)) = gm_accounts ex_accounts"
proof -
  have "fst (GrokNext 0 ex_accounts) = Inr (1, True)"
    by (simp add: GrokNext_def ex_accounts_def ex_account_def fresh_def REFRESH_BUFFER_def time_defs rr_scan_def)
  then show ?thesis
    using grok_next_selects [of ex_accounts 0] by (simp add: ex_accounts_def ex_account_def)
qed

theorem stale_pool_does_not_rotate_witness:
  "fst (GrokNext 0 (snd (GrokNext 0 ex_accounts))) = fst (GrokNext 0 ex_accounts)
   \<and> (\<exists>i. fst (GrokNext 0 ex_accounts) = Inr (i, True))"
  by (rule stale_pool_does_not_rotate [where a = "ex_account ''a'' 0"])
     (auto simp: ex_accounts_def ex_account_def fresh_def REFRESH_BUFFER_def time_defs)

subsection \<open>Permanently disabled accounts\<close>

datatype grok_event =
    GNext gotime | GReenable gotime | GUpsert "gotime \<Rightarrow> string" gotime string string string string string int
  | GImport "gotime \<Rightarrow> string" gotime string string string string int | GDelete string | GCleanup

fun grok_apply :: "grok_event \<Rightarrow> GrokAccountManager \<Rightarrow> GrokAccountManager" where
  "grok_apply (GNext now) am = snd (GrokNext now am)"
| "grok_apply (GReenable now) am = GrokReenable now am"
| "grok_apply (GUpsert fmt now e tok rt idt sub x) am = snd (UpsertAccount fmt now e tok rt idt sub x am)"
| "grok_apply (GImport fmt now e tok rt idt x) am = snd (ImportAccountRaw fmt now e tok rt idt x am)"
| "grok_apply (GDelete e) am = snd (DeleteAccount e am)"
| "grok_apply GCleanup am = snd (GrokCleanupDisabled am)"

fun revives :: "string \<Rightarrow> grok_event \<Rightarrow> bool" where
  "revives e (GUpsert fmt now e' tok rt idt sub x) \<longleftrightarrow> e' = e"
| "revives e (GImport fmt now e' tok rt idt x) \<longleftrightarrow> e' = e"
| "revives e _ \<longleftrightarrow> False"

definition banned :: "string \<Rightarrow> GrokAccountManager \<Rightarrow> bool" where
  "banned e am \<longleftrightarrow> (\<forall>a \<in> set (gm_accounts am). ga_Email a = e \<longrightarrow> permanent (ga_disabled a) (ga_disabledAt a))"

lemma banned_apply: "banned e am \<Longrightarrow> \<not> revives e ev \<Longrightarrow> banned e (grok_apply ev am)"
proof (cases ev)
  case (GUpsert fmt now e' tok rt idt sub x)
  assume b: "banned e am" and "\<not> revives e ev"
  then have ne: "e' \<noteq> e" using GUpsert by simp
  let ?acc = "new_account fmt now e' tok rt idt sub (if x = 0 then 21600 else x)"
  have sub: "set (gm_accounts (grok_apply ev am)) \<subseteq> insert ?acc (set (gm_accounts am))"
    using GUpsert
    by (auto simp: UpsertAccount_def Let_def dest: subsetD [OF set_update_subset_insert] split: option.splits)
  show ?thesis
    unfolding banned_def
  proof (intro ballI impI)
    fix a assume a: "a \<in> set (gm_accounts (grok_apply ev am))" "ga_Email a = e"
    then have "a \<noteq> ?acc" using ne by (auto simp: new_account_def)
    with a(1) sub have "a \<in> set (gm_accounts am)" by blast
    with b a(2) show "permanent (ga_disabled a) (ga_disabledAt a)" by (simp add: banned_def)
  qed
next
  case (GDelete e')
  assume "banned e am"
  then show ?thesis using GDelete
    by (auto simp: banned_def DeleteAccount_def dest: in_set_takeD in_set_dropD split: option.splits)
qed (auto simp: banned_def GrokReenable_def permanent_not_cooled ImportAccountRaw_def new_account_def
      GrokCleanupDisabled_def cleanupBy_def split: option.splits)

lemma banned_run: "banned e am \<Longrightarrow> \<forall>ev \<in> set es. \<not> revives e ev \<Longrightarrow> banned e (fold grok_apply es am)"
  by (induction es arbitrary: am) (auto simp: banned_apply)

text \<open>
  An account disabled for good stays out of service. Through any history of selections, cooldown
  sweeps, imports, deletions and cleanups, \<^verbatim>\<open>Next\<close> does not return it, until its e-mail address is
  inserted again.
\<close>

theorem banned_account_not_selected:
  assumes "banned e am" and "\<forall>ev \<in> set es. \<not> revives e ev"
    and "fst (GrokNext now (fold grok_apply es am)) = Inr (i, r)"
  shows "ga_Email (gm_accounts (fold grok_apply es am) ! i) \<noteq> e"
proof -
  let ?am = "fold grok_apply es am"
  have "i < length (gm_accounts ?am) \<and> \<not> ga_disabled (gm_accounts ?am ! i)"
    using GrokNext_Inr [OF assms(3)] by simp
  moreover have "banned e ?am" by (rule banned_run [OF assms(1,2)])
  ultimately show ?thesis by (auto simp: banned_def permanent_def)
qed

theorem banned_account_not_selected_witness:
  "ga_Email (gm_accounts (fold grok_apply [GReenable (20 * minute)]
     (upd_account 0 disable_for_good ex_accounts)) ! 1) \<noteq> ''a''"
  by (rule banned_account_not_selected [where now = 0 and r = True])
     (simp_all add: banned_def upd_account_def disable_for_good_def ex_accounts_def ex_account_def permanent_def is_zero_def
       GrokReenable_def cooled_def GrokNext_def Let_def rr_scan_def fresh_def REFRESH_BUFFER_def time_defs upt_rec)

end
