(* ===== verification/CBPool.thy ===== *)
theory CBPool
  imports Pools Json ProxyPool
begin

text \<open>
  The CodeBuddy key pool and request transformation, \<^verbatim>\<open>internal/upstream/codebuddy.go\<close>: keys with
  their credits, round-robin selection, cooldowns, the rewriting of the request body and the
  collection of a streamed answer.

  Keys are the elements of the pool's list and a Go pointer to a key is its index. Credits are
  rational (\<^verbatim>\<open>float64\<close> in the code). A Go panic is a value: several log lines slice the first 8
  and last 4 bytes of a key and panic on a shorter key. Redis writes are best effort and are not
  modelled here.
\<close>

definition CB_CREDIT_LIMIT :: rat where "CB_CREDIT_LIMIT = 240"
definition CB_DEFAULT_SYSTEM :: string where "CB_DEFAULT_SYSTEM = ''You are a helpful assistant.''"

record CBKey =
  ck_Key :: string
  ck_disabled :: bool
  ck_disabledAt :: gotime
  ck_creditsUsed :: rat
  ck_totalReqs :: int

record CBKeyManager =
  km_keys :: "CBKey list"
  km_next :: nat

definition NewCBKeyManager :: CBKeyManager where
  "NewCBKeyManager = \<lparr>km_keys = [], km_next = 0\<rparr>"

definition new_cb_key :: "string \<Rightarrow> CBKey" where
  "new_cb_key k = \<lparr>ck_Key = k, ck_disabled = False, ck_disabledAt = zero_time, ck_creditsUsed = 0, ck_totalReqs = 0\<rparr>"

text \<open>\<^verbatim>\<open>key[:8] + "..." + key[len(key)-4:]\<close>; \<open>None\<close> is a panic.\<close>

definition mask8 :: "string \<Rightarrow> string option" where
  "mask8 k =
     (case (slice_to k 8, slice_last k 4) of (Some a, Some b) \<Rightarrow> Some (a @ ''...'' @ b) | _ \<Rightarrow> None)"

definition AddCredits :: "rat \<Rightarrow> CBKey \<Rightarrow> CBKey option" where
  "AddCredits c k0 =
     (let k = k0\<lparr>ck_creditsUsed := ck_creditsUsed k0 + c, ck_totalReqs := ck_totalReqs k0 + 1\<rparr>
      in if ck_creditsUsed k \<ge> CB_CREDIT_LIMIT
         then (if mask8 (ck_Key k) = None then None
               else Some (k\<lparr>ck_disabled := True, ck_disabledAt := zero_time\<rparr>))
         else Some k)"

subsection \<open>Loading and selection\<close>

definition load_cb_key :: "(string \<Rightarrow> rat option) \<Rightarrow> string \<Rightarrow> (string \<rightharpoonup> string) \<Rightarrow> CBKey" where
  "load_cb_key parseFloat apiKey st =
     (let f = (\<lambda>k. case st k of None \<Rightarrow> [] | Some v \<Rightarrow> v);
          dis = (f ''disabled'' = ''true'' \<or> f ''disabled'' = ''1'')
      in \<lparr>ck_Key = apiKey, ck_disabled = dis,
          ck_disabledAt = (if dis \<and> f ''disabled_at'' \<noteq> []
                           then (case Atoi (f ''disabled_at'') of
                                   Some n \<Rightarrow> if n \<le> 0 then zero_time else n * second
                                 | None \<Rightarrow> zero_time)
                           else zero_time),
          ck_creditsUsed = (case parseFloat (f ''credits_used'') of Some c \<Rightarrow> c | None \<Rightarrow> 0),
          ck_totalReqs = (case Atoi (f ''total_requests'') of Some n \<Rightarrow> n | None \<Rightarrow> 0)\<rparr>)"

record cb_boot =
  CB_API_KEYS :: string
  CB_API_KEY :: string
  CB_KEY_FILE :: string
  cb_key_file_data :: "string option"
  codebuddy_key_txt :: "string option"

definition cb_boot_keys :: "cb_boot \<Rightarrow> string list" where
  "cb_boot_keys env =
     (let s0 = (if CB_API_KEYS env = [] then CB_API_KEY env else CB_API_KEYS env);
          file = (\<lambda>d. case d of Some s \<Rightarrow> TrimSpace s | None \<Rightarrow> []);
          s1 = (if s0 = [] then (if CB_KEY_FILE env \<noteq> [] then file (cb_key_file_data env) else file (codebuddy_key_txt env)) else s0)
      in if s1 = [] then []
         else filter (\<lambda>k. k \<noteq> []) (map TrimSpace (fields_func (\<lambda>c. c \<in> {CHR '','', CHR 0x0A, CHR 0x0D}) [] s1)))"

definition LoadCB ::
  "(string \<Rightarrow> rat option) \<Rightarrow> cb_boot \<Rightarrow> go_error + (string \<times> (string \<rightharpoonup> string)) list
    \<Rightarrow> CBKeyManager \<Rightarrow> go_error option \<times> CBKeyManager" where
  "LoadCB parseFloat env st km =
     (case st of
        Inl e \<Rightarrow> (Some (''cb keys load: '' @ e), km)
      | Inr rows \<Rightarrow>
          if rows \<noteq> [] then (None, km\<lparr>km_keys := km_keys km @ map (\<lambda>(k, r). load_cb_key parseFloat k r) rows\<rparr>)
          else (None, km\<lparr>km_keys := km_keys km @ map new_cb_key (cb_boot_keys env)\<rparr>))"

definition CBNext :: "CBKeyManager \<Rightarrow> (go_error + nat) \<times> CBKeyManager" where
  "CBNext km =
     (let n = length (km_keys km)
      in if n = 0 then (Inl ''no cb keys'', km)
         else case rr_scan (\<lambda>k. \<not> ck_disabled k) (km_keys km) (km_next km) of
                Some idx \<Rightarrow> (Inr idx, km\<lparr>km_next := (idx + 1) mod n\<rparr>)
              | None \<Rightarrow> (Inl ''all cb keys disabled'', km))"

definition upd_key :: "nat \<Rightarrow> (CBKey \<Rightarrow> CBKey) \<Rightarrow> CBKeyManager \<Rightarrow> CBKeyManager" where
  "upd_key i f km = km\<lparr>km_keys := (km_keys km)[i := f (km_keys km ! i)]\<rparr>"

definition disable_key :: "gotime \<Rightarrow> CBKey \<Rightarrow> CBKey" where
  "disable_key at' k = k\<lparr>ck_disabled := True, ck_disabledAt := at'\<rparr>"

subsection \<open>Administration\<close>

definition ResolveCBKey :: "string \<Rightarrow> CBKeyManager \<Rightarrow> string" where
  "ResolveCBKey s km =
     (case find (\<lambda>k. ck_Key k = s
            \<or> (length (ck_Key k) > 12 \<and> take 8 (ck_Key k) @ ''...'' @ drop (length (ck_Key k) - 4) (ck_Key k) = s)) (km_keys km) of
        Some k \<Rightarrow> ck_Key k | None \<Rightarrow> [])"

definition AddKey :: "string \<Rightarrow> CBKeyManager \<Rightarrow> (bool \<times> nat) \<times> CBKeyManager" where
  "AddKey apiKey0 km =
     (let apiKey = TrimSpace apiKey0
      in if apiKey = [] then ((False, length (km_keys km)), km)
         else if list_ex (\<lambda>k. ck_Key k = apiKey) (km_keys km) then ((False, length (km_keys km)), km)
         else ((True, length (km_keys km) + 1), km\<lparr>km_keys := km_keys km @ [new_cb_key apiKey]\<rparr>))"

text \<open>\<open>None\<close>: the log line of a re-enabled key panics after the keys were changed.\<close>

definition reenable_key :: "gotime \<Rightarrow> CBKey \<Rightarrow> CBKey" where
  "reenable_key now k = (if cooled now (ck_disabled k) (ck_disabledAt k) then k\<lparr>ck_disabled := False\<rparr> else k)"

definition CBReenable :: "gotime \<Rightarrow> CBKeyManager \<Rightarrow> bool \<times> CBKeyManager" where
  "CBReenable now km =
     (list_all (\<lambda>k. cooled now (ck_disabled k) (ck_disabledAt k) \<longrightarrow> mask8 (ck_Key k) \<noteq> None) (km_keys km),
      km\<lparr>km_keys := map (reenable_key now) (km_keys km)\<rparr>)"

definition DeleteKey :: "string \<Rightarrow> CBKeyManager \<Rightarrow> bool option \<times> CBKeyManager" where
  "DeleteKey key km =
     (case find_index (\<lambda>k. ck_Key k = key) (km_keys km) of
        None \<Rightarrow> (Some False, km)
      | Some i \<Rightarrow> (if mask8 key = None then None else Some True,
                  km\<lparr>km_keys := take i (km_keys km) @ drop (i + 1) (km_keys km)\<rparr>))"

definition CBCleanupDisabled :: "CBKeyManager \<Rightarrow> nat \<times> CBKeyManager" where
  "CBCleanupDisabled km =
     (let perm = (\<lambda>k. permanent (ck_disabled k) (ck_disabledAt k))
      in (length (filter perm (km_keys km)), km\<lparr>km_keys := filter (\<lambda>k. \<not> perm k) (km_keys km)\<rparr>))"

subsection \<open>Rewriting the request\<close>

definition stripCBPrefix :: "string \<Rightarrow> string" where
  "stripCBPrefix model = trim_prefix ''cb/'' model"

datatype transform_result = TErr | TPanic | TOk fields

definition sys_message :: json where
  "sys_message = JObj [(''role'', JStr ''system''), (''content'', JStr CB_DEFAULT_SYSTEM)]"

definition has_system :: "json \<Rightarrow> bool" where
  "has_system j = (case j of JObj o' \<Rightarrow> map_of o' ''role'' = Some (JStr ''system'') | _ \<Rightarrow> False)"

definition cb_messages :: "fields \<Rightarrow> json option" where
  "cb_messages m =
     (case jarr m ''messages'' of
        None \<Rightarrow> Some (JArr [sys_message, JObj [(''role'', JStr ''user''), (''content'', JStr ''Hello'')]])
      | Some msgs \<Rightarrow>
          if msgs = [] then Some (JArr [sys_message, JObj [(''role'', JStr ''user''), (''content'', JStr ''Hello'')]])
          else if has_system (hd msgs) then None
          else Some (JArr (sys_message # msgs)))"

definition cb_rewrite :: "fields \<Rightarrow> fields" where
  "cb_rewrite m0 =
     (let m1 = AList.update ''stream'' (JBool True) m0;
          m2 = (case jstr m1 ''model'' of Some s \<Rightarrow> AList.update ''model'' (JStr (stripCBPrefix s)) m1 | None \<Rightarrow> m1);
          m3 = (case map_of m2 ''max_tokens'' of
                  None \<Rightarrow> m2
                | Some mt \<Rightarrow>
                    AList.delete ''max_tokens''
                      (if map_of m2 ''max_completion_tokens'' = None
                       then AList.update ''max_completion_tokens'' mt m2 else m2))
      in case cb_messages m3 of Some ms \<Rightarrow> AList.update ''messages'' ms m3 | None \<Rightarrow> m3)"

definition cbTransform :: "json option \<Rightarrow> transform_result" where
  "cbTransform body =
     (case as_map body of MErr \<Rightarrow> TErr | MNil \<Rightarrow> TPanic | MOk m \<Rightarrow> TOk (cb_rewrite m))"

subsection \<open>Collecting a streamed answer\<close>

text \<open>
  One decoded \<^verbatim>\<open>data:\<close> line of the stream: content, reasoning text and finish reason of the first
  choice, if there is a choice, and the usage object, if present.
\<close>

record cb_chunk =
  ch_choice :: "(string \<times> string \<times> string) option"
  ch_usage :: "fields option"

record cb_collected =
  co_content :: string
  co_reasoning :: string
  co_finish :: string
  co_usage :: "fields option"
  co_credit :: rat

definition add_chunk :: "cb_chunk \<Rightarrow> cb_collected \<Rightarrow> cb_collected" where
  "add_chunk ch c0 =
     (let c1 = (case ch_choice ch of
                  None \<Rightarrow> c0
                | Some (content, reasoning, finish) \<Rightarrow>
                    c0\<lparr>co_content := co_content c0 @ content, co_reasoning := co_reasoning c0 @ reasoning,
                       co_finish := (if finish \<noteq> [] then finish else co_finish c0)\<rparr>)
      in case ch_usage ch of
           None \<Rightarrow> c1
         | Some u \<Rightarrow>
             c1\<lparr>co_usage := Some u,
                co_credit := (case jnum u ''credit'' of Some c \<Rightarrow> if c > 0 then c else co_credit c1 | None \<Rightarrow> co_credit c1)\<rparr>)"

fun collect_lines :: "(string \<Rightarrow> cb_chunk option) \<Rightarrow> string list \<Rightarrow> cb_collected \<Rightarrow> cb_collected" where
  "collect_lines decode [] c = c"
| "collect_lines decode (line # lines) c =
     (if \<not> prefix ''data: '' line then collect_lines decode lines c
      else let data = trim_prefix ''data: '' line
           in if data = ''[DONE]'' then c
              else case decode data of
                     None \<Rightarrow> collect_lines decode lines c
                   | Some ch \<Rightarrow> collect_lines decode lines (add_chunk ch c))"

text \<open>
  \<^verbatim>\<open>cbCollectStream\<close>: the collected answer and the key after its credits were added (\<open>None\<close>: the
  panic of \<^verbatim>\<open>AddCredits\<close>).
\<close>

definition cbCollectStream ::
  "(string \<Rightarrow> cb_chunk option) \<Rightarrow> string list \<Rightarrow> CBKey \<Rightarrow> cb_collected \<times> CBKey option" where
  "cbCollectStream decode lines key =
     (let c = collect_lines decode lines \<lparr>co_content = [], co_reasoning = [], co_finish = [], co_usage = None, co_credit = 0\<rparr>;
          c1 = c\<lparr>co_finish := (if co_finish c = [] then ''stop'' else co_finish c)\<rparr>
      in (c1, if co_credit c1 > 0 then AddCredits (co_credit c1) key else Some key))"

subsection \<open>The rewritten request\<close>

lemma cb_rewrite_fields:
  "map_of (cb_rewrite m) =
     (\<lambda>k. if k = ''messages'' then (case cb_messages m of Some ms \<Rightarrow> Some ms | None \<Rightarrow> map_of m ''messages'')
          else if k = ''max_tokens'' then None
          else if k = ''max_completion_tokens''
          then (if map_of m k = None then map_of m ''max_tokens'' else map_of m k)
          else if k = ''model'' then (case jstr m ''model'' of Some s \<Rightarrow> Some (JStr (stripCBPrefix s)) | None \<Rightarrow> map_of m k)
          else if k = ''stream'' then Some (JBool True)
          else map_of m k)"
proof -
  define m2 where "m2 = (case jstr (AList.update ''stream'' (JBool True) m) ''model'' of
      Some s \<Rightarrow> AList.update ''model'' (JStr (stripCBPrefix s)) (AList.update ''stream'' (JBool True) m)
    | None \<Rightarrow> AList.update ''stream'' (JBool True) m)"
  define m3 where "m3 = (case map_of m2 ''max_tokens'' of
      None \<Rightarrow> m2
    | Some mt \<Rightarrow> AList.delete ''max_tokens''
        (if map_of m2 ''max_completion_tokens'' = None then AList.update ''max_completion_tokens'' mt m2 else m2))"
  have m2: "map_of m2 = (\<lambda>k. if k = ''model'' then (case jstr m ''model'' of Some s \<Rightarrow> Some (JStr (stripCBPrefix s)) | None \<Rightarrow> map_of m k)
      else if k = ''stream'' then Some (JBool True) else map_of m k)"
    by (auto simp: m2_def update_conv' fun_eq_iff split: option.splits)
  have m3: "map_of m3 = (\<lambda>k. if k = ''max_tokens'' then None
      else if k = ''max_completion_tokens'' then (if map_of m k = None then map_of m ''max_tokens'' else map_of m k)
      else map_of m2 k)"
    by (auto simp: m3_def m2 update_conv' delete_conv' fun_eq_iff split: option.splits)
  have "jarr m3 ''messages'' = jarr m ''messages''" by (simp add: jarr_def m3 m2)
  then have msgs: "cb_messages m3 = cb_messages m" by (simp add: cb_messages_def)
  have "cb_rewrite m = (case cb_messages m3 of Some ms \<Rightarrow> AList.update ''messages'' ms m3 | None \<Rightarrow> m3)"
    unfolding cb_rewrite_def Let_def m3_def m2_def by (rule refl)
  then show ?thesis by (auto simp: msgs m3 m2 update_conv' fun_eq_iff split: option.splits)
qed

text \<open>
  C31: What is sent to CodeBuddy. The rewritten body streams, names the model without the \<^verbatim>\<open>cb/\<close>
  prefix, carries the token limit only under the name CodeBuddy knows (an explicit
  \<^verbatim>\<open>max_completion_tokens\<close> wins), starts with a system message and keeps the client's messages, in
  order and complete, behind it; every other field is passed through.
\<close>

theorem cbTransform_sends:
  "map_of (cb_rewrite m) ''stream'' = Some (JBool True)
   \<and> jstr (cb_rewrite m) ''model'' = map_option stripCBPrefix (jstr m ''model'')
   \<and> map_of (cb_rewrite m) ''max_tokens'' = None
   \<and> map_of (cb_rewrite m) ''max_completion_tokens'' =
       (if map_of m ''max_completion_tokens'' = None then map_of m ''max_tokens'' else map_of m ''max_completion_tokens'')
   \<and> (\<exists>msg msgs. jarr (cb_rewrite m) ''messages'' = Some (msg # msgs) \<and> has_system msg
        \<and> (case jarr m ''messages'' of Some (x # xs) \<Rightarrow> suffix (x # xs) (msg # msgs) | _ \<Rightarrow> True))
   \<and> (\<forall>k. k \<notin> {''stream'', ''model'', ''max_tokens'', ''max_completion_tokens'', ''messages''} \<longrightarrow>
        map_of (cb_rewrite m) k = map_of m k)"
proof (intro conjI)
  show "jstr (cb_rewrite m) ''model'' = map_option stripCBPrefix (jstr m ''model'')"
    by (auto simp: jstr_def [of "cb_rewrite m"] cb_rewrite_fields split: option.split) (simp add: jstr_def split: option.splits json.splits)
  have sys: "has_system sys_message" by (simp add: has_system_def sys_message_def)
  show "\<exists>msg msgs. jarr (cb_rewrite m) ''messages'' = Some (msg # msgs) \<and> has_system msg
      \<and> (case jarr m ''messages'' of Some (x # xs) \<Rightarrow> suffix (x # xs) (msg # msgs) | _ \<Rightarrow> True)"
  proof (cases "jarr m ''messages''")
    case None
    then show ?thesis using sys by (simp add: jarr_def [of "cb_rewrite m"] cb_rewrite_fields cb_messages_def)
  next
    case (Some ms)
    show ?thesis
    proof (cases ms)
      case Nil
      then show ?thesis using Some sys by (simp add: jarr_def [of "cb_rewrite m"] cb_rewrite_fields cb_messages_def)
    next
      case (Cons x xs)
      have raw: "map_of m ''messages'' = Some (JArr ms)" using Some by (auto simp: jarr_def split: option.splits json.splits)
      show ?thesis
      proof (cases "has_system x")
        case True
        then show ?thesis using Some Cons raw by (simp add: jarr_def [of "cb_rewrite m"] cb_rewrite_fields cb_messages_def)
      next
        case False
        then show ?thesis using Some Cons sys
          by (simp add: jarr_def [of "cb_rewrite m"] cb_rewrite_fields cb_messages_def suffix_def)
      qed
    qed
  qed
qed (simp_all add: cb_rewrite_fields)

subsection \<open>Credits\<close>

fun add_all :: "rat list \<Rightarrow> CBKey \<Rightarrow> CBKey option" where
  "add_all [] k = Some k"
| "add_all (c # cs) k = (case AddCredits c k of None \<Rightarrow> None | Some k' \<Rightarrow> add_all cs k')"

lemma mask8_long: "8 \<le> length k \<Longrightarrow> mask8 k \<noteq> None"
  by (simp add: mask8_def slice_to_def slice_last_def)

lemma AddCredits_long:
  assumes "8 \<le> length (ck_Key k)"
  shows "\<exists>k'. AddCredits c k = Some k' \<and> ck_Key k' = ck_Key k \<and> ck_creditsUsed k' = ck_creditsUsed k + c
    \<and> ck_disabled k' = (ck_disabled k \<or> ck_creditsUsed k + c \<ge> CB_CREDIT_LIMIT)"
  using mask8_long [OF assms] by (auto simp: AddCredits_def Let_def)

text \<open>
  The credit limit is enforced exactly: an enabled key below the limit is disabled by a series of
  charges if and only if the credits used have reached 240, for any split into charges, and
  accounting does not fail for keys of at least 8 bytes.
\<close>

theorem credit_limit_enforced:
  assumes "8 \<le> length (ck_Key k)" and "\<not> ck_disabled k" and "ck_creditsUsed k < CB_CREDIT_LIMIT" and "\<forall>c \<in> set cs. 0 \<le> c"
  shows "\<exists>k'. add_all cs k = Some k' \<and> (ck_disabled k' \<longleftrightarrow> ck_creditsUsed k + sum_list cs \<ge> CB_CREDIT_LIMIT)"
proof -
  have "\<exists>k'. add_all cs k = Some k' \<and>
      (ck_disabled k' \<longleftrightarrow> ck_disabled k \<or> (cs \<noteq> [] \<and> ck_creditsUsed k + sum_list cs \<ge> CB_CREDIT_LIMIT))"
    if "8 \<le> length (ck_Key k)" "\<forall>c \<in> set cs. 0 \<le> c" for k
    using that
  proof (induction cs arbitrary: k)
    case (Cons c cs)
    from AddCredits_long [OF Cons.prems(1)] obtain k1 where k1: "AddCredits c k = Some k1" "ck_Key k1 = ck_Key k"
        "ck_creditsUsed k1 = ck_creditsUsed k + c" "ck_disabled k1 = (ck_disabled k \<or> ck_creditsUsed k + c \<ge> CB_CREDIT_LIMIT)"
      by blast
    have nn: "0 \<le> sum_list cs" using Cons.prems(2) by (auto intro: sum_list_nonneg)
    from Cons.IH [of k1] Cons.prems k1 obtain k' where "add_all cs k1 = Some k'"
        "ck_disabled k' \<longleftrightarrow> ck_disabled k1 \<or> (cs \<noteq> [] \<and> ck_creditsUsed k1 + sum_list cs \<ge> CB_CREDIT_LIMIT)"
      by auto
    with k1 nn show ?case by (cases "cs = []") (auto simp: add.assoc)
  qed simp
  from this [OF assms(1,4)] show ?thesis using assms(2,3) by (cases "cs = []") auto
qed

theorem cbTransform_sends_witness:
  "jstr (cb_rewrite [(''model'', JStr ''cb/gpt-5''), (''max_tokens'', JNum 9), (''user'', JStr ''u'')]) ''model'' = Some ''gpt-5''
   \<and> map_of (cb_rewrite [(''model'', JStr ''cb/gpt-5''), (''max_tokens'', JNum 9), (''user'', JStr ''u'')]) ''max_completion_tokens'' = Some (JNum 9)
   \<and> map_of (cb_rewrite [(''model'', JStr ''cb/gpt-5''), (''max_tokens'', JNum 9), (''user'', JStr ''u'')]) ''user'' = Some (JStr ''u'')"
  using cbTransform_sends [of "[(''model'', JStr ''cb/gpt-5''), (''max_tokens'', JNum 9), (''user'', JStr ''u'')]"]
  by (simp add: jstr_def [of "_ # _"] stripCBPrefix_def trim_prefix_def)

theorem credit_limit_enforced_witness:
  "\<exists>k'. add_all [100, 100, 40] (new_cb_key ''ck_12345678'') = Some k'
     \<and> (ck_disabled k' \<longleftrightarrow> ck_creditsUsed (new_cb_key ''ck_12345678'') + sum_list [100, 100, 40] \<ge> CB_CREDIT_LIMIT)"
  by (rule credit_limit_enforced) (simp_all add: new_cb_key_def CB_CREDIT_LIMIT_def)

text \<open>
  For a shorter key, which \<^verbatim>\<open>AddKey\<close> accepts, the charge that reaches the limit panics in the
  log line, while the key's mutex is held.
\<close>

theorem short_key_charge_panics:
  assumes "length (ck_Key k) < 8" and "ck_creditsUsed k + c \<ge> CB_CREDIT_LIMIT"
  shows "AddCredits c k = None"
  using assms by (simp add: AddCredits_def Let_def mask8_def slice_to_def)

theorem short_key_charge_panics_witness: "AddCredits 240 (new_cb_key ''abc'') = None"
  by (rule short_key_charge_panics) (simp_all add: new_cb_key_def CB_CREDIT_LIMIT_def)

end
