(* ===== verification/Upstream.thy ===== *)
theory Upstream
  imports Health GrokPool CBPool
begin

text \<open>
  The request paths to the two upstreams and the active checks: \<^verbatim>\<open>ProxyGrok\<close> (\<^verbatim>\<open>grok.go\<close>),
  \<^verbatim>\<open>ProxyCodeBuddy\<close> (\<^verbatim>\<open>codebuddy.go\<close>), \<^verbatim>\<open>checkGrok\<close> and \<^verbatim>\<open>checkCB\<close> (\<^verbatim>\<open>health.go\<close>). They tie
  together the circuit breaker, the credential pools and the proxy pool.

  The world outside is a record of parameters: the answer to the n-th HTTP exchange made with a
  given credential (a transport error, or a status and the body read), the answers of the token
  endpoint, the clock, the client's cancellation, and the environment of the proxy pool. One
  request is executed without interleaving with others; a background refresh started by \<^verbatim>\<open>Next\<close>
  is not part of it.
\<close>

record net_env =
  ne_do :: "nat \<Rightarrow> string \<Rightarrow> go_error + int \<times> string"
  ne_token :: "nat \<Rightarrow> string \<Rightarrow> go_error + int \<times> string"
  ne_decode_tokens :: "string \<Rightarrow> go_error + token_reply"
  ne_fmt :: "gotime \<Rightarrow> string"
  ne_clock :: "nat \<Rightarrow> gotime"
  ne_cancelled :: "nat \<Rightarrow> bool"
  ne_incr :: "nat \<Rightarrow> incr_result"
  ne_transport :: transport_env
  ne_db :: bool

record upstream_state =
  us_grok :: GrokAccountManager
  us_cb :: CBKeyManager
  us_gh :: UpstreamHealth
  us_ch :: UpstreamHealth
  us_proxy :: ProxyPool
  us_calls :: nat

definition us_now :: "net_env \<Rightarrow> upstream_state \<Rightarrow> gotime" where
  "us_now env s = ne_clock env (us_calls s)"

text \<open>Selecting a proxy for an upstream; the empty id stands for the direct client.\<close>

definition pick_proxy :: "net_env \<Rightarrow> string \<Rightarrow> upstream_state \<Rightarrow> string \<times> upstream_state" where
  "pick_proxy env up s =
     (let (cl, p, _) = getClient (ne_transport env) (ne_incr env (us_calls s)) (us_now env s) up (us_proxy s)
      in (case cl of None \<Rightarrow> [] | Some (_, pid) \<Rightarrow> pid, s\<lparr>us_proxy := p\<rparr>))"

definition report :: "net_env \<Rightarrow> string \<Rightarrow> go_error + int \<times> string \<Rightarrow> upstream_state \<Rightarrow> upstream_state" where
  "report env pid reply s =
     s\<lparr>us_proxy := (case reply of
          Inl e \<Rightarrow> fst (markProxyResult (ne_db env) pid (Some e) 0 (us_proxy s))
        | Inr (st, _) \<Rightarrow> fst (markProxyResult (ne_db env) pid None st (us_proxy s))),
       us_calls := us_calls s + 1\<rparr>"

subsection \<open>Grok\<close>

definition grok_send :: "net_env \<Rightarrow> string \<Rightarrow> nat \<Rightarrow> upstream_state \<Rightarrow> (go_error + int \<times> string) \<times> upstream_state" where
  "grok_send env pid i s =
     (let reply = ne_do env (us_calls s) (ga_AccessToken (gm_accounts (us_grok s) ! i))
      in (reply, report env pid reply s))"

definition upd_grok :: "nat \<Rightarrow> (GrokAccount \<Rightarrow> GrokAccount) \<Rightarrow> upstream_state \<Rightarrow> upstream_state" where
  "upd_grok i f s = s\<lparr>us_grok := upd_account i f (us_grok s)\<rparr>"

definition Refresh :: "net_env \<Rightarrow> nat \<Rightarrow> upstream_state \<Rightarrow> go_error option \<times> upstream_state" where
  "Refresh env i s0 =
     (let (pid, s) = pick_proxy env ''grok'' s0;
          now = us_now env s;
          reply = ne_token env (us_calls s) (ga_RefreshToken (gm_accounts (us_grok s) ! i));
          s1 = report env pid reply s
      in case refresh_result (ne_decode_tokens env) reply of
           Inl e \<Rightarrow> (Some e, s1)
         | Inr t \<Rightarrow> (None, upd_grok i (apply_tokens (ne_fmt env) now t) s1))"

definition grok_banned_body :: "string \<Rightarrow> bool" where
  "grok_banned_body body \<longleftrightarrow>
     contains ''spending-limit'' body \<or> contains ''spending_limit'' body
     \<or> contains ''personal-team-blocked'' body \<or> contains ''banned'' body
     \<or> contains ''suspended'' body \<or> contains ''permanently'' body"

definition grok_handle ::
  "net_env \<Rightarrow> gotime \<Rightarrow> nat \<Rightarrow> int \<Rightarrow> string \<Rightarrow> upstream_state \<Rightarrow> (nat \<times> int \<times> string) option \<times> upstream_state" where
  "grok_handle env start i st body s =
     (if st = 402 \<or> st = 403
      then (None, upd_grok i (if st = 402 \<or> grok_banned_body body then disable_for_good
                             else disable_cooldown (us_now env s)) s)
      else if st \<ge> 500
      then (None, s\<lparr>us_gh := RecordRequest (us_now env s) (us_now env s - start) (Some (''upstream '' @ Itoa st)) (us_gh s)\<rparr>)
      else (Some (i, st, body), s))"

definition grok_step ::
  "net_env \<Rightarrow> string \<Rightarrow> gotime \<Rightarrow> nat \<Rightarrow> upstream_state \<Rightarrow> (nat \<times> int \<times> string) option \<times> upstream_state" where
  "grok_step env pid start i s =
     (case grok_send env pid i s of
        (Inl _, s1) \<Rightarrow> (None, s1)
      | (Inr (st, body), s1) \<Rightarrow>
          if st = 401
          then (case Refresh env i s1 of
                  (Some e, s2) \<Rightarrow> (None, if contains ''invalid_grant'' e then upd_grok i disable_for_good s2 else s2)
                | (None, s2) \<Rightarrow>
                    (case grok_send env pid i s2 of
                       (Inl _, s3) \<Rightarrow> (None, s3)
                     | (Inr (st2, body2), s3) \<Rightarrow>
                         if st2 = 401 then (None, upd_grok i disable_for_good s3)
                         else grok_handle env start i st2 body2 s3))
          else grok_handle env start i st body s1)"

definition grok_pick :: "net_env \<Rightarrow> upstream_state \<Rightarrow> (nat \<times> upstream_state) option" where
  "grok_pick env s =
     (case GrokNext (us_now env s) (us_grok s) of
        (Inl _, _) \<Rightarrow> None
      | (Inr (i, _), am) \<Rightarrow> Some (i, s\<lparr>us_grok := am\<rparr>))"

datatype grok_outcome = GCircuitOpen | GCancelled | GAllCooldown | GServed string int string

definition grok_loop :: "net_env \<Rightarrow> string \<Rightarrow> gotime \<Rightarrow> upstream_state \<Rightarrow> (nat \<times> int \<times> string) attempt_result \<times> upstream_state" where
  "grok_loop env pid start s =
     retry (\<lambda>s. ne_cancelled env (us_calls s)) (grok_pick env) (grok_step env pid start)
       (length (gm_accounts (us_grok s))) s"

definition ProxyGrok :: "net_env \<Rightarrow> upstream_state \<Rightarrow> grok_outcome \<times> upstream_state" where
  "ProxyGrok env s0 =
     (let (ok, h) = CanRequest (us_now env s0) (us_gh s0)
      in if \<not> ok
         then (GCircuitOpen, s0\<lparr>us_gh := RecordRequest (us_now env s0) 0 (Some ''circuit open'') h\<rparr>)
         else let (pid, s) = pick_proxy env ''grok'' (s0\<lparr>us_gh := h\<rparr>); start = us_now env s
              in case grok_loop env pid start s of
                   (ACancelled, s1) \<Rightarrow> (GCancelled, s1)
                 | (AExhausted, s1) \<Rightarrow> (GAllCooldown, s1)
                 | (AServed (i, st, body), s1) \<Rightarrow>
                     (GServed (ga_Email (gm_accounts (us_grok s1) ! i)) st body,
                      s1\<lparr>us_gh := RecordRequest (us_now env s1) (us_now env s1 - start) None (us_gh s1)\<rparr>))"

subsection \<open>CodeBuddy\<close>

datatype cb_reply = CBOk nat int string | CBReject string "string option" | CBPanic

definition upd_cb :: "nat \<Rightarrow> (CBKey \<Rightarrow> CBKey) \<Rightarrow> upstream_state \<Rightarrow> upstream_state" where
  "upd_cb i f s = s\<lparr>us_cb := upd_key i f (us_cb s)\<rparr>"

text \<open>Disabling a key ends with a log line that slices the key.\<close>

definition cb_disable :: "gotime \<Rightarrow> nat \<Rightarrow> upstream_state \<Rightarrow> cb_reply option \<times> upstream_state" where
  "cb_disable at' i s =
     (if mask8 (ck_Key (km_keys (us_cb s) ! i)) = None then Some CBPanic else None, upd_cb i (disable_key at') s)"

definition cb_record :: "net_env \<Rightarrow> gotime \<Rightarrow> string \<Rightarrow> upstream_state \<Rightarrow> upstream_state" where
  "cb_record env start msg s =
     s\<lparr>us_ch := RecordRequest (us_now env s) (us_now env s - start) (Some msg) (us_ch s)\<rparr>"

definition cb_handle ::
  "net_env \<Rightarrow> gotime \<Rightarrow> nat \<Rightarrow> int \<Rightarrow> string \<Rightarrow> upstream_state \<Rightarrow> cb_reply option \<times> upstream_state" where
  "cb_handle env start i st body s =
     (if st = 401 then cb_disable zero_time i s
      else if st = 429 then cb_disable (if contains ''14017'' body then zero_time else us_now env s) i s
      else if 400 \<le> st \<and> st < 500
      then (if st = 403 \<and> contains ''11140'' body then cb_disable zero_time i s
            else if contains ''14018'' body \<or> contains ''Credits exhausted'' body then cb_disable zero_time i s
            else if st = 400 \<and> (contains ''11133'' body \<or> contains ''Invalid request parameters'' body)
            then (Some (CBReject ''CodeBuddy rejected request parameters'' (Some body)), cb_record env start ''cb 400 invalid params'' s)
            else if st = 400 \<and> (contains ''11102'' body \<or> contains ''service info not found'' body
                               \<or> contains ''model ['' body \<and> contains ''] service info not found'' body)
            then (Some (CBReject ''model not available on CodeBuddy'' None), cb_record env start ''cb 400 model not found'' s)
            else cb_disable (us_now env s) i s)
      else if st \<ge> 500 then (None, cb_record env start (''upstream '' @ Itoa st) s)
      else (Some (CBOk i st body), s))"

definition cb_step :: "net_env \<Rightarrow> string \<Rightarrow> gotime \<Rightarrow> nat \<Rightarrow> upstream_state \<Rightarrow> cb_reply option \<times> upstream_state" where
  "cb_step env pid start i s =
     (let reply = ne_do env (us_calls s) (ck_Key (km_keys (us_cb s) ! i)); s1 = report env pid reply s
      in case reply of
           Inl _ \<Rightarrow> (None, s1)
         | Inr (st, body) \<Rightarrow> cb_handle env start i st body s1)"

definition cb_pick :: "upstream_state \<Rightarrow> (nat \<times> upstream_state) option" where
  "cb_pick s = (case CBNext (us_cb s) of (Inl _, _) \<Rightarrow> None | (Inr i, km) \<Rightarrow> Some (i, s\<lparr>us_cb := km\<rparr>))"

datatype cb_outcome = CCircuitOpen | CBadBody | CCancelled | CAllDisabled | CRejected string "string option" | CServed nat string int string | CPanicked

definition cb_loop :: "net_env \<Rightarrow> string \<Rightarrow> gotime \<Rightarrow> upstream_state \<Rightarrow> cb_reply attempt_result \<times> upstream_state" where
  "cb_loop env pid start s =
     retry (\<lambda>s. ne_cancelled env (us_calls s)) cb_pick (cb_step env pid start) (length (km_keys (us_cb s))) s"

definition ProxyCodeBuddy :: "net_env \<Rightarrow> json option \<Rightarrow> upstream_state \<Rightarrow> cb_outcome \<times> upstream_state" where
  "ProxyCodeBuddy env body s0 =
     (let (ok, h) = CanRequest (us_now env s0) (us_ch s0)
      in if \<not> ok
         then (CCircuitOpen, s0\<lparr>us_ch := RecordRequest (us_now env s0) 0 (Some ''circuit open'') h\<rparr>)
         else case cbTransform body of
                TErr \<Rightarrow> (CBadBody, s0\<lparr>us_ch := h\<rparr>)
              | TPanic \<Rightarrow> (CPanicked, s0\<lparr>us_ch := h\<rparr>)
              | TOk _ \<Rightarrow>
                  (let (pid, s) = pick_proxy env ''codebuddy'' (s0\<lparr>us_ch := h\<rparr>); start = us_now env s
                   in case cb_loop env pid start s of
                        (ACancelled, s1) \<Rightarrow> (CCancelled, s1)
                      | (AExhausted, s1) \<Rightarrow> (CAllDisabled, s1)
                      | (AServed (CBReject e d), s1) \<Rightarrow> (CRejected e d, s1)
                      | (AServed CBPanic, s1) \<Rightarrow> (CPanicked, s1)
                      | (AServed (CBOk i st rbody), s1) \<Rightarrow>
                          (let s2 = s1\<lparr>us_ch := RecordRequest (us_now env s1) (us_now env s1 - start) None (us_ch s1)\<rparr>
                           in case mask8 (ck_Key (km_keys (us_cb s2) ! i)) of
                                None \<Rightarrow> (CPanicked, s2)
                              | Some acct \<Rightarrow> (CServed i acct st rbody, s2))))"

subsection \<open>Active checks\<close>

definition check_probe :: "net_env \<Rightarrow> string \<Rightarrow> string \<Rightarrow> upstream_state \<Rightarrow> (duration \<times> (go_error + int)) \<times> upstream_state" where
  "check_probe env up cred s0 =
     (let (pid, s) = pick_proxy env up s0;
          reply = ne_do env (us_calls s) cred;
          s1 = report env pid reply s
      in ((us_now env s1 - us_now env s0, map_sum id fst reply), s1))"

definition checkGrok :: "net_env \<Rightarrow> upstream_state \<Rightarrow> upstream_state" where
  "checkGrok env s =
     (if gm_accounts (us_grok s) = []
      then s\<lparr>us_gh := check_no_accounts (us_now env s) ''no grok accounts loaded'' (us_gh s)\<rparr>
      else case find (\<lambda>a. \<not> ga_disabled a) (gm_accounts (us_grok s)) of
             None \<Rightarrow> s\<lparr>us_gh := check_all_disabled (us_now env s) ''all grok accounts disabled'' (us_gh s)\<rparr>
           | Some acc \<Rightarrow>
               (let ((latency, res), s1) = check_probe env ''grok'' (ga_AccessToken acc) s
                in s1\<lparr>us_gh := check_result (us_now env s1) latency res (us_gh s1)\<rparr>))"

definition checkCB :: "net_env \<Rightarrow> upstream_state \<Rightarrow> upstream_state" where
  "checkCB env s =
     (if km_keys (us_cb s) = []
      then s\<lparr>us_ch := check_no_accounts (us_now env s) ''no cb keys loaded'' (us_ch s)\<rparr>
      else case find (\<lambda>k. \<not> ck_disabled k) (km_keys (us_cb s)) of
             None \<Rightarrow> s\<lparr>us_ch := check_all_disabled (us_now env s) ''all cb keys disabled'' (us_ch s)\<rparr>
           | Some key \<Rightarrow>
               (let ((latency, res), s1) = check_probe env ''codebuddy'' (ck_Key key) s
                in s1\<lparr>us_ch := check_result (us_now env s1) latency res (us_ch s1)\<rparr>))"

subsection \<open>Frames\<close>

lemma report_frame [simp]:
  "us_grok (report env pid r s) = us_grok s" "us_cb (report env pid r s) = us_cb s"
  "us_gh (report env pid r s) = us_gh s" "us_ch (report env pid r s) = us_ch s"
  "us_calls (report env pid r s) = Suc (us_calls s)"
  by (simp_all add: report_def)

lemma pick_proxy_frame [simp]:
  "us_grok (snd (pick_proxy env up s)) = us_grok s" "us_cb (snd (pick_proxy env up s)) = us_cb s"
  "us_gh (snd (pick_proxy env up s)) = us_gh s" "us_ch (snd (pick_proxy env up s)) = us_ch s"
  "us_calls (snd (pick_proxy env up s)) = us_calls s"
  by (simp_all add: pick_proxy_def Let_def split_beta)

lemma upd_grok_frame [simp]:
  "us_calls (upd_grok i f s) = us_calls s" "us_gh (upd_grok i f s) = us_gh s"
  "gm_next (us_grok (upd_grok i f s)) = gm_next (us_grok s)"
  "length (gm_accounts (us_grok (upd_grok i f s))) = length (gm_accounts (us_grok s))"
  "j \<noteq> i \<Longrightarrow> gm_accounts (us_grok (upd_grok i f s)) ! j = gm_accounts (us_grok s) ! j"
  by (simp_all add: upd_grok_def upd_account_def)

lemma upd_cb_frame [simp]:
  "us_calls (upd_cb i f s) = us_calls s" "us_ch (upd_cb i f s) = us_ch s"
  "km_next (us_cb (upd_cb i f s)) = km_next (us_cb s)"
  "length (km_keys (us_cb (upd_cb i f s))) = length (km_keys (us_cb s))"
  "j \<noteq> i \<Longrightarrow> km_keys (us_cb (upd_cb i f s)) ! j = km_keys (us_cb s) ! j"
  by (simp_all add: upd_cb_def upd_key_def)

text \<open>Using account \<open>i\<close> leaves the size of the pool, the cursor and every other account alone.\<close>

definition grok_same :: "nat \<Rightarrow> upstream_state \<Rightarrow> upstream_state \<Rightarrow> bool" where
  "grok_same i s s' \<longleftrightarrow> gm_next (us_grok s') = gm_next (us_grok s)
     \<and> length (gm_accounts (us_grok s')) = length (gm_accounts (us_grok s))
     \<and> (\<forall>j. j \<noteq> i \<longrightarrow> gm_accounts (us_grok s') ! j = gm_accounts (us_grok s) ! j)"

lemma grok_same_refl [simp]: "grok_same i s s"
  by (simp add: grok_same_def)

lemma grok_same_trans: "grok_same i s s' \<Longrightarrow> grok_same i s' s'' \<Longrightarrow> grok_same i s s''"
  by (simp add: grok_same_def)

lemma grok_same_upd: "grok_same i s s' \<Longrightarrow> grok_same i s (upd_grok i f s')"
  by (simp add: grok_same_def)

lemma grok_same_report: "grok_same i s s' \<Longrightarrow> grok_same i s (report env pid r s')"
  by (simp add: grok_same_def)

lemma Refresh_same: "grok_same i s (snd (Refresh env i s))"
proof -
  have "grok_same i s (snd (pick_proxy env ''grok'' s))" by (simp add: grok_same_def)
  then show ?thesis
    by (auto simp: Refresh_def Let_def split_beta intro: grok_same_upd grok_same_report split: sum.split)
qed

lemma grok_handle_same: "grok_same i s s' \<Longrightarrow> grok_same i s (snd (grok_handle env start i st body s'))"
  by (simp add: grok_handle_def grok_same_def)

lemma grok_step_same: "grok_same i s (snd (grok_step env pid start i s))"
proof -
  have send: "grok_same i s (snd (grok_send env pid i s'))" if "grok_same i s s'" for s'
    using that by (simp add: grok_send_def Let_def grok_same_report)
  have refresh: "grok_same i s (snd (Refresh env i s'))" if "grok_same i s s'" for s'
    using that Refresh_same [of i s' env] grok_same_trans by blast
  note r1 = send [OF grok_same_refl]
  note r2 = refresh [OF r1]
  note r3 = send [OF r2]
  show ?thesis
    using r1 r2 r3
    by (auto simp: grok_step_def grok_same_upd grok_handle_same split: prod.splits sum.splits option.splits)
qed

subsection \<open>A working credential is reached\<close>

text \<open>Account \<open>j\<close> holds the token \<open>tok\<close>, is enabled and stays outside the refresh window.\<close>

definition grok_good :: "net_env \<Rightarrow> string \<Rightarrow> upstream_state \<Rightarrow> nat \<Rightarrow> bool" where
  "grok_good env tok s j \<longleftrightarrow>
     j < length (gm_accounts (us_grok s)) \<and> \<not> ga_disabled (gm_accounts (us_grok s) ! j)
     \<and> ga_AccessToken (gm_accounts (us_grok s) ! j) = tok
     \<and> (\<forall>n. ne_clock env n < ga_expiresAt (gm_accounts (us_grok s) ! j) - REFRESH_BUFFER)"

interpretation gr: retry_pool "\<lambda>s. length (gm_accounts (us_grok s))" "\<lambda>s. gm_next (us_grok s)" "grok_good env tok"
  "grok_pick env" "grok_step env pid start" "\<lambda>s. ne_cancelled env (us_calls s)"
  for env tok pid start
proof unfold_locales
  fix j and s :: upstream_state
  let ?as = "gm_accounts (us_grok s)" and ?c = "gm_next (us_grok s)"
  assume j: "j < length ?as" and g: "grok_good env tok s j"
  have f: "fresh (us_now env s) (?as ! j)" using g by (simp add: fresh_def grok_good_def us_now_def)
  then obtain i where i: "rr_scan (fresh (us_now env s)) ?as ?c = Some i"
    using rr_scan_None [of "fresh (us_now env s)" ?as ?c] j by (cases "rr_scan (fresh (us_now env s)) ?as ?c") auto
  from rr_scan_ahead [OF i j f] obtain k where k: "k \<le> ahead (length ?as) ?c j" "i = (?c + k) mod length ?as" by blast
  have "GrokNext (us_now env s) (us_grok s) = (Inr (i, False), (us_grok s)\<lparr>gm_next := (i + 1) mod length ?as\<rparr>)"
    using i j by (auto simp: GrokNext_def Let_def)
  then have "grok_pick env s = Some (i, s\<lparr>us_grok := (us_grok s)\<lparr>gm_next := (i + 1) mod length ?as\<rparr>\<rparr>)"
    by (simp add: grok_pick_def)
  with k g show "\<exists>k s'. k \<le> ahead (length ?as) ?c j \<and> grok_pick env s = Some ((?c + k) mod length ?as, s')
      \<and> length (gm_accounts (us_grok s')) = length ?as
      \<and> gm_next (us_grok s') = ((?c + k) mod length ?as + 1) mod length ?as \<and> grok_good env tok s' j"
    by (intro exI [of _ k]) (auto simp: grok_good_def)
next
  fix i j and s :: upstream_state
  assume "i \<noteq> j" and "grok_good env tok s j"
  then show "length (gm_accounts (us_grok (snd (grok_step env pid start i s)))) = length (gm_accounts (us_grok s))
      \<and> gm_next (us_grok (snd (grok_step env pid start i s))) = gm_next (us_grok s)
      \<and> grok_good env tok (snd (grok_step env pid start i s)) j"
    using grok_step_same [of i s env pid start] by (auto simp: grok_same_def grok_good_def)
qed


definition ex_net :: net_env where
  "ex_net = \<lparr>ne_do = (\<lambda>n c. if c = ''b'' then Inr (200, ''ok'') else Inr (403, ''blocked'')), ne_token = (\<lambda>_ _. Inl ''no''),
     ne_decode_tokens = (\<lambda>_. Inl ''no''), ne_fmt = (\<lambda>_. []), ne_clock = (\<lambda>_. 0), ne_cancelled = (\<lambda>_. False),
     ne_incr = (\<lambda>_. None), ne_transport = ex_env, ne_db = False\<rparr>"

definition ex_up :: upstream_state where
  "ex_up = \<lparr>us_grok = \<lparr>gm_accounts = [ex_account ''a'' hour, ex_account ''b'' hour], gm_next = 0\<rparr>,
     us_cb = \<lparr>km_keys = map new_cb_key [''ck_aaaaaaaaaaaa'', ''ck_bbbbbbbbbbbb''], km_next = 0\<rparr>,
     us_gh = NewUpstreamHealth ''grok'', us_ch = NewUpstreamHealth ''codebuddy'', us_proxy = NewProxyPool, us_calls = 0\<rparr>"


text \<open>The same for the CodeBuddy keys.\<close>

definition cb_same :: "nat \<Rightarrow> upstream_state \<Rightarrow> upstream_state \<Rightarrow> bool" where
  "cb_same i s s' \<longleftrightarrow> km_next (us_cb s') = km_next (us_cb s)
     \<and> length (km_keys (us_cb s')) = length (km_keys (us_cb s))
     \<and> (\<forall>j. j \<noteq> i \<longrightarrow> km_keys (us_cb s') ! j = km_keys (us_cb s) ! j)"

lemma cb_record_frame [simp]:
  "us_cb (cb_record env start msg s) = us_cb s" "us_calls (cb_record env start msg s) = us_calls s"
  by (simp_all add: cb_record_def)

lemma cb_disable_state: "snd (cb_disable t i s) = upd_cb i (disable_key t) s"
  by (simp add: cb_disable_def)

lemma cb_step_same: "cb_same i s (snd (cb_step env pid start i s))"
  by (simp add: cb_step_def Let_def cb_handle_def cb_same_def cb_disable_state split: sum.split prod.split)

definition cb_good :: "string \<Rightarrow> upstream_state \<Rightarrow> nat \<Rightarrow> bool" where
  "cb_good key s j \<longleftrightarrow> j < length (km_keys (us_cb s)) \<and> \<not> ck_disabled (km_keys (us_cb s) ! j)
     \<and> ck_Key (km_keys (us_cb s) ! j) = key"

interpretation cr: retry_pool "\<lambda>s. length (km_keys (us_cb s))" "\<lambda>s. km_next (us_cb s)" "cb_good key"
  cb_pick "cb_step env pid start" "\<lambda>s. ne_cancelled env (us_calls s)"
  for env key pid start
proof unfold_locales
  fix j and s :: upstream_state
  let ?ks = "km_keys (us_cb s)" and ?c = "km_next (us_cb s)" and ?P = "\<lambda>k. \<not> ck_disabled k"
  assume j: "j < length ?ks" and g: "cb_good key s j"
  have f: "?P (?ks ! j)" using g by (simp add: cb_good_def)
  then obtain i where i: "rr_scan ?P ?ks ?c = Some i"
    using rr_scan_None [of ?P ?ks ?c] j by (cases "rr_scan ?P ?ks ?c") auto
  from rr_scan_ahead [OF i j f] obtain k where k: "k \<le> ahead (length ?ks) ?c j" "i = (?c + k) mod length ?ks" by blast
  have "CBNext (us_cb s) = (Inr i, (us_cb s)\<lparr>km_next := (i + 1) mod length ?ks\<rparr>)"
    using i j by (auto simp: CBNext_def Let_def)
  then have "cb_pick s = Some (i, s\<lparr>us_cb := (us_cb s)\<lparr>km_next := (i + 1) mod length ?ks\<rparr>\<rparr>)"
    by (simp add: cb_pick_def)
  with k g show "\<exists>k s'. k \<le> ahead (length ?ks) ?c j \<and> cb_pick s = Some ((?c + k) mod length ?ks, s')
      \<and> length (km_keys (us_cb s')) = length ?ks
      \<and> km_next (us_cb s') = ((?c + k) mod length ?ks + 1) mod length ?ks \<and> cb_good key s' j"
    by (intro exI [of _ k]) (auto simp: cb_good_def)
next
  fix i j and s :: upstream_state
  assume "i \<noteq> j" and "cb_good key s j"
  then show "length (km_keys (us_cb (snd (cb_step env pid start i s)))) = length (km_keys (us_cb s))
      \<and> km_next (us_cb (snd (cb_step env pid start i s))) = km_next (us_cb s)
      \<and> cb_good key (snd (cb_step env pid start i s)) j"
    using cb_step_same [of i s env pid start] by (auto simp: cb_same_def cb_good_def)
qed

lemma drained_step:
  assumes "\<forall>n key. ne_do env n key = Inr (st, body)" and "400 \<le> st" "st < 500" "st \<notin> {400, 401, 403, 429}"
    and "\<not> contains ''14018'' body" "\<not> contains ''Credits exhausted'' body" and "i < length (km_keys (us_cb s))"
  shows "ck_disabled (km_keys (us_cb (snd (cb_step env pid start i s))) ! i)"
  using assms by (simp add: cb_step_def Let_def cb_handle_def cb_disable_state upd_cb_def upd_key_def disable_key_def)

definition enabled_keys :: "upstream_state \<Rightarrow> nat" where
  "enabled_keys s = length (filter (\<lambda>k. \<not> ck_disabled k) (km_keys (us_cb s)))"

lemma filter_update_drop:
  "i < length xs \<Longrightarrow> P (xs ! i) \<Longrightarrow> \<not> P y \<Longrightarrow> Suc (length (filter P (xs[i := y]))) = length (filter P xs)"
proof (induction xs arbitrary: i)
  case (Cons x xs)
  then show ?case by (cases i) auto
qed simp

lemma cb_pick_enabled:
  "cb_pick s = Some (i, s') \<Longrightarrow> i < length (km_keys (us_cb s)) \<and> \<not> ck_disabled (km_keys (us_cb s) ! i)
     \<and> km_keys (us_cb s') = km_keys (us_cb s)"
  by (auto simp: cb_pick_def CBNext_def Let_def dest: rr_scan_Some split: option.splits if_splits)

lemma cb_pick_None: "cb_pick s = None \<longleftrightarrow> enabled_keys s = 0"
  by (auto simp: cb_pick_def CBNext_def Let_def enabled_keys_def rr_scan_None filter_empty_conv split: option.splits)
     (metis option.distinct(1) rr_scan_None)+

definition generic_client_error :: "int \<Rightarrow> string \<Rightarrow> bool" where
  "generic_client_error st body \<longleftrightarrow> 400 \<le> st \<and> st < 500 \<and> st \<notin> {400, 401, 403, 429}
     \<and> \<not> contains ''14018'' body \<and> \<not> contains ''Credits exhausted'' body"

lemma generic_step:
  assumes "\<forall>n key. ne_do env n key = Inr (st, body)" and "generic_client_error st body"
    and "mask8 (ck_Key (km_keys (us_cb s) ! i)) \<noteq> None"
  shows "fst (cb_step env pid start i s) = None"
    and "km_keys (us_cb (snd (cb_step env pid start i s)))
           = (km_keys (us_cb s))[i := disable_key (ne_clock env (Suc (us_calls s))) (km_keys (us_cb s) ! i)]"
  using assms
  by (simp_all add: generic_client_error_def cb_step_def Let_def cb_handle_def cb_disable_def upd_cb_def upd_key_def us_now_def)

lemma drain_loop:
  assumes "\<forall>n key. ne_do env n key = Inr (st, body)" and "generic_client_error st body" and "\<forall>n. \<not> ne_cancelled env n"
    and "\<forall>k \<in> set (km_keys (us_cb s)). mask8 (ck_Key k) \<noteq> None" and "enabled_keys s \<le> n"
  shows "fst (retry (\<lambda>s. ne_cancelled env (us_calls s)) cb_pick (cb_step env pid start) n s) = AExhausted
    \<and> enabled_keys (snd (retry (\<lambda>s. ne_cancelled env (us_calls s)) cb_pick (cb_step env pid start) n s)) = 0"
  using assms(4,5)
proof (induction n arbitrary: s)
  case (Suc n)
  show ?case
  proof (cases "cb_pick s")
    case None
    then have "enabled_keys s = 0" using cb_pick_None by blast
    with None assms(3) show ?thesis by simp
  next
    case (Some p)
    then obtain i s1 where p: "cb_pick s = Some (i, s1)" by (cases p) auto
    from cb_pick_enabled [OF p] have i: "i < length (km_keys (us_cb s))" "\<not> ck_disabled (km_keys (us_cb s) ! i)"
      and keys: "km_keys (us_cb s1) = km_keys (us_cb s)" by auto
    have m: "mask8 (ck_Key (km_keys (us_cb s1) ! i)) \<noteq> None" using Suc.prems(1) i keys by simp
    let ?s2 = "snd (cb_step env pid start i s1)"
    have k2: "km_keys (us_cb ?s2) = (km_keys (us_cb s))[i := disable_key (ne_clock env (Suc (us_calls s1))) (km_keys (us_cb s) ! i)]"
      using generic_step(2) [OF assms(1,2) m] keys by simp
    then have "Suc (enabled_keys ?s2) = enabled_keys s"
      using filter_update_drop [OF i(1), of "\<lambda>k. \<not> ck_disabled k"] i by (simp add: enabled_keys_def disable_key_def)
    moreover have "\<forall>k \<in> set (km_keys (us_cb ?s2)). mask8 (ck_Key k) \<noteq> None"
      using Suc.prems(1) i(1) set_update_subset [OF i(1)] unfolding k2 by (fastforce simp: disable_key_def)
    ultimately have "fst (retry (\<lambda>s. ne_cancelled env (us_calls s)) cb_pick (cb_step env pid start) n ?s2) = AExhausted
        \<and> enabled_keys (snd (retry (\<lambda>s. ne_cancelled env (us_calls s)) cb_pick (cb_step env pid start) n ?s2)) = 0"
      using Suc.IH Suc.prems(2) by simp
    then show ?thesis
      using p assms(3) generic_step(1) [OF assms(1,2) m, of pid start] by (cases "cb_step env pid start i s1") auto
  qed
qed (simp add: cb_pick_None)

text \<open>
  A client's bad request can take the whole CodeBuddy pool out of service. Whenever the
  upstream answers a request with a client error that carries none of the recognised codes (404 or
  413, say), the key is put on cooldown and the next key is tried with the same request: if every
  key gets such an answer, no key is enabled after that one request.
\<close>

theorem bad_request_drains_pool:
  assumes "fst (CanRequest (us_now env s) (us_ch s))" and "\<forall>n. \<not> ne_cancelled env n" and "cbTransform body = TOk m"
    and "\<forall>n key. ne_do env n key = Inr (st, rbody)" and "generic_client_error st rbody"
    and "\<forall>k \<in> set (km_keys (us_cb s)). mask8 (ck_Key k) \<noteq> None"
  shows "fst (ProxyCodeBuddy env body s) = CAllDisabled
    \<and> (\<forall>k \<in> set (km_keys (us_cb (snd (ProxyCodeBuddy env body s)))). ck_disabled k)"
proof -
  let ?s0 = "s\<lparr>us_ch := snd (CanRequest (us_now env s) (us_ch s))\<rparr>"
  let ?pid = "fst (pick_proxy env ''codebuddy'' ?s0)" and ?s = "snd (pick_proxy env ''codebuddy'' ?s0)"
  have "enabled_keys ?s \<le> length (km_keys (us_cb ?s))" by (simp add: enabled_keys_def)
  from drain_loop [OF assms(4,5,2) _ this, of ?pid "us_now env ?s"] assms(6)
  have loop: "fst (cb_loop env ?pid (us_now env ?s) ?s) = AExhausted"
    "enabled_keys (snd (cb_loop env ?pid (us_now env ?s) ?s)) = 0"
    by (simp_all add: cb_loop_def)
  then have res: "ProxyCodeBuddy env body s = (CAllDisabled, snd (cb_loop env ?pid (us_now env ?s) ?s))"
    using assms(1,3) by (cases "cb_loop env ?pid (us_now env ?s) ?s") (simp add: ProxyCodeBuddy_def Let_def split_beta)
  show ?thesis unfolding res using loop(2) by (auto simp: enabled_keys_def filter_empty_conv)
qed

definition ex_net404 :: net_env where
  "ex_net404 = ex_net\<lparr>ne_do := \<lambda>_ _. Inr (404, ''not found'')\<rparr>"

theorem bad_request_drains_pool_witness:
  "fst (ProxyCodeBuddy ex_net404 (Some (JObj [])) ex_up) = CAllDisabled
   \<and> list_all ck_disabled (km_keys (us_cb (snd (ProxyCodeBuddy ex_net404 (Some (JObj [])) ex_up))))"
  unfolding list_all_iff
  by (rule bad_request_drains_pool)
     (auto simp: ex_net404_def ex_net_def ex_up_def CanRequest_def NewUpstreamHealth_def us_now_def cbTransform_def as_map_def
       generic_client_error_def new_cb_key_def mask8_def slice_to_def slice_last_def)

text \<open>
  Retries reach a working CodeBuddy key, under the same conditions as for Grok: the circuit
  admits the request, the body is a JSON object, the client stays connected and some enabled key
  always gets a success answer. Then the request ends with an answer of the upstream (or with the
  refusal that another key's answer 400 causes), never with all keys disabled.
\<close>

theorem cb_reaches_working_key:
  assumes "fst (CanRequest (us_now env s) (us_ch s))" and "\<forall>n. \<not> ne_cancelled env n" and "cbTransform body = TOk m"
    and "cb_good key s j" and "\<forall>n. \<exists>st rbody. ne_do env n key = Inr (st, rbody) \<and> st < 400"
    and "\<forall>k \<in> set (km_keys (us_cb s)). mask8 (ck_Key k) \<noteq> None"
  shows "fst (ProxyCodeBuddy env body s) \<notin> {CAllDisabled, CCancelled, CCircuitOpen, CBadBody}"
proof -
  let ?s0 = "s\<lparr>us_ch := snd (CanRequest (us_now env s) (us_ch s))\<rparr>"
  let ?pid = "fst (pick_proxy env ''codebuddy'' ?s0)" and ?s = "snd (pick_proxy env ''codebuddy'' ?s0)"
  have good: "cb_good key ?s j" and j: "j < length (km_keys (us_cb ?s))" using assms(4) by (simp_all add: cb_good_def)
  have served: "fst (cb_step env ?pid start j s') \<noteq> None" if "cb_good key s' j" for start s'
  proof -
    from assms(5) obtain st rbody where "ne_do env (us_calls s') key = Inr (st, rbody)" "st < 400" by blast
    with that show ?thesis by (simp add: cb_step_def Let_def cb_good_def cb_handle_def)
  qed
  have "\<exists>r. fst (cb_loop env ?pid (us_now env ?s) ?s) = AServed r"
    unfolding cb_loop_def
    by (rule cr.retry_all_reaches [where key = key, OF j good]) (simp_all add: assms(2) served)
  then obtain r s1 where "cb_loop env ?pid (us_now env ?s) ?s = (AServed r, s1)"
    by (cases "cb_loop env ?pid (us_now env ?s) ?s") auto
  then show ?thesis
    using assms(1,3) by (cases r) (auto simp: ProxyCodeBuddy_def Let_def split_beta split: option.splits)
qed

definition ex_net_cb :: net_env where
  "ex_net_cb = ex_net\<lparr>ne_do := \<lambda>_ c. if c = ''ck_bbbbbbbbbbbb'' then Inr (200, ''ok'') else Inr (429, ''slow down'')\<rparr>"

theorem cb_reaches_working_key_witness:
  "fst (ProxyCodeBuddy ex_net_cb (Some (JObj [])) ex_up) \<notin> {CAllDisabled, CCancelled, CCircuitOpen, CBadBody}"
proof (rule cb_reaches_working_key)
  show "cb_good ''ck_bbbbbbbbbbbb'' ex_up 1" by (simp add: cb_good_def ex_up_def new_cb_key_def)
  show "cbTransform (Some (JObj [])) = TOk (cb_rewrite [])" by (simp add: cbTransform_def as_map_def)
qed (auto simp: ex_net_cb_def ex_net_def ex_up_def CanRequest_def NewUpstreamHealth_def us_now_def
      new_cb_key_def mask8_def slice_to_def slice_last_def)

text \<open>
  Transport failures are invisible to the circuit breaker. If the circuit is closed and no
  exchange of a Grok request gets an answer at all, the request fails, the breaker's state is
  exactly what it was, and no number of such requests opens the circuit.
\<close>

theorem network_errors_not_recorded:
  assumes "uh_state (us_gh s) = CircuitClosed" and "\<forall>n tok. \<exists>e. ne_do env n tok = Inl e"
  shows "us_gh (snd (ProxyGrok env s)) = us_gh s \<and> fst (ProxyGrok env s) \<in> {GAllCooldown, GCancelled}"
proof -
  let ?pid = "fst (pick_proxy env ''grok'' s)" and ?s = "snd (pick_proxy env ''grok'' s)"
  have step: "fst (grok_step env ?pid start i s') = None" "us_gh (snd (grok_step env ?pid start i s')) = us_gh s'" for start i s'
    using assms(2) by (auto simp: grok_step_def grok_send_def Let_def split: sum.splits) (metis sum.distinct(1))+
  have gh: "us_gh (snd (grok_loop env ?pid start ?s)) = us_gh s" for start
    unfolding grok_loop_def
    by (rule retry_preserves) (auto simp: step grok_pick_def split: sum.splits prod.splits)
  have "fst (retry stop nxt (grok_step env ?pid start) n s') \<in> {AExhausted, ACancelled}" for stop nxt start n s'
  proof (induction n arbitrary: s')
    case (Suc n)
    have "grok_step env ?pid start i s1 = (None, snd (grok_step env ?pid start i s1))" for i s1
      using step(1) by (metis prod.collapse)
    then show ?case using Suc.IH by (auto split: option.splits) (metis (no_types, lifting) case_prod_conv option.case(1))+
  qed simp
  then have "fst (grok_loop env ?pid start ?s) \<in> {AExhausted, ACancelled}" for start by (simp only: grok_loop_def)
  moreover obtain a b where ab: "grok_loop env ?pid (us_now env ?s) ?s = (a, b)" by fastforce
  ultimately have "a = AExhausted \<or> a = ACancelled" using fst_conv [of a b] by (metis empty_iff insert_iff)
  moreover have "us_gh b = us_gh s" using gh [of "us_now env ?s"] ab by simp
  moreover have "s\<lparr>us_gh := us_gh s\<rparr> = s" by simp
  ultimately show ?thesis
    using assms(1) ab by (auto simp: ProxyGrok_def CanRequest_def Let_def split_beta)
qed

theorem network_errors_not_recorded_witness:
  "us_gh (snd (ProxyGrok (ex_net\<lparr>ne_do := \<lambda>_ _. Inl ''timeout''\<rparr>) ex_up)) = us_gh ex_up
   \<and> fst (ProxyGrok (ex_net\<lparr>ne_do := \<lambda>_ _. Inl ''timeout''\<rparr>) ex_up) \<in> {GAllCooldown, GCancelled}"
  by (rule network_errors_not_recorded) (simp_all add: ex_up_def NewUpstreamHealth_def)

subsection \<open>The calls one request makes\<close>

lemma grok_step_calls: "us_calls (snd (grok_step env pid start i s)) \<le> us_calls s + 3"
proof -
  have send: "us_calls (snd (grok_send env pid i s)) = Suc (us_calls s)" for s by (simp add: grok_send_def Let_def)
  have refresh: "us_calls (snd (Refresh env i s)) = Suc (us_calls s)" for s
    by (simp add: Refresh_def Let_def split_beta split: sum.split)
  have handle: "us_calls (snd (grok_handle env start i st body s)) = us_calls s" for st body s by (simp add: grok_handle_def)
  obtain r1 s1 where 1: "grok_send env pid i s = (r1, s1)" by fastforce
  obtain e s2 where 2: "Refresh env i s1 = (e, s2)" by fastforce
  obtain r3 s3 where 3: "grok_send env pid i s2 = (r3, s3)" by fastforce
  have c: "us_calls s1 = us_calls s + 1" "us_calls s2 = us_calls s + 2" "us_calls s3 = us_calls s + 3"
    using send [of s] refresh [of s1] send [of s2] by (simp_all add: 1 2 3)
  show ?thesis
    by (auto simp: grok_step_def 1 2 3 c handle split: sum.split option.split prod.split)
qed

lemma cb_step_calls: "us_calls (snd (cb_step env pid start i s)) \<le> us_calls s + 1"
proof -
  have "us_calls (snd (cb_handle env start i st body s)) = us_calls s" for st body s
    by (simp add: cb_handle_def cb_disable_def cb_record_def)
  then show ?thesis by (auto simp: cb_step_def Let_def split: sum.split prod.split)
qed


end
