(* ===== verification/Response.thy ===== *)
theory Response
  imports Upstream
begin

text \<open>
  What a request path does with the upstream's answer: the tail of \<^verbatim>\<open>ProxyGrok\<close> and of
  \<^verbatim>\<open>ProxyCodeBuddy\<close> (header copy, server-sent-event loops, token extraction), and the buffering
  response writer of the fallback chain (\<^verbatim>\<open>buffered_writer.go\<close>).

  A response is the list of calls made on the response writer; \<^verbatim>\<open>c.JSON\<close> of gin sets the status,
  the content type and writes the encoded value. Values set in the gin context are a record. JSON
  decoding and encoding are arguments.
\<close>

subsection \<open>Response writers\<close>

datatype body_part = Encoded json | Raw string

datatype wcall = HeaderAdd string string | WriteHeader int | WriteBody body_part

definition c_JSON :: "int \<Rightarrow> fields \<Rightarrow> wcall list" where
  "c_JSON code v =
     [WriteHeader code, HeaderAdd ''Content-Type'' ''application/json; charset=utf-8'', WriteBody (Encoded (JObj v))]"

text \<open>
  What a call sequence means for the client: the first explicit status before any byte of the
  body, 200 otherwise; the header values per key in order; the body parts in order.
\<close>

fun status_of :: "wcall list \<Rightarrow> int" where
  "status_of [] = 200"
| "status_of (WriteHeader c # ws) = c"
| "status_of (WriteBody _ # ws) = 200"
| "status_of (HeaderAdd _ _ # ws) = status_of ws"

fun headers_of :: "wcall list \<Rightarrow> string \<Rightarrow> string list" where
  "headers_of [] k = []"
| "headers_of (HeaderAdd k' v # ws) k = (if k' = k then v # headers_of ws k else headers_of ws k)"
| "headers_of (_ # ws) k = headers_of ws k"

fun parts_of :: "wcall list \<Rightarrow> body_part list" where
  "parts_of [] = []"
| "parts_of (WriteBody p # ws) = p # parts_of ws"
| "parts_of (_ # ws) = parts_of ws"

record bufferedWriter =
  bw_buf :: "body_part list"
  bw_status :: int
  bw_headers :: "(string \<times> string list) list"
  bw_written :: bool

definition newBufferedWriter :: bufferedWriter where
  "newBufferedWriter = \<lparr>bw_buf = [], bw_status = 200, bw_headers = [], bw_written = False\<rparr>"

fun bw_call :: "wcall \<Rightarrow> bufferedWriter \<Rightarrow> bufferedWriter" where
  "bw_call (HeaderAdd k v) b =
     b\<lparr>bw_headers := AList.update k ((case map_of (bw_headers b) k of None \<Rightarrow> [] | Some vs \<Rightarrow> vs) @ [v]) (bw_headers b)\<rparr>"
| "bw_call (WriteHeader code) b = (if bw_written b then b else b\<lparr>bw_status := code, bw_written := True\<rparr>)"
| "bw_call (WriteBody p) b = b\<lparr>bw_written := True, bw_buf := bw_buf b @ [p]\<rparr>"

definition bw_run :: "wcall list \<Rightarrow> bufferedWriter" where
  "bw_run ws = fold bw_call ws newBufferedWriter"

text \<open>\<^verbatim>\<open>flush\<close> as the calls it makes on the real writer; the order of a Go map is one of the lists.\<close>

definition flush :: "bufferedWriter \<Rightarrow> wcall list" where
  "flush b =
     concat (map (\<lambda>(k, vs). map (HeaderAdd k) vs) (bw_headers b)) @ [WriteHeader (bw_status b)]
     @ map WriteBody (bw_buf b)"

subsection \<open>The gin context\<close>

record gin_ctx =
  gc_tokens_in :: "int option"
  gc_tokens_out :: "int option"
  gc_account :: string
  gc_error_msg :: "string option"
  gc_output_text :: "string option"
  gc_response_body :: "body_part option"

definition new_ctx :: gin_ctx where
  "new_ctx = \<lparr>gc_tokens_in = None, gc_tokens_out = None, gc_account = [], gc_error_msg = None, gc_output_text = None, gc_response_body = None\<rparr>"

definition toInt :: "int option \<Rightarrow> int" where
  "toInt v = (case v of Some n \<Rightarrow> n | None \<Rightarrow> 0)"

definition toString :: "string option \<Rightarrow> string" where
  "toString v = (case v of Some s \<Rightarrow> s | None \<Rightarrow> [])"

definition truncateLog :: "string \<Rightarrow> nat \<Rightarrow> string" where
  "truncateLog s maxLen = (if length s \<le> maxLen then s else take maxLen s @ ''...'')"

text \<open>\<^verbatim>\<open>int(f)\<close> of a float truncates towards zero (values beyond 64 bits are not considered).\<close>

definition trunc_int :: "rat \<Rightarrow> int" where
  "trunc_int r = (if r < 0 then - \<lfloor>- r\<rfloor> else \<lfloor>r\<rfloor>)"

subsection \<open>Server-sent events\<close>

text \<open>\<^verbatim>\<open>sseChunk\<close>: the error value unless it is null, the first choice's content, the usage object.\<close>

record sseChunk =
  sc_Error :: "json option"
  sc_Content :: "string option"
  sc_Usage :: "fields option"

record sse_acc =
  sa_content :: string
  sa_in :: int
  sa_out :: int

definition sse_start :: sse_acc where
  "sse_start = \<lparr>sa_content = [], sa_in = 0, sa_out = 0\<rparr>"

definition add_content :: "sseChunk \<Rightarrow> sse_acc \<Rightarrow> sse_acc" where
  "add_content sc a = (case sc_Content sc of None \<Rightarrow> a | Some s \<Rightarrow> a\<lparr>sa_content := sa_content a @ s\<rparr>)"

definition add_usage :: "sseChunk \<Rightarrow> sse_acc \<Rightarrow> sse_acc" where
  "add_usage sc a =
     (case sc_Usage sc of
        None \<Rightarrow> a
      | Some u \<Rightarrow>
          a\<lparr>sa_in := (case jnum u ''prompt_tokens'' of Some n \<Rightarrow> trunc_int n | None \<Rightarrow> sa_in a),
            sa_out := (case jnum u ''completion_tokens'' of Some n \<Rightarrow> trunc_int n | None \<Rightarrow> sa_out a)\<rparr>)"

definition grok_line :: "(string \<Rightarrow> sseChunk option) \<Rightarrow> string \<Rightarrow> sse_acc \<Rightarrow> sse_acc" where
  "grok_line decode line0 a =
     (let line = TrimSpace line0
      in if \<not> prefix ''data: '' line then a
         else let data = trim_prefix ''data: '' line
              in if data = ''[DONE]'' \<or> data = [] then a
                 else case decode data of None \<Rightarrow> a | Some sc \<Rightarrow> add_usage sc (add_content sc a))"

text \<open>
  The read loop of the Grok stream. The i-th entry of the list is what the i-th \<^verbatim>\<open>Read\<close> returned;
  the list ends where \<^verbatim>\<open>Read\<close> reports an error or the end. \<open>alive i\<close> is the client's context before
  it, \<open>wrote i\<close> whether the write to the client succeeded. The result is the forwarded bytes, the
  unfinished line and what was parsed.
\<close>

fun grok_stream ::
  "(string \<Rightarrow> sseChunk option) \<Rightarrow> (nat \<Rightarrow> bool) \<Rightarrow> (nat \<Rightarrow> bool) \<Rightarrow> nat \<Rightarrow> string list \<Rightarrow> string list \<times> string \<times> sse_acc
    \<Rightarrow> string list \<times> string \<times> sse_acc" where
  "grok_stream decode alive wrote i [] st = st"
| "grok_stream decode alive wrote i (buf # reads) (out, carry, a) =
     (if \<not> alive i then (out, carry, a)
      else if buf = [] then grok_stream decode alive wrote (Suc i) reads (out, carry, a)
      else if \<not> wrote i then (out, carry, a)
      else let parts = split_at newline (carry @ buf)
           in grok_stream decode alive wrote (Suc i) reads
                (out @ [buf], last parts, fold (grok_line decode) (butlast parts) a))"

text \<open>
  \<^verbatim>\<open>bufio.Scanner\<close> with the default split function and a buffer limit (1 MiB for CodeBuddy): lines
  without their end (a carriage return before it is dropped), no empty line after the last newline,
  and nothing from the first line on that does not fit the buffer.
\<close>

definition drop_cr :: "string \<Rightarrow> string" where
  "drop_cr l = trim_suffix [CHR 0x0D] l"

definition scan_lines_upto :: "nat \<Rightarrow> string \<Rightarrow> string list" where
  "scan_lines_upto maxTok body =
     (let parts = split_at newline body; ls = (if last parts = [] then butlast parts else parts)
      in map drop_cr (takeWhile (\<lambda>l. length l < maxTok) ls))"

definition scan_lines :: "string \<Rightarrow> string list" where
  "scan_lines body = scan_lines_upto 1048576 body"

text \<open>
  One line of the CodeBuddy stream: an error event may disable the key, a usage event charges it;
  \<open>None\<close> is the panic of the log line or of \<^verbatim>\<open>AddCredits\<close> that slices a short key.
\<close>

definition cb_error_event :: "(json \<Rightarrow> string) \<Rightarrow> sseChunk \<Rightarrow> CBKey \<Rightarrow> CBKey option" where
  "cb_error_event marshal sc key =
     (case sc_Error sc of
        None \<Rightarrow> Some key
      | Some e \<Rightarrow>
          (let errStr = marshal e
           in if contains ''14018'' errStr \<or> contains ''Credits exhausted'' errStr \<or> contains ''14017'' errStr
              then (if mask8 (ck_Key key) = None then None else Some (disable_key zero_time key))
              else Some key))"

definition cb_credit_event :: "sseChunk \<Rightarrow> CBKey \<Rightarrow> CBKey option" where
  "cb_credit_event sc key =
     (case sc_Usage sc of
        None \<Rightarrow> Some key
      | Some u \<Rightarrow> (case jnum u ''credit'' of
                     Some cr \<Rightarrow> if cr > 0 then AddCredits cr key else Some key
                   | None \<Rightarrow> Some key))"

definition cb_line ::
  "(string \<Rightarrow> sseChunk option) \<Rightarrow> (json \<Rightarrow> string) \<Rightarrow> string \<Rightarrow> sse_acc \<times> CBKey \<Rightarrow> (sse_acc \<times> CBKey) option" where
  "cb_line decode marshal line s =
     (let (a, key) = s; data = trim_prefix ''data: '' line
      in if \<not> prefix ''data: '' line \<or> data = ''[DONE]'' \<or> data = [] then Some (a, key)
         else case decode data of
                None \<Rightarrow> Some (a, key)
              | Some sc \<Rightarrow>
                  (case cb_error_event marshal sc key of
                     None \<Rightarrow> None
                   | Some k1 \<Rightarrow>
                       (case cb_credit_event sc k1 of
                          None \<Rightarrow> None
                        | Some k2 \<Rightarrow> Some (add_content sc (add_usage sc a), k2))))"

fun cb_stream ::
  "(string \<Rightarrow> sseChunk option) \<Rightarrow> (json \<Rightarrow> string) \<Rightarrow> (nat \<Rightarrow> bool) \<Rightarrow> (nat \<Rightarrow> bool) \<Rightarrow> nat \<Rightarrow> string list
    \<Rightarrow> string list \<times> sse_acc \<times> CBKey \<Rightarrow> (string list \<times> sse_acc \<times> CBKey) option" where
  "cb_stream decode marshal alive wrote i [] st = Some st"
| "cb_stream decode marshal alive wrote i (line # lines) (out, a, key) =
     (if \<not> alive i then Some (out, a, key)
      else case cb_line decode marshal line (a, key) of
             None \<Rightarrow> None
           | Some (a', key') \<Rightarrow>
               if \<not> wrote i then Some (out, a', key')
               else cb_stream decode marshal alive wrote (Suc i) lines (out @ [line @ [newline]], a', key'))"

subsection \<open>Answering the client\<close>

text \<open>
  The environment of an answer: the header fields of the n-th exchange, how its body arrives in
  reads, the client's connection during it, the JSON codec, and the clock-derived fields of a
  collected completion.
\<close>

record resp_env =
  re_headers :: "nat \<Rightarrow> (string \<times> string) list"
  re_reads :: "nat \<Rightarrow> string \<Rightarrow> string list"
  re_alive :: "nat \<Rightarrow> nat \<Rightarrow> bool"
  re_wrote :: "nat \<Rightarrow> nat \<Rightarrow> bool"
  re_json :: "string \<Rightarrow> json option"
  re_sse :: "string \<Rightarrow> sseChunk option"
  re_cb :: "string \<Rightarrow> cb_chunk option"
  re_marshal :: "json \<Rightarrow> string"
  re_id :: string
  re_created :: rat

definition copy_headers :: "(string \<times> string) list \<Rightarrow> wcall list" where
  "copy_headers hs =
     map (\<lambda>(k, v). HeaderAdd k v) (filter (\<lambda>(k, v). ToLower k \<notin> {''content-encoding'', ''content-length''}) hs)"

definition content_type :: "(string \<times> string) list \<Rightarrow> string" where
  "content_type hs = (case map_of hs ''Content-Type'' of Some v \<Rightarrow> v | None \<Rightarrow> [])"

definition error_json :: "string \<Rightarrow> fields" where
  "error_json msg = [(''error'', JStr msg)]"

definition stream_json :: "string \<Rightarrow> sse_acc \<Rightarrow> fields" where
  "stream_json model a =
     [(''choices'', JArr [JObj [(''message'', JObj [(''role'', JStr ''assistant''), (''content'', JStr (sa_content a))]),
         (''finish_reason'', JStr ''stop'')]]),
      (''usage'', JObj [(''prompt_tokens'', JNum (of_int (sa_in a))), (''completion_tokens'', JNum (of_int (sa_out a))),
         (''total_tokens'', JNum (of_int (sa_in a + sa_out a)))]),
      (''model'', JStr model), (''stream'', JBool True)]"

definition set_stream :: "string \<Rightarrow> sse_acc \<Rightarrow> gin_ctx \<Rightarrow> gin_ctx" where
  "set_stream model a c =
     c\<lparr>gc_output_text := Some (truncateLog (sa_content a) 1000), gc_tokens_in := Some (sa_in a), gc_tokens_out := Some (sa_out a),
       gc_response_body := Some (Encoded (JObj (stream_json model a)))\<rparr>"

definition set_response :: "body_part \<Rightarrow> gin_ctx \<Rightarrow> gin_ctx" where
  "set_response b c = c\<lparr>gc_response_body := Some b\<rparr>"

text \<open>An error answer: the JSON object, its text in the log, and the object again for the request log.\<close>

definition set_error :: "string \<Rightarrow> fields \<Rightarrow> gin_ctx \<Rightarrow> gin_ctx" where
  "set_error msg v c = c\<lparr>gc_error_msg := Some msg, gc_response_body := Some (Encoded (JObj v))\<rparr>"

definition set_usage :: "fields \<Rightarrow> gin_ctx \<Rightarrow> gin_ctx" where
  "set_usage m c =
     (case jobj m ''usage'' of
        None \<Rightarrow> c
      | Some u \<Rightarrow>
          c\<lparr>gc_tokens_in := (case jnum u ''prompt_tokens'' of Some n \<Rightarrow> Some (trunc_int n) | None \<Rightarrow> gc_tokens_in c),
            gc_tokens_out := (case jnum u ''completion_tokens'' of Some n \<Rightarrow> Some (trunc_int n) | None \<Rightarrow> gc_tokens_out c)\<rparr>)"

definition choice_content :: "fields \<Rightarrow> string option" where
  "choice_content m =
     (case jarr m ''choices'' of
        Some (JObj ch # _) \<Rightarrow> (case jobj ch ''message'' of Some msg \<Rightarrow> jstr msg ''content'' | None \<Rightarrow> None)
      | _ \<Rightarrow> None)"

definition set_output :: "fields \<Rightarrow> gin_ctx \<Rightarrow> gin_ctx" where
  "set_output m c =
     (case choice_content m of None \<Rightarrow> c | Some s \<Rightarrow> c\<lparr>gc_output_text := Some (truncateLog s 1000)\<rparr>)"

definition grok_answer :: "resp_env \<Rightarrow> nat \<Rightarrow> string \<Rightarrow> int \<Rightarrow> string \<Rightarrow> gin_ctx \<Rightarrow> wcall list \<times> gin_ctx" where
  "grok_answer re n model st body c =
     (let hs = re_headers re n; head = copy_headers hs @ [WriteHeader st]
      in if contains ''text/event-stream'' (content_type hs)
         then (case grok_stream (re_sse re) (re_alive re n) (re_wrote re n) 0 (re_reads re n body) ([], [], sse_start) of
                 (out, _, a) \<Rightarrow> (head @ map (\<lambda>b. WriteBody (Raw b)) out, set_stream model a c))
         else (let bytes = take 10485760 body
               in (head @ [WriteBody (Raw bytes)],
                   case as_map (re_json re bytes) of
                     MOk m \<Rightarrow> set_usage m (set_output m (set_response (Raw bytes) c))
                   | MNil \<Rightarrow> set_response (Raw bytes) c
                   | MErr \<Rightarrow> c)))"

definition respond_grok :: "resp_env \<Rightarrow> nat \<Rightarrow> string \<Rightarrow> grok_outcome \<Rightarrow> gin_ctx \<Rightarrow> wcall list \<times> gin_ctx" where
  "respond_grok re n model oc c =
     (case oc of
        GCircuitOpen \<Rightarrow> (let v = error_json ''grok upstream circuit breaker open'' in (c_JSON 503 v, set_error ''grok circuit breaker open'' v c))
      | GCancelled \<Rightarrow> ([], c)
      | GAllCooldown \<Rightarrow> (let v = error_json ''all grok accounts on cooldown'' in (c_JSON 503 v, set_error ''all grok accounts on cooldown'' v c))
      | GServed email st body \<Rightarrow> grok_answer re n model st body (c\<lparr>gc_account := email\<rparr>))"

definition collected_json :: "resp_env \<Rightarrow> string \<Rightarrow> cb_collected \<Rightarrow> fields" where
  "collected_json re model r =
     [(''id'', JStr (''chatcmpl-'' @ re_id re)), (''object'', JStr ''chat.completion''), (''created'', JNum (re_created re)),
      (''model'', JStr model),
      (''choices'', JArr [JObj [(''index'', JNum 0),
         (''message'', JObj [(''role'', JStr ''assistant''), (''content'', JStr (co_content r))]),
         (''finish_reason'', JStr (co_finish r))]])]
     @ (case co_usage r of None \<Rightarrow> [] | Some u \<Rightarrow> [(''usage'', JObj u)])"

definition cb_answer ::
  "resp_env \<Rightarrow> nat \<Rightarrow> bool \<Rightarrow> string \<Rightarrow> int \<Rightarrow> string \<Rightarrow> CBKey \<Rightarrow> gin_ctx \<Rightarrow> (wcall list \<times> gin_ctx \<times> CBKey) option" where
  "cb_answer re n clientStream model st body key c =
     (if clientStream
      then (case cb_stream (re_sse re) (re_marshal re) (re_alive re n) (re_wrote re n) 0 (scan_lines body) ([], sse_start, key) of
              None \<Rightarrow> None
            | Some (out, a, key') \<Rightarrow>
                Some (copy_headers (re_headers re n) @ [WriteHeader st] @ map (\<lambda>b. WriteBody (Raw b)) out, set_stream model a c, key'))
      else (case cbCollectStream (re_cb re) (scan_lines body) key of
              (_, None) \<Rightarrow> None
            | (r, Some key') \<Rightarrow>
                (let m = collected_json re model r in Some (c_JSON 200 m, set_usage m (set_output m (set_response (Encoded (JObj m)) c)), key'))))"

definition respond_cb ::
  "resp_env \<Rightarrow> bool \<Rightarrow> string \<Rightarrow> cb_outcome \<Rightarrow> upstream_state \<Rightarrow> gin_ctx \<Rightarrow> (wcall list \<times> gin_ctx \<times> upstream_state) option" where
  "respond_cb re clientStream model oc s c =
     (case oc of
        CCircuitOpen \<Rightarrow> (let v = error_json ''codebuddy upstream circuit breaker open'' in Some (c_JSON 503 v, set_error ''cb circuit breaker open'' v c, s))
      | CBadBody \<Rightarrow> Some (c_JSON 400 (error_json ''transform''), c, s)
      | CCancelled \<Rightarrow> Some ([], c, s)
      | CAllDisabled \<Rightarrow> (let v = error_json ''all cb keys disabled'' in Some (c_JSON 503 v, set_error ''all cb keys disabled'' v c, s))
      | CRejected e None \<Rightarrow> (let v = error_json e in Some (c_JSON 400 v, set_error e v c, s))
      | CRejected e (Some d) \<Rightarrow>
          (let v = error_json e @ [(''detail'', JStr (truncateLog d 500))] in Some (c_JSON 400 v, set_error (truncateLog d 500) v c, s))
      | CPanicked \<Rightarrow> None
      | CServed i acct st body \<Rightarrow>
          map_option (\<lambda>(ws, c', key'). (ws, c', upd_cb i (\<lambda>_. key') s))
            (cb_answer re (us_calls s - 1) clientStream model st body (km_keys (us_cb s) ! i) (c\<lparr>gc_account := acct\<rparr>)))"

subsection \<open>The buffering writer is transparent\<close>

lemma headers_of_append [simp]: "headers_of (xs @ ys) k = headers_of xs k @ headers_of ys k"
  by (induction xs k rule: headers_of.induct) auto

lemma parts_of_append [simp]: "parts_of (xs @ ys) = parts_of xs @ parts_of ys"
  by (induction xs rule: parts_of.induct) auto

lemma parts_of_adds [simp]: "parts_of (concat (map (\<lambda>(k, vs). map (HeaderAdd k) vs) hs)) = []"
proof -
  have "parts_of (map (HeaderAdd k) vs) = []" for k vs by (induction vs) auto
  then show ?thesis by (induction hs) auto
qed

lemma parts_of_writes [simp]: "parts_of (map WriteBody ps) = ps" "headers_of (map WriteBody ps) k = []"
  by (induction ps) auto

lemma status_of_adds [simp]: "status_of (concat (map (\<lambda>(k, vs). map (HeaderAdd k) vs) hs) @ ws) = status_of ws"
proof -
  have "status_of (map (HeaderAdd k) vs @ ws) = status_of ws" for k vs ws by (induction vs) auto
  then show ?thesis by (induction hs) auto
qed

lemma headers_of_adds:
  "distinct (map fst hs) \<Longrightarrow>
   headers_of (concat (map (\<lambda>(k, vs). map (HeaderAdd k) vs) hs)) k = (case map_of hs k of None \<Rightarrow> [] | Some vs \<Rightarrow> vs)"
proof (induction hs)
  case (Cons h hs)
  have 1: "headers_of (map (HeaderAdd k') vs) k = (if k' = k then vs else [])" for k' vs by (induction vs) auto
  obtain k' vs where h: "h = (k', vs)" by (cases h)
  show ?case
  proof (cases "k' = k")
    case True
    then have "map_of hs k = None" using Cons.prems h by (simp add: map_of_eq_None_iff)
    then show ?thesis using Cons.IH Cons.prems h True by (simp add: 1)
  next
    case False
    then show ?thesis using Cons.IH Cons.prems h by (simp add: 1)
  qed
qed simp

lemma bw_status_written: "bw_written b \<Longrightarrow> bw_status (fold bw_call ws b) = bw_status b"
proof (induction ws arbitrary: b)
  case (Cons x xs)
  then show ?case by (cases x) simp_all
qed simp

lemma bw_status_fold:
  "\<not> bw_written b \<Longrightarrow> bw_status b = 200 \<Longrightarrow> bw_status (fold bw_call ws b) = status_of ws"
proof (induction ws arbitrary: b)
  case (Cons x xs)
  show ?case
  proof (cases x)
    case (HeaderAdd k v)
    then show ?thesis using Cons.IH [of "bw_call x b"] Cons.prems by simp
  qed (simp_all add: Cons.prems bw_status_written)
qed simp

lemma bw_fold:
  shows "bw_buf (fold bw_call ws b) = bw_buf b @ parts_of ws"
    and "distinct (map fst (bw_headers b)) \<Longrightarrow> distinct (map fst (bw_headers (fold bw_call ws b)))"
    and "(case map_of (bw_headers (fold bw_call ws b)) k of None \<Rightarrow> [] | Some vs \<Rightarrow> vs)
           = (case map_of (bw_headers b) k of None \<Rightarrow> [] | Some vs \<Rightarrow> vs) @ headers_of ws k"
proof -
  show "bw_buf (fold bw_call ws b) = bw_buf b @ parts_of ws"
  proof (induction ws arbitrary: b)
    case (Cons x xs)
    then show ?case by (cases x) simp_all
  qed simp
  show "distinct (map fst (bw_headers b)) \<Longrightarrow> distinct (map fst (bw_headers (fold bw_call ws b)))"
  proof (induction ws arbitrary: b)
    case (Cons x xs)
    then show ?case by (cases x) (simp_all add: distinct_update)
  qed simp
  show "(case map_of (bw_headers (fold bw_call ws b)) k of None \<Rightarrow> [] | Some vs \<Rightarrow> vs)
           = (case map_of (bw_headers b) k of None \<Rightarrow> [] | Some vs \<Rightarrow> vs) @ headers_of ws k"
  proof (induction ws arbitrary: b)
    case (Cons x xs)
    then show ?case by (cases x) (simp_all add: update_conv')
  qed simp
qed

lemma buffering_status [simp]: "bw_status (bw_run ws) = status_of ws"
  using bw_status_fold [of newBufferedWriter ws] by (simp add: newBufferedWriter_def bw_run_def)

lemma flush_status [simp]: "status_of (flush (bw_run ws)) = status_of ws"
  by (simp add: flush_def)

text \<open>
  Buffering is transparent. Whatever a request path writes, flushing the buffering writer
  afterwards gives the client the same status, the same values of every header and the same body
  as writing directly, and the status that the fallback chain inspects is the status the client
  would have seen.
\<close>

theorem buffering_transparent:
  "status_of (flush (bw_run ws)) = status_of ws
   \<and> (\<forall>k. headers_of (flush (bw_run ws)) k = headers_of ws k)
   \<and> parts_of (flush (bw_run ws)) = parts_of ws
   \<and> bw_status (bw_run ws) = status_of ws"
proof -
  note f = bw_fold [where ws = ws and b = newBufferedWriter, folded bw_run_def]
  have s: "bw_status (bw_run ws) = status_of ws" and b: "bw_buf (bw_run ws) = parts_of ws"
    and d: "distinct (map fst (bw_headers (bw_run ws)))"
    using f(1,2) bw_status_fold [of newBufferedWriter ws] by (simp_all add: newBufferedWriter_def bw_run_def)
  show ?thesis
    using s b f(3) by (simp add: flush_def headers_of_adds [OF d]) (simp add: newBufferedWriter_def)
qed

subsection \<open>Parsing a stream does not depend on how it arrives\<close>

lemma split_at_last_append:
  "split_at d (x @ y) = butlast (split_at d x) @ split_at d (last (split_at d x) @ y)"
proof (induction x)
  case (Cons c x)
  obtain w ws where s: "split_at d x = w # ws" using split_at_nonempty by (metis list.exhaust)
  show ?case
  proof (cases "c = d")
    case True
    then show ?thesis using Cons by simp
  next
    case False
    show ?thesis
    proof (cases ws)
      case Nil
      then show ?thesis using Cons False s by simp
    next
      case (Cons v vs)
      then have "split_at d (x @ y) = w # butlast ws @ split_at d (last ws @ y)" using Cons.IH s by simp
      then show ?thesis using False s Cons by simp
    qed
  qed
qed simp

lemma last_no_sep: "d \<notin> set (last (split_at d s))"
  by (rule split_at_no_sep [of _ d s]) simp

lemma grok_stream_all:
  assumes "\<forall>i. alive i \<and> wrote i" and "newline \<notin> set carry"
  shows "grok_stream decode alive wrote i reads (out, carry, a) =
    (out @ filter (\<lambda>b. b \<noteq> []) reads, last (split_at newline (carry @ concat reads)),
     fold (grok_line decode) (butlast (split_at newline (carry @ concat reads))) a)"
  using assms(2)
proof (induction reads arbitrary: i out carry a)
  case Nil
  then show ?case by (simp add: split_at_plain)
next
  case (Cons buf reads)
  show ?case
  proof (cases "buf = []")
    case True
    then show ?thesis using Cons assms(1) by simp
  next
    case False
    let ?p = "split_at newline (carry @ buf)"
    have "split_at newline (carry @ concat (buf # reads)) = butlast ?p @ split_at newline (last ?p @ concat reads)"
      using split_at_last_append [of newline "carry @ buf" "concat reads"] by simp
    then show ?thesis
      using Cons.IH [OF last_no_sep, of "Suc i" "out @ [buf]"] False assms(1) by (simp add: Let_def butlast_append)
  qed
qed

text \<open>
  C34: The Grok stream is parsed independently of how it is cut into reads. As long as the client
  stays connected, the bytes forwarded are exactly the bytes read, and the text and token counts
  recorded are those of the complete lines of the whole body, for every way of cutting it; a line
  split over two reads is neither lost nor seen twice. (A last line without a newline is not parsed.)
\<close>

theorem grok_stream_chunking:
  assumes "\<forall>i. alive i \<and> wrote i" and "concat reads = body"
    and "grok_stream decode alive wrote 0 reads ([], [], sse_start) = (out, carry, acc)"
  shows "concat out = body \<and> acc = fold (grok_line decode) (butlast (split_at newline body)) sse_start"
proof -
  have "concat (filter (\<lambda>b. b \<noteq> []) reads) = concat reads" by (induction reads) auto
  then show ?thesis using assms grok_stream_all [OF assms(1), of "[]" decode 0 reads "[]" sse_start] by auto
qed

definition ex_sse :: "string \<Rightarrow> sseChunk option" where
  "ex_sse d = (if d = ''hi'' then Some \<lparr>sc_Error = None, sc_Content = Some ''hello'',
                 sc_Usage = Some [(''prompt_tokens'', JNum 3), (''completion_tokens'', JNum 5)]\<rparr> else None)"

theorem grok_stream_chunking_witness:
  "concat [''da'', ''ta: h'', ''i'' @ [newline]] = ''data: hi'' @ [newline]
   \<and> \<lparr>sa_content = ''hello'', sa_in = 3, sa_out = 5\<rparr>
       = fold (grok_line ex_sse) (butlast (split_at newline (''data: hi'' @ [newline]))) sse_start"
  by (rule grok_stream_chunking [of "\<lambda>_. True" "\<lambda>_. True" "[''da'', ''ta: h'', ''i'' @ [newline]]" _ ex_sse _ "[]"])
     (simp_all add: newline_def grok_line_def Let_def TrimSpace_def trim_by.simps seq_len_def space_seqs_def ex_sse_def
       trim_prefix_def add_usage_def add_content_def sse_start_def jnum_def trunc_int_def)

subsection \<open>Charging a CodeBuddy key\<close>

definition usage_chunk :: "rat \<Rightarrow> sseChunk" where
  "usage_chunk c = \<lparr>sc_Error = None, sc_Content = None, sc_Usage = Some [(''credit'', JNum c)]\<rparr>"

definition usage_cb_chunk :: "rat \<Rightarrow> cb_chunk" where
  "usage_cb_chunk c = \<lparr>ch_choice = None, ch_usage = Some [(''credit'', JNum c)]\<rparr>"

lemma prefix_data [simp]: "prefix ''data: '' (''data: '' @ s)"
  by simp

lemma trim_data: "trim_prefix ''data: '' (''data: '' @ s) = s"
  by (rule trim_prefix_append)

lemma stream_charges:
  assumes "\<forall>c \<in> set cs. c > 0" and "\<forall>c \<in> set cs. decode (enc c) = Some (usage_chunk c) \<and> enc c \<noteq> [] \<and> enc c \<noteq> ''[DONE]''"
    and "\<forall>i. alive i \<and> wrote i" and "ck_creditsUsed key + sum_list cs < CB_CREDIT_LIMIT"
  shows "\<exists>out a. cb_stream decode marshal alive wrote i (map (\<lambda>c. ''data: '' @ enc c) cs) (out0, a0, key)
    = Some (out, a, key\<lparr>ck_creditsUsed := ck_creditsUsed key + sum_list cs, ck_totalReqs := ck_totalReqs key + int (length cs)\<rparr>)"
  using assms
proof (induction cs arbitrary: i out0 a0 key)
  case Nil
  then show ?case by simp
next
  case (Cons c cs)
  let ?line = "''data: '' @ enc c"
  let ?k = "key\<lparr>ck_creditsUsed := ck_creditsUsed key + c, ck_totalReqs := ck_totalReqs key + 1\<rparr>"
  have nn: "0 \<le> sum_list cs" using Cons.prems(1) by (intro sum_list_nonneg) (auto intro: less_imp_le)
  have add: "AddCredits c key = Some ?k" using Cons.prems(4) nn by (simp add: AddCredits_def Let_def)
  have "cb_line decode marshal ?line (a0, key) = Some (add_content (usage_chunk c) (add_usage (usage_chunk c) a0), ?k)"
    using Cons.prems(1,2) add
    by (simp add: cb_line_def Let_def trim_data cb_error_event_def cb_credit_event_def usage_chunk_def jnum_def del: append_Cons)
  then show ?case
    using Cons.IH [of ?k "Suc i" "out0 @ [?line @ [newline]]" "add_content (usage_chunk c) (add_usage (usage_chunk c) a0)"] Cons.prems
    by (simp add: add.assoc del: append_Cons)
qed

lemma collect_charges:
  assumes "\<forall>c \<in> set cs. c > 0" and "\<forall>c \<in> set cs. decode (enc c) = Some (usage_cb_chunk c) \<and> enc c \<noteq> ''[DONE]''"
  shows "co_credit (collect_lines decode (map (\<lambda>c. ''data: '' @ enc c) cs) r) = (if cs = [] then co_credit r else last cs)"
  using assms
proof (induction cs arbitrary: r)
  case (Cons c cs)
  then show ?case
    by (simp add: Let_def trim_data add_chunk_def usage_cb_chunk_def jnum_def del: append_Cons)
qed simp

text \<open>
  A streamed and a collected answer charge a key differently. For the same answer with
  several usage events (credits \<open>cs\<close>), a streaming client's request adds every credit to the key
  and counts one request per event, while a collecting client's request adds only the last credit
  and counts one request, below the credit limit.
\<close>

theorem stream_and_collect_charge_differently:
  assumes "cs \<noteq> []" and "\<forall>c \<in> set cs. c > 0" and "ck_creditsUsed key + sum_list cs < CB_CREDIT_LIMIT"
    and "\<forall>c \<in> set cs. sse (enc c) = Some (usage_chunk c) \<and> cbd (enc c) = Some (usage_cb_chunk c) \<and> enc c \<noteq> [] \<and> enc c \<noteq> ''[DONE]''"
  shows "\<exists>out a k1 r k2.
      cb_stream sse marshal (\<lambda>_. True) (\<lambda>_. True) 0 (map (\<lambda>c. ''data: '' @ enc c) cs) ([], sse_start, key) = Some (out, a, k1)
    \<and> cbCollectStream cbd (map (\<lambda>c. ''data: '' @ enc c) cs) key = (r, Some k2)
    \<and> ck_creditsUsed k1 = ck_creditsUsed key + sum_list cs \<and> ck_totalReqs k1 = ck_totalReqs key + int (length cs)
    \<and> ck_creditsUsed k2 = ck_creditsUsed key + last cs \<and> ck_totalReqs k2 = ck_totalReqs key + 1"
proof -
  have "last cs > 0" using assms(1,2) by simp
  moreover have "last cs \<le> sum_list cs" using assms(1,2) by (intro member_le_sum_list) (auto intro: less_imp_le)
  ultimately have "AddCredits (last cs) key
      = Some (key\<lparr>ck_creditsUsed := ck_creditsUsed key + last cs, ck_totalReqs := ck_totalReqs key + 1\<rparr>)"
    using assms(3) by (simp add: AddCredits_def Let_def)
  then have "\<exists>r. cbCollectStream cbd (map (\<lambda>c. ''data: '' @ enc c) cs) key
      = (r, Some (key\<lparr>ck_creditsUsed := ck_creditsUsed key + last cs, ck_totalReqs := ck_totalReqs key + 1\<rparr>))"
    using collect_charges [of cs cbd enc] assms \<open>last cs > 0\<close> by (simp add: cbCollectStream_def Let_def del: append_Cons)
  moreover obtain out a where "cb_stream sse marshal (\<lambda>_. True) (\<lambda>_. True) 0 (map (\<lambda>c. ''data: '' @ enc c) cs) ([], sse_start, key)
      = Some (out, a, key\<lparr>ck_creditsUsed := ck_creditsUsed key + sum_list cs, ck_totalReqs := ck_totalReqs key + int (length cs)\<rparr>)"
    using stream_charges [of cs sse enc "\<lambda>_. True" "\<lambda>_. True" key marshal 0 "[]" sse_start] assms by blast
  ultimately show ?thesis by fastforce
qed

definition ex_enc :: "rat \<Rightarrow> string" where
  "ex_enc c = (if c = 1 then ''one'' else ''two'')"

theorem stream_and_collect_charge_differently_witness:
  "\<exists>out a k1 r k2.
      cb_stream (\<lambda>s. Some (usage_chunk (if s = ''one'' then 1 else 2))) (\<lambda>_. []) (\<lambda>_. True) (\<lambda>_. True) 0
        (map (\<lambda>c. ''data: '' @ ex_enc c) [1, 2]) ([], sse_start, new_cb_key ''ck_aaaaaaaaaaaa'') = Some (out, a, k1)
    \<and> cbCollectStream (\<lambda>s. Some (usage_cb_chunk (if s = ''one'' then 1 else 2))) (map (\<lambda>c. ''data: '' @ ex_enc c) [1, 2])
        (new_cb_key ''ck_aaaaaaaaaaaa'') = (r, Some k2)
    \<and> ck_creditsUsed k1 = ck_creditsUsed (new_cb_key ''ck_aaaaaaaaaaaa'') + sum_list [1, 2]
    \<and> ck_totalReqs k1 = ck_totalReqs (new_cb_key ''ck_aaaaaaaaaaaa'') + int (length [1 :: rat, 2])
    \<and> ck_creditsUsed k2 = ck_creditsUsed (new_cb_key ''ck_aaaaaaaaaaaa'') + last [1, 2]
    \<and> ck_totalReqs k2 = ck_totalReqs (new_cb_key ''ck_aaaaaaaaaaaa'') + 1"
  by (rule stream_and_collect_charge_differently [of "[1, 2]" "new_cb_key ''ck_aaaaaaaaaaaa''"
        "\<lambda>s. Some (usage_chunk (if s = ''one'' then 1 else 2))" ex_enc "\<lambda>s. Some (usage_cb_chunk (if s = ''one'' then 1 else 2))" "\<lambda>_. []"])
     (simp_all add: new_cb_key_def CB_CREDIT_LIMIT_def ex_enc_def)

end
