(* ===== verification/Routing.thy ===== *)
theory Routing
  imports RateLimit ModelList Response
begin

text \<open>
  The HTTP entry point \<^verbatim>\<open>ProxyRequest\<close> of \<^verbatim>\<open>proxy.go\<close>: model listing, body checks, resolution
  of aliases, custom models, combos and reasoning-effort aliases, the per-key whitelist, dispatch
  to an upstream, the fallback chain of combos, token accounting and the audit row.

  \<^verbatim>\<open>body\<close> is re-marshalled from \<^verbatim>\<open>bodyMap\<close> whenever the map changes, so one value stands for
  both. The answers of the upstreams may depend on what is sent to them: \<open>ge_net\<close> gives the network
  environment for an upstream, the model in the request header and a body. \<open>gw_dispatched\<close> records
  the calls of the two upstream functions, in order; metrics are not modelled.
\<close>

record gw_env =
  ge_net :: "string \<Rightarrow> string \<Rightarrow> fields \<Rightarrow> net_env"
  ge_resp :: resp_env
  ge_combo_incr :: "(go_error + 64 word) option"
  ge_customs :: "(string \<times> CustomModel) list"
  ge_combos :: "Combo list"
  ge_db :: bool
  ge_start :: gotime
  ge_end :: gotime

record gateway =
  gw_up :: upstream_state
  gw_auth :: Manager
  gw_keys :: key_store
  gw_custom :: "CustomRegistry option"
  gw_combos :: "ComboRegistry option"
  gw_dispatched :: "(string \<times> string \<times> fields) list"

datatype read_body = TooLarge | ReadFailed | Read "json option"

record proxy_request =
  pr_path :: string
  pr_headers :: headers
  pr_body :: read_body
  pr_client_key :: string
  pr_request_id :: string
  pr_key_masked :: string

record RequestLog =
  rl_Timestamp :: gotime
  rl_RequestID :: string
  rl_ClientKey :: string
  rl_Model :: string
  rl_Upstream :: string
  rl_AccountID :: string
  rl_StatusCode :: int
  rl_LatencyMs :: int
  rl_TokensIn :: int
  rl_TokensOut :: int
  rl_ErrorMsg :: string
  rl_InputText :: string
  rl_OutputText :: string

subsection \<open>The logged input text\<close>

definition text_part :: "json \<Rightarrow> string option" where
  "text_part p =
     (case p of JObj pm \<Rightarrow> if jstr pm ''type'' = Some ''text'' then jstr pm ''text'' else None | _ \<Rightarrow> None)"

fun last_user_text :: "json list \<Rightarrow> string" where
  "last_user_text [] = []"
| "last_user_text (JObj msg # older) =
     (if jstr msg ''role'' \<noteq> Some ''user'' then last_user_text older
      else case map_of msg ''content'' of
             Some (JStr v) \<Rightarrow> truncateLog v 500
           | Some (JArr v) \<Rightarrow>
               (let parts = List.map_filter text_part v
                in if parts \<noteq> [] then truncateLog (join '' '' parts) 500 else last_user_text older)
           | _ \<Rightarrow> last_user_text older)"
| "last_user_text (_ # older) = last_user_text older"

definition extractInputText :: "fields \<Rightarrow> string" where
  "extractInputText bodyMap = (case jarr bodyMap ''messages'' of None \<Rightarrow> [] | Some msgs \<Rightarrow> last_user_text (rev msgs))"

subsection \<open>Model resolution\<close>

definition set_model :: "string \<Rightarrow> fields \<Rightarrow> fields" where
  "set_model m bm = AList.update ''model'' (JStr m) bm"

definition resolve_custom :: "CustomRegistry option \<Rightarrow> string \<Rightarrow> string \<times> string \<times> string" where
  "resolve_custom reg model = (case reg of None \<Rightarrow> (model, [], []) | Some r \<Rightarrow> ResolveCustom r model)"

definition expand_alias :: "string \<Rightarrow> fields \<Rightarrow> string \<times> fields" where
  "expand_alias model bm =
     (case ExpandGrokAlias model of
        None \<Rightarrow> (model, bm)
      | Some effort \<Rightarrow>
          (let bm1 = set_model ''grok-4.5'' bm
           in (''grok-4.5'',
               if map_of bm1 ''reasoning_effort'' = None \<and> map_of bm1 ''reasoning'' = None
               then AList.update ''reasoning_effort'' (JStr effort) bm1 else bm1)))"

record route =
  rt_model :: string
  rt_body :: fields
  rt_up :: string
  rt_mn :: string
  rt_combo :: string
  rt_strategy :: string

definition default_model :: "fields \<Rightarrow> string \<times> fields" where
  "default_model bm =
     (let model = (case jstr bm ''model'' of Some s \<Rightarrow> s | None \<Rightarrow> [])
      in if model = [] then (''grok-4.5'', set_model ''grok-4.5'' bm) else (model, bm))"

definition custom_step :: "CustomRegistry option \<Rightarrow> string \<Rightarrow> fields \<Rightarrow> route" where
  "custom_step reg model bm =
     (let (resolved, up, mn) = resolve_custom reg model
      in \<lparr>rt_model = resolved, rt_body = (if resolved \<noteq> model then set_model resolved bm else bm),
          rt_up = up, rt_mn = mn, rt_combo = [], rt_strategy = []\<rparr>)"

definition combo_step ::
  "(go_error + 64 word) option \<Rightarrow> CustomRegistry option \<Rightarrow> ComboRegistry option \<Rightarrow> route \<Rightarrow> route \<times> ComboRegistry option" where
  "combo_step incr reg cbs rt =
     (case cbs of
        None \<Rightarrow> (rt, None)
      | Some cr \<Rightarrow>
          (case ResolveCombo incr (rt_model rt) cr of
             (None, cr') \<Rightarrow> (rt, Some cr')
           | (Some nxt, cr') \<Rightarrow>
               (let name = (if prefix ''combo/'' (rt_model rt) then trim_prefix ''combo/'' (rt_model rt) else []);
                    strategy = (if prefix ''combo/'' (rt_model rt)
                                then (case GetCombo name cr' of Some c \<Rightarrow> co_Strategy c | None \<Rightarrow> []) else []);
                    rt' = custom_step reg nxt (set_model nxt (rt_body rt))
                in ((case reg of
                       None \<Rightarrow> rt\<lparr>rt_model := nxt, rt_body := set_model nxt (rt_body rt)\<rparr>
                     | Some _ \<Rightarrow> rt')\<lparr>rt_combo := name, rt_strategy := strategy\<rparr>,
                    Some cr'))))"

definition alias_step :: "route \<Rightarrow> route" where
  "alias_step rt =
     (if rt_up rt = [] then (let (m, bm) = expand_alias (rt_model rt) (rt_body rt) in rt\<lparr>rt_model := m, rt_body := bm\<rparr>)
      else rt)"

definition resolve_route :: "gw_env \<Rightarrow> gateway \<Rightarrow> fields \<Rightarrow> route \<times> ComboRegistry option" where
  "resolve_route env g bodyMap =
     (let (model, bm) = default_model bodyMap;
          (rt, cbs) = combo_step (ge_combo_incr env) (gw_custom g) (gw_combos g) (custom_step (gw_custom g) model bm)
      in (alias_step rt, cbs))"

subsection \<open>Dispatch\<close>

text \<open>
  \<^verbatim>\<open>dispatch\<close> for one attempt; \<open>None\<close> is a panic inside it. The result is the response, the
  context, the name of the upstream, the body map as left by it and the gateway.
\<close>

definition call_grok ::
  "gw_env \<Rightarrow> string \<Rightarrow> fields \<Rightarrow> gin_ctx \<Rightarrow> gateway \<Rightarrow> (wcall list \<times> gin_ctx \<times> string \<times> fields \<times> gateway) option" where
  "call_grok env m bm c g =
     (let (oc, s) = ProxyGrok (ge_net env ''grok'' m bm) (gw_up g);
          (ws, c') = respond_grok (ge_resp env) (us_calls s - 1) m oc c
      in Some (ws, c', ''grok'', bm, g\<lparr>gw_up := s, gw_dispatched := gw_dispatched g @ [(''grok'', m, bm)]\<rparr>))"

definition call_cb ::
  "gw_env \<Rightarrow> bool \<Rightarrow> fields \<Rightarrow> gin_ctx \<Rightarrow> gateway \<Rightarrow> (wcall list \<times> gin_ctx \<times> string \<times> fields \<times> gateway) option" where
  "call_cb env clientStream bm c g =
     (let sent = cb_rewrite bm;
          (oc, s) = ProxyCodeBuddy (ge_net env ''codebuddy'' [] sent) (Some (JObj bm)) (gw_up g);
          originalModel = (case jstr bm ''model'' of Some x \<Rightarrow> x | None \<Rightarrow> [])
      in case respond_cb (ge_resp env) clientStream originalModel oc s c of
           None \<Rightarrow> None
         | Some (ws, c', s') \<Rightarrow>
             Some (ws, c', ''codebuddy'', bm, g\<lparr>gw_up := s', gw_dispatched := gw_dispatched g @ [(''codebuddy'', [], sent)]\<rparr>))"

definition dispatch ::
  "gw_env \<Rightarrow> bool \<Rightarrow> string \<Rightarrow> string \<Rightarrow> string \<Rightarrow> fields \<Rightarrow> gin_ctx \<Rightarrow> gateway
    \<Rightarrow> (wcall list \<times> gin_ctx \<times> string \<times> fields \<times> gateway) option" where
  "dispatch env clientStream up mn m bm c g =
     (if up = ''grok''
      then (if mn \<noteq> [] then call_grok env mn (set_model mn bm) c g else call_grok env m bm c g)
      else if up = ''codebuddy''
      then call_cb env clientStream (if mn \<noteq> [] then set_model (''cb/'' @ mn) bm else bm) c g
      else if IsGrokModel m then call_grok env m bm c g
      else call_cb env clientStream bm c g)"

subsection \<open>The fallback chain\<close>

definition candidate :: "CustomRegistry option \<Rightarrow> string \<Rightarrow> fields \<Rightarrow> string \<times> string \<times> string \<times> fields" where
  "candidate reg cand bm =
     (let (m, up, mn) = resolve_custom reg cand;
          (m', bm') = (if up = [] then expand_alias m bm else (m, bm))
      in (m', up, mn, set_model m' bm'))"

record attempt =
  at_calls :: "wcall list"
  at_ctx :: gin_ctx
  at_upstream :: string
  at_model :: string
  at_body :: fields

text \<open>
  The loop over the candidates with the last attempt as accumulator; the response of an attempt
  goes to a fresh buffering writer, whose status decides. \<open>None\<close> is a panic.
\<close>

fun fallback_loop :: "gw_env \<Rightarrow> string list \<Rightarrow> attempt \<Rightarrow> gateway \<Rightarrow> (attempt \<times> gateway) option" where
  "fallback_loop env [] a g = Some (a, g)"
| "fallback_loop env (cand # cands) a g =
     (let (m, up, mn, bm) = candidate (gw_custom g) cand (at_body a)
      in case dispatch env False up mn m bm (at_ctx a) g of
           None \<Rightarrow> None
         | Some (ws, c, name, bm', g') \<Rightarrow>
             (let bw = bw_run ws;
                  a' = \<lparr>at_calls = flush bw, at_ctx = c, at_upstream = name, at_model = m, at_body = bm'\<rparr>
              in if bw_status bw < 500 then Some (a', g') else fallback_loop env cands a' g'))"

subsection \<open>The handler\<close>

definition account :: "string \<Rightarrow> gin_ctx \<Rightarrow> gateway \<Rightarrow> gateway" where
  "account key c g =
     (if key = [] then g
      else let total = wrap64 (toInt (gc_tokens_in c) + toInt (gc_tokens_out c));
               (am, st) = (if total > 0 then IncrementTokens key total (gw_auth g) (gw_keys g)
                           else IncrementRequests key (gw_auth g) (gw_keys g))
           in g\<lparr>gw_auth := am, gw_keys := st\<rparr>)"

definition audit_row :: "gw_env \<Rightarrow> proxy_request \<Rightarrow> attempt \<Rightarrow> RequestLog option" where
  "audit_row env rq a =
     (if ge_db env \<and> pr_path rq = ''/v1/chat/completions''
      then Some \<lparr>rl_Timestamp = ge_start env, rl_RequestID = pr_request_id rq, rl_ClientKey = pr_key_masked rq,
                 rl_Model = at_model a, rl_Upstream = at_upstream a, rl_AccountID = gc_account (at_ctx a),
                 rl_StatusCode = status_of (at_calls a), rl_LatencyMs = milliseconds (ge_end env - ge_start env),
                 rl_TokensIn = toInt (gc_tokens_in (at_ctx a)), rl_TokensOut = toInt (gc_tokens_out (at_ctx a)),
                 rl_ErrorMsg = toString (gc_error_msg (at_ctx a)), rl_InputText = extractInputText (at_body a),
                 rl_OutputText = toString (gc_output_text (at_ctx a))\<rparr>
      else None)"

datatype handled = Panicked | Responded "wcall list" gin_ctx "RequestLog option"

definition stream_wanted :: "proxy_request \<Rightarrow> fields \<Rightarrow> bool" where
  "stream_wanted rq bm \<longleftrightarrow> map_of bm ''stream'' = Some (JBool True) \<or> pr_headers rq ''Accept'' = ''text/event-stream''"

definition model_denied :: "string \<Rightarrow> string \<Rightarrow> gateway \<Rightarrow> bool" where
  "model_denied key model g \<longleftrightarrow>
     key \<noteq> [] \<and> (case GetKey (gw_auth g) key of Some info \<Rightarrow> \<not> IsModelAllowed (gk_AllowedModels info) model | None \<Rightarrow> False)"

definition denied_json :: "string \<Rightarrow> fields" where
  "denied_json model =
     [(''error'', JStr ''model not allowed for this API key''), (''model'', JStr model),
      (''hint'', JStr (''this key is restricted to specific models '' @ [CHR 0xE2, CHR 0x80, CHR 0x94] @ '' contact the gateway operator''))]"

definition run_route :: "gw_env \<Rightarrow> proxy_request \<Rightarrow> route \<Rightarrow> gateway \<Rightarrow> (attempt \<times> gateway) option" where
  "run_route env rq rt g =
     (let bm = rt_body rt; stream = stream_wanted rq bm;
          a0 = \<lparr>at_calls = [], at_ctx = new_ctx, at_upstream = ''codebuddy'', at_model = rt_model rt, at_body = bm\<rparr>
      in if rt_combo rt \<noteq> [] \<and> rt_strategy rt = ''fallback'' \<and> \<not> stream
         then fallback_loop env
                (case gw_combos g of None \<Rightarrow> [] | Some cr \<Rightarrow> (case GetCombo (rt_combo rt) cr of Some c \<Rightarrow> co_Models c | None \<Rightarrow> [])) a0 g
         else map_option (\<lambda>(ws, c, name, bm', g').
                (\<lparr>at_calls = ws, at_ctx = c, at_upstream = name, at_model = rt_model rt, at_body = bm'\<rparr>, g'))
                (dispatch env stream (rt_up rt) (rt_mn rt) (rt_model rt) bm new_ctx g))"

definition chat_completion :: "gw_env \<Rightarrow> proxy_request \<Rightarrow> fields \<Rightarrow> gateway \<Rightarrow> handled \<times> gateway" where
  "chat_completion env rq bodyMap g0 =
     (let (rt, cbs) = resolve_route env g0 bodyMap; g = g0\<lparr>gw_combos := cbs\<rparr>
      in if model_denied (pr_client_key rq) (rt_model rt) g
         then (Responded (c_JSON 403 (denied_json (rt_model rt)))
                 (new_ctx\<lparr>gc_error_msg := Some (''model not allowed: '' @ rt_model rt)\<rparr>) None, g)
         else case run_route env rq rt g of
                None \<Rightarrow> (Panicked, g)
              | Some (a, g') \<Rightarrow>
                  (Responded (at_calls a) (at_ctx a) (audit_row env rq a), account (pr_client_key rq) (at_ctx a) g'))"

definition ProxyRequest :: "gw_env \<Rightarrow> proxy_request \<Rightarrow> gateway \<Rightarrow> handled \<times> gateway" where
  "ProxyRequest env rq g =
     (if pr_path rq = ''/v1/models'' \<or> pr_path rq = ''/models''
      then (Responded (c_JSON 200 [(''object'', JStr ''list''),
              (''data'', JArr (map JObj (list_models (ge_customs env) (ge_combos env) (pr_headers rq))))]) new_ctx None, g)
      else if pr_path rq \<noteq> ''/v1/chat/completions'' \<and> pr_path rq \<noteq> ''/chat/completions''
      then (Responded (c_JSON 404 (error_json (''not found: '' @ pr_path rq))) new_ctx None, g)
      else case pr_body rq of
             TooLarge \<Rightarrow> (Responded (c_JSON 413 (error_json ''request body too large'' @ [(''limit_bytes'', JNum 10485760)])) new_ctx None, g)
           | ReadFailed \<Rightarrow> (Responded (c_JSON 400 (error_json ''read body failed'')) new_ctx None, g)
           | Read b \<Rightarrow>
               (case as_map b of
                  MErr \<Rightarrow> (Responded (c_JSON 400 (error_json ''invalid JSON'')) new_ctx None, g)
                | MNil \<Rightarrow> (Panicked, g)
                | MOk m \<Rightarrow> chat_completion env rq m g))"

subsection \<open>What is sent where\<close>

text \<open>The upstream, the model of the request header (Grok only) and the body of one dispatch.\<close>

definition wire :: "string \<Rightarrow> string \<Rightarrow> string \<Rightarrow> fields \<Rightarrow> string \<times> string \<times> fields" where
  "wire up mn m bm =
     (if up = ''grok'' then (if mn \<noteq> [] then (''grok'', mn, set_model mn bm) else (''grok'', m, bm))
      else if up = ''codebuddy'' then (''codebuddy'', [], cb_rewrite (if mn \<noteq> [] then set_model (''cb/'' @ mn) bm else bm))
      else if IsGrokModel m then (''grok'', m, bm) else (''codebuddy'', [], cb_rewrite bm))"

lemma call_grok_frame:
  "call_grok env m bm c g = Some (ws, c', name, bm', g') \<Longrightarrow>
     g' = g\<lparr>gw_up := gw_up g', gw_dispatched := gw_dispatched g @ [(''grok'', m, bm)]\<rparr> \<and> bm' = bm \<and> name = ''grok''"
  by (auto simp: call_grok_def Let_def split_beta)

lemma call_cb_frame:
  "call_cb env st bm c g = Some (ws, c', name, bm', g') \<Longrightarrow>
     g' = g\<lparr>gw_up := gw_up g', gw_dispatched := gw_dispatched g @ [(''codebuddy'', [], cb_rewrite bm)]\<rparr> \<and> bm' = bm \<and> name = ''codebuddy''"
  by (auto simp: call_cb_def Let_def split_beta split: option.splits)

lemma call_cb_dispatched:
  "call_cb env st bm c g = Some (ws, c', name, bm', g') \<Longrightarrow> gw_dispatched g' = gw_dispatched g @ [(''codebuddy'', [], cb_rewrite bm)]"
  by (auto simp: call_cb_def Let_def split_beta split: option.splits)

lemma dispatch_frame:
  assumes "dispatch env st up mn m bm c g = Some (ws, c', name, bm', g')"
  shows "g' = g\<lparr>gw_up := gw_up g', gw_dispatched := gw_dispatched g @ [wire up mn m bm]\<rparr>"
    and "name = fst (wire up mn m bm)"
  using assms call_grok_frame call_cb_frame
  by (fastforce simp: dispatch_def wire_def split: if_splits)+

lemma dispatch_fields:
  assumes "dispatch env st up mn m bm c g = Some (ws, c', name, bm', g')"
  shows "gw_dispatched g' = gw_dispatched g @ [wire up mn m bm]" "gw_auth g' = gw_auth g" "gw_keys g' = gw_keys g"
    "gw_custom g' = gw_custom g" "gw_combos g' = gw_combos g"
  by (subst dispatch_frame(1) [OF assms], simp)+

lemma set_model_model [simp]: "jstr (set_model m bm) ''model'' = Some m"
  by (simp add: set_model_def)

lemma set_model_other: "k \<noteq> ''model'' \<Longrightarrow> map_of (set_model m bm) k = map_of bm k"
  by (simp add: set_model_def update_conv')

lemma cb_rewrite_model: "jstr (cb_rewrite bm) ''model'' = map_option stripCBPrefix (jstr bm ''model'')"
  by (auto simp: jstr_def [of "cb_rewrite bm"] cb_rewrite_fields split: option.split)
     (simp add: jstr_def split: option.splits json.splits)

text \<open>The body always names the resolved model.\<close>

definition in_sync :: "route \<Rightarrow> bool" where
  "in_sync rt \<longleftrightarrow> jstr (rt_body rt) ''model'' = Some (rt_model rt)"

lemma custom_step_sync: "jstr bm ''model'' = Some m \<Longrightarrow> in_sync (custom_step reg m bm)"
  by (auto simp: in_sync_def custom_step_def Let_def split_beta)

lemma alias_step_sync: "in_sync rt \<Longrightarrow> in_sync (alias_step rt)"
  by (auto simp: in_sync_def alias_step_def expand_alias_def Let_def split_beta split: option.splits)

lemma combo_step_sync: "in_sync rt \<Longrightarrow> in_sync (fst (combo_step incr reg cbs rt))"
  using custom_step_sync [of "set_model _ (rt_body rt)" _ reg]
  by (auto simp: combo_step_def Let_def in_sync_def split: option.splits prod.splits)

lemma default_model_sync: "default_model bm = (m, bm') \<Longrightarrow> jstr bm' ''model'' = Some m"
  by (auto simp: default_model_def Let_def split: option.splits if_splits)

lemma resolve_route_sync: "in_sync (fst (resolve_route env g bm))"
proof -
  obtain m bm' where d: "default_model bm = (m, bm')" by fastforce
  have "in_sync (fst (combo_step (ge_combo_incr env) (gw_custom g) (gw_combos g) (custom_step (gw_custom g) m bm')))"
    by (intro combo_step_sync custom_step_sync default_model_sync [OF d])
  then show ?thesis using d by (simp add: resolve_route_def Let_def split_beta alias_step_sync)
qed

definition chat_path :: "string \<Rightarrow> bool" where
  "chat_path p \<longleftrightarrow> p = ''/v1/chat/completions'' \<or> p = ''/chat/completions''"

lemma ProxyRequest_chat:
  "chat_path (pr_path rq) \<Longrightarrow> pr_body rq = Read (Some (JObj bm)) \<Longrightarrow> ProxyRequest env rq g = chat_completion env rq bm g"
  by (auto simp: ProxyRequest_def chat_path_def as_map_def)

lemma model_denied_combos [simp]: "model_denied key m (g\<lparr>gw_combos := cbs\<rparr>) = model_denied key m g"
  by (simp add: model_denied_def)

lemma chat_admitted:
  assumes "resolve_route env g bm = (rt, cbs)" and "\<not> model_denied (pr_client_key rq) (rt_model rt) g"
  shows "chat_completion env rq bm g =
    (case run_route env rq rt (g\<lparr>gw_combos := cbs\<rparr>) of
       None \<Rightarrow> (Panicked, g\<lparr>gw_combos := cbs\<rparr>)
     | Some (a, g') \<Rightarrow> (Responded (at_calls a) (at_ctx a) (audit_row env rq a), account (pr_client_key rq) (at_ctx a) g'))"
  using assms by (simp add: chat_completion_def Let_def)

lemma account_fields [simp]:
  "gw_dispatched (account key c g) = gw_dispatched g" "gw_up (account key c g) = gw_up g"
  "gw_combos (account key c g) = gw_combos g"
  by (auto simp: account_def Let_def split_beta)

definition uses_fallback :: "proxy_request \<Rightarrow> route \<Rightarrow> bool" where
  "uses_fallback rq rt \<longleftrightarrow> rt_combo rt \<noteq> [] \<and> rt_strategy rt = ''fallback'' \<and> \<not> stream_wanted rq (rt_body rt)"

text \<open>
  C1: Routing is right. A chat completion that passes the whitelist and does not use a fallback
  chain makes exactly one upstream call. If the resolved model is a custom model, the call goes to
  its declared upstream and names its model name; otherwise a \<^verbatim>\<open>grok-\<close> model goes to Grok under its
  own name and every other model to CodeBuddy without the prefix \<^verbatim>\<open>cb/\<close>.
\<close>

theorem request_routed:
  assumes "chat_path (pr_path rq)" and "pr_body rq = Read (Some (JObj bm))" and "resolve_route env g bm = (rt, cbs)"
    and "\<not> model_denied (pr_client_key rq) (rt_model rt) g" and "\<not> uses_fallback rq rt"
    and "fst (ProxyRequest env rq g) \<noteq> Panicked"
  shows "\<exists>up hdr body. gw_dispatched (snd (ProxyRequest env rq g)) = gw_dispatched g @ [(up, hdr, body)]
    \<and> (rt_up rt \<in> {''grok'', ''codebuddy''} \<and> rt_mn rt \<noteq> [] \<longrightarrow>
         up = rt_up rt \<and> jstr body ''model'' = Some (rt_mn rt) \<and> (up = ''grok'' \<longrightarrow> hdr = rt_mn rt))
    \<and> (rt_up rt = [] \<longrightarrow>
         (if IsGrokModel (rt_model rt) then up = ''grok'' \<and> jstr body ''model'' = Some (rt_model rt) \<and> hdr = rt_model rt
          else up = ''codebuddy'' \<and> jstr body ''model'' = Some (stripCBPrefix (rt_model rt))))"
proof -
  have sync: "jstr (rt_body rt) ''model'' = Some (rt_model rt)"
    using resolve_route_sync [of env g bm] assms(3) by (simp add: in_sync_def)
  let ?g = "g\<lparr>gw_combos := cbs\<rparr>"
  note chat = ProxyRequest_chat [OF assms(1,2)] chat_admitted [OF assms(3,4)]
  have run: "run_route env rq rt ?g \<noteq> None"
    using assms(6) by (auto simp: chat split: option.splits)
  then obtain ws c name bm' g' where d:
    "dispatch env (stream_wanted rq (rt_body rt)) (rt_up rt) (rt_mn rt) (rt_model rt) (rt_body rt) new_ctx ?g = Some (ws, c, name, bm', g')"
    using assms(5) by (auto simp: run_route_def Let_def uses_fallback_def)
  have "gw_dispatched (snd (ProxyRequest env rq g)) = gw_dispatched g'"
    using assms(5) d by (auto simp: chat run_route_def Let_def uses_fallback_def)
  also have "\<dots> = gw_dispatched g @ [wire (rt_up rt) (rt_mn rt) (rt_model rt) (rt_body rt)]"
    using dispatch_fields(1) [OF d] by simp
  finally show ?thesis
    using sync by (auto simp: wire_def cb_rewrite_model stripCBPrefix_def trim_prefix_def)
qed

text \<open>
  C2: The whitelist is enforced on the resolved model. If the key's whitelist does not allow the
  model a request resolves to (after default, alias, custom model, combo and effort alias), the
  client gets a 403, no upstream is called, nothing is accounted, and nothing of the gateway
  changes but the combo counters.
\<close>

theorem whitelist_enforced:
  assumes "chat_path (pr_path rq)" and "pr_body rq = Read (Some (JObj bm))" and "resolve_route env g bm = (rt, cbs)"
    and "pr_client_key rq \<noteq> []" and "GetKey (gw_auth g) (pr_client_key rq) = Some info"
    and "\<not> IsModelAllowed (gk_AllowedModels info) (rt_model rt)"
  shows "\<exists>ws c. ProxyRequest env rq g = (Responded ws c None, g\<lparr>gw_combos := cbs\<rparr>) \<and> status_of ws = 403"
  using assms by (simp add: ProxyRequest_chat [OF assms(1,2)] chat_completion_def model_denied_def c_JSON_def)

lemma chat_billed:
  assumes "chat_path (pr_path rq)" and "pr_body rq = Read (Some (JObj bm))"
    and "\<not> model_denied (pr_client_key rq) (rt_model (fst (resolve_route env g bm))) g"
    and "ProxyRequest env rq g = (Responded ws c lg, g')" and "map_of (gw_auth g) (pr_client_key rq) = Some i"
    and "pr_client_key rq \<noteq> []"
  shows "map_of (gw_auth g') = (map_of (gw_auth g))(pr_client_key rq \<mapsto>
    (let total = wrap64 (toInt (gc_tokens_in c) + toInt (gc_tokens_out c))
     in if total > 0 then counted_info total i else i\<lparr>gk_Requests := wrap64 (gk_Requests i + 1)\<rparr>))"
proof -
  obtain rt cbs where rr: "resolve_route env g bm = (rt, cbs)" by fastforce
  let ?g = "g\<lparr>gw_combos := cbs\<rparr>"
  obtain a g1 where run: "run_route env rq rt ?g = Some (a, g1)" and c: "c = at_ctx a"
    and g': "g' = account (pr_client_key rq) (at_ctx a) g1"
    using assms(3,4) by (auto simp: rr ProxyRequest_chat [OF assms(1,2)] chat_admitted [OF rr] split: option.splits)
  have fb: "fallback_loop env cands a0 g0 = Some (a1, g2) \<Longrightarrow> gw_auth g2 = gw_auth g0" for cands a0 g0 a1 g2
    by (induction cands arbitrary: a0 g0)
       (auto simp: Let_def dispatch_fields split: option.splits if_splits prod.splits)
  have "gw_auth g1 = gw_auth g"
    using run fb dispatch_fields(2) by (fastforce simp: run_route_def Let_def split: if_splits)
  then show ?thesis
    using assms(5,6) by (simp add: g' c account_def Let_def split_beta IncrementTokens_def IncrementRequests_def update_conv')
qed

text \<open>
  C8: Consumption is accounted to the key that asked, once, and as reported. After a chat
  completion that was not refused, the key's entry has the reported tokens added (disabling it at
  its quota), or one more request if none were reported, and no other key changes.
\<close>

theorem tokens_accounted:
  assumes "chat_path (pr_path rq)" and "pr_body rq = Read (Some (JObj bm))"
    and "\<not> model_denied (pr_client_key rq) (rt_model (fst (resolve_route env g bm))) g"
    and "ProxyRequest env rq g = (Responded ws c lg, g')" and "map_of (gw_auth g) (pr_client_key rq) = Some i"
    and "pr_client_key rq \<noteq> []"
  shows "map_of (gw_auth g') = (map_of (gw_auth g))(pr_client_key rq \<mapsto>
    (let total = wrap64 (toInt (gc_tokens_in c) + toInt (gc_tokens_out c))
     in if total > 0 then counted_info total i else i\<lparr>gk_Requests := wrap64 (gk_Requests i + 1)\<rparr>))"
  using assms by (rule chat_billed)

subsection \<open>The fallback chain\<close>

lemma fallback_step:
  "fallback_loop env (cand # cands) a g = Some (a', g') \<Longrightarrow>
     \<exists>a1 g1. fallback_loop env [cand] a g = Some (a1, g1) \<and> length (gw_dispatched g1) = Suc (length (gw_dispatched g))
       \<and> (if status_of (at_calls a1) < 500 then (a', g') = (a1, g1)
          else fallback_loop env cands a1 g1 = Some (a', g')
            \<and> (\<forall>cs. fallback_loop env (cand # cs) a g = fallback_loop env cs a1 g1))"
proof -
  assume run: "fallback_loop env (cand # cands) a g = Some (a', g')"
  obtain m up mn bm where c: "candidate (gw_custom g) cand (at_body a) = (m, up, mn, bm)" by (metis prod_cases4)
  obtain ws x name bm' g1 where d: "dispatch env False up mn m bm (at_ctx a) g = Some (ws, x, name, bm', g1)"
    using run c by (auto split: option.splits)
  let ?a1 = "\<lparr>at_calls = flush (bw_run ws), at_ctx = x, at_upstream = name, at_model = m, at_body = bm'\<rparr>"
  have "fallback_loop env (cand # cs) a g = (if status_of ws < 500 then Some (?a1, g1) else fallback_loop env cs ?a1 g1)" for cs
    using c d by (simp add: Let_def)
  then show ?thesis using run dispatch_fields(1) [OF d] by (intro exI [of _ ?a1] exI [of _ g1]) (auto simp del: fallback_loop.simps(2))
qed


subsection \<open>The two upstreams do not interfere\<close>

definition cb_part :: "upstream_state \<Rightarrow> CBKeyManager \<times> UpstreamHealth" where
  "cb_part s = (us_cb s, us_ch s)"

lemma cb_part_frames [simp]:
  "cb_part (snd (pick_proxy env up s)) = cb_part s" "cb_part (report env pid r s) = cb_part s"
  "cb_part (upd_grok i f s) = cb_part s" "cb_part (s\<lparr>us_gh := h\<rparr>) = cb_part s" "cb_part (s\<lparr>us_grok := am\<rparr>) = cb_part s"
  by (simp_all add: cb_part_def upd_grok_def)

lemma cb_part_send [simp]: "cb_part (snd (grok_send env pid i s)) = cb_part s"
  by (simp add: grok_send_def Let_def)

lemma cb_part_refresh [simp]: "cb_part (snd (Refresh env i s)) = cb_part s"
  by (simp add: Refresh_def Let_def split_beta split: sum.split)

lemma cb_part_handle [simp]: "cb_part (snd (grok_handle env start i st body s)) = cb_part s"
  by (simp add: grok_handle_def)

lemma cb_part_grok_step: "cb_part (snd (grok_step env pid start i s)) = cb_part s"
proof -
  obtain r1 s1 where 1: "grok_send env pid i s = (r1, s1)" by fastforce
  obtain e s2 where 2: "Refresh env i s1 = (e, s2)" by fastforce
  obtain r3 s3 where 3: "grok_send env pid i s2 = (r3, s3)" by fastforce
  have "cb_part s1 = cb_part s" "cb_part s2 = cb_part s1" "cb_part s3 = cb_part s2"
    using cb_part_send [of env pid i s] cb_part_refresh [of env i s1] cb_part_send [of env pid i s2] 1 2 3 by simp_all
  then show ?thesis by (auto simp: grok_step_def 1 2 3 split: sum.split option.split)
qed

lemma grok_isolated: "cb_part (snd (ProxyGrok env s)) = cb_part s"
proof -
  have loop: "cb_part (snd (grok_loop env pid start s')) = cb_part s'" for pid start s'
    unfolding grok_loop_def
    by (rule retry_preserves) (auto simp: cb_part_grok_step grok_pick_def split: sum.splits prod.splits)
  have "cb_part (snd (grok_loop env pid start (snd (pick_proxy env u (s\<lparr>us_gh := h\<rparr>))))) = cb_part s" for pid start u h
    using loop by simp
  then show ?thesis
    by (auto simp: ProxyGrok_def Let_def split_beta split: attempt_result.split)
qed

subsection \<open>A collected CodeBuddy answer\<close>

definition keys_masked :: "upstream_state \<Rightarrow> bool" where
  "keys_masked s \<longleftrightarrow> (\<forall>k \<in> set (map ck_Key (km_keys (us_cb s))). mask8 k \<noteq> None)"

definition reply_ok :: "cb_reply \<Rightarrow> upstream_state \<Rightarrow> bool" where
  "reply_ok r s \<longleftrightarrow> r \<noteq> CBPanic \<and> (\<forall>i st b. r = CBOk i st b \<longrightarrow> i < length (km_keys (us_cb s)))"

lemma keys_masked_upd: "keys_masked s \<Longrightarrow> keys_masked (upd_cb i (disable_key t) s)"
proof -
  assume k: "keys_masked s"
  let ?ks = "km_keys (us_cb s)"
  have "map ck_Key (?ks[i := disable_key t (?ks ! i)]) = map ck_Key ?ks"
    by (cases "i < length ?ks") (simp_all add: map_update_same disable_key_def list_update_beyond not_less)
  then have "map ck_Key (km_keys (us_cb (upd_cb i (disable_key t) s))) = map ck_Key ?ks"
    by (simp add: upd_cb_def upd_key_def)
  then show ?thesis using k by (simp only: keys_masked_def)
qed

lemma keys_masked_step: "keys_masked s \<Longrightarrow> keys_masked (snd (cb_step env pid start i s))"
proof -
  assume k: "keys_masked s"
  have "keys_masked (report env pid r s)" for r using k by (simp add: keys_masked_def)
  then show ?thesis
    by (auto simp: cb_step_def Let_def cb_handle_def cb_disable_state keys_masked_upd split: sum.split prod.split)
       (simp_all add: keys_masked_def)
qed

lemma cb_step_reply:
  assumes "keys_masked s" and "i < length (km_keys (us_cb s))" and "cb_step env pid start i s = (Some r, s')"
  shows "reply_ok r s'"
proof -
  have "mask8 (ck_Key (km_keys (us_cb s) ! i)) \<noteq> None" using assms(1,2) by (simp add: keys_masked_def)
  moreover have "length (km_keys (us_cb s')) = length (km_keys (us_cb s))"
    using cb_step_same [of i s env pid start] assms(3) by (simp add: cb_same_def)
  ultimately show ?thesis
    using assms(2,3) by (auto simp: reply_ok_def cb_step_def Let_def cb_handle_def cb_disable_def split: sum.splits if_splits prod.splits)
qed

lemma cb_loop_reply:
  assumes "keys_masked s" and "cb_loop env pid start s = (AServed r, s')"
  shows "reply_ok r s' \<and> keys_masked s'"
proof (intro conjI)
  have pick: "keys_masked s2 \<and> i < length (km_keys (us_cb s2))" if "keys_masked s1" "cb_pick s1 = Some (i, s2)" for s1 i s2
    using cb_pick_enabled [OF that(2)] that(1) by (simp add: keys_masked_def)
  show "reply_ok r s'"
    by (rule retry_served [where P = keys_masked and R = "\<lambda>i s. i < length (km_keys (us_cb s))"])
       (use assms pick keys_masked_step cb_step_reply in \<open>auto simp: cb_loop_def\<close>)
  have "keys_masked (snd (cb_loop env pid start s))"
    unfolding cb_loop_def by (rule retry_preserves) (use assms(1) pick keys_masked_step in auto)
  then show "keys_masked s'" using assms(2) by simp
qed

lemma collect_total:
  "mask8 (ck_Key k) \<noteq> None \<Longrightarrow> \<exists>r k'. cbCollectStream decode lines k = (r, Some k')"
  by (auto simp: cbCollectStream_def Let_def AddCredits_def)

subsection \<open>A concrete gateway\<close>

definition ex_resp :: resp_env where
  "ex_resp = \<lparr>re_headers = (\<lambda>_. []), re_reads = (\<lambda>_ b. [b]), re_alive = (\<lambda>_ _. True), re_wrote = (\<lambda>_ _. True),
     re_json = (\<lambda>_. None), re_sse = (\<lambda>_. None), re_cb = (\<lambda>_. None), re_marshal = (\<lambda>_. []), re_id = [], re_created = 0\<rparr>"

definition ex_gw_env :: gw_env where
  "ex_gw_env = \<lparr>ge_net = (\<lambda>_ _ _. ex_net_cb), ge_resp = ex_resp, ge_combo_incr = None, ge_customs = [], ge_combos = [],
     ge_db = False, ge_start = 0, ge_end = 0\<rparr>"

definition ex_gateway :: gateway where
  "ex_gateway = \<lparr>gw_up = ex_up\<lparr>us_grok := NewGrokAccountManager\<rparr>,
     gw_auth = [(''k'', (ex_info ''k'' ''inference'')\<lparr>gk_AllowedModels := [''grok-*'']\<rparr>)], gw_keys = None, gw_custom = None,
     gw_combos = Some (ex_fallback [''grok-4.5-high'', ''cb/gpt-5'']), gw_dispatched = []\<rparr>"

definition ex_chat :: "string \<Rightarrow> proxy_request" where
  "ex_chat model = \<lparr>pr_path = ''/v1/chat/completions'', pr_headers = (\<lambda>_. []), pr_body = Read (Some (JObj [(''model'', JStr model)])),
     pr_client_key = ''k'', pr_request_id = [], pr_key_masked = []\<rparr>"

lemma ex_chat_simps [simp]:
  "chat_path (pr_path (ex_chat m))" "pr_body (ex_chat m) = Read (Some (JObj [(''model'', JStr m)]))"
  "pr_client_key (ex_chat m) = ''k''" "\<not> stream_wanted (ex_chat m) [(''model'', JStr m')]"
  by (simp_all add: ex_chat_def chat_path_def stream_wanted_def)

lemma ex_gateway_simps [simp]:
  "gw_custom ex_gateway = None" "gw_combos ex_gateway = Some (ex_fallback [''grok-4.5-high'', ''cb/gpt-5''])"
  "GetKey (gw_auth ex_gateway) ''k'' = Some ((ex_info ''k'' ''inference'')\<lparr>gk_AllowedModels := [''grok-*'']\<rparr>)"
  "map_of (gw_auth ex_gateway) ''k'' = Some ((ex_info ''k'' ''inference'')\<lparr>gk_AllowedModels := [''grok-*'']\<rparr>)"
  by (simp_all add: ex_gateway_def GetKey_def)

lemma ex_plain_route:
  "ExpandGrokAlias m = None \<Longrightarrow> \<not> prefix ''combo/'' m \<Longrightarrow> m \<noteq> [] \<Longrightarrow>
   resolve_route ex_gw_env ex_gateway [(''model'', JStr m)] =
     (\<lparr>rt_model = m, rt_body = [(''model'', JStr m)], rt_up = [], rt_mn = [], rt_combo = [], rt_strategy = []\<rparr>,
      Some (ex_fallback [''grok-4.5-high'', ''cb/gpt-5'']))"
  by (simp add: resolve_route_def default_model_def jstr_def custom_step_def resolve_custom_def combo_step_def ResolveCombo_def
      alias_step_def expand_alias_def Let_def)

lemma ex_grok_route:
  "resolve_route ex_gw_env ex_gateway [(''model'', JStr ''grok-4'')] =
     (\<lparr>rt_model = ''grok-4'', rt_body = [(''model'', JStr ''grok-4'')], rt_up = [], rt_mn = [], rt_combo = [], rt_strategy = []\<rparr>,
      Some (ex_fallback [''grok-4.5-high'', ''cb/gpt-5'']))"
  by (rule ex_plain_route) (simp_all add: ExpandGrokAlias_def)

lemma ex_allowed:
  "IsModelAllowed [''grok-*''] ''grok-4''" "IsModelAllowed [''grok-*''] ''grok-4.5''" "\<not> IsModelAllowed [''grok-*''] ''cb/gpt-5''"
  by (simp_all add: IsModelAllowed_def MatchModel_def trim_suffix_def suffix_def)

lemma ex_not_denied: "\<not> model_denied ''k'' ''grok-4'' ex_gateway"
  by (simp add: model_denied_def ex_allowed)

lemma call_grok_total: "\<exists>ws c' g'. call_grok env m bm c g = Some (ws, c', ''grok'', bm, g')"
  by (simp add: call_grok_def Let_def split_beta)

lemma fallback_grok_total:
  "\<forall>x \<in> set xs. ExpandGrokAlias x = None \<and> IsGrokModel x \<Longrightarrow> gw_custom g = None \<Longrightarrow> \<exists>r. fallback_loop env xs a g = Some r"
proof (induction xs arbitrary: a g)
  case (Cons x xs)
  obtain ws c' g' where call: "call_grok env x (set_model x (at_body a)) (at_ctx a) g = Some (ws, c', ''grok'', set_model x (at_body a), g')"
    using call_grok_total by blast
  then have d: "dispatch env False [] [] x (set_model x (at_body a)) (at_ctx a) g = Some (ws, c', ''grok'', set_model x (at_body a), g')"
    using Cons.prems(1) by (simp add: dispatch_def)
  have "candidate (gw_custom g) x (at_body a) = (x, [], [], set_model x (at_body a))"
    using Cons.prems by (simp add: candidate_def resolve_custom_def expand_alias_def)
  then show ?case using Cons.IH [of g'] Cons.prems dispatch_fields(4) [OF d] d by (simp add: Let_def)
qed simp

lemma ex_responds: "\<exists>ws c lg g'. ProxyRequest ex_gw_env (ex_chat ''grok-4'') ex_gateway = (Responded ws c lg, g')"
proof -
  have "\<exists>a g'. run_route ex_gw_env (ex_chat ''grok-4'') (fst (resolve_route ex_gw_env ex_gateway [(''model'', JStr ''grok-4'')])) g = Some (a, g')" for g
    using call_grok_total [of ex_gw_env "''grok-4''" "[(''model'', JStr ''grok-4'')]" new_ctx g]
    by (auto simp: run_route_def ex_grok_route dispatch_def IsGrokModel_def Let_def)
  from this [of "ex_gateway\<lparr>gw_combos := Some (ex_fallback [''grok-4.5-high'', ''cb/gpt-5''])\<rparr>"] show ?thesis
    by (auto simp: ProxyRequest_chat [where bm = "[(''model'', JStr ''grok-4'')]"] chat_admitted [OF ex_grok_route] ex_not_denied
        ex_grok_route)
qed

theorem request_routed_witness:
  "\<exists>up hdr body. gw_dispatched (snd (ProxyRequest ex_gw_env (ex_chat ''grok-4'') ex_gateway)) = gw_dispatched ex_gateway @ [(up, hdr, body)]
    \<and> up = ''grok'' \<and> jstr body ''model'' = Some ''grok-4'' \<and> hdr = ''grok-4''"
proof -
  have "fst (ProxyRequest ex_gw_env (ex_chat ''grok-4'') ex_gateway) \<noteq> Panicked" using ex_responds by auto
  then show ?thesis
    using request_routed [OF _ _ ex_grok_route, of "ex_chat ''grok-4''"] ex_not_denied by (simp add: uses_fallback_def IsGrokModel_def)
qed

theorem whitelist_enforced_witness:
  "\<exists>ws c. ProxyRequest ex_gw_env (ex_chat ''cb/gpt-5'') ex_gateway
     = (Responded ws c None, ex_gateway\<lparr>gw_combos := Some (ex_fallback [''grok-4.5-high'', ''cb/gpt-5''])\<rparr>) \<and> status_of ws = 403"
proof (rule whitelist_enforced)
  show "resolve_route ex_gw_env ex_gateway [(''model'', JStr ''cb/gpt-5'')] =
     (\<lparr>rt_model = ''cb/gpt-5'', rt_body = [(''model'', JStr ''cb/gpt-5'')], rt_up = [], rt_mn = [], rt_combo = [], rt_strategy = []\<rparr>,
      Some (ex_fallback [''grok-4.5-high'', ''cb/gpt-5'']))"
    by (rule ex_plain_route) (simp_all add: ExpandGrokAlias_def)
  show "GetKey (gw_auth ex_gateway) (pr_client_key (ex_chat ''cb/gpt-5'')) = Some ((ex_info ''k'' ''inference'')\<lparr>gk_AllowedModels := [''grok-*'']\<rparr>)"
    by simp
qed (simp_all add: ex_allowed)

theorem tokens_accounted_witness:
  "\<exists>ws c lg g'. ProxyRequest ex_gw_env (ex_chat ''grok-4'') ex_gateway = (Responded ws c lg, g')
    \<and> map_of (gw_auth g') = (map_of (gw_auth ex_gateway))(''k'' \<mapsto>
        (let i = (ex_info ''k'' ''inference'')\<lparr>gk_AllowedModels := [''grok-*'']\<rparr>;
             total = wrap64 (toInt (gc_tokens_in c) + toInt (gc_tokens_out c))
         in if total > 0 then counted_info total i else i\<lparr>gk_Requests := wrap64 (gk_Requests i + 1)\<rparr>))"
proof -
  obtain ws c lg g' where r: "ProxyRequest ex_gw_env (ex_chat ''grok-4'') ex_gateway = (Responded ws c lg, g')" using ex_responds by blast
  show ?thesis
    using tokens_accounted [OF _ _ _ r, of "[(''model'', JStr ''grok-4'')]"] r ex_not_denied by (simp add: ex_grok_route Let_def)
qed


end
