(* ===== verification/Gateway.thy ===== *)
theory Gateway
  imports Routing
begin

text \<open>
  Properties of whole chat requests that combine the components: a fallback combo survives the
  failure of an upstream, and the cases in which the fallback chain does not treat its candidates
  as separate requests (whitelist, reasoning effort, error message).
\<close>

subsection \<open>Surviving an outage\<close>

text \<open>CodeBuddy can serve: its circuit is closed and some enabled key always gets a success answer.\<close>

definition cb_serves :: "gw_env \<Rightarrow> string \<Rightarrow> nat \<Rightarrow> upstream_state \<Rightarrow> bool" where
  "cb_serves env key j s \<longleftrightarrow>
     uh_state (us_ch s) = CircuitClosed \<and> keys_masked s \<and> cb_good key s j
     \<and> (\<forall>b n. \<not> ne_cancelled (ge_net env ''codebuddy'' [] b) n
          \<and> (\<exists>st rbody. ne_do (ge_net env ''codebuddy'' [] b) n key = Inr (st, rbody) \<and> st < 400))"

lemma cb_serves_cong: "cb_part s' = cb_part s \<Longrightarrow> cb_serves env key j s' = cb_serves env key j s"
  by (simp add: cb_part_def cb_serves_def keys_masked_def cb_good_def)

lemma serves_outcome:
  assumes "cb_serves env key j s" and "env' = ge_net env ''codebuddy'' [] b"
  shows "(\<exists>i acct st rbody. fst (ProxyCodeBuddy env' (Some (JObj bm)) s) = CServed i acct st rbody
      \<and> mask8 (ck_Key (km_keys (us_cb (snd (ProxyCodeBuddy env' (Some (JObj bm)) s))) ! i)) \<noteq> None)
    \<or> (\<exists>e d. fst (ProxyCodeBuddy env' (Some (JObj bm)) s) = CRejected e d)"
proof -
  let ?p = "pick_proxy env' ''codebuddy'' s"
  let ?s = "snd ?p"
  have closed: "CanRequest (us_now env' s) (us_ch s) = (True, us_ch s)" using assms(1) by (simp add: cb_serves_def CanRequest_def)
  have masked: "keys_masked ?s" and good: "cb_good key ?s j" and j: "j < length (km_keys (us_cb ?s))"
    using assms(1) by (simp_all add: cb_serves_def keys_masked_def cb_good_def)
  have served: "fst (cb_step env' pid start j s') \<noteq> None" if "cb_good key s' j" for pid start s'
  proof -
    obtain st rbody where "ne_do env' (us_calls s') key = Inr (st, rbody)" "st < 400"
      using assms unfolding cb_serves_def by blast
    with that show ?thesis by (simp add: cb_step_def Let_def cb_good_def cb_handle_def)
  qed
  have "\<exists>r. fst (cb_loop env' (fst ?p) (us_now env' ?s) ?s) = AServed r"
    unfolding cb_loop_def
    by (rule cr.retry_all_reaches [where key = key, OF j good]) (use assms served in \<open>simp_all add: cb_serves_def\<close>)
  then obtain r s1 where loop: "cb_loop env' (fst ?p) (us_now env' ?s) ?s = (AServed r, s1)"
    by (cases "cb_loop env' (fst ?p) (us_now env' ?s) ?s") auto
  have ok: "reply_ok r s1" "keys_masked s1" using cb_loop_reply [OF masked loop] by auto
  have m: "mask8 (ck_Key (km_keys (us_cb s1) ! i)) \<noteq> None" if "r = CBOk i st b'" for i st b'
    using ok that by (simp add: reply_ok_def keys_masked_def)
  have "s\<lparr>us_ch := us_ch s\<rparr> = s" by simp
  then show ?thesis
    using loop ok(1) m closed
    by (cases r) (auto simp: ProxyCodeBuddy_def Let_def split_beta cbTransform_def as_map_def reply_ok_def split: option.splits)
qed

lemma set_error_frame [simp]:
  "gc_error_msg (set_usage m c) = gc_error_msg c" "gc_error_msg (set_output m c) = gc_error_msg c"
  by (simp_all add: set_usage_def set_output_def split: option.split)

lemma cb_call_answers:
  assumes "cb_serves env key j (gw_up g)"
  shows "\<exists>ws c' bm' g'. call_cb env False bm c g = Some (ws, c', ''codebuddy'', bm', g') \<and> status_of ws < 500
    \<and> (gc_error_msg c \<noteq> None \<longrightarrow> gc_error_msg c' \<noteq> None)"
proof -
  let ?r = "ProxyCodeBuddy (ge_net env ''codebuddy'' [] (cb_rewrite bm)) (Some (JObj bm)) (gw_up g)"
  consider (served) i acct st rbody where "fst ?r = CServed i acct st rbody" "mask8 (ck_Key (km_keys (us_cb (snd ?r)) ! i)) \<noteq> None"
    | (rejected) e d where "fst ?r = CRejected e d"
    using serves_outcome [OF assms refl, of "cb_rewrite bm" bm] by blast
  then show ?thesis
  proof cases
    case served
    obtain r k' where "cbCollectStream (re_cb (ge_resp env)) (scan_lines rbody) (km_keys (us_cb (snd ?r)) ! i) = (r, Some k')"
      using collect_total [OF served(2)] by blast
    then show ?thesis
      using served(1) by (cases ?r) (simp add: call_cb_def Let_def respond_cb_def cb_answer_def c_JSON_def set_response_def)
  next
    case rejected
    then show ?thesis
      by (cases ?r; cases d) (simp_all add: call_cb_def Let_def respond_cb_def c_JSON_def set_error_def)
  qed
qed

lemma grok_call_keeps:
  "\<exists>ws c' g'. call_grok env m bm c g = Some (ws, c', ''grok'', bm, g') \<and> cb_part (gw_up g') = cb_part (gw_up g)
     \<and> gw_custom g' = gw_custom g"
  using grok_isolated [of "ge_net env ''grok'' m bm" "gw_up g"] by (simp add: call_grok_def Let_def split_beta)

lemma candidate_plain:
  "candidate None cand bm = (let (m, bm') = expand_alias cand bm in (m, [], [], set_model m bm'))"
  by (simp add: candidate_def resolve_custom_def Let_def split_beta)

lemma expand_grok: "IsGrokModel m \<Longrightarrow> IsGrokModel (fst (expand_alias m bm))"
  by (cases "ExpandGrokAlias m") (simp_all add: expand_alias_def Let_def IsGrokModel_def)

lemma alias_is_grok: "ExpandGrokAlias m = Some e \<Longrightarrow> IsGrokModel m"
  by (auto simp: ExpandGrokAlias_def IsGrokModel_def split: if_splits)

lemma expand_other: "\<not> IsGrokModel m \<Longrightarrow> expand_alias m bm = (m, bm)"
  using alias_is_grok [of m] by (cases "ExpandGrokAlias m") (auto simp: expand_alias_def)

lemma fallback_reaches_cb:
  assumes "\<forall>m \<in> set gs. IsGrokModel m" and "\<not> IsGrokModel m" and "gw_custom g = None" and "cb_serves env key j (gw_up g)"
  shows "\<exists>a' g'. fallback_loop env (gs @ m # rest) a g = Some (a', g') \<and> status_of (at_calls a') < 500"
  using assms
proof (induction gs arbitrary: a g)
  case Nil
  obtain ws c' bm' g' where "call_cb env False (set_model m (at_body a)) (at_ctx a) g = Some (ws, c', ''codebuddy'', bm', g')" "status_of ws < 500"
    using cb_call_answers [OF Nil.prems(4)] by blast
  then show ?case
    using Nil.prems(2,3) by (simp add: candidate_plain expand_other dispatch_def Let_def)
next
  case (Cons x gs)
  obtain x' bm where e: "expand_alias x (at_body a) = (x', bm)" by fastforce
  have x': "IsGrokModel x'" using expand_grok [of x "at_body a"] Cons.prems(1) e by simp
  obtain ws c' g' where call: "call_grok env x' (set_model x' bm) (at_ctx a) g = Some (ws, c', ''grok'', set_model x' bm, g')"
    "cb_part (gw_up g') = cb_part (gw_up g)" "gw_custom g' = gw_custom g"
    using grok_call_keeps by blast
  let ?a = "\<lparr>at_calls = flush (bw_run ws), at_ctx = c', at_upstream = ''grok'', at_model = x', at_body = set_model x' bm\<rparr>"
  have step: "fallback_loop env ((x # gs) @ m # rest) a g
      = (if status_of ws < 500 then Some (?a, g') else fallback_loop env (gs @ m # rest) ?a g')"
    using Cons.prems(3) e x' call(1) by (simp add: candidate_plain dispatch_def Let_def)
  show ?case
    using step Cons.IH [of g' ?a] Cons.prems call(2,3) cb_serves_cong [OF call(2)] by (auto simp del: fallback_loop.simps)
qed

lemma resolve_fallback:
  assumes "jstr bm ''model'' = Some (''combo/'' @ n)" and "gw_custom g = None" and "gw_combos g = Some cr"
    and "combos cr n = Some c" and "co_Strategy c = ''fallback''" and "co_Models c \<noteq> []"
  shows "resolve_route env g bm =
    (alias_step \<lparr>rt_model = hd (co_Models c), rt_body = set_model (hd (co_Models c)) bm, rt_up = [], rt_mn = [],
       rt_combo = n, rt_strategy = ''fallback''\<rparr>, Some cr)"
proof -
  have r: "ResolveCombo (ge_combo_incr env) (''combo/'' @ n) cr = (Some (hd (co_Models c)), cr)"
    using assms(4-6) by (simp only: ResolveCombo_at) (simp add: hd_conv_nth)
  have p: "prefix ''combo/'' (''combo/'' @ n)" "trim_prefix ''combo/'' (''combo/'' @ n) = n"
    by (rule prefixI, rule refl) (rule trim_prefix_append)
  show ?thesis
    using assms(1-5) r p
    by (simp add: resolve_route_def default_model_def custom_step_def resolve_custom_def combo_step_def GetCombo_def Let_def del: append_Cons)
qed

lemma alias_step_fields [simp]:
  "rt_combo (alias_step rt) = rt_combo rt" "rt_strategy (alias_step rt) = rt_strategy rt"
  by (simp_all add: alias_step_def split_beta)

lemma stream_wanted_alias:
  "stream_wanted rq (rt_body (alias_step rt)) = stream_wanted rq (rt_body rt)"
  by (auto simp: stream_wanted_def alias_step_def expand_alias_def Let_def split_beta set_model_def update_conv' split: option.split)

lemma stream_wanted_model: "stream_wanted rq (set_model m bm) = stream_wanted rq bm"
  by (simp add: stream_wanted_def set_model_def update_conv')


subsection \<open>Candidates are not separate requests\<close>

definition grok_empty :: "upstream_state \<Rightarrow> bool" where
  "grok_empty s \<longleftrightarrow> uh_state (us_gh s) = CircuitClosed \<and> gm_accounts (us_grok s) = []"

lemma empty_grok_call:
  assumes "grok_empty (gw_up g)"
  shows "\<exists>g'. call_grok env m bm c g = Some (c_JSON 503 (error_json ''all grok accounts on cooldown''),
    set_error ''all grok accounts on cooldown'' (error_json ''all grok accounts on cooldown'') c, ''grok'', bm, g')
    \<and> cb_part (gw_up g') = cb_part (gw_up g) \<and> gw_custom g' = gw_custom g \<and> gw_dispatched g' = gw_dispatched g @ [(''grok'', m, bm)]"
proof -
  let ?r = "ProxyGrok (ge_net env ''grok'' m bm) (gw_up g)"
  have "fst ?r = GAllCooldown"
    using assms by (simp add: grok_empty_def ProxyGrok_def CanRequest_def grok_loop_def Let_def split_beta)
  then show ?thesis
    using grok_isolated [of "ge_net env ''grok'' m bm" "gw_up g"]
    by (cases ?r) (simp add: call_grok_def Let_def respond_grok_def split_beta)
qed

lemma fallback_over_empty_grok:
  assumes "IsGrokModel x" and "\<not> IsGrokModel m" and "gw_custom g = None" and "cb_serves env key j (gw_up g)" and "grok_empty (gw_up g)"
  shows "\<exists>a' g'. fallback_loop env [x, m] a g = Some (a', g') \<and> status_of (at_calls a') < 500 \<and> gc_error_msg (at_ctx a') \<noteq> None
    \<and> (let (x', bm) = expand_alias x (at_body a); bm1 = set_model x' bm
       in gw_dispatched g' = gw_dispatched g @ [(''grok'', x', bm1), (''codebuddy'', [], cb_rewrite (set_model m bm1))])"
proof -
  obtain x' bm where e: "expand_alias x (at_body a) = (x', bm)" by fastforce
  have x': "IsGrokModel x'" using expand_grok [of x "at_body a"] assms(1) e by simp
  let ?bm = "set_model x' bm" and ?c = "set_error ''all grok accounts on cooldown'' (error_json ''all grok accounts on cooldown'') (at_ctx a)"
  let ?ws = "c_JSON 503 (error_json ''all grok accounts on cooldown'')"
  obtain g1 where g1: "call_grok env x' ?bm (at_ctx a) g = Some (?ws, ?c, ''grok'', ?bm, g1)" "cb_part (gw_up g1) = cb_part (gw_up g)"
    "gw_custom g1 = None" "gw_dispatched g1 = gw_dispatched g @ [(''grok'', x', ?bm)]"
    using empty_grok_call [OF assms(5), of env x' ?bm "at_ctx a"] assms(3) by auto
  let ?a1 = "\<lparr>at_calls = flush (bw_run ?ws), at_ctx = ?c, at_upstream = ''grok'', at_model = x', at_body = ?bm\<rparr>"
  have one: "fallback_loop env [x, m] a g = fallback_loop env [m] ?a1 g1"
    using assms(3) e x' g1(1) by (simp add: candidate_plain dispatch_def Let_def c_JSON_def del: fallback_loop.simps(1))
  have serve: "cb_serves env key j (gw_up g1)" using assms(4) cb_serves_cong [OF g1(2)] by simp
  obtain ws c' bm' g' where two: "call_cb env False (set_model m ?bm) ?c g1 = Some (ws, c', ''codebuddy'', bm', g')" "status_of ws < 500"
    "gc_error_msg c' \<noteq> None"
    using cb_call_answers [OF serve, of "set_model m ?bm" ?c] by (auto simp: set_error_def)
  have "gw_dispatched g' = gw_dispatched g1 @ [(''codebuddy'', [], cb_rewrite (set_model m ?bm))]"
    by (rule call_cb_dispatched [OF two(1)])
  moreover have "fallback_loop env [m] ?a1 g1
      = Some (\<lparr>at_calls = flush (bw_run ws), at_ctx = c', at_upstream = ''codebuddy'', at_model = m, at_body = bm'\<rparr>, g')"
    using assms(2) g1(3) two(1,2) by (simp add: candidate_plain expand_other dispatch_def Let_def)
  ultimately show ?thesis using one two g1(4) e by (simp add: Let_def)
qed

text \<open>
  The fallback chain bypasses the whitelist. The whitelist is checked once, for the model the
  combo resolves to first. When that candidate fails (here: Grok has no account), the next one is
  dispatched whatever the key's whitelist says: for every whitelist that admits the first model,
  CodeBuddy receives the request for the second.
\<close>

theorem fallback_bypasses_whitelist:
  assumes "chat_path (pr_path rq)" and "pr_body rq = Read (Some (JObj bm))" and "jstr bm ''model'' = Some (''combo/'' @ n)" and "n \<noteq> []"
    and "\<not> stream_wanted rq bm" and "gw_custom g = None" and "gw_combos g = Some cr" and "combos cr n = Some c"
    and "co_Strategy c = ''fallback''" and "co_Models c = [x, m]" and "IsGrokModel x" and "\<not> IsGrokModel m"
    and "pr_client_key rq \<noteq> []" and "GetKey (gw_auth g) (pr_client_key rq) = Some info"
    and "IsModelAllowed (gk_AllowedModels info) (rt_model (fst (resolve_route env g bm)))"
    and "\<not> IsModelAllowed (gk_AllowedModels info) m" and "cb_serves env key j (gw_up g)" and "grok_empty (gw_up g)"
  shows "\<exists>first body. gw_dispatched (snd (ProxyRequest env rq g)) = gw_dispatched g @ [first, (''codebuddy'', [], body)]
    \<and> jstr body ''model'' = Some (stripCBPrefix m)"
proof -
  obtain rt cbs where rr: "resolve_route env g bm = (rt, cbs)" by fastforce
  note full = resolve_fallback [OF assms(3,6,7,8,9), of env]
  have rt: "rt_combo rt = n" "rt_strategy rt = ''fallback''" "cbs = Some cr" "\<not> stream_wanted rq (rt_body rt)"
    using full rr assms(5,10) stream_wanted_alias [of rq] by (auto simp: stream_wanted_model)
  have nd: "\<not> model_denied (pr_client_key rq) (rt_model rt) g" using assms(14,15) rr by (simp add: model_denied_def)
  let ?g = "g\<lparr>gw_combos := cbs\<rparr>"
  let ?a = "\<lparr>at_calls = [], at_ctx = new_ctx, at_upstream = ''codebuddy'', at_model = rt_model rt, at_body = rt_body rt\<rparr>"
  obtain x' b where e: "expand_alias x (at_body ?a) = (x', b)" by fastforce
  have "\<exists>a' g'. fallback_loop env [x, m] ?a ?g = Some (a', g')
      \<and> gw_dispatched g' = gw_dispatched g @ [(''grok'', x', set_model x' b), (''codebuddy'', [], cb_rewrite (set_model m (set_model x' b)))]"
    using fallback_over_empty_grok [OF assms(11,12), of ?g env key j ?a] assms(6,17,18) e by (auto simp: Let_def)
  then obtain a' g' where loop: "fallback_loop env [x, m] ?a ?g = Some (a', g')"
    "gw_dispatched g' = gw_dispatched g @ [(''grok'', x', set_model x' b), (''codebuddy'', [], cb_rewrite (set_model m (set_model x' b)))]"
    by blast
  have "run_route env rq rt ?g = Some (a', g')"
    using rt loop(1) assms(4,8,10) by (simp add: run_route_def Let_def GetCombo_def del: fallback_loop.simps)
  then show ?thesis
    using loop(2) by (simp add: ProxyRequest_chat [OF assms(1,2)] chat_admitted [OF rr nd] cb_rewrite_model)
qed

text \<open>
  Candidates of one chain see each other. If the first candidate is an effort alias
  (\<^verbatim>\<open>grok-4.5-high\<close>, say) of a failing Grok, the body sent to the next candidate, a CodeBuddy model,
  carries the reasoning effort of the first, which neither the client nor the second candidate asked
  for; and the successful answer is logged with an error message, the one of the first attempt.
\<close>

theorem attempts_leak:
  assumes "ExpandGrokAlias x = Some e" and "\<not> IsGrokModel m" and "gw_custom g = None" and "cb_serves env key j (gw_up g)"
    and "grok_empty (gw_up g)" and "map_of (at_body a) ''reasoning_effort'' = None" and "map_of (at_body a) ''reasoning'' = None"
  shows "\<exists>a' g' first body. fallback_loop env [x, m] a g = Some (a', g') \<and> status_of (at_calls a') < 500
    \<and> gw_dispatched g' = gw_dispatched g @ [first, (''codebuddy'', [], body)]
    \<and> map_of body ''reasoning_effort'' = Some (JStr e) \<and> gc_error_msg (at_ctx a') \<noteq> None"
proof -
  let ?b = "AList.update ''reasoning_effort'' (JStr e) (set_model ''grok-4.5'' (at_body a))"
  have e: "expand_alias x (at_body a) = (''grok-4.5'', ?b)"
    using assms(1,6,7) by (simp add: expand_alias_def Let_def set_model_def update_conv')
  have "map_of (cb_rewrite (set_model m (set_model ''grok-4.5'' ?b))) ''reasoning_effort'' = Some (JStr e)"
    by (simp add: cb_rewrite_fields set_model_def update_conv')
  then show ?thesis
    using fallback_over_empty_grok [OF alias_is_grok [OF assms(1)] assms(2-5), of a] e by (auto simp: Let_def)
qed

subsection \<open>Concrete requests\<close>

lemma ex_serves: "cb_serves ex_gw_env ''ck_bbbbbbbbbbbb'' 1 (gw_up ex_gateway)"
  by (simp add: cb_serves_def ex_gw_env_def ex_gateway_def ex_up_def NewUpstreamHealth_def keys_masked_def cb_good_def
      new_cb_key_def mask8_def slice_to_def slice_last_def ex_net_cb_def ex_net_def)

lemma ex_empty: "grok_empty (gw_up ex_gateway)"
  by (simp add: grok_empty_def ex_gateway_def ex_up_def NewUpstreamHealth_def NewGrokAccountManager_def)

lemma ex_route:
  "rt_model (fst (resolve_route ex_gw_env ex_gateway [(''model'', JStr ''combo/f'')])) = ''grok-4.5''"
proof -
  have "resolve_route ex_gw_env ex_gateway [(''model'', JStr ''combo/f'')] = (alias_step
      \<lparr>rt_model = hd [''grok-4.5-high'', ''cb/gpt-5''], rt_body = set_model (hd [''grok-4.5-high'', ''cb/gpt-5'']) [(''model'', JStr ''combo/f'')],
       rt_up = [], rt_mn = [], rt_combo = ''f'', rt_strategy = ''fallback''\<rparr>, Some (ex_fallback [''grok-4.5-high'', ''cb/gpt-5'']))"
    using resolve_fallback [of "[(''model'', JStr ''combo/f'')]" "''f''" ex_gateway "ex_fallback [''grok-4.5-high'', ''cb/gpt-5'']"
        "\<lparr>co_Name = ''f'', co_Strategy = ''fallback'', co_Models = [''grok-4.5-high'', ''cb/gpt-5''], co_Description = []\<rparr>" ex_gw_env]
    by (simp add: jstr_def ex_fallback_def)
  then show ?thesis by (simp add: alias_step_def expand_alias_def ExpandGrokAlias_def Let_def)
qed


theorem fallback_bypasses_whitelist_witness:
  "\<exists>first body. gw_dispatched (snd (ProxyRequest ex_gw_env (ex_chat ''combo/f'') ex_gateway))
     = gw_dispatched ex_gateway @ [first, (''codebuddy'', [], body)] \<and> jstr body ''model'' = Some (stripCBPrefix ''cb/gpt-5'')"
  by (rule fallback_bypasses_whitelist [of "ex_chat ''combo/f''" "[(''model'', JStr ''combo/f'')]" "''f''" ex_gateway
        "ex_fallback [''grok-4.5-high'', ''cb/gpt-5'']" "\<lparr>co_Name = ''f'', co_Strategy = ''fallback'', co_Models = [''grok-4.5-high'', ''cb/gpt-5''], co_Description = []\<rparr>"
        "''grok-4.5-high''" "''cb/gpt-5''" "(ex_info ''k'' ''inference'')\<lparr>gk_AllowedModels := [''grok-*'']\<rparr>" ex_gw_env "''ck_bbbbbbbbbbbb''" 1])
     (use ex_serves ex_empty ex_allowed in \<open>simp_all add: jstr_def ex_fallback_def IsGrokModel_def ex_route\<close>)

theorem attempts_leak_witness:
  "\<exists>a' g' first body. fallback_loop ex_gw_env [''grok-4.5-high'', ''cb/gpt-5'']
      \<lparr>at_calls = [], at_ctx = new_ctx, at_upstream = [], at_model = [], at_body = []\<rparr> ex_gateway = Some (a', g') \<and> status_of (at_calls a') < 500
    \<and> gw_dispatched g' = gw_dispatched ex_gateway @ [first, (''codebuddy'', [], body)]
    \<and> map_of body ''reasoning_effort'' = Some (JStr ''high'') \<and> gc_error_msg (at_ctx a') \<noteq> None"
  by (rule attempts_leak [OF _ _ _ ex_serves ex_empty]) (simp_all add: ExpandGrokAlias_def IsGrokModel_def)

end
