(* ===== verification/AnthropicRequest.thy ===== *)
theory AnthropicRequest
  imports ModelList
begin

text \<open>
  The request side of the Anthropic adapter (\<^verbatim>\<open>internal/handlers/anthropic.go\<close>): decoding of a
  Messages request, the model mapping, and the translation of messages, tools and tool choice to
  an OpenAI chat-completions body.

  A \<^verbatim>\<open>json.RawMessage\<close> field is an optional JSON value (\<open>None\<close>: absent). The source text of a JSON
  value, which \<^verbatim>\<open>string(raw)\<close> yields, is given by the argument \<open>raw\<close>.
\<close>

subsection \<open>Requests\<close>

record contentBlockIn =
  bi_Type :: string
  bi_Text :: string
  bi_ID :: string
  bi_Name :: string
  bi_Input :: "json option"
  bi_ToolUseID :: string
  bi_ToolContent :: "json option"
  bi_IsError :: bool

definition dec_block :: "json \<Rightarrow> contentBlockIn option" where
  "dec_block v =
     (case json_fields v of
        None \<Rightarrow> None
      | Some m \<Rightarrow>
          (case (dec_string m ''type'', dec_string m ''text'', dec_string m ''id'', dec_string m ''name'',
                 dec_string m ''tool_use_id'', dec_bool m ''is_error'') of
             (Some ty, Some tx, Some i, Some nm, Some tu, Some er) \<Rightarrow>
               Some \<lparr>bi_Type = ty, bi_Text = tx, bi_ID = i, bi_Name = nm, bi_Input = map_of m ''input'',
                     bi_ToolUseID = tu, bi_ToolContent = map_of m ''content'', bi_IsError = er\<rparr>
           | _ \<Rightarrow> None))"

record anthropicMessage =
  am_Role :: string
  am_Content :: "json option"

definition dec_message :: "json \<Rightarrow> anthropicMessage option" where
  "dec_message v =
     (case json_fields v of
        None \<Rightarrow> None
      | Some m \<Rightarrow> map_option (\<lambda>r. \<lparr>am_Role = r, am_Content = map_of m ''content''\<rparr>) (dec_string m ''role''))"

record anthropicRequest =
  ar_Model :: string
  ar_MaxTokens :: int
  ar_System :: "json option"
  ar_Messages :: "anthropicMessage list"
  ar_Stream :: bool
  ar_Temperature :: "rat option"
  ar_TopP :: "rat option"
  ar_StopSequences :: "string list"
  ar_Tools :: "json option"
  ar_ToolChoice :: "json option"

definition dec_request :: "json \<Rightarrow> anthropicRequest option" where
  "dec_request v =
     (case json_fields v of
        None \<Rightarrow> None
      | Some m \<Rightarrow>
          (case (dec_string m ''model'', dec_int m ''max_tokens'', dec_list dec_message m ''messages'', dec_bool m ''stream'',
                 dec_ptr dec_float m ''temperature'', dec_ptr dec_float m ''top_p'', dec_int m ''top_k'', dec_list json_string m ''stop_sequences'') of
             (Some md, Some mt, Some ms, Some st, Some te, Some tp, Some _, Some ss) \<Rightarrow>
               Some \<lparr>ar_Model = md, ar_MaxTokens = mt, ar_System = map_of m ''system'', ar_Messages = ms, ar_Stream = st,
                     ar_Temperature = te, ar_TopP = tp, ar_StopSequences = ss, ar_Tools = map_of m ''tools'',
                     ar_ToolChoice = map_of m ''tool_choice''\<rparr>
           | _ \<Rightarrow> None))"

subsection \<open>Model mapping\<close>

definition defaultAnthropicUpstream :: "string \<Rightarrow> string" where
  "defaultAnthropicUpstream env =
     (let v = TrimSpace env in if v \<noteq> [] then v else ''cb/claude-sonnet-4.6'')"

definition mapAnthropicModel :: "string \<Rightarrow> CustomRegistry option \<Rightarrow> string \<Rightarrow> string" where
  "mapAnthropicModel env reg m0 =
     (let m = TrimSpace m0;
          resolved = (case reg of None \<Rightarrow> m | Some r \<Rightarrow> fst (ResolveCustom r m))
      in if m = [] then defaultAnthropicUpstream env
         else if resolved \<noteq> m then resolved
         else if prefix ''cb/'' m \<or> prefix ''grok-'' m then m
         else if contains ''grok'' (ToLower m) then ''grok-4.5''
         else defaultAnthropicUpstream env)"

subsection \<open>Messages\<close>

definition block_texts :: "contentBlockIn list \<Rightarrow> string list" where
  "block_texts bs = map bi_Text (filter (\<lambda>b. bi_Type b = ''text'' \<and> bi_Text b \<noteq> []) bs)"

definition extractText :: "json option \<Rightarrow> string" where
  "extractText rw =
     (case rw of
        None \<Rightarrow> []
      | Some v \<Rightarrow>
          (case json_string v of
             Some s \<Rightarrow> s
           | None \<Rightarrow> (case json_list dec_block v of Some bs \<Rightarrow> join [newline] (block_texts bs) | None \<Rightarrow> [])))"

definition extractToolResultContent :: "(json \<Rightarrow> string) \<Rightarrow> json option \<Rightarrow> string" where
  "extractToolResultContent raw rw =
     (case rw of
        None \<Rightarrow> []
      | Some v \<Rightarrow>
          (case json_string v of
             Some s \<Rightarrow> s
           | None \<Rightarrow> (case json_list dec_block v of Some bs \<Rightarrow> join [newline] (block_texts bs) | None \<Rightarrow> raw v)))"

definition tool_message :: "(json \<Rightarrow> string) \<Rightarrow> contentBlockIn \<Rightarrow> fields" where
  "tool_message raw b =
     [(''role'', JStr ''tool''), (''tool_call_id'', JStr (bi_ToolUseID b)),
      (''content'', JStr (extractToolResultContent raw (bi_ToolContent b)))]"

definition tool_args :: "(json \<Rightarrow> string) \<Rightarrow> contentBlockIn \<Rightarrow> string" where
  "tool_args raw b = (case bi_Input b of None \<Rightarrow> ''{}'' | Some v \<Rightarrow> if raw v = [] then ''{}'' else raw v)"

definition tool_call :: "(json \<Rightarrow> string) \<Rightarrow> contentBlockIn \<Rightarrow> json" where
  "tool_call raw b =
     JObj [(''id'', JStr (bi_ID b)), (''type'', JStr ''function''),
           (''function'', JObj [(''name'', JStr (bi_Name b)), (''arguments'', JStr (tool_args raw b))])]"

definition text_message :: "string \<Rightarrow> string \<Rightarrow> fields" where
  "text_message role s = [(''role'', JStr role), (''content'', JStr s)]"

definition user_messages :: "(json \<Rightarrow> string) \<Rightarrow> contentBlockIn list \<Rightarrow> fields list" where
  "user_messages raw bs =
     (if block_texts bs \<noteq> [] then [text_message ''user'' (join [newline] (block_texts bs))] else [])
     @ map (tool_message raw) (filter (\<lambda>b. bi_Type b = ''tool_result'') bs)"

definition assistant_message :: "(json \<Rightarrow> string) \<Rightarrow> contentBlockIn list \<Rightarrow> fields" where
  "assistant_message raw bs =
     (let calls = filter (\<lambda>b. bi_Type b = ''tool_use'') bs
      in [(''role'', JStr ''assistant''),
          (''content'', if block_texts bs \<noteq> [] then JStr (join [newline] (block_texts bs)) else JNull)]
         @ (if calls \<noteq> [] then [(''tool_calls'', JArr (map (tool_call raw) calls))] else []))"

text \<open>An absent content is not valid JSON, so both decoding attempts fail.\<close>

definition message_string :: "anthropicMessage \<Rightarrow> string option" where
  "message_string m = (case am_Content m of None \<Rightarrow> None | Some v \<Rightarrow> json_string v)"

definition message_blocks :: "anthropicMessage \<Rightarrow> contentBlockIn list option" where
  "message_blocks m = (case am_Content m of None \<Rightarrow> None | Some v \<Rightarrow> json_list dec_block v)"

definition translate_message :: "(json \<Rightarrow> string) \<Rightarrow> anthropicMessage \<Rightarrow> fields list" where
  "translate_message raw m =
     (case message_string m of
        Some s \<Rightarrow> [text_message (am_Role m) s]
      | None \<Rightarrow>
          (case message_blocks m of
             None \<Rightarrow> [text_message (am_Role m) (extractText (am_Content m))]
           | Some bs \<Rightarrow>
               if am_Role m = ''user'' then user_messages raw bs
               else if am_Role m = ''assistant'' then [assistant_message raw bs]
               else [text_message (am_Role m) (extractText (am_Content m))]))"

definition translateMessages :: "(json \<Rightarrow> string) \<Rightarrow> anthropicMessage list \<Rightarrow> fields list" where
  "translateMessages raw msgs = concat (map (translate_message raw) msgs)"

subsection \<open>Tools\<close>

definition dec_tool :: "json \<Rightarrow> (string \<times> string \<times> json option) option" where
  "dec_tool v =
     (case json_fields v of
        None \<Rightarrow> None
      | Some m \<Rightarrow>
          (case (dec_string m ''name'', dec_string m ''description'') of
             (Some n, Some d) \<Rightarrow> Some (n, d, map_of m ''input_schema'')
           | _ \<Rightarrow> None))"

definition tool_json :: "string \<times> string \<times> json option \<Rightarrow> json" where
  "tool_json t =
     (case t of (n, d, schema) \<Rightarrow>
        JObj [(''type'', JStr ''function''),
              (''function'', JObj ([(''name'', JStr n)]
                 @ (if d \<noteq> [] then [(''description'', JStr d)] else [])
                 @ [(''parameters'', case schema of Some v \<Rightarrow> v
                       | None \<Rightarrow> JObj [(''type'', JStr ''object''), (''properties'', JObj [])])]))])"

definition translateTools :: "json option \<Rightarrow> json list" where
  "translateTools rw =
     (case rw of
        None \<Rightarrow> []
      | Some v \<Rightarrow> (case json_list dec_tool v of None \<Rightarrow> [] | Some ts \<Rightarrow> map tool_json ts))"

definition translateToolChoice :: "json option \<Rightarrow> json option" where
  "translateToolChoice rw =
     (case rw of
        None \<Rightarrow> None
      | Some v \<Rightarrow>
          (case json_string v of
             Some s \<Rightarrow> Some (JStr (if s = ''any'' then ''required'' else if s = ''auto'' \<or> s = ''none'' then s else ''auto''))
           | None \<Rightarrow>
               (case json_fields v of
                  None \<Rightarrow> None
                | Some m \<Rightarrow>
                    (case (dec_string m ''type'', dec_string m ''name'') of
                       (Some ty, Some nm) \<Rightarrow>
                         Some (if ty = ''auto'' then JStr ''auto'' else if ty = ''any'' then JStr ''required''
                               else if ty = ''none'' then JStr ''none''
                               else if ty = ''tool'' \<and> nm \<noteq> []
                               then JObj [(''type'', JStr ''function''), (''function'', JObj [(''name'', JStr nm)])]
                               else JStr ''auto'')
                     | _ \<Rightarrow> None))))"

definition buildOpenAIBody ::
  "(json \<Rightarrow> string) \<Rightarrow> string \<Rightarrow> CustomRegistry option \<Rightarrow> anthropicRequest \<Rightarrow> fields \<times> string" where
  "buildOpenAIBody raw env reg req =
     (let upstreamModel = mapAnthropicModel env reg (ar_Model req);
          systxt = extractText (ar_System req);
          sys = (if ar_System req \<noteq> None \<and> TrimSpace systxt \<noteq> [] then [text_message ''system'' systxt] else []);
          msgs = sys @ translateMessages raw (ar_Messages req);
          tools = translateTools (ar_Tools req)
      in ([(''model'', JStr upstreamModel), (''messages'', JArr (map JObj msgs)), (''stream'', JBool (ar_Stream req))]
          @ (if ar_MaxTokens req > 0 then [(''max_tokens'', JNum (of_int (ar_MaxTokens req)))] else [])
          @ (case ar_Temperature req of Some t \<Rightarrow> [(''temperature'', JNum t)] | None \<Rightarrow> [])
          @ (case ar_TopP req of Some t \<Rightarrow> [(''top_p'', JNum t)] | None \<Rightarrow> [])
          @ (if ar_StopSequences req \<noteq> [] then [(''stop'', JArr (map JStr (ar_StopSequences req)))] else [])
          @ (if tools \<noteq> [] then [(''tools'', JArr tools)] else [])
          @ (case translateToolChoice (ar_ToolChoice req) of Some v \<Rightarrow> [(''tool_choice'', v)] | None \<Rightarrow> []),
          upstreamModel))"

subsection \<open>No tool traffic is lost or reordered\<close>

text \<open>
  The tool results and the tool calls of a conversation, read off the Anthropic messages, and read
  off the translated OpenAI messages.
\<close>

definition blocks_of :: "string \<Rightarrow> string \<Rightarrow> anthropicMessage \<Rightarrow> contentBlockIn list" where
  "blocks_of role ty m =
     (if am_Role m \<noteq> role \<or> message_string m \<noteq> None then []
      else case message_blocks m of None \<Rightarrow> [] | Some bs \<Rightarrow> filter (\<lambda>b. bi_Type b = ty) bs)"

definition results_in :: "(json \<Rightarrow> string) \<Rightarrow> anthropicMessage list \<Rightarrow> (string \<times> string) list" where
  "results_in raw msgs =
     map (\<lambda>b. (bi_ToolUseID b, extractToolResultContent raw (bi_ToolContent b))) (concat (map (blocks_of ''user'' ''tool_result'') msgs))"

definition calls_in :: "(json \<Rightarrow> string) \<Rightarrow> anthropicMessage list \<Rightarrow> (string \<times> string \<times> string) list" where
  "calls_in raw msgs =
     map (\<lambda>b. (bi_ID b, bi_Name b, tool_args raw b)) (concat (map (blocks_of ''assistant'' ''tool_use'') msgs))"

definition result_of :: "fields \<Rightarrow> (string \<times> string) option" where
  "result_of m = (case (jstr m ''tool_call_id'', jstr m ''content'') of (Some i, Some c) \<Rightarrow> Some (i, c) | _ \<Rightarrow> None)"

definition call_of :: "json \<Rightarrow> (string \<times> string \<times> string) option" where
  "call_of v =
     (case v of
        JObj m \<Rightarrow>
          (case (jstr m ''id'', jobj m ''function'') of
             (Some i, Some f) \<Rightarrow>
               (case (jstr f ''name'', jstr f ''arguments'') of (Some n, Some a) \<Rightarrow> Some (i, n, a) | _ \<Rightarrow> None)
           | _ \<Rightarrow> None)
      | _ \<Rightarrow> None)"

definition calls_of :: "fields \<Rightarrow> (string \<times> string \<times> string) list" where
  "calls_of m = (case jarr m ''tool_calls'' of None \<Rightarrow> [] | Some vs \<Rightarrow> List.map_filter call_of vs)"

lemma message_readers [simp]:
  "result_of (text_message r s) = None" "calls_of (text_message r s) = []"
  "result_of (tool_message raw b) = Some (bi_ToolUseID b, extractToolResultContent raw (bi_ToolContent b))"
  "calls_of (tool_message raw b) = []" "result_of (assistant_message raw bs) = None"
  "call_of (tool_call raw b) = Some (bi_ID b, bi_Name b, tool_args raw b)"
  by (simp_all add: result_of_def calls_of_def text_message_def tool_message_def assistant_message_def call_of_def tool_call_def
      jstr_def jarr_def jobj_def Let_def)

lemma calls_of_assistant [simp]:
  "calls_of (assistant_message raw bs)
     = map (\<lambda>b. (bi_ID b, bi_Name b, tool_args raw b)) (filter (\<lambda>b. bi_Type b = ''tool_use'') bs)"
  by (simp add: calls_of_def assistant_message_def jarr_def Let_def map_filter_def o_def)

lemma map_filter_tools [simp]:
  "List.map_filter result_of (map (tool_message raw) bs)
     = map (\<lambda>b. (bi_ToolUseID b, extractToolResultContent raw (bi_ToolContent b))) bs"
  by (simp add: map_filter_def o_def)

lemma translate_one:
  "List.map_filter result_of (translate_message raw m)
     = map (\<lambda>b. (bi_ToolUseID b, extractToolResultContent raw (bi_ToolContent b))) (blocks_of ''user'' ''tool_result'' m)"
  "concat (map calls_of (translate_message raw m))
     = map (\<lambda>b. (bi_ID b, bi_Name b, tool_args raw b)) (blocks_of ''assistant'' ''tool_use'' m)"
  by (auto simp: translate_message_def blocks_of_def user_messages_def List.map_filter_def o_def split: option.split)

lemma map_filter_append: "List.map_filter f (xs @ ys) = List.map_filter f xs @ List.map_filter f ys"
  by (simp add: List.map_filter_def)

text \<open>
  C38: The translation keeps the tool traffic. The tool messages of the translated conversation
  are exactly the tool results of the user messages, with their identifiers and text, and its tool
  calls are exactly the tool uses of the assistant messages, with identifier, name and arguments,
  both in the original order.
\<close>

theorem translation_keeps_tools:
  "List.map_filter result_of (translateMessages raw msgs) = results_in raw msgs
   \<and> concat (map calls_of (translateMessages raw msgs)) = calls_in raw msgs"
proof (induction msgs)
  case (Cons m msgs)
  then show ?case
    by (simp add: translateMessages_def results_in_def calls_in_def map_filter_append translate_one)
qed (simp add: translateMessages_def results_in_def calls_in_def List.map_filter_def)

text \<open>
  Results come after the user's text: a user message with a result and a text becomes a user
  message followed by the tool message, so that the tool message does not follow the assistant
  message that asked for it.
\<close>

lemma text_overtakes_results:
  "translateMessages raw
     [\<lparr>am_Role = ''assistant'', am_Content = Some (JArr [JObj [(''type'', JStr ''tool_use''), (''id'', JStr ''t1''), (''name'', JStr ''f'')]])\<rparr>,
      \<lparr>am_Role = ''user'', am_Content = Some (JArr [JObj [(''type'', JStr ''tool_result''), (''tool_use_id'', JStr ''t1''), (''content'', JStr ''42'')],
                                               JObj [(''type'', JStr ''text''), (''text'', JStr ''thanks'')]])\<rparr>]
   = [[(''role'', JStr ''assistant''), (''content'', JNull),
       (''tool_calls'', JArr [JObj [(''id'', JStr ''t1''), (''type'', JStr ''function''),
          (''function'', JObj [(''name'', JStr ''f''), (''arguments'', JStr ''{}'')])]])],
      [(''role'', JStr ''user''), (''content'', JStr ''thanks'')],
      [(''role'', JStr ''tool''), (''tool_call_id'', JStr ''t1''), (''content'', JStr ''42'')]]"
  by (simp add: translateMessages_def translate_message_def message_string_def message_blocks_def json_string_def json_list_def
      dec_block_def json_fields_def dec_string_def dec_bool_def assistant_message_def user_messages_def block_texts_def
      tool_call_def tool_args_def tool_message_def extractToolResultContent_def text_message_def Let_def)

subsection \<open>Which models a Messages client can reach\<close>

text \<open>
  A Messages client cannot reach combos or unprefixed custom models. A trimmed name without
  the prefixes \<^verbatim>\<open>cb/\<close> and \<^verbatim>\<open>grok-\<close> and without the word grok that is no alias is mapped to the
  default model, whether or not the registry has a custom model of that name; in particular every
  \<^verbatim>\<open>combo/\<close> name the model listing advertises.
\<close>

theorem messages_client_gets_default:
  assumes "TrimSpace m = m" and "m \<noteq> []" and "cr_aliases r m = None" and "\<not> prefix ''cb/'' m" and "\<not> prefix ''grok-'' m"
    and "\<not> contains ''grok'' (ToLower m)"
  shows "mapAnthropicModel env (Some r) m = defaultAnthropicUpstream env"
proof -
  have "fst (ResolveCustom r m) = m" using assms(3) by (simp add: ResolveCustom_def split: option.split)
  then show ?thesis using assms by (simp add: mapAnthropicModel_def Let_def)
qed

theorem messages_client_gets_default_witness:
  "mapAnthropicModel [] (Some NewCustomRegistry) ''combo/f'' = defaultAnthropicUpstream []"
  by (rule messages_client_gets_default)
     (simp_all add: NewCustomRegistry_def TrimSpace_def trim_by.simps seq_len_def space_seqs_def lower_char_def upper_chars_def
       lower_chars_def)

text \<open>The mapping never yields an empty model name.\<close>

lemma mapped_model_nonempty: "mapAnthropicModel env reg m \<noteq> []"
proof -
  have d: "defaultAnthropicUpstream env \<noteq> []" by (simp add: defaultAnthropicUpstream_def Let_def)
  have "fst (ResolveCustom r x) \<noteq> x \<Longrightarrow> fst (ResolveCustom r x) \<noteq> []" for r x
    by (auto simp: ResolveCustom_def Let_def split: option.splits if_splits)
  then show ?thesis using d by (auto simp: mapAnthropicModel_def Let_def split: option.splits)
qed

end
