(* ===== verification/AnthropicStream.thy ===== *)
theory AnthropicStream
  imports Response
begin

text \<open>
  The streaming side of the Anthropic adapter (\<^verbatim>\<open>internal/handlers/anthropic.go\<close>): \<^verbatim>\<open>streamWriter\<close>
  reads OpenAI server-sent events from what the proxy writes and emits Anthropic events. The
  events sent so far are part of the state. \<^verbatim>\<open>toolBlocks\<close> is a Go map whose entries are created in
  the order of their block index; it is kept as a list in that order. JSON decoding of a chunk is
  an argument.
\<close>

subsection \<open>Chunks, events and the writer\<close>

record tool_delta =
  td_Index :: int
  td_ID :: string
  td_Name :: string
  td_Arguments :: string

record oai_choice =
  oc_Content :: string
  oc_ToolCalls :: "tool_delta list"
  oc_Finish :: "string option"

record oai_chunk =
  oc_Choice :: "oai_choice option"
  oc_Usage :: "(int \<times> int) option"

datatype sse_event =
    MessageStart string string
  | TextStart
  | ToolStart nat string string
  | TextDelta string
  | JsonDelta nat string
  | BlockStop nat
  | MessageDelta string int
  | MessageStop

record streamToolBlock =
  tb_anthropicIdx :: nat
  tb_id :: string
  tb_name :: string
  tb_started :: bool
  tb_closed :: bool

record streamWriter =
  sw_msgID :: string
  sw_model :: string
  sw_started :: bool
  sw_textOpen :: bool
  sw_textClosed :: bool
  sw_stopped :: bool
  sw_finish :: string
  sw_inputToks :: int
  sw_outputToks :: int
  sw_textBuf :: string
  sw_carry :: string
  sw_errBuf :: "body_part list"
  sw_toolBlocks :: "(int \<times> streamToolBlock) list"
  sw_nextBlockIdx :: nat
  sw_statusCode :: int
  sw_events :: "sse_event list"

definition newStreamWriter :: "string \<Rightarrow> string \<Rightarrow> streamWriter" where
  "newStreamWriter msgID model =
     \<lparr>sw_msgID = msgID, sw_model = model, sw_started = False, sw_textOpen = False, sw_textClosed = False, sw_stopped = False,
      sw_finish = [], sw_inputToks = 0, sw_outputToks = 0, sw_textBuf = [], sw_carry = [], sw_errBuf = [], sw_toolBlocks = [],
      sw_nextBlockIdx = 1, sw_statusCode = 200, sw_events = []\<rparr>"

definition mapStopReason :: "string \<Rightarrow> string" where
  "mapStopReason f =
     (if f = ''length'' then ''max_tokens'' else if f = ''content_filter'' then ''stop_sequence''
      else if f = ''tool_calls'' \<or> f = ''function_call'' then ''tool_use'' else ''end_turn'')"

definition emitEvent :: "sse_event \<Rightarrow> streamWriter \<Rightarrow> streamWriter" where
  "emitEvent e w = w\<lparr>sw_events := sw_events w @ [e]\<rparr>"

definition ensureStart :: "streamWriter \<Rightarrow> streamWriter" where
  "ensureStart w =
     (if sw_started w then w else emitEvent (MessageStart (sw_msgID w) (sw_model w)) (w\<lparr>sw_started := True\<rparr>))"

definition ensureTextBlock :: "streamWriter \<Rightarrow> streamWriter" where
  "ensureTextBlock w = (if sw_textOpen w then w else emitEvent TextStart (w\<lparr>sw_textOpen := True\<rparr>))"

definition closeTextBlock :: "streamWriter \<Rightarrow> streamWriter" where
  "closeTextBlock w =
     (if \<not> sw_textOpen w \<or> sw_textClosed w then w else emitEvent (BlockStop 0) (w\<lparr>sw_textClosed := True\<rparr>))"

text \<open>The position of the block of an OpenAI index, created if it is missing.\<close>

definition tool_slot :: "int \<Rightarrow> streamWriter \<Rightarrow> nat \<times> streamWriter" where
  "tool_slot idx w =
     (case find_index (\<lambda>(k, _). k = idx) (sw_toolBlocks w) of
        Some i \<Rightarrow> (i, w)
      | None \<Rightarrow>
          (length (sw_toolBlocks w),
           w\<lparr>sw_toolBlocks := sw_toolBlocks w
                @ [(idx, \<lparr>tb_anthropicIdx = sw_nextBlockIdx w, tb_id = [], tb_name = [], tb_started = False, tb_closed = False\<rparr>)],
             sw_nextBlockIdx := sw_nextBlockIdx w + 1\<rparr>))"

definition set_block :: "nat \<Rightarrow> streamToolBlock \<Rightarrow> streamWriter \<Rightarrow> streamWriter" where
  "set_block i tb w = w\<lparr>sw_toolBlocks := (sw_toolBlocks w)[i := (fst (sw_toolBlocks w ! i), tb)]\<rparr>"

text \<open>The identifier and the name of a block are taken from the first delta that has them.\<close>

definition merge_delta :: "string \<Rightarrow> string \<Rightarrow> streamToolBlock \<Rightarrow> streamToolBlock" where
  "merge_delta i name tb =
     tb\<lparr>tb_id := (if i \<noteq> [] \<and> tb_id tb = [] then i else tb_id tb),
        tb_name := (if name \<noteq> [] \<and> tb_name tb = [] then name else tb_name tb)\<rparr>"

definition ensureToolBlock :: "int \<Rightarrow> string \<Rightarrow> string \<Rightarrow> streamWriter \<Rightarrow> nat \<times> streamWriter" where
  "ensureToolBlock openaiIdx i name w0 =
     (let (slot, w) = tool_slot openaiIdx w0;
          tb = merge_delta i name (snd (sw_toolBlocks w ! slot))
      in (slot,
          if \<not> tb_started tb \<and> tb_name tb \<noteq> []
          then emitEvent (ToolStart (tb_anthropicIdx tb) (tb_id tb) (tb_name tb))
                 (set_block slot (tb\<lparr>tb_started := True\<rparr>) (closeTextBlock w))
          else set_block slot tb w))"

definition tool_step :: "tool_delta \<Rightarrow> streamWriter \<Rightarrow> streamWriter" where
  "tool_step tc w0 =
     (let (slot, w) = ensureToolBlock (td_Index tc) (td_ID tc) (td_Name tc) (ensureStart w0);
          tb = snd (sw_toolBlocks w ! slot)
      in if td_Arguments tc \<noteq> [] \<and> tb_started tb
         then emitEvent (JsonDelta (tb_anthropicIdx tb) (td_Arguments tc)) w else w)"

definition text_step :: "string \<Rightarrow> streamWriter \<Rightarrow> streamWriter" where
  "text_step s w =
     (if s = [] then w
      else let w1 = ensureTextBlock (ensureStart w) in emitEvent (TextDelta s) (w1\<lparr>sw_textBuf := sw_textBuf w1 @ s\<rparr>))"

definition usage_step :: "oai_chunk \<Rightarrow> streamWriter \<Rightarrow> streamWriter" where
  "usage_step oc w =
     (case oc_Usage oc of None \<Rightarrow> w | Some (pt, ct) \<Rightarrow> w\<lparr>sw_inputToks := pt, sw_outputToks := ct\<rparr>)"

definition chunk_step :: "oai_chunk \<Rightarrow> streamWriter \<Rightarrow> streamWriter" where
  "chunk_step oc w0 =
     (let w = usage_step oc w0
      in case oc_Choice oc of
           None \<Rightarrow> w
         | Some ch \<Rightarrow>
             (let w1 = fold tool_step (oc_ToolCalls ch) (text_step (oc_Content ch) w)
              in case oc_Finish ch of
                   Some f \<Rightarrow> if f \<noteq> [] then w1\<lparr>sw_finish := f\<rparr> else w1
                 | None \<Rightarrow> w1))"

text \<open>Closing the tool blocks: in ascending block index, those that were started and not closed.\<close>

definition close_tools :: "streamWriter \<Rightarrow> streamWriter" where
  "close_tools w =
     (let ordered = sort_key tb_anthropicIdx (map snd (sw_toolBlocks w))
      in w\<lparr>sw_events := sw_events w @ map (\<lambda>tb. BlockStop (tb_anthropicIdx tb)) (filter (\<lambda>tb. tb_started tb \<and> \<not> tb_closed tb) ordered),
           sw_toolBlocks := map (\<lambda>(k, tb). (k, if tb_started tb then tb\<lparr>tb_closed := True\<rparr> else tb)) (sw_toolBlocks w)\<rparr>)"

definition finalize :: "streamWriter \<Rightarrow> streamWriter" where
  "finalize w0 =
     (if sw_stopped w0 then w0
      else let w1 = ensureStart w0;
               w2 = (if \<not> sw_textOpen w1 \<and> sw_toolBlocks w1 = [] then ensureTextBlock w1 else w1);
               w3 = close_tools (closeTextBlock (w2\<lparr>sw_stopped := True\<rparr>))
           in emitEvent MessageStop (emitEvent (MessageDelta (mapStopReason (sw_finish w3)) (sw_outputToks w3)) w3))"

subsection \<open>Lines\<close>

datatype sse_item = Skip | Done | Chunk oai_chunk

definition parse_line :: "(string \<Rightarrow> oai_chunk option) \<Rightarrow> string \<Rightarrow> sse_item" where
  "parse_line decode line =
     (if \<not> prefix ''data: '' line \<and> \<not> prefix ''data:'' line then Skip
      else let data = TrimSpace (trim_prefix ''data:'' (trim_prefix ''data: '' line))
           in if data = [] then Skip
              else if data = ''[DONE]'' then Done
              else case decode data of None \<Rightarrow> Skip | Some oc \<Rightarrow> Chunk oc)"

fun item_step :: "sse_item \<Rightarrow> streamWriter \<Rightarrow> streamWriter" where
  "item_step Skip w = w"
| "item_step Done w = finalize w"
| "item_step (Chunk oc) w = chunk_step oc w"

definition processLine :: "(string \<Rightarrow> oai_chunk option) \<Rightarrow> string \<Rightarrow> streamWriter \<Rightarrow> streamWriter" where
  "processLine decode line w = item_step (parse_line decode line) w"

definition trim_right_cr :: "string \<Rightarrow> string" where
  "trim_right_cr s = rev (dropWhile (\<lambda>c. c = CHR 0x0D) (rev s))"

definition sw_Write :: "(string \<Rightarrow> oai_chunk option) \<Rightarrow> string \<Rightarrow> streamWriter \<Rightarrow> streamWriter" where
  "sw_Write decode p w =
     (if \<not> sw_started w \<and> sw_statusCode w \<ge> 400 then w\<lparr>sw_errBuf := sw_errBuf w @ [Raw p]\<rparr>
      else let ls = split_at newline (sw_carry w @ p)
           in fold (\<lambda>ln. processLine decode (trim_right_cr ln)) (butlast ls) (w\<lparr>sw_carry := last ls\<rparr>))"

text \<open>What the handler does after the proxy returned: the unfinished line, and the closing events.\<close>

definition sw_end :: "(string \<Rightarrow> oai_chunk option) \<Rightarrow> streamWriter \<Rightarrow> streamWriter" where
  "sw_end decode w0 =
     (let w1 = (if sw_carry w0 \<noteq> [] then (processLine decode (trim_right_cr (sw_carry w0)) w0)\<lparr>sw_carry := []\<rparr> else w0)
      in if sw_started w1 \<and> \<not> sw_stopped w1 then finalize w1 else w1)"

subsection \<open>The Anthropic event protocol\<close>

text \<open>
  A monitor for event sequences: a message starts once; a block is opened at most once, receives
  deltas only while it is open and is closed once; the message is completed only when no block is
  open, and nothing follows its end.
\<close>

datatype phase = Idle | Running | Completed | Ended

record monitor =
  mo_phase :: phase
  mo_open :: "nat set"
  mo_seen :: "nat set"

definition mo_start :: monitor where
  "mo_start = \<lparr>mo_phase = Idle, mo_open = {}, mo_seen = {}\<rparr>"

fun mo_step :: "sse_event \<Rightarrow> monitor \<Rightarrow> monitor option" where
  "mo_step (MessageStart i md) s = (if mo_phase s = Idle then Some (s\<lparr>mo_phase := Running\<rparr>) else None)"
| "mo_step TextStart s =
     (if mo_phase s = Running \<and> 0 \<notin> mo_seen s
      then Some (s\<lparr>mo_open := insert 0 (mo_open s), mo_seen := insert 0 (mo_seen s)\<rparr>) else None)"
| "mo_step (ToolStart i x n) s =
     (if mo_phase s = Running \<and> i \<notin> mo_seen s
      then Some (s\<lparr>mo_open := insert i (mo_open s), mo_seen := insert i (mo_seen s)\<rparr>) else None)"
| "mo_step (TextDelta t) s = (if mo_phase s = Running \<and> 0 \<in> mo_open s then Some s else None)"
| "mo_step (JsonDelta i t) s = (if mo_phase s = Running \<and> i \<in> mo_open s then Some s else None)"
| "mo_step (BlockStop i) s =
     (if mo_phase s = Running \<and> i \<in> mo_open s then Some (s\<lparr>mo_open := mo_open s - {i}\<rparr>) else None)"
| "mo_step (MessageDelta r n) s =
     (if mo_phase s = Running \<and> mo_open s = {} then Some (s\<lparr>mo_phase := Completed\<rparr>) else None)"
| "mo_step MessageStop s = (if mo_phase s = Completed then Some (s\<lparr>mo_phase := Ended\<rparr>) else None)"

fun mo_run :: "sse_event list \<Rightarrow> monitor \<Rightarrow> monitor option" where
  "mo_run [] s = Some s"
| "mo_run (e # es) s = (case mo_step e s of None \<Rightarrow> None | Some s' \<Rightarrow> mo_run es s')"

lemma mo_run_append: "mo_run (xs @ ys) s = (case mo_run xs s of None \<Rightarrow> None | Some s' \<Rightarrow> mo_run ys s')"
  by (induction xs arbitrary: s) (auto split: option.split)

text \<open>The monitor state a writer stands for, and the shape of its block table.\<close>

definition slot_open :: "(int \<times> streamToolBlock) list \<Rightarrow> nat set" where
  "slot_open ts = {Suc i | i. i < length ts \<and> tb_started (snd (ts ! i)) \<and> \<not> tb_closed (snd (ts ! i))}"

definition slot_seen :: "(int \<times> streamToolBlock) list \<Rightarrow> nat set" where
  "slot_seen ts = {Suc i | i. i < length ts \<and> tb_started (snd (ts ! i))}"

definition mo_of :: "streamWriter \<Rightarrow> monitor" where
  "mo_of w =
     \<lparr>mo_phase = (if sw_stopped w then Ended else if sw_started w then Running else Idle),
      mo_open = (if sw_textOpen w \<and> \<not> sw_textClosed w then {0} else {}) \<union> slot_open (sw_toolBlocks w),
      mo_seen = (if sw_textOpen w then {0} else {}) \<union> slot_seen (sw_toolBlocks w)\<rparr>"

definition table_ok :: "streamWriter \<Rightarrow> bool" where
  "table_ok w \<longleftrightarrow>
     sw_nextBlockIdx w = Suc (length (sw_toolBlocks w))
     \<and> (\<forall>i < length (sw_toolBlocks w). tb_anthropicIdx (snd (sw_toolBlocks w ! i)) = Suc i
          \<and> \<not> tb_closed (snd (sw_toolBlocks w ! i)))
     \<and> (sw_textClosed w \<longrightarrow> sw_textOpen w)
     \<and> (\<not> sw_started w \<longrightarrow> \<not> sw_textOpen w \<and> sw_toolBlocks w = [])"

definition live :: "streamWriter \<Rightarrow> bool" where
  "live w \<longleftrightarrow> table_ok w \<and> \<not> sw_stopped w \<and> mo_run (sw_events w) mo_start = Some (mo_of w)"

lemma live_new: "live (newStreamWriter i m)"
  by (simp add: live_def table_ok_def newStreamWriter_def mo_of_def mo_start_def slot_open_def slot_seen_def)

lemma slots_append:
  "\<not> tb_started tb \<Longrightarrow> slot_open (ts @ [(k, tb)]) = slot_open ts"
  "\<not> tb_started tb \<Longrightarrow> slot_seen (ts @ [(k, tb)]) = slot_seen ts"
  by (auto simp: slot_open_def slot_seen_def nth_append less_Suc_eq)

lemma slots_zero [simp]: "0 \<notin> slot_open ts" "0 \<notin> slot_seen ts"
  by (auto simp: slot_open_def slot_seen_def)

lemma slots_update_same:
  assumes "i < length ts" and "tb_started tb = tb_started (snd (ts ! i))" and "tb_closed tb = tb_closed (snd (ts ! i))"
  shows "slot_open (ts[i := (k, tb)]) = slot_open ts" "slot_seen (ts[i := (k, tb)]) = slot_seen ts"
  using assms by (auto simp: slot_open_def slot_seen_def nth_list_update)

lemma slots_update_start:
  assumes "i < length ts" and "\<not> tb_started (snd (ts ! i))" and "tb_started tb" and "\<not> tb_closed tb"
  shows "slot_open (ts[i := (k, tb)]) = insert (Suc i) (slot_open ts)" "slot_seen (ts[i := (k, tb)]) = insert (Suc i) (slot_seen ts)"
    "Suc i \<notin> slot_seen ts"
  using assms by (auto simp: slot_open_def slot_seen_def nth_list_update split: if_splits)

lemmas writer_defs = emitEvent_def ensureStart_def ensureTextBlock_def closeTextBlock_def

lemma live_start: "live w \<Longrightarrow> live (ensureStart w) \<and> sw_started (ensureStart w)"
  by (auto simp: live_def table_ok_def writer_defs mo_run_append mo_of_def slot_open_def slot_seen_def)

lemma live_open_text: "live w \<Longrightarrow> sw_started w \<Longrightarrow> live (ensureTextBlock w) \<and> sw_started (ensureTextBlock w) \<and> sw_textOpen (ensureTextBlock w)"
  by (auto simp: live_def table_ok_def writer_defs mo_run_append mo_of_def)

lemma live_close_text: "live w \<Longrightarrow> sw_started w \<Longrightarrow> live (closeTextBlock w) \<and> sw_started (closeTextBlock w)"
  by (auto simp: live_def table_ok_def writer_defs mo_run_append mo_of_def)

lemma live_usage: "live w \<Longrightarrow> live (usage_step oc w)"
  by (auto simp: live_def table_ok_def usage_step_def mo_of_def split: option.split)

lemma live_text:
  assumes "live w" and "s = [] \<or> \<not> sw_textClosed w"
  shows "live (text_step s w)"
proof (cases "s = []")
  case False
  let ?w = "ensureTextBlock (ensureStart w)"
  have l: "live ?w" "sw_started ?w" "sw_textOpen ?w" using live_start [OF assms(1)] live_open_text by blast+
  moreover have "\<not> sw_textClosed ?w" using assms(2) False by (simp add: writer_defs)
  ultimately show ?thesis
    using False by (auto simp: text_step_def Let_def emitEvent_def live_def table_ok_def mo_run_append mo_of_def)
qed (use assms in \<open>simp add: text_step_def\<close>)

lemma tool_slot_live:
  assumes "live w" and "sw_started w" and "tool_slot k w = (i, w')"
  shows "live w' \<and> sw_started w' \<and> i < length (sw_toolBlocks w')"
proof (cases "find_index (\<lambda>(k', _). k' = k) (sw_toolBlocks w)")
  case None
  then show ?thesis
    using assms by (auto simp: tool_slot_def live_def table_ok_def mo_of_def slots_append nth_append less_Suc_eq)
next
  case (Some j)
  then have "j < length (sw_toolBlocks w)" using find_index_Some by fast
  then show ?thesis using Some assms by (auto simp: tool_slot_def)
qed

lemma live_set_block:
  assumes "live w" and "i < length (sw_toolBlocks w)" and "tb_started tb = tb_started (snd (sw_toolBlocks w ! i))"
    and "tb_closed tb = tb_closed (snd (sw_toolBlocks w ! i))" and "tb_anthropicIdx tb = tb_anthropicIdx (snd (sw_toolBlocks w ! i))"
  shows "live (set_block i tb w)"
  using assms slots_update_same [OF assms(2-4)]
  by (auto simp: live_def table_ok_def mo_of_def set_block_def nth_list_update)

lemma live_start_block:
  assumes "live w" and "sw_started w" and "i < length (sw_toolBlocks w)" and "\<not> tb_started (snd (sw_toolBlocks w ! i))"
    and "tb_started tb" and "\<not> tb_closed tb" and "tb_anthropicIdx tb = Suc i"
  shows "live (emitEvent (ToolStart (Suc i) x n) (set_block i tb w))"
proof -
  note s = slots_update_start(1,2) [OF assms(3-6), of "fst (sw_toolBlocks w ! i)"] slots_update_start(3) [OF assms(3-6)]
  have run: "mo_run (sw_events w) mo_start = Some (mo_of w)" "\<not> sw_stopped w" "table_ok w" using assms(1) by (simp_all add: live_def)
  have "mo_step (ToolStart (Suc i) x n) (mo_of w) = Some (mo_of (emitEvent (ToolStart (Suc i) x n) (set_block i tb w)))"
    using s run(2) assms(2) by (auto simp: mo_of_def set_block_def emitEvent_def)
  moreover have "table_ok (emitEvent (ToolStart (Suc i) x n) (set_block i tb w))"
    using run(3) assms(2-7) by (auto simp: table_ok_def set_block_def emitEvent_def nth_list_update)
  ultimately show ?thesis
    using run(1,2) by (simp add: live_def) (simp add: emitEvent_def set_block_def mo_run_append)
qed

lemma ensureToolBlock_live:
  assumes "live w" and "sw_started w" and "ensureToolBlock k x n w = (i, w')"
  shows "live w' \<and> sw_started w' \<and> i < length (sw_toolBlocks w')"
proof -
  obtain w1 where slot: "tool_slot k w = (i, w1)"
    using assms(3) by (cases "tool_slot k w") (auto simp: ensureToolBlock_def Let_def)
  have l1: "live w1" "sw_started w1" "i < length (sw_toolBlocks w1)" using tool_slot_live [OF assms(1,2) slot] by auto
  let ?t0 = "snd (sw_toolBlocks w1 ! i)"
  define t where "t = merge_delta x n ?t0"
  have t: "tb_started t = tb_started ?t0" "tb_closed t = tb_closed ?t0" "tb_anthropicIdx t = tb_anthropicIdx ?t0"
    by (simp_all add: t_def merge_delta_def)
  have idx: "tb_anthropicIdx ?t0 = Suc i" "\<not> tb_closed ?t0" using l1 by (simp_all add: live_def table_ok_def)
  have w': "w' = (if \<not> tb_started t \<and> tb_name t \<noteq> []
      then emitEvent (ToolStart (tb_anthropicIdx t) (tb_id t) (tb_name t)) (set_block i (t\<lparr>tb_started := True\<rparr>) (closeTextBlock w1))
      else set_block i t w1)"
    using assms(3) slot by (auto simp: ensureToolBlock_def Let_def t_def)
  have same: "sw_toolBlocks (closeTextBlock w1) = sw_toolBlocks w1" by (simp add: writer_defs)
  show ?thesis
  proof (cases "\<not> tb_started t \<and> tb_name t \<noteq> []")
    case True
    have "live (emitEvent (ToolStart (Suc i) (tb_id t) (tb_name t)) (set_block i (t\<lparr>tb_started := True\<rparr>) (closeTextBlock w1)))"
      using live_close_text [OF l1(1,2)] True t idx l1(3) by (intro live_start_block) (simp_all add: same)
    then show ?thesis
      using w' True t idx l1(2,3) by (simp add: emitEvent_def set_block_def same) (simp add: closeTextBlock_def emitEvent_def)
  next
    case False
    then show ?thesis using w' live_set_block [OF l1(1,3) t] l1(2,3) by (auto simp: set_block_def)
  qed
qed

lemma tool_step_live: "live w \<Longrightarrow> live (tool_step tc w)"
proof -
  assume "live w"
  then have s: "live (ensureStart w)" "sw_started (ensureStart w)" using live_start by blast+
  obtain i w1 where e: "ensureToolBlock (td_Index tc) (td_ID tc) (td_Name tc) (ensureStart w) = (i, w1)" by fastforce
  then have l: "live w1" "sw_started w1" "i < length (sw_toolBlocks w1)" using ensureToolBlock_live [OF s] by blast+
  have "Suc i \<in> mo_open (mo_of w1)" if "tb_started (snd (sw_toolBlocks w1 ! i))"
    using that l by (auto simp: mo_of_def slot_open_def live_def table_ok_def)
  then show ?thesis
    using l e
    by (auto simp: tool_step_def Let_def) (auto simp: live_def table_ok_def emitEvent_def mo_run_append mo_of_def)
qed

lemma tool_steps_live: "live w \<Longrightarrow> live (fold tool_step tcs w)"
  by (induction tcs arbitrary: w) (auto simp: tool_step_live)

lemma chunk_step_live:
  assumes "live w" and "\<And>ch. oc_Choice oc = Some ch \<Longrightarrow> oc_Content ch = [] \<or> \<not> sw_textClosed w"
  shows "live (chunk_step oc w)"
proof -
  have u: "live (usage_step oc w)" "sw_textClosed (usage_step oc w) = sw_textClosed w"
    using live_usage [OF assms(1)] by (auto simp: usage_step_def split: option.split)
  show ?thesis
  proof (cases "oc_Choice oc")
    case (Some ch)
    then have l: "live (fold tool_step (oc_ToolCalls ch) (text_step (oc_Content ch) (usage_step oc w)))"
      using assms(2) u by (intro tool_steps_live live_text) auto
    have "live w' \<Longrightarrow> live (w'\<lparr>sw_finish := f\<rparr>)" for w' f by (auto simp: live_def table_ok_def mo_of_def)
    then show ?thesis using l Some by (auto simp: chunk_step_def Let_def split: option.split)
  qed (use u in \<open>simp add: chunk_step_def\<close>)
qed

subsection \<open>The end of a message\<close>

definition ended :: "streamWriter \<Rightarrow> bool" where
  "ended w \<longleftrightarrow> sw_stopped w \<and> sw_started w
     \<and> (\<exists>seen. mo_run (sw_events w) mo_start = Some \<lparr>mo_phase = Ended, mo_open = {}, mo_seen = seen\<rparr>)"

lemma stops_run:
  "mo_phase s = Running \<Longrightarrow> distinct is \<Longrightarrow> set is = mo_open s \<Longrightarrow> mo_run (map BlockStop is) s = Some (s\<lparr>mo_open := {}\<rparr>)"
proof (induction "is" arbitrary: s)
  case (Cons i "is")
  let ?s = "s\<lparr>mo_open := mo_open s - {i}\<rparr>"
  have "set is = mo_open ?s" "i \<in> mo_open s" using Cons.prems(2,3) by auto
  moreover from this(1) have "mo_run (map BlockStop is) ?s = Some (?s\<lparr>mo_open := {}\<rparr>)"
    using Cons.IH Cons.prems(1,2) by simp
  ultimately show ?case using Cons.prems(1) by simp
qed simp

lemma table_sorted:
  assumes "table_ok w"
  shows "sort_key tb_anthropicIdx (map snd (sw_toolBlocks w)) = map snd (sw_toolBlocks w)"
    and "map tb_anthropicIdx (map snd (sw_toolBlocks w)) = map Suc [0..<length (sw_toolBlocks w)]"
proof -
  show m: "map tb_anthropicIdx (map snd (sw_toolBlocks w)) = map Suc [0..<length (sw_toolBlocks w)]"
    using assms by (intro nth_equalityI) (auto simp: table_ok_def)
  show "sort_key tb_anthropicIdx (map snd (sw_toolBlocks w)) = map snd (sw_toolBlocks w)"
    by (rule sort_key_id_if_sorted) (simp only: m, simp add: sorted_map sorted_wrt_upt)
qed

lemma open_slots_list:
  assumes "table_ok w"
  shows "set (map tb_anthropicIdx (filter (\<lambda>tb. tb_started tb \<and> \<not> tb_closed tb) (map snd (sw_toolBlocks w)))) = slot_open (sw_toolBlocks w)"
    and "distinct (map tb_anthropicIdx (filter (\<lambda>tb. tb_started tb \<and> \<not> tb_closed tb) (map snd (sw_toolBlocks w))))"
proof -
  have "distinct (map tb_anthropicIdx (map snd (sw_toolBlocks w)))"
    unfolding table_sorted(2) [OF assms] by (simp add: distinct_map)
  then show "distinct (map tb_anthropicIdx (filter (\<lambda>tb. tb_started tb \<and> \<not> tb_closed tb) (map snd (sw_toolBlocks w))))"
    by (rule distinct_map_filter)
  have idx: "tb_anthropicIdx (snd (sw_toolBlocks w ! i)) = Suc i" if "i < length (sw_toolBlocks w)" for i
    using assms that by (simp add: table_ok_def)
  show "set (map tb_anthropicIdx (filter (\<lambda>tb. tb_started tb \<and> \<not> tb_closed tb) (map snd (sw_toolBlocks w)))) = slot_open (sw_toolBlocks w)"
  proof -
    have "set (map snd (sw_toolBlocks w)) = (\<lambda>i. snd (sw_toolBlocks w ! i)) ` {..<length (sw_toolBlocks w)}"
    proof -
      have "map snd (sw_toolBlocks w) = map (\<lambda>i. snd (sw_toolBlocks w ! i)) [0..<length (sw_toolBlocks w)]"
        by (intro nth_equalityI) auto
      then show ?thesis by (simp add: lessThan_atLeast0 del: map_eq_conv)
    qed
    then have "set (map tb_anthropicIdx (filter (\<lambda>tb. tb_started tb \<and> \<not> tb_closed tb) (map snd (sw_toolBlocks w))))
        = tb_anthropicIdx ` {tb \<in> (\<lambda>i. snd (sw_toolBlocks w ! i)) ` {..<length (sw_toolBlocks w)}. tb_started tb \<and> \<not> tb_closed tb}"
      by (simp only: set_map set_filter)
    also have "\<dots> = slot_open (sw_toolBlocks w)"
      unfolding slot_open_def by (auto simp: idx) (use idx in force)
    finally show ?thesis .
  qed
qed

lemma finalize_ended:
  assumes "live w"
  shows "ended (finalize w)"
proof -
  let ?w1 = "ensureStart w"
  define w2 where "w2 = (if \<not> sw_textOpen ?w1 \<and> sw_toolBlocks ?w1 = [] then ensureTextBlock ?w1 else ?w1)"
  define w3 where "w3 = closeTextBlock w2"
  have l1: "live ?w1" "sw_started ?w1" using live_start [OF assms] by auto
  then have l2: "live w2" "sw_started w2" using live_open_text by (auto simp: w2_def)
  then have l3: "live w3" "sw_started w3" using live_close_text by (auto simp: w3_def)
  have "\<not> (sw_textOpen w3 \<and> \<not> sw_textClosed w3)" by (auto simp: w3_def writer_defs)
  then have opn: "mo_open (mo_of w3) = slot_open (sw_toolBlocks w3)" and ph: "mo_phase (mo_of w3) = Running"
    using l3 by (auto simp: mo_of_def live_def)
  define js where "js = map tb_anthropicIdx (filter (\<lambda>tb. tb_started tb \<and> \<not> tb_closed tb) (map snd (sw_toolBlocks w3)))"
  have tab: "table_ok w3" using l3 by (simp add: live_def)
  have run: "mo_run (map BlockStop js) (mo_of w3) = Some ((mo_of w3)\<lparr>mo_open := {}\<rparr>)"
    by (rule stops_run [OF ph]) (simp_all only: js_def open_slots_list [OF tab] opn)
  have comm: "closeTextBlock (w2\<lparr>sw_stopped := True\<rparr>) = w3\<lparr>sw_stopped := True\<rparr>" by (simp add: w3_def writer_defs)
  have ns: "\<not> sw_stopped w" using assms by (simp add: live_def)
  have fin: "sw_events (finalize w) = sw_events w3 @ map BlockStop js @ [MessageDelta (mapStopReason (sw_finish w3)) (sw_outputToks w3), MessageStop]"
    "sw_stopped (finalize w)" "sw_started (finalize w)"
    using ns l3(2) table_sorted(1) [OF tab]
    by (simp_all add: finalize_def Let_def w2_def [symmetric] comm close_tools_def emitEvent_def js_def o_def)
  have "mo_run (sw_events w3) mo_start = Some (mo_of w3)" using l3 by (simp add: live_def)
  then show ?thesis
    using fin ph by (simp add: ended_def mo_run_append run) (simp add: mo_of_def)
qed

lemma finalize_stopped: "sw_stopped w \<Longrightarrow> finalize w = w"
  by (simp add: finalize_def)

subsection \<open>Whole streams\<close>

fun orderly :: "bool \<Rightarrow> sse_item list \<Rightarrow> bool" where
  "orderly t [] \<longleftrightarrow> True"
| "orderly t (Skip # xs) \<longleftrightarrow> orderly t xs"
| "orderly t (Done # xs) \<longleftrightarrow> list_all (\<lambda>x. x = Skip \<or> x = Done) xs"
| "orderly t (Chunk oc # xs) \<longleftrightarrow>
     (case oc_Choice oc of
        None \<Rightarrow> orderly t xs
      | Some ch \<Rightarrow> (oc_Content ch = [] \<or> \<not> t) \<and> orderly (t \<or> oc_ToolCalls ch \<noteq> []) xs)"

lemma text_step_closed: "sw_textClosed (text_step s w) = sw_textClosed w"
  by (simp add: text_step_def Let_def writer_defs)

lemma chunk_closed:
  "sw_textClosed (chunk_step oc w) \<Longrightarrow> sw_textClosed w \<or> (\<exists>ch. oc_Choice oc = Some ch \<and> oc_ToolCalls ch \<noteq> [])"
proof (rule ccontr)
  assume c: "sw_textClosed (chunk_step oc w)" and n: "\<not> (sw_textClosed w \<or> (\<exists>ch. oc_Choice oc = Some ch \<and> oc_ToolCalls ch \<noteq> []))"
  have "sw_textClosed (usage_step oc w) = sw_textClosed w" by (auto simp: usage_step_def split: option.split)
  then show False using c n by (auto simp: chunk_step_def Let_def text_step_closed split: option.splits if_splits)
qed

lemma ended_items: "ended w \<Longrightarrow> list_all (\<lambda>x. x = Skip \<or> x = Done) xs \<Longrightarrow> fold item_step xs w = w"
  by (induction xs) (auto simp: ended_def finalize_stopped)

lemma orderly_run:
  assumes "live w" and "sw_textClosed w \<longrightarrow> t" and "orderly t xs"
  shows "live (fold item_step xs w) \<or> ended (fold item_step xs w)"
  using assms
proof (induction xs arbitrary: w t)
  case (Cons x xs)
  show ?case
  proof (cases x)
    case Done
    then show ?thesis using finalize_ended [OF Cons.prems(1)] ended_items Cons.prems(3) by simp
  next
    case (Chunk oc)
    let ?w = "chunk_step oc w"
    let ?t = "t \<or> (\<exists>ch. oc_Choice oc = Some ch \<and> oc_ToolCalls ch \<noteq> [])"
    have "live ?w" using Cons.prems Chunk by (intro chunk_step_live) (auto split: option.splits)
    moreover have "sw_textClosed ?w \<longrightarrow> ?t" using chunk_closed [of oc w] Cons.prems(2) by blast
    moreover have "orderly ?t xs" using Cons.prems(3) Chunk by (auto split: option.splits)
    ultimately show ?thesis using Cons.IH [of ?w ?t] Chunk by simp
  qed (use Cons in auto)
qed simp

subsection \<open>Writes in pieces\<close>

lemma carry_frames:
  "(emitEvent e w)\<lparr>sw_carry := c\<rparr> = emitEvent e (w\<lparr>sw_carry := c\<rparr>)"
  "(ensureStart w)\<lparr>sw_carry := c\<rparr> = ensureStart (w\<lparr>sw_carry := c\<rparr>)"
  "(ensureTextBlock w)\<lparr>sw_carry := c\<rparr> = ensureTextBlock (w\<lparr>sw_carry := c\<rparr>)"
  "(closeTextBlock w)\<lparr>sw_carry := c\<rparr> = closeTextBlock (w\<lparr>sw_carry := c\<rparr>)"
  "(close_tools w)\<lparr>sw_carry := c\<rparr> = close_tools (w\<lparr>sw_carry := c\<rparr>)"
  "(set_block i tb w)\<lparr>sw_carry := c\<rparr> = set_block i tb (w\<lparr>sw_carry := c\<rparr>)"
  "(text_step s w)\<lparr>sw_carry := c\<rparr> = text_step s (w\<lparr>sw_carry := c\<rparr>)"
  "(usage_step oc w)\<lparr>sw_carry := c\<rparr> = usage_step oc (w\<lparr>sw_carry := c\<rparr>)"
  by (simp_all add: writer_defs close_tools_def set_block_def text_step_def usage_step_def Let_def split: option.split prod.split)

lemma carry_slot: "tool_slot k (w\<lparr>sw_carry := c\<rparr>) = map_prod id (\<lambda>w. w\<lparr>sw_carry := c\<rparr>) (tool_slot k w)"
  by (simp add: tool_slot_def split: option.split)

lemma carry_ensure:
  "ensureToolBlock k x n (w\<lparr>sw_carry := c\<rparr>) = map_prod id (\<lambda>w. w\<lparr>sw_carry := c\<rparr>) (ensureToolBlock k x n w)"
proof (cases "tool_slot k w")
  case (Pair i w1)
  have "tool_slot k (w\<lparr>sw_carry := c\<rparr>) = (i, w1\<lparr>sw_carry := c\<rparr>)" using Pair carry_slot [where k = k and w = w and c = c] by simp
  then show ?thesis using Pair by (simp add: ensureToolBlock_def Let_def carry_frames)
qed

lemma carry_tool: "(tool_step tc w)\<lparr>sw_carry := c\<rparr> = tool_step tc (w\<lparr>sw_carry := c\<rparr>)"
proof (cases "ensureToolBlock (td_Index tc) (td_ID tc) (td_Name tc) (ensureStart w)")
  case (Pair i w1)
  have "ensureToolBlock (td_Index tc) (td_ID tc) (td_Name tc) (ensureStart (w\<lparr>sw_carry := c\<rparr>)) = (i, w1\<lparr>sw_carry := c\<rparr>)"
    using Pair carry_ensure [where w = "ensureStart w" and c = c] by (simp add: carry_frames)
  then show ?thesis using Pair by (simp add: tool_step_def Let_def carry_frames)
qed

lemma carry_tools: "(fold tool_step tcs w)\<lparr>sw_carry := c\<rparr> = fold tool_step tcs (w\<lparr>sw_carry := c\<rparr>)"
  by (induction tcs arbitrary: w) (simp_all add: carry_tool)

lemma carry_chunk: "(chunk_step oc w)\<lparr>sw_carry := c\<rparr> = chunk_step oc (w\<lparr>sw_carry := c\<rparr>)"
proof -
  have f: "(w'\<lparr>sw_finish := f\<rparr>)\<lparr>sw_carry := c\<rparr> = (w'\<lparr>sw_carry := c\<rparr>)\<lparr>sw_finish := f\<rparr>" for w' f by simp
  show ?thesis
    by (auto simp: chunk_step_def Let_def f carry_tools carry_frames simp del: streamWriter.update_convs split: option.split)
qed

lemma carry_finalize: "(finalize w)\<lparr>sw_carry := c\<rparr> = finalize (w\<lparr>sw_carry := c\<rparr>)"
  by (simp add: finalize_def Let_def writer_defs close_tools_def)

lemma carry_items: "(fold item_step xs w)\<lparr>sw_carry := c\<rparr> = fold item_step xs (w\<lparr>sw_carry := c\<rparr>)"
proof (induction xs arbitrary: w)
  case (Cons x xs)
  have "(item_step x w)\<lparr>sw_carry := c\<rparr> = item_step x (w\<lparr>sw_carry := c\<rparr>)"
    by (cases x) (simp_all only: item_step.simps carry_chunk carry_finalize)
  then show ?case using Cons by simp
qed simp

lemma status_frames [simp]:
  "sw_statusCode (emitEvent e w) = sw_statusCode w" "sw_statusCode (ensureStart w) = sw_statusCode w"
  "sw_statusCode (ensureTextBlock w) = sw_statusCode w" "sw_statusCode (closeTextBlock w) = sw_statusCode w"
  "sw_statusCode (close_tools w) = sw_statusCode w" "sw_statusCode (set_block i tb w) = sw_statusCode w"
  "sw_statusCode (text_step s w) = sw_statusCode w" "sw_statusCode (usage_step oc w) = sw_statusCode w"
  "sw_statusCode (snd (tool_slot k w)) = sw_statusCode w" "sw_statusCode (finalize w) = sw_statusCode w"
  by (simp_all add: writer_defs close_tools_def set_block_def text_step_def usage_step_def tool_slot_def finalize_def Let_def
      split: option.split prod.split)

lemma status_tool [simp]: "sw_statusCode (tool_step tc w) = sw_statusCode w"
proof -
  have "sw_statusCode (snd (ensureToolBlock k x n w')) = sw_statusCode w'" for k x n w'
    using status_frames(9) [of k w'] by (simp add: ensureToolBlock_def Let_def split_beta del: status_frames(9))
  from this [of "td_Index tc" "td_ID tc" "td_Name tc" "ensureStart w"] show ?thesis
    by (simp add: tool_step_def Let_def split_beta)
qed

lemma status_tools [simp]: "sw_statusCode (fold tool_step tcs w) = sw_statusCode w"
  by (induction tcs arbitrary: w) simp_all

lemma status_items [simp]: "sw_statusCode (fold item_step xs w) = sw_statusCode w"
proof (induction xs arbitrary: w)
  case (Cons x xs)
  then show ?case by (cases x) (auto simp: chunk_step_def Let_def split: option.split)
qed simp

definition items_of :: "(string \<Rightarrow> oai_chunk option) \<Rightarrow> string list \<Rightarrow> sse_item list" where
  "items_of decode ls = map (\<lambda>l. parse_line decode (trim_right_cr l)) ls"

lemma fold_lines: "fold (\<lambda>ln. processLine decode (trim_right_cr ln)) ls w = fold item_step (items_of decode ls) w"
  by (induction ls arbitrary: w) (simp_all add: items_of_def processLine_def)

lemma writes_all:
  assumes "sw_statusCode w < 400" and "newline \<notin> set (sw_carry w)"
  shows "fold (sw_Write decode) ps w =
    (fold item_step (items_of decode (butlast (split_at newline (sw_carry w @ concat ps)))) w)\<lparr>sw_carry := last (split_at newline (sw_carry w @ concat ps))\<rparr>"
  using assms
proof (induction ps arbitrary: w)
  case Nil
  then show ?case by (simp add: split_at_plain items_of_def)
next
  case (Cons p ps)
  let ?ls = "split_at newline (sw_carry w @ p)"
  let ?w = "(fold item_step (items_of decode (butlast ?ls)) w)\<lparr>sw_carry := last ?ls\<rparr>"
  have w1: "sw_Write decode p w = ?w"
    using Cons.prems(1) by (simp add: sw_Write_def Let_def fold_lines carry_items)
  have "split_at newline (sw_carry w @ concat (p # ps)) = butlast ?ls @ split_at newline (last ?ls @ concat ps)"
    using split_at_last_append [of newline "sw_carry w @ p" "concat ps"] by simp
  moreover have "fold (sw_Write decode) ps ?w =
      (fold item_step (items_of decode (butlast (split_at newline (last ?ls @ concat ps)))) ?w)\<lparr>sw_carry := last (split_at newline (last ?ls @ concat ps))\<rparr>"
    using Cons.IH [of ?w] Cons.prems(1) last_no_sep by simp
  moreover have "(fold item_step xs ?w)\<lparr>sw_carry := c\<rparr> = (fold item_step xs (fold item_step (items_of decode (butlast ?ls)) w))\<lparr>sw_carry := c\<rparr>" for xs c
    by (simp add: carry_items)
  ultimately show ?case using w1 by (simp add: butlast_append items_of_def)
qed

subsection \<open>What a client of the stream receives\<close>

lemma skip_empty_line: "parse_line decode (trim_right_cr []) = Skip"
  by (simp add: parse_line_def trim_right_cr_def)

lemma fold_items_last:
  "ls \<noteq> [] \<Longrightarrow> fold item_step (items_of decode ls) w
     = item_step (parse_line decode (trim_right_cr (last ls))) (fold item_step (items_of decode (butlast ls)) w)"
  by (induction ls rule: rev_induct) (simp_all add: items_of_def)

lemma sw_end_items:
  assumes "sw_statusCode w < 400" and "newline \<notin> set (sw_carry w)"
  shows "sw_end decode (fold (sw_Write decode) ps w) =
    (let w' = (fold item_step (items_of decode (split_at newline (sw_carry w @ concat ps))) w)\<lparr>sw_carry := []\<rparr>
     in if sw_started w' \<and> \<not> sw_stopped w' then finalize w' else w')"
proof -
  let ?ls = "split_at newline (sw_carry w @ concat ps)"
  let ?w = "fold item_step (items_of decode (butlast ?ls)) w"
  have all: "fold item_step (items_of decode ?ls) w = item_step (parse_line decode (trim_right_cr (last ?ls))) ?w"
    by (rule fold_items_last) simp
  have "(if sw_carry (?w\<lparr>sw_carry := last ?ls\<rparr>) \<noteq> []
         then (processLine decode (trim_right_cr (sw_carry (?w\<lparr>sw_carry := last ?ls\<rparr>))) (?w\<lparr>sw_carry := last ?ls\<rparr>))\<lparr>sw_carry := []\<rparr>
         else ?w\<lparr>sw_carry := last ?ls\<rparr>) = (fold item_step (items_of decode ?ls) w)\<lparr>sw_carry := []\<rparr>"
  proof (cases "last ?ls = []")
    case True
    then show ?thesis using skip_empty_line by (simp add: all)
  next
    case False
    have "(item_step x (?w\<lparr>sw_carry := c\<rparr>))\<lparr>sw_carry := []\<rparr> = (item_step x ?w)\<lparr>sw_carry := []\<rparr>" for x c
      using carry_items [where xs = "[x]" and w = "?w\<lparr>sw_carry := c\<rparr>" and c = "[]"] carry_items [where xs = "[x]" and w = "?w" and c = "[]"]
      by simp
    then show ?thesis using False by (simp add: all processLine_def)
  qed
  then show ?thesis unfolding writes_all [OF assms] sw_end_def Let_def by simp
qed

lemma live_carry: "live (w\<lparr>sw_carry := c\<rparr>) = live w" "ended (w\<lparr>sw_carry := c\<rparr>) = ended w"
  by (simp_all add: live_def ended_def table_ok_def mo_of_def)

lemma mo_step_idle: "mo_step e s = Some s' \<Longrightarrow> mo_phase s' \<noteq> Idle"
  by (cases e) (auto split: if_splits)

lemma mo_run_idle: "mo_run es s = Some s' \<Longrightarrow> mo_phase s' = Idle \<Longrightarrow> es = []"
  by (induction es arbitrary: s) (fastforce dest: mo_step_idle split: option.splits)+

lemma live_unstarted: "live w \<Longrightarrow> \<not> sw_started w \<Longrightarrow> sw_events w = []"
  by (rule mo_run_idle [of _ mo_start "mo_of w"]) (simp_all add: live_def mo_of_def)

lemma stream_complete:
  assumes "orderly False (items_of decode (split_at newline (concat ps)))" and "st < 400"
    and "w = sw_end decode (fold (sw_Write decode) ps ((newStreamWriter i m)\<lparr>sw_statusCode := st\<rparr>))"
  shows "if sw_started w
    then (\<exists>seen. mo_run (sw_events w) mo_start = Some \<lparr>mo_phase = Ended, mo_open = {}, mo_seen = seen\<rparr>)
    else sw_events w = []"
proof -
  let ?w0 = "(newStreamWriter i m)\<lparr>sw_statusCode := st\<rparr>"
  let ?v = "(fold item_step (items_of decode (split_at newline (concat ps))) ?w0)\<lparr>sw_carry := []\<rparr>"
  have "live ?w0" using live_new [of i m] by (simp add: live_def table_ok_def mo_of_def)
  then have v: "live ?v \<or> ended ?v"
    using orderly_run [OF _ _ assms(1), of ?w0] by (simp add: live_carry newStreamWriter_def)
  have w: "w = (if sw_started ?v \<and> \<not> sw_stopped ?v then finalize ?v else ?v)"
    using sw_end_items [where w = ?w0 and decode = decode and ps = ps] assms(2,3) by (simp add: newStreamWriter_def Let_def)
  from v show ?thesis
  proof
    assume l: "live ?v"
    then have "\<not> sw_stopped ?v" by (simp add: live_def)
    then show ?thesis using w finalize_ended [OF l] live_unstarted [OF l] by (auto simp: ended_def)
  next
    assume e: "ended ?v"
    then have "w = ?v" using w by (simp add: ended_def)
    then show ?thesis using e by (simp add: ended_def)
  qed
qed


definition ex_decode :: "string \<Rightarrow> oai_chunk option" where
  "ex_decode s =
     (if s = ''t'' then Some \<lparr>oc_Choice = Some \<lparr>oc_Content = ''Hi'', oc_ToolCalls = [], oc_Finish = None\<rparr>, oc_Usage = None\<rparr>
      else if s = ''c''
      then Some \<lparr>oc_Choice = Some \<lparr>oc_Content = [],
                  oc_ToolCalls = [\<lparr>td_Index = 0, td_ID = ''x'', td_Name = ''f'', td_Arguments = ''{}''\<rparr>], oc_Finish = Some ''tool_calls''\<rparr>,
                oc_Usage = Some (3, 5)\<rparr>
      else None)"


definition event_text :: "sse_event \<Rightarrow> string" where
  "event_text e = (case e of TextDelta t \<Rightarrow> t | _ \<Rightarrow> [])"

definition item_text :: "sse_item \<Rightarrow> string" where
  "item_text x = (case x of Chunk oc \<Rightarrow> (case oc_Choice oc of Some ch \<Rightarrow> oc_Content ch | None \<Rightarrow> []) | _ \<Rightarrow> [])"

definition texts :: "streamWriter \<Rightarrow> string" where
  "texts w = concat (map event_text (sw_events w))"

lemma texts_frames [simp]:
  "texts (ensureStart w) = texts w" "texts (ensureTextBlock w) = texts w" "texts (closeTextBlock w) = texts w"
  "texts (set_block i tb w) = texts w" "texts (usage_step oc w) = texts w" "texts (snd (tool_slot k w)) = texts w"
  "texts (w\<lparr>sw_finish := f\<rparr>) = texts w" "texts (w\<lparr>sw_carry := c\<rparr>) = texts w"
  by (simp_all add: texts_def writer_defs event_text_def set_block_def usage_step_def tool_slot_def split: option.split prod.split)

lemma texts_emit: "texts (emitEvent e w) = texts w @ event_text e"
  by (simp add: texts_def emitEvent_def)

lemma texts_text: "texts (text_step s w) = texts w @ s"
proof -
  have "texts (w'\<lparr>sw_textBuf := b\<rparr>) = texts w'" for w' b by (simp add: texts_def)
  then show ?thesis by (simp add: text_step_def Let_def texts_emit event_text_def)
qed

lemma texts_tool: "texts (tool_step tc w) = texts w"
proof -
  have e: "texts (snd (ensureToolBlock k x n w')) = texts w'" for k x n w'
    using texts_frames(6) [of k w'] by (simp add: ensureToolBlock_def Let_def split_beta texts_emit event_text_def del: texts_frames(6))
  show ?thesis
    using e [of "td_Index tc" "td_ID tc" "td_Name tc" "ensureStart w"]
    by (simp add: tool_step_def Let_def split_beta texts_emit event_text_def)
qed

lemma texts_tools: "texts (fold tool_step tcs w) = texts w"
  by (induction tcs arbitrary: w) (simp_all add: texts_tool)

lemma texts_finalize: "texts (finalize w) = texts w"
proof -
  have "texts (w'\<lparr>sw_stopped := b\<rparr>) = texts w'" for w' b by (simp add: texts_def)
  moreover have "texts (close_tools w') = texts w'" for w'
    by (simp add: texts_def close_tools_def Let_def event_text_def o_def)
  ultimately show ?thesis by (simp add: finalize_def Let_def texts_emit event_text_def)
qed

lemma texts_item: "texts (item_step x w) = texts w @ item_text x"
  by (cases x) (auto simp: item_text_def chunk_step_def Let_def texts_finalize texts_tools texts_text split: option.split)

lemma texts_items: "texts (fold item_step xs w) = texts w @ concat (map item_text xs)"
  by (induction xs arbitrary: w) (simp_all add: texts_item)

text \<open>
  The text a client assembles from the deltas is the text of the upstream's chunks, in order and
  complete, for every stream and every way it is cut into writes.
\<close>

theorem stream_text_faithful:
  "texts (sw_end decode (fold (sw_Write decode) ps (newStreamWriter i m)))
     = concat (map item_text (items_of decode (split_at newline (concat ps))))"
proof -
  let ?w0 = "newStreamWriter i m"
  have "texts ?w0 = []" by (simp add: texts_def newStreamWriter_def)
  moreover have "sw_statusCode ?w0 < 400" "sw_carry ?w0 = []" by (simp_all add: newStreamWriter_def)
  ultimately show ?thesis
    using sw_end_items [where w = ?w0 and decode = decode and ps = ps] by (simp add: Let_def texts_finalize texts_items)
qed

text \<open>
  The order the hypothesis of the protocol asks for is needed. A text chunk after a tool call is a
  delta for block 0, which the tool call closed; a chunk after the terminator is an event after
  the end of the message; and two parallel tool calls are two blocks open at once.
\<close>

definition ex_text :: "string \<Rightarrow> sse_item" where
  "ex_text s = Chunk \<lparr>oc_Choice = Some \<lparr>oc_Content = s, oc_ToolCalls = [], oc_Finish = None\<rparr>, oc_Usage = None\<rparr>"

definition ex_tool :: "int \<Rightarrow> string \<Rightarrow> string \<Rightarrow> sse_item" where
  "ex_tool k n a =
     Chunk \<lparr>oc_Choice = Some \<lparr>oc_Content = [], oc_ToolCalls = [\<lparr>td_Index = k, td_ID = ''x'', td_Name = n, td_Arguments = a\<rparr>], oc_Finish = None\<rparr>,
            oc_Usage = None\<rparr>"

lemma text_after_tool_breaks_protocol:
  "mo_run (sw_events (fold item_step [ex_text ''a'', ex_tool 0 ''f'' [], ex_text ''b''] (newStreamWriter i m))) mo_start = None"
  by (simp add: ex_text_def ex_tool_def chunk_step_def usage_step_def text_step_def tool_step_def ensureToolBlock_def tool_slot_def
      set_block_def merge_delta_def Let_def writer_defs newStreamWriter_def mo_start_def)

lemma text_after_done_breaks_protocol:
  "mo_run (sw_events (fold item_step [Done, ex_text ''b''] (newStreamWriter i m))) mo_start = None"
  by (simp add: ex_text_def chunk_step_def usage_step_def text_step_def finalize_def close_tools_def Let_def writer_defs
      newStreamWriter_def mo_start_def)

lemma parallel_tools_overlap:
  "map_option mo_open (mo_run (sw_events (fold item_step [ex_tool 0 ''f'' [], ex_tool 1 ''g'' []] (newStreamWriter i m))) mo_start) = Some {1, 2}"
  by (simp add: ex_tool_def chunk_step_def usage_step_def text_step_def tool_step_def ensureToolBlock_def tool_slot_def
      set_block_def merge_delta_def Let_def writer_defs newStreamWriter_def mo_start_def insert_commute numeral_2_eq_2)

lemma arguments_before_name_lost:
  "sw_events (fold item_step [ex_tool 0 [] ''{'', ex_tool 0 ''f'' ''}''] (newStreamWriter i m))
     = [MessageStart i m, ToolStart 1 ''x'' ''f'', JsonDelta 1 ''}'']"
  by (simp add: ex_tool_def chunk_step_def usage_step_def text_step_def tool_step_def ensureToolBlock_def tool_slot_def
      set_block_def merge_delta_def Let_def writer_defs newStreamWriter_def)

end
