(* ===== verification/Messages.thy ===== *)
theory Messages
  imports Gateway AnthropicRequest AnthropicStream
begin

text \<open>
  The Messages endpoint (\<^verbatim>\<open>internal/handlers/anthropic.go\<close>): \<^verbatim>\<open>HandleMessages\<close> around the modelled
  \<^verbatim>\<open>ProxyRequest\<close>, with the capturing and the translating response writer, the reading of a captured
  answer (\<^verbatim>\<open>extractFromCapturedBody\<close>), the error message of an upstream, and
  \<^verbatim>\<open>AnthropicAuthMiddleware\<close>.

  Parsing JSON is an argument; decoding into the structs of the source is a function of the parsed
  value. The translated body reaches the proxy as the value it was encoded from and is taken to fit
  the proxy's limit; encoding it does not fail.
\<close>

subsection \<open>Decoding of answers\<close>

text \<open>A struct-valued field.\<close>

definition dec_sub :: "(fields \<Rightarrow> 'a option) \<Rightarrow> fields \<Rightarrow> string \<Rightarrow> 'a option" where
  "dec_sub dec m k = (case map_of m k of None \<Rightarrow> dec [] | Some v \<Rightarrow> Option.bind (json_fields v) dec)"

definition json_struct :: "(fields \<Rightarrow> 'a option) \<Rightarrow> json \<Rightarrow> 'a option" where
  "json_struct dec v = Option.bind (json_fields v) dec"

record openAIToolCallOut =
  to_ID :: string
  to_Name :: string
  to_Arguments :: string

definition dec_function :: "fields \<Rightarrow> (string \<times> string) option" where
  "dec_function m = (case (dec_string m ''name'', dec_string m ''arguments'') of (Some n, Some a) \<Rightarrow> Some (n, a) | _ \<Rightarrow> None)"

definition dec_tool_out :: "fields \<Rightarrow> openAIToolCallOut option" where
  "dec_tool_out m =
     (case (dec_string m ''id'', dec_string m ''type'', dec_sub dec_function m ''function'') of
        (Some i, Some _, Some (n, a)) \<Rightarrow> Some \<lparr>to_ID = i, to_Name = n, to_Arguments = a\<rparr>
      | _ \<Rightarrow> None)"

definition dec_tool_delta :: "fields \<Rightarrow> tool_delta option" where
  "dec_tool_delta m =
     (case (dec_int m ''index'', dec_string m ''id'', dec_string m ''type'', dec_sub dec_function m ''function'') of
        (Some k, Some i, Some _, Some (n, a)) \<Rightarrow> Some \<lparr>td_Index = k, td_ID = i, td_Name = n, td_Arguments = a\<rparr>
      | _ \<Rightarrow> None)"

definition dec_delta :: "fields \<Rightarrow> (string \<times> tool_delta list) option" where
  "dec_delta m =
     (case (dec_string m ''content'', dec_list (json_struct dec_tool_delta) m ''tool_calls'') of
        (Some s, Some ts) \<Rightarrow> Some (s, ts) | _ \<Rightarrow> None)"

definition dec_message_out :: "fields \<Rightarrow> (string \<times> openAIToolCallOut list) option" where
  "dec_message_out m =
     (case (dec_string m ''content'', dec_list (json_struct dec_tool_out) m ''tool_calls'') of
        (Some s, Some ts) \<Rightarrow> Some (s, ts) | _ \<Rightarrow> None)"

text \<open>The chunk struct of \<^verbatim>\<open>processLine\<close>.\<close>

definition dec_stream_choice :: "fields \<Rightarrow> oai_choice option" where
  "dec_stream_choice m =
     (case (dec_sub dec_delta m ''delta'', dec_ptr dec_string m ''finish_reason'') of
        (Some (s, ts), Some f) \<Rightarrow> Some \<lparr>oc_Content = s, oc_ToolCalls = ts, oc_Finish = f\<rparr>
      | _ \<Rightarrow> None)"

definition dec_usage :: "fields \<Rightarrow> (int \<times> int) option" where
  "dec_usage m =
     (case (dec_int m ''prompt_tokens'', dec_int m ''completion_tokens'') of (Some p, Some c) \<Rightarrow> Some (p, c) | _ \<Rightarrow> None)"

definition dec_chunk :: "json \<Rightarrow> oai_chunk option" where
  "dec_chunk v =
     (case json_fields v of
        None \<Rightarrow> None
      | Some m \<Rightarrow>
          (case (dec_list (json_struct dec_stream_choice) m ''choices'', dec_ptr (dec_sub dec_usage) m ''usage'') of
             (Some cs, Some u) \<Rightarrow> Some \<lparr>oc_Choice = (case cs of [] \<Rightarrow> None | ch # _ \<Rightarrow> Some ch), oc_Usage = u\<rparr>
           | _ \<Rightarrow> None))"

subsection \<open>Reading a captured answer\<close>

definition dec_json_choice :: "fields \<Rightarrow> (string \<times> string \<times> openAIToolCallOut list) option" where
  "dec_json_choice m =
     (case (dec_sub dec_message_out m ''message'', dec_string m ''finish_reason'') of
        (Some (s, ts), Some f) \<Rightarrow> Some (s, f, ts)
      | _ \<Rightarrow> None)"

text \<open>The first choice of a completion, if there is one.\<close>

definition dec_completion :: "json \<Rightarrow> (string \<times> string \<times> openAIToolCallOut list) option" where
  "dec_completion v =
     (case Option.bind (json_fields v) (\<lambda>m. dec_list (json_struct dec_json_choice) m ''choices'') of
        Some (ch # _) \<Rightarrow> Some ch
      | _ \<Rightarrow> None)"

record cap_choice =
  cc_Content :: string
  cc_Deltas :: "tool_delta list"
  cc_Message :: "(string \<times> openAIToolCallOut list) option"
  cc_Finish :: "string option"

definition dec_cap_choice :: "fields \<Rightarrow> cap_choice option" where
  "dec_cap_choice m =
     (case (dec_sub dec_delta m ''delta'', dec_ptr (dec_sub dec_message_out) m ''message'', dec_ptr dec_string m ''finish_reason'') of
        (Some (s, ts), Some ms, Some f) \<Rightarrow> Some \<lparr>cc_Content = s, cc_Deltas = ts, cc_Message = ms, cc_Finish = f\<rparr>
      | _ \<Rightarrow> None)"

definition dec_cap_chunk :: "json \<Rightarrow> cap_choice option" where
  "dec_cap_chunk v =
     (case Option.bind (json_fields v) (\<lambda>m. dec_list (json_struct dec_cap_choice) m ''choices'') of
        Some (ch # _) \<Rightarrow> Some ch
      | _ \<Rightarrow> None)"

text \<open>
  The accumulators of the event scan: the text, the finish reason, the tool calls by index
  (\<^verbatim>\<open>tcMap\<close>) and the order of their indices (\<^verbatim>\<open>tcOrder\<close>).
\<close>

record cap_acc =
  ca_text :: string
  ca_finish :: string
  ca_tcMap :: "(int \<times> openAIToolCallOut) list"
  ca_tcOrder :: "int list"

definition cap_start :: cap_acc where
  "cap_start = \<lparr>ca_text = [], ca_finish = [], ca_tcMap = [], ca_tcOrder = []\<rparr>"

definition cap_message_tool :: "openAIToolCallOut \<Rightarrow> cap_acc \<Rightarrow> cap_acc" where
  "cap_message_tool tc a =
     (let idx = int (length (ca_tcOrder a))
      in a\<lparr>ca_tcMap := AList.update idx tc (ca_tcMap a), ca_tcOrder := ca_tcOrder a @ [idx]\<rparr>)"

definition cap_delta_tool :: "tool_delta \<Rightarrow> cap_acc \<Rightarrow> cap_acc" where
  "cap_delta_tool tc a =
     (let known = map_of (ca_tcMap a) (td_Index tc);
          t = (case known of Some t \<Rightarrow> t | None \<Rightarrow> \<lparr>to_ID = [], to_Name = [], to_Arguments = []\<rparr>);
          t' = \<lparr>to_ID = (if td_ID tc \<noteq> [] then td_ID tc else to_ID t),
                to_Name = (if td_Name tc \<noteq> [] then td_Name tc else to_Name t),
                to_Arguments = to_Arguments t @ td_Arguments tc\<rparr>
      in a\<lparr>ca_tcMap := AList.update (td_Index tc) t' (ca_tcMap a),
           ca_tcOrder := (if known = None then ca_tcOrder a @ [td_Index tc] else ca_tcOrder a)\<rparr>)"

definition cap_choice_step :: "cap_choice \<Rightarrow> cap_acc \<Rightarrow> cap_acc" where
  "cap_choice_step ch a =
     (let a1 = (if cc_Content ch \<noteq> [] then a\<lparr>ca_text := ca_text a @ cc_Content ch\<rparr>
                else case cc_Message ch of
                       Some (s, ts) \<Rightarrow> fold cap_message_tool ts (a\<lparr>ca_text := ca_text a @ s\<rparr>)
                     | None \<Rightarrow> a);
          a2 = fold cap_delta_tool (cc_Deltas ch) a1
      in case cc_Finish ch of Some f \<Rightarrow> a2\<lparr>ca_finish := f\<rparr> | None \<Rightarrow> a2)"

definition cap_line :: "(string \<Rightarrow> json option) \<Rightarrow> string \<Rightarrow> cap_acc \<Rightarrow> cap_acc" where
  "cap_line parse line a =
     (let data = TrimSpace (trim_prefix ''data:'' line)
      in if \<not> prefix ''data:'' line \<or> data = [] \<or> data = ''[DONE]'' then a
         else case Option.bind (parse data) dec_cap_chunk of None \<Rightarrow> a | Some ch \<Rightarrow> cap_choice_step ch a)"

definition extractFromCapturedBody :: "(string \<Rightarrow> json option) \<Rightarrow> string \<Rightarrow> string \<times> string \<times> openAIToolCallOut list" where
  "extractFromCapturedBody parse b =
     (if b = [] then ([], [], [])
      else let trimmed = TrimSpace b;
               whole = (if trimmed \<noteq> [] \<and> hd trimmed = CHR ''{'' then Option.bind (parse trimmed) dec_completion else None)
           in case whole of
                Some r \<Rightarrow> r
              | None \<Rightarrow>
                  (let a = fold (cap_line parse) (scan_lines_upto 4194304 b) cap_start
                   in (ca_text a, ca_finish a, List.map_filter (map_of (ca_tcMap a)) (ca_tcOrder a))))"

subsection \<open>Error messages of upstreams\<close>

definition field_message :: "json \<Rightarrow> string option" where
  "field_message v =
     (case v of
        JStr s \<Rightarrow> if s \<noteq> [] then Some s else None
      | JObj sub \<Rightarrow> (case jstr sub ''message'' of Some s \<Rightarrow> if s \<noteq> [] then Some s else None | None \<Rightarrow> None)
      | _ \<Rightarrow> None)"

definition message_keys :: "string list" where
  "message_keys = [''message'', ''msg'', ''error'', ''detail'', ''detail.message'', ''error.message'']"

definition extractUpstreamErrorMessage :: "json option \<Rightarrow> string \<Rightarrow> string" where
  "extractUpstreamErrorMessage parsed body =
     (case (case parsed of
              Some (JObj m) \<Rightarrow> List.map_filter (\<lambda>k. Option.bind (map_of m k) field_message) message_keys
            | _ \<Rightarrow> []) of
        s # _ \<Rightarrow> s
      | [] \<Rightarrow> if TrimSpace body = [] then ''upstream error'' else TrimSpace body)"

subsection \<open>The response writers\<close>

definition part_bytes :: "(json \<Rightarrow> string) \<Rightarrow> body_part \<Rightarrow> string" where
  "part_bytes marshal p = (case p of Encoded v \<Rightarrow> marshal v | Raw s \<Rightarrow> s)"

record captureWriter =
  cw_buf :: string
  cw_status :: int

definition newCaptureWriter :: captureWriter where
  "newCaptureWriter = \<lparr>cw_buf = [], cw_status = 200\<rparr>"

fun cw_call :: "(json \<Rightarrow> string) \<Rightarrow> wcall \<Rightarrow> captureWriter \<Rightarrow> captureWriter" where
  "cw_call marshal (HeaderAdd k v) w = w"
| "cw_call marshal (WriteHeader code) w = w\<lparr>cw_status := code\<rparr>"
| "cw_call marshal (WriteBody p) w = w\<lparr>cw_buf := cw_buf w @ part_bytes marshal p\<rparr>"

fun sw_call :: "(string \<Rightarrow> oai_chunk option) \<Rightarrow> (json \<Rightarrow> string) \<Rightarrow> wcall \<Rightarrow> streamWriter \<Rightarrow> streamWriter" where
  "sw_call decode marshal (HeaderAdd k v) w = w"
| "sw_call decode marshal (WriteHeader code) w = w\<lparr>sw_statusCode := code\<rparr>"
| "sw_call decode marshal (WriteBody p) w = sw_Write decode (part_bytes marshal p) w"

subsection \<open>The handler\<close>

datatype content_block = TextBlock string | ToolUseBlock string string string

record anthropicResponse =
  an_ID :: string
  an_Model :: string
  an_Content :: "content_block list"
  an_StopReason :: string
  an_InputTokens :: int
  an_OutputTokens :: int

datatype messages_reply =
    MPanicked
  | MError int string string
  | MReply anthropicResponse
  | MStream "sse_event list"

record messages_env =
  me_gw :: gw_env
  me_raw :: "json \<Rightarrow> string"
  me_default :: string
  me_msgID :: string
  me_parse :: "string \<Rightarrow> json option"
  me_errtext :: "json option \<Rightarrow> string"

definition me_decode :: "messages_env \<Rightarrow> string \<Rightarrow> oai_chunk option" where
  "me_decode me s = Option.bind (me_parse me s) dec_chunk"

definition me_marshal :: "messages_env \<Rightarrow> json \<Rightarrow> string" where
  "me_marshal me = re_marshal (ge_resp (me_gw me))"

definition tool_input :: "messages_env \<Rightarrow> string \<Rightarrow> string" where
  "tool_input me args0 =
     (let args = TrimSpace args0
      in if args = [] then ''{}'' else if me_parse me args \<noteq> None then args else me_marshal me (JStr args))"

definition ellipsis :: string where
  "ellipsis = [CHR 0xE2, CHR 0x80, CHR 0xA6]"

text \<open>The content of an answer: the text, if any, then the tool calls, and at least one block.\<close>

definition reply_blocks :: "messages_env \<Rightarrow> string \<Rightarrow> openAIToolCallOut list \<Rightarrow> content_block list" where
  "reply_blocks me outputText tcs =
     (let blocks = (if outputText \<noteq> [] then [TextBlock outputText] else [])
                   @ map (\<lambda>tc. ToolUseBlock (to_ID tc) (to_Name tc) (tool_input me (to_Arguments tc))) tcs
      in if blocks = [] then [TextBlock []] else blocks)"

text \<open>The answer built from what the proxy captured and put in the context.\<close>

definition build_reply :: "messages_env \<Rightarrow> string \<Rightarrow> captureWriter \<Rightarrow> gin_ctx \<Rightarrow> messages_reply" where
  "build_reply me model cap c =
     (let body = cw_buf cap
      in if cw_status cap \<ge> 400
         then MError (cw_status cap) ''api_error'' (extractUpstreamErrorMessage (me_parse me body) body)
         else let text0 = toString (gc_output_text c);
                  (text, fin, tcs) = extractFromCapturedBody (me_parse me) body;
                  outputText = (if text0 = [] \<or> suffix ellipsis text0 then (if text \<noteq> [] then text else text0) else text0);
                  finish = (if tcs \<noteq> [] \<and> fin = [] then ''tool_calls'' else fin)
              in MReply \<lparr>an_ID = me_msgID me, an_Model = model, an_Content = reply_blocks me outputText tcs, an_StopReason = mapStopReason finish,
                         an_InputTokens = toInt (gc_tokens_in c), an_OutputTokens = toInt (gc_tokens_out c)\<rparr>)"

text \<open>What a streaming client gets after the proxy returned.\<close>

definition stream_reply :: "messages_env \<Rightarrow> streamWriter \<Rightarrow> gin_ctx \<Rightarrow> messages_reply" where
  "stream_reply me w0 c =
     (let w = sw_end (me_decode me) w0
      in if sw_started w then MStream (sw_events w)
         else let status = (if sw_statusCode w < 400 then 502 else sw_statusCode w);
                  errBuf = concat (map (part_bytes (me_marshal me)) (sw_errBuf w));
                  body = (if errBuf \<noteq> [] then errBuf
                          else case gc_response_body c of Some p \<Rightarrow> part_bytes (me_marshal me) p | None \<Rightarrow> [])
              in MError status ''api_error'' (extractUpstreamErrorMessage (if body \<noteq> [] then me_parse me body else None) body))"

definition inner_request :: "fields \<Rightarrow> proxy_request \<Rightarrow> proxy_request" where
  "inner_request body rq =
     rq\<lparr>pr_path := ''/v1/chat/completions'', pr_body := Read (Some (JObj body)),
        pr_headers := (pr_headers rq)(''Content-Type'' := ''application/json'')\<rparr>"

text \<open>The call of the proxy and the translation of its answer, streamed or not.\<close>

definition messages_call :: "messages_env \<Rightarrow> proxy_request \<Rightarrow> bool \<Rightarrow> string \<Rightarrow> fields \<Rightarrow> gateway \<Rightarrow> messages_reply \<times> gateway" where
  "messages_call me rq stream model body g =
     (case ProxyRequest (me_gw me) (inner_request body rq) g of
        (Panicked, g') \<Rightarrow> (MPanicked, g')
      | (Responded ws c _, g') \<Rightarrow>
          (if stream
           then stream_reply me (fold (sw_call (me_decode me) (me_marshal me)) ws (newStreamWriter (me_msgID me) model)) c
           else build_reply me model (fold (cw_call (me_marshal me)) ws newCaptureWriter) c, g'))"

definition HandleMessages :: "messages_env \<Rightarrow> proxy_request \<Rightarrow> gateway \<Rightarrow> messages_reply \<times> gateway" where
  "HandleMessages me rq g =
     (case pr_body rq of
        TooLarge \<Rightarrow> (MError 413 ''request_too_large'' ''request body too large'', g)
      | ReadFailed \<Rightarrow> (MError 400 ''invalid_request_error'' ''read body failed'', g)
      | Read b \<Rightarrow>
          (case Option.bind b dec_request of
             None \<Rightarrow> (MError 400 ''invalid_request_error'' (''invalid JSON: '' @ me_errtext me b), g)
           | Some req0 \<Rightarrow>
               if ar_Messages req0 = [] then (MError 400 ''invalid_request_error'' ''messages is required'', g)
               else
                 (let req = (if ar_MaxTokens req0 = 0 then req0\<lparr>ar_MaxTokens := 4096\<rparr> else req0);
                      (body, upstreamModel) = buildOpenAIBody (me_raw me) (me_default me) (gw_custom g) req;
                      model = (if ar_Model req = [] then upstreamModel else ar_Model req)
                  in messages_call me rq (ar_Stream req) model body g)))"

subsection \<open>Authentication\<close>

definition AnthropicAuthMiddleware :: "string \<Rightarrow> request \<Rightarrow> request" where
  "AnthropicAuthMiddleware x_api_key rq =
     (if prefix ''/v1/'' (rq_path rq) \<and> rq_auth rq = [] \<and> x_api_key \<noteq> [] then rq\<lparr>rq_auth := ''Bearer '' @ x_api_key\<rparr> else rq)"

definition ex_messages_env :: messages_env where
  "ex_messages_env = \<lparr>me_gw = ex_gw_env\<lparr>ge_net := (\<lambda>_ _ _. ex_net)\<rparr>, me_raw = (\<lambda>_. []), me_default = [], me_msgID = ''msg_1'',
     me_parse = (\<lambda>_. None), me_errtext = (\<lambda>_. [])\<rparr>"

definition ex_messages :: proxy_request where
  "ex_messages = (ex_chat [])\<lparr>pr_path := ''/v1/messages'', pr_body := Read (Some (JObj [(''model'', JStr ''grok-4''),
     (''messages'', JArr [JObj [(''role'', JStr ''user''), (''content'', JStr ''hello'')]])]))\<rparr>"

definition ex_full_gateway :: gateway where
  "ex_full_gateway = ex_gateway\<lparr>gw_up := ex_up\<rparr>"

lemma ex_messages_served: "\<exists>r. fst (HandleMessages ex_messages_env ex_messages ex_full_gateway) = MReply r"
proof -
  define bm where "bm = [(''model'', JStr ''grok-4''), (''messages'', JArr [JObj (text_message ''user'' ''hello'')]), (''stream'', JBool False), (''max_tokens'', JNum 4096)]"
  have m: "HandleMessages ex_messages_env ex_messages ex_full_gateway = messages_call ex_messages_env ex_messages False ''grok-4'' bm ex_full_gateway"
  proof -
    have "TrimSpace ''grok-4'' = ''grok-4''" by code_simp
    then show ?thesis
      by (simp add: HandleMessages_def ex_messages_def dec_request_def json_fields_def dec_string_def dec_int_def dec_list_def json_list_def
          dec_message_def dec_bool_def dec_ptr_def buildOpenAIBody_def mapAnthropicModel_def translateMessages_def translate_message_def
          message_string_def json_string_def translateTools_def translateToolChoice_def Let_def ex_full_gateway_def bm_def)
  qed
  have rr: "resolve_route (me_gw ex_messages_env) ex_full_gateway bm =
      (\<lparr>rt_model = ''grok-4'', rt_body = bm, rt_up = [], rt_mn = [], rt_combo = [], rt_strategy = []\<rparr>, gw_combos ex_full_gateway)"
    by (simp add: resolve_route_def default_model_def jstr_def custom_step_def resolve_custom_def combo_step_def ResolveCombo_def
        alias_step_def expand_alias_def ExpandGrokAlias_def Let_def bm_def ex_full_gateway_def)
  have nd: "\<not> model_denied ''k'' ''grok-4'' ex_full_gateway" using ex_not_denied by (simp add: model_denied_def ex_full_gateway_def)
  have g: "fst (ProxyGrok ex_net ex_up) = GServed ''b'' 200 ''ok''" by code_simp
  let ?c = "new_ctx\<lparr>gc_account := ''b''\<rparr>"
  have "\<exists>g'. run_route (me_gw ex_messages_env) (inner_request bm ex_messages)
      \<lparr>rt_model = ''grok-4'', rt_body = bm, rt_up = [], rt_mn = [], rt_combo = [], rt_strategy = []\<rparr> ex_full_gateway
      = Some (\<lparr>at_calls = [WriteHeader 200, WriteBody (Raw ''ok'')], at_ctx = ?c, at_upstream = ''grok'', at_model = ''grok-4'', at_body = bm\<rparr>, g')"
    using g by (cases "ProxyGrok ex_net ex_up")
      (simp add: run_route_def dispatch_def IsGrokModel_def call_grok_def Let_def respond_grok_def grok_answer_def copy_headers_def
        content_type_def as_map_def ex_messages_env_def ex_gw_env_def ex_resp_def ex_full_gateway_def)
  then obtain g' where run: "run_route (me_gw ex_messages_env) (inner_request bm ex_messages)
      \<lparr>rt_model = ''grok-4'', rt_body = bm, rt_up = [], rt_mn = [], rt_combo = [], rt_strategy = []\<rparr> ex_full_gateway
      = Some (\<lparr>at_calls = [WriteHeader 200, WriteBody (Raw ''ok'')], at_ctx = ?c, at_upstream = ''grok'', at_model = ''grok-4'', at_body = bm\<rparr>, g')"
    by blast
  have path: "chat_path (pr_path (inner_request bm ex_messages))" "pr_body (inner_request bm ex_messages) = Read (Some (JObj bm))"
      "pr_client_key (inner_request bm ex_messages) = ''k''"
    by (simp_all add: inner_request_def chat_path_def ex_messages_def)
  have "\<exists>lg g2. ProxyRequest (me_gw ex_messages_env) (inner_request bm ex_messages) ex_full_gateway
      = (Responded [WriteHeader 200, WriteBody (Raw ''ok'')] ?c lg, g2)"
    using run nd by (simp add: ProxyRequest_chat [OF path(1,2)] chat_admitted [OF rr] path(3))
  then show ?thesis
    by (auto simp: m messages_call_def build_reply_def newCaptureWriter_def part_bytes_def Let_def split_beta)
qed

subsection \<open>Authentication of Messages clients\<close>

text \<open>
  A Messages client authenticates with its own header: on every path below \<^verbatim>\<open>/v1/\<close> a request
  without an \<^verbatim>\<open>Authorization\<close> header whose \<^verbatim>\<open>x-api-key\<close> is a registered, enabled key passes the
  gateway's authentication as that key; a request that has an \<^verbatim>\<open>Authorization\<close> header is judged by it
  alone.
\<close>

theorem x_api_key_authenticates:
  assumes "prefix ''/v1/'' (rq_path rq)" and "Valid am k" and "k \<noteq> []"
  shows "fst (AuthMiddleware False sl am (AnthropicAuthMiddleware k (rq\<lparr>rq_auth := []\<rparr>)) s) = Pass (Some k)
    \<and> (rq_auth rq = [] \<or> AnthropicAuthMiddleware k rq = rq)"
proof -
  have "rq_path rq \<notin> set public_paths" using assms(1) by (auto simp: public_paths_def)
  moreover have "am \<noteq> []" using assms(2) by (auto simp: Valid_def split: option.splits)
  ultimately show ?thesis
    using assms by (simp add: AuthMiddleware_def AnthropicAuthMiddleware_def extract_key_def Let_def trim_prefix_def)
qed

theorem x_api_key_authenticates_witness:
  "fst (AuthMiddleware False (Some (LookupSession 0)) [(''gw-1'', ex_info ''gw-1'' ''inference'')]
     (AnthropicAuthMiddleware ''gw-1'' (\<lparr>rq_path = ''/v1/messages'', rq_auth = [], rq_accept = [], rq_cookie = None\<rparr>\<lparr>rq_auth := []\<rparr>)) Map.empty)
     = Pass (Some ''gw-1'')
   \<and> (rq_auth \<lparr>rq_path = ''/v1/messages'', rq_auth = [], rq_accept = [], rq_cookie = None\<rparr> = []
      \<or> AnthropicAuthMiddleware ''gw-1'' \<lparr>rq_path = ''/v1/messages'', rq_auth = [], rq_accept = [], rq_cookie = None\<rparr>
          = \<lparr>rq_path = ''/v1/messages'', rq_auth = [], rq_accept = [], rq_cookie = None\<rparr>)"
  by (rule x_api_key_authenticates) (simp_all add: Valid_def ex_info_def bootstrap_info_def)

subsection \<open>What a Messages client gets\<close>

lemma messages_cases:
  obtains r where "HandleMessages me rq g = (r, g)" "r \<noteq> MPanicked" "\<And>x. r \<noteq> MReply x" "\<And>x. r \<noteq> MStream x"
  | stream body model where "HandleMessages me rq g = messages_call me rq stream model body g"
proof (cases "pr_body rq")
  case (Read b)
  show ?thesis
  proof (cases "Option.bind b dec_request")
    case None
    then show ?thesis using Read that(1) by (simp add: HandleMessages_def)
  next
    case (Some req)
    show ?thesis
    proof (cases "ar_Messages req = []")
      case True
      then show ?thesis using Read Some that(1) by (simp add: HandleMessages_def)
    next
      case False
      show ?thesis by (rule that(2)) (simp add: HandleMessages_def Let_def split_beta Read Some False)
    qed
  qed
qed (use that(1) in \<open>simp_all add: HandleMessages_def\<close>)

lemma build_reply_MReply:
  assumes "build_reply me model cap c = MReply r"
  shows "cw_status cap < 400" "an_Content r \<noteq> []" "an_StopReason r \<in> {''end_turn'', ''max_tokens'', ''stop_sequence'', ''tool_use''}"
    "an_InputTokens r = toInt (gc_tokens_in c)" "an_OutputTokens r = toInt (gc_tokens_out c)"
proof -
  have lt: "cw_status cap < 400"
  proof (rule ccontr)
    assume "\<not> cw_status cap < 400"
    then show False using assms by (simp add: build_reply_def Let_def)
  qed
  then obtain x t f where r: "r = \<lparr>an_ID = me_msgID me, an_Model = model, an_Content = reply_blocks me x t, an_StopReason = mapStopReason f,
      an_InputTokens = toInt (gc_tokens_in c), an_OutputTokens = toInt (gc_tokens_out c)\<rparr>"
    using assms by (simp add: build_reply_def Let_def split_beta) blast
  have "reply_blocks me x t \<noteq> []" "mapStopReason f \<in> {''end_turn'', ''max_tokens'', ''stop_sequence'', ''tool_use''}"
    by (simp_all add: reply_blocks_def mapStopReason_def Let_def)
  then show "cw_status cap < 400" "an_Content r \<noteq> []" "an_StopReason r \<in> {''end_turn'', ''max_tokens'', ''stop_sequence'', ''tool_use''}"
    "an_InputTokens r = toInt (gc_tokens_in c)" "an_OutputTokens r = toInt (gc_tokens_out c)"
    using lt by (simp_all add: r)
qed

lemma denied_status: "cw_status (fold (cw_call marshal) (c_JSON 403 v) newCaptureWriter) = 403"
  by (simp add: c_JSON_def newCaptureWriter_def)

text \<open>
  C10: What a Messages client is told is what it is billed. A complete answer has at least one content
  block and one of the four stop reasons, and its usage is exactly the consumption charged to the
  client's key: the entry of a registered key after the request is the entry before it with these
  tokens added, or one more request if they are none.
\<close>

theorem reply_usage_is_billed:
  assumes "HandleMessages me rq g = (MReply r, g')"
    and "pr_client_key rq \<noteq> []" and "map_of (gw_auth g) (pr_client_key rq) = Some i"
  shows "an_Content r \<noteq> [] \<and> an_StopReason r \<in> {''end_turn'', ''max_tokens'', ''stop_sequence'', ''tool_use''}
    \<and> map_of (gw_auth g') (pr_client_key rq) =
        Some (let billed = wrap64 (an_InputTokens r + an_OutputTokens r)
              in if billed > 0 then counted_info billed i else i\<lparr>gk_Requests := wrap64 (gk_Requests i + 1)\<rparr>)"
proof (cases rule: messages_cases [of me rq g])
  case (2 stream body model)
  let ?rq = "inner_request body rq"
  obtain ws c lg where p: "ProxyRequest (me_gw me) ?rq g = (Responded ws c lg, g')"
    using 2 assms(1) by (auto simp: messages_call_def split: prod.splits handled.splits)
  have "\<not> stream" using 2 p assms(1) by (auto simp: messages_call_def stream_reply_def Let_def split: if_splits)
  then have b: "build_reply me model (fold (cw_call (me_marshal me)) ws newCaptureWriter) c = MReply r"
    using 2 p assms(1) by (simp add: messages_call_def)
  have path: "chat_path (pr_path ?rq)" "pr_body ?rq = Read (Some (JObj body))" "pr_client_key ?rq = pr_client_key rq"
    by (simp_all add: inner_request_def chat_path_def)
  have "\<not> model_denied (pr_client_key rq) (rt_model (fst (resolve_route (me_gw me) g body))) g"
  proof
    assume "model_denied (pr_client_key rq) (rt_model (fst (resolve_route (me_gw me) g body))) g"
    then have "\<exists>v. ws = c_JSON 403 v"
      using p by (auto simp: ProxyRequest_chat [OF path(1,2)] chat_completion_def Let_def path(3) split_beta)
    then show False using build_reply_MReply(1) [OF b] denied_status by auto
  qed
  then have "map_of (gw_auth g') (pr_client_key rq) =
      Some (let billed = wrap64 (toInt (gc_tokens_in c) + toInt (gc_tokens_out c))
            in if billed > 0 then counted_info billed i else i\<lparr>gk_Requests := wrap64 (gk_Requests i + 1)\<rparr>)"
    using chat_billed [OF path(1,2) _ p] assms(2,3) path(3) by simp
  then show ?thesis using build_reply_MReply [OF b] by simp
next
  case (1 x)
  then have "x = MReply r" using assms(1) by simp
  then show ?thesis using 1(3) by blast
qed

theorem reply_usage_is_billed_witness:
  "\<exists>r g' i. HandleMessages ex_messages_env ex_messages ex_full_gateway = (MReply r, g')
    \<and> an_Content r \<noteq> [] \<and> an_StopReason r \<in> {''end_turn'', ''max_tokens'', ''stop_sequence'', ''tool_use''}
    \<and> map_of (gw_auth g') (pr_client_key ex_messages) =
        Some (let billed = wrap64 (an_InputTokens r + an_OutputTokens r)
              in if billed > 0 then counted_info billed i else i\<lparr>gk_Requests := wrap64 (gk_Requests i + 1)\<rparr>)"
proof -
  obtain r where "fst (HandleMessages ex_messages_env ex_messages ex_full_gateway) = MReply r" using ex_messages_served by blast
  then obtain g' where h: "HandleMessages ex_messages_env ex_messages ex_full_gateway = (MReply r, g')" by (metis prod.collapse)
  have key: "pr_client_key ex_messages \<noteq> []" "pr_client_key ex_messages = ''k''" by (simp_all add: ex_messages_def)
  have "map_of (gw_auth ex_full_gateway) (pr_client_key ex_messages) = Some ((ex_info ''k'' ''inference'')\<lparr>gk_AllowedModels := [''grok-*'']\<rparr>)"
    by (simp add: key ex_full_gateway_def)
  from reply_usage_is_billed [OF h key(1) this] show ?thesis using h by blast
qed

text \<open>
  Long answers are cut. The proxy stores the text of an answer shortened to 1000 bytes and three
  dots; the handler looks for the full text in the captured body only when the stored text ends
  with the character for an ellipsis, which it never does. So whatever the captured body holds, an
  answer of more than 1000 bytes reaches the client as its first 1000 bytes and three dots.
\<close>

theorem long_answers_truncated:
  assumes "cw_status cap < 400" and "gc_output_text c = Some (truncateLog s 1000)" and "length s > 1000"
  shows "\<exists>r rest. build_reply me model cap c = MReply r \<and> an_Content r = TextBlock (take 1000 s @ ''...'') # rest"
proof -
  have t: "truncateLog s 1000 = take 1000 s @ ''...''" using assms(3) by (simp add: truncateLog_def)
  have "\<not> suffix ellipsis (x @ ''...'')" for x :: string
  proof
    assume "suffix ellipsis (x @ ''...'')"
    then obtain ys where "x @ ''...'' = ys @ ellipsis" by (auto simp: suffix_def)
    then have "last (x @ ''...'') = last (ys @ ellipsis)" by simp
    then show False by (simp add: ellipsis_def)
  qed
  then show ?thesis using assms(1,2) t by (simp add: build_reply_def reply_blocks_def Let_def toString_def split_beta)
qed

theorem long_answers_truncated_witness:
  "\<exists>r rest. build_reply (ex_messages_env) ''m'' newCaptureWriter (new_ctx\<lparr>gc_output_text := Some (truncateLog (replicate 1001 (CHR ''a'')) 1000)\<rparr>) = MReply r
     \<and> an_Content r = TextBlock (take 1000 (replicate 1001 (CHR ''a'')) @ ''...'') # rest"
  by (rule long_answers_truncated) (simp_all only: newCaptureWriter_def captureWriter.simps gin_ctx.simps length_replicate, simp_all)

subsection \<open>Refused and streamed requests\<close>

text \<open>
  A malformed Messages request costs nothing: when the body is too large, cannot be read, is not a
  Messages request or has no messages, the client gets an error and the gateway is unchanged.
\<close>

lemma malformed_messages_free:
  assumes "case pr_body rq of Read b \<Rightarrow> (case Option.bind b dec_request of Some req \<Rightarrow> ar_Messages req = [] | None \<Rightarrow> True) | _ \<Rightarrow> True"
  shows "\<exists>code ty msg. HandleMessages me rq g = (MError code ty msg, g) \<and> code \<in> {400, 413}"
  using assms by (cases "pr_body rq") (auto simp: HandleMessages_def split: option.splits)

fun is_header :: "wcall \<Rightarrow> bool" where
  "is_header (HeaderAdd k v) \<longleftrightarrow> True"
| "is_header _ \<longleftrightarrow> False"

lemma sw_headers: "list_all is_header hs \<Longrightarrow> fold (sw_call decode marshal) hs w = w"
proof (induction hs)
  case (Cons h hs)
  then show ?case by (cases h) auto
qed simp

lemma sw_end_status:
  assumes "sw_statusCode w < 400" and "newline \<notin> set (sw_carry w)"
  shows "sw_statusCode (sw_end decode (fold (sw_Write decode) ps w)) = sw_statusCode w"
  by (simp add: sw_end_items [OF assms] Let_def)

lemma sw_bodies: "fold (sw_call decode marshal) (map WriteBody ps) w = fold (sw_Write decode) (map (part_bytes marshal) ps) w"
  by (induction ps arbitrary: w) simp_all

text \<open>
  A streaming client gets a complete message or an error. When the proxy streams an answer with a
  status below 400 whose events are orderly, the client receives either a well-formed event
  sequence that ends with the end of the message, or, if no event carried content or a terminator,
  the error status 502.
\<close>

theorem messages_stream_complete:
  assumes "ProxyRequest (me_gw me) (inner_request body rq) g = (Responded (hs @ WriteHeader st # map WriteBody ps) c lg, g')"
    and "list_all is_header hs" and "st < 400"
    and "orderly False (items_of (me_decode me) (split_at newline (concat (map (part_bytes (me_marshal me)) ps))))"
  shows "case fst (messages_call me rq True model body g) of
      MStream es \<Rightarrow> (\<exists>seen. mo_run es mo_start = Some \<lparr>mo_phase = Ended, mo_open = {}, mo_seen = seen\<rparr>)
    | MError code _ _ \<Rightarrow> code = 502
    | _ \<Rightarrow> False"
proof -
  define w0 where "w0 = fold (sw_Write (me_decode me)) (map (part_bytes (me_marshal me)) ps) ((newStreamWriter (me_msgID me) model)\<lparr>sw_statusCode := st\<rparr>)"
  define w where "w = sw_end (me_decode me) w0"
  have call: "fst (messages_call me rq True model body g) = stream_reply me w0 c"
    using assms(1,2) by (simp add: messages_call_def sw_headers sw_bodies w0_def)
  have p: "if sw_started w then (\<exists>seen. mo_run (sw_events w) mo_start = Some \<lparr>mo_phase = Ended, mo_open = {}, mo_seen = seen\<rparr>) else sw_events w = []"
    by (rule stream_complete [OF assms(4,3)]) (simp add: w_def w0_def)
  have st: "sw_statusCode w < 400"
    using sw_end_status [where decode = "me_decode me" and ps = "map (part_bytes (me_marshal me)) ps" and w = "(newStreamWriter (me_msgID me) model)\<lparr>sw_statusCode := st\<rparr>"] assms(3)
    by (simp add: w_def w0_def newStreamWriter_def)
  show ?thesis using p st by (simp add: call stream_reply_def w_def [symmetric] Let_def)
qed

subsection \<open>Tool calls of a captured stream\<close>

text \<open>The tool calls a sequence of deltas stands for: one per index, in the order of first appearance.\<close>

definition delta_merge :: "tool_delta \<Rightarrow> openAIToolCallOut \<Rightarrow> openAIToolCallOut" where
  "delta_merge d t =
     \<lparr>to_ID = (if td_ID d \<noteq> [] then td_ID d else to_ID t), to_Name = (if td_Name d \<noteq> [] then td_Name d else to_Name t),
      to_Arguments = to_Arguments t @ td_Arguments d\<rparr>"

definition tool_of :: "tool_delta list \<Rightarrow> int \<Rightarrow> openAIToolCallOut" where
  "tool_of ds k = fold delta_merge (filter (\<lambda>d. td_Index d = k) ds) \<lparr>to_ID = [], to_Name = [], to_Arguments = []\<rparr>"

definition first_indices :: "tool_delta list \<Rightarrow> int list" where
  "first_indices ds = rev (remdups (rev (map td_Index ds)))"

lemma first_indices_snoc:
  "first_indices (ds @ [d]) = (if td_Index d \<in> td_Index ` set ds then first_indices ds else first_indices ds @ [td_Index d])"
  by (simp add: first_indices_def)

lemma set_first_indices [simp]: "set (first_indices ds) = td_Index ` set ds"
  by (simp add: first_indices_def)

lemma tool_of_snoc: "tool_of (ds @ [d]) = (tool_of ds)(td_Index d := delta_merge d (tool_of ds (td_Index d)))"
  by (auto simp: tool_of_def)

lemma deltas_acc:
  "ca_tcOrder (fold cap_delta_tool ds cap_start) = first_indices ds
   \<and> map_of (ca_tcMap (fold cap_delta_tool ds cap_start)) = (\<lambda>k. if k \<in> td_Index ` set ds then Some (tool_of ds k) else None)"
proof (induction ds rule: rev_induct)
  case Nil
  then show ?case by (simp add: cap_start_def first_indices_def fun_eq_iff)
next
  case (snoc d ds)
  let ?a = "fold cap_delta_tool ds cap_start"
  have m: "map_of (ca_tcMap ?a) (td_Index d) = (if td_Index d \<in> td_Index ` set ds then Some (tool_of ds (td_Index d)) else None)"
    using snoc by simp
  have e: "td_Index d \<notin> td_Index ` set ds \<Longrightarrow> tool_of ds (td_Index d) = \<lparr>to_ID = [], to_Name = [], to_Arguments = []\<rparr>"
  proof -
    assume "td_Index d \<notin> td_Index ` set ds"
    then have "filter (\<lambda>x. td_Index x = td_Index d) ds = []" by (auto simp: filter_empty_conv) (metis imageI)
    then show ?thesis by (simp add: tool_of_def)
  qed
  have t: "cap_delta_tool d ?a = ?a\<lparr>ca_tcMap := AList.update (td_Index d) (delta_merge d (tool_of ds (td_Index d))) (ca_tcMap ?a),
      ca_tcOrder := (if td_Index d \<notin> td_Index ` set ds then ca_tcOrder ?a @ [td_Index d] else ca_tcOrder ?a)\<rparr>"
    using m e by (simp add: cap_delta_tool_def Let_def delta_merge_def)
  show ?case using snoc by (auto simp: t first_indices_snoc tool_of_snoc update_conv' fun_eq_iff)
qed

lemma tool_arguments: "to_Arguments (tool_of ds k) = concat (map td_Arguments (filter (\<lambda>d. td_Index d = k) ds))"
proof -
  have "to_Arguments (fold delta_merge xs t) = to_Arguments t @ concat (map td_Arguments xs)" for xs t
    by (induction xs arbitrary: t) (simp_all add: delta_merge_def)
  then show ?thesis by (simp add: tool_of_def)
qed

lemma plain_choices:
  "list_all (\<lambda>ch. cc_Message ch = None) chs \<Longrightarrow>
   ca_tcMap (fold cap_choice_step chs a) = ca_tcMap (fold cap_delta_tool (concat (map cc_Deltas chs)) a)
   \<and> ca_tcOrder (fold cap_choice_step chs a) = ca_tcOrder (fold cap_delta_tool (concat (map cc_Deltas chs)) a)
   \<and> ca_text (fold cap_choice_step chs a) = ca_text a @ concat (map cc_Content chs)"
proof (induction chs arbitrary: a)
  case (Cons ch chs)
  have f: "ca_tcMap (fold cap_delta_tool ds a) = ca_tcMap (fold cap_delta_tool ds b) \<and> ca_tcOrder (fold cap_delta_tool ds a) = ca_tcOrder (fold cap_delta_tool ds b)"
    if "ca_tcMap a = ca_tcMap b" and "ca_tcOrder a = ca_tcOrder b" for ds a b
    using that by (induction ds arbitrary: a b) (simp_all add: cap_delta_tool_def Let_def)
  have keep: "ca_text (fold cap_delta_tool ds a) = ca_text a" for ds a
    by (induction ds arbitrary: a) (simp_all add: cap_delta_tool_def Let_def)
  let ?b = "cap_choice_step ch a"
  have "ca_tcMap ?b = ca_tcMap (fold cap_delta_tool (cc_Deltas ch) a)" "ca_tcOrder ?b = ca_tcOrder (fold cap_delta_tool (cc_Deltas ch) a)"
      "ca_text ?b = ca_text a @ cc_Content ch"
    using Cons.prems f [of "a\<lparr>ca_text := ca_text a @ cc_Content ch\<rparr>" a "cc_Deltas ch"] keep
    by (auto simp: cap_choice_step_def Let_def split: option.split)
  then show ?case using Cons f [of ?b "fold cap_delta_tool (cc_Deltas ch) a" "concat (map cc_Deltas chs)"] by simp
qed simp

text \<open>
  Tool calls that a captured event stream delivers in pieces are put together completely: for
  chunks without whole messages the result has one call per index, in the order in which the
  indices first appear, each with the concatenation of all its argument pieces in order and the last
  identifier and name sent for it, and the text is the concatenation of the text pieces.
\<close>

theorem captured_tools_reassembled:
  assumes "list_all (\<lambda>ch. cc_Message ch = None) chs"
  shows "let a = fold cap_choice_step chs cap_start; ds = concat (map cc_Deltas chs)
     in List.map_filter (map_of (ca_tcMap a)) (ca_tcOrder a) = map (tool_of ds) (first_indices ds)
        \<and> map to_Arguments (map (tool_of ds) (first_indices ds))
            = map (\<lambda>k. concat (map td_Arguments (filter (\<lambda>d. td_Index d = k) ds))) (first_indices ds)
        \<and> ca_text a = concat (map cc_Content chs)"
proof -
  let ?ds = "concat (map cc_Deltas chs)"
  have "List.map_filter (\<lambda>k. if k \<in> td_Index ` set ?ds then Some (tool_of ?ds k) else None) (first_indices ?ds) = map (tool_of ?ds) (first_indices ?ds)"
  proof -
    have "List.map_filter (\<lambda>k. if k \<in> A then Some (f k) else None) ks = map f ks" if "set ks \<subseteq> A" for ks A and f :: "int \<Rightarrow> openAIToolCallOut"
      using that by (induction ks) (simp_all add: List.map_filter_simps)
    then show ?thesis by simp
  qed
  then show ?thesis
    using plain_choices [OF assms, of cap_start] deltas_acc [of ?ds] by (simp add: Let_def tool_arguments cap_start_def)
qed

theorem captured_tools_reassembled_witness:
  "let a = fold cap_choice_step [\<lparr>cc_Content = ''x'', cc_Deltas = [\<lparr>td_Index = 0, td_ID = ''i'', td_Name = ''f'', td_Arguments = ''{''\<rparr>], cc_Message = None, cc_Finish = None\<rparr>,
       \<lparr>cc_Content = [], cc_Deltas = [\<lparr>td_Index = 0, td_ID = [], td_Name = [], td_Arguments = ''}''\<rparr>], cc_Message = None, cc_Finish = None\<rparr>] cap_start
   in List.map_filter (map_of (ca_tcMap a)) (ca_tcOrder a) = [\<lparr>to_ID = ''i'', to_Name = ''f'', to_Arguments = ''{}''\<rparr>] \<and> ca_text a = ''x''"
proof -
  let ?chs = "[\<lparr>cc_Content = ''x'', cc_Deltas = [\<lparr>td_Index = 0, td_ID = ''i'', td_Name = ''f'', td_Arguments = ''{''\<rparr>], cc_Message = None, cc_Finish = None\<rparr>,
       \<lparr>cc_Content = [], cc_Deltas = [\<lparr>td_Index = 0, td_ID = [], td_Name = [], td_Arguments = ''}''\<rparr>], cc_Message = None, cc_Finish = None\<rparr>]"
  have "list_all (\<lambda>ch. cc_Message ch = None) ?chs" by simp
  from captured_tools_reassembled [OF this] show ?thesis by (simp add: Let_def first_indices_def tool_of_def delta_merge_def)
qed

end
