(* ===== verification/Settings.thy ===== *)
theory Settings
  imports Messages
begin

text \<open>
  What the inference interface leaves alone. Serving a request changes tokens, cooldowns, credits,
  failure counts, circuit state and usage counters; it does not change what an administrator set
  up: which accounts, keys and proxies there are, how the proxies connect, the gateway keys with their
  roles, whitelists and limits, and the registries.
\<close>

subsection \<open>Upstream credentials and proxies\<close>

definition proxy_settings where
  "proxy_settings e = (pe_ID e, conn e, pe_Label e, pe_Upstreams e, pe_CreatedAt e)"

definition upstream_settings where
  "upstream_settings s =
     (map ga_Email (gm_accounts (us_grok s)), map ck_Key (km_keys (us_cb s)), map proxy_settings (pp_entries (us_proxy s)))"

lemma map_update_keeps: "(i < length xs \<Longrightarrow> f v = f (xs ! i)) \<Longrightarrow> map f (xs[i := v]) = map f xs"
  by (cases "i < length xs") (simp_all add: map_update list_update_same_conv list_update_beyond)

lemma find_index_bound: "find_index P xs = Some i \<Longrightarrow> i < length xs"
  by (simp add: find_index_Some)

lemma MarkFailed_settings: "map proxy_settings (pp_entries (fst (MarkFailed b i p))) = map proxy_settings (pp_entries p)"
  by (auto simp: MarkFailed_def Let_def proxy_settings_def conn_def intro!: map_update_keeps split: option.split)

lemma MarkSuccess_settings: "map proxy_settings (pp_entries (fst (MarkSuccess b i p))) = map proxy_settings (pp_entries p)"
  by (auto simp: MarkSuccess_def Let_def proxy_settings_def conn_def intro!: map_update_keeps split: option.split)

lemma getClient_settings: "map proxy_settings (pp_entries (fst (snd (getClient env incr now up p)))) = map proxy_settings (pp_entries p)"
  unfolding getClient_state Let_def by (auto simp: MarkFailed_settings split: sum.split)

lemma pick_proxy_settings [simp]: "upstream_settings (snd (pick_proxy env up s)) = upstream_settings s"
  using getClient_settings [of "ne_transport env" "ne_incr env (us_calls s)" "us_now env s" up "us_proxy s"]
  by (simp add: upstream_settings_def) (simp add: pick_proxy_def Let_def split_beta)

lemma report_settings [simp]: "upstream_settings (report env pid r s) = upstream_settings s"
  by (simp add: upstream_settings_def)
    (simp add: report_def markProxyResult_def MarkFailed_settings MarkSuccess_settings split: sum.split prod.split)

lemma upd_grok_settings: "(\<And>a. ga_Email (f a) = ga_Email a) \<Longrightarrow> upstream_settings (upd_grok i f s) = upstream_settings s"
  by (simp add: upstream_settings_def upd_grok_def upd_account_def map_update_keeps)

lemma upd_cb_settings:
  "(i < length (km_keys (us_cb s)) \<Longrightarrow> ck_Key (f (km_keys (us_cb s) ! i)) = ck_Key (km_keys (us_cb s) ! i)) \<Longrightarrow>
     upstream_settings (upd_cb i f s) = upstream_settings s"
  by (simp add: upstream_settings_def upd_cb_def upd_key_def map_update_keeps)

lemma health_settings [simp]:
  "upstream_settings (s\<lparr>us_gh := h\<rparr>) = upstream_settings s" "upstream_settings (s\<lparr>us_ch := h\<rparr>) = upstream_settings s"
  by (simp_all add: upstream_settings_def)

lemma token_settings: "ga_Email (apply_tokens fmt now t a) = ga_Email a" "ga_Email (disable_for_good a) = ga_Email a"
  "ga_Email (disable_cooldown now a) = ga_Email a" "ck_Key (disable_key now k) = ck_Key k"
  by (simp_all add: apply_tokens_def disable_for_good_def disable_cooldown_def disable_key_def Let_def)

lemmas upd_settings = upd_grok_settings upd_cb_settings token_settings

lemma Refresh_settings: "upstream_settings (snd (Refresh env i s)) = upstream_settings s"
  by (simp add: Refresh_def Let_def split_beta upd_settings split: sum.split)

lemma grok_handle_settings: "upstream_settings (snd (grok_handle env start i st body s)) = upstream_settings s"
  by (simp add: grok_handle_def upd_settings)

lemma grok_send_settings: "upstream_settings (snd (grok_send env pid i s)) = upstream_settings s"
  by (simp add: grok_send_def Let_def)

lemma snd_settings: "r = (x, s') \<Longrightarrow> upstream_settings (snd r) = upstream_settings s \<Longrightarrow> upstream_settings s' = upstream_settings s"
  by simp

lemma grok_step_settings: "upstream_settings (snd (grok_step env pid start i s)) = upstream_settings s"
  by (auto simp: grok_step_def upd_settings grok_handle_settings split: prod.split sum.split option.split
      dest!: snd_settings [OF _ grok_send_settings] snd_settings [OF _ Refresh_settings])

lemma grok_pick_settings: "grok_pick env s = Some (i, s') \<Longrightarrow> upstream_settings s' = upstream_settings s"
  by (auto simp: grok_pick_def GrokNext_def upstream_settings_def Let_def split: prod.splits sum.splits option.splits if_splits)

lemma cb_step_settings: "upstream_settings (snd (cb_step env pid start i s)) = upstream_settings s"
  by (simp add: cb_step_def Let_def cb_handle_def cb_disable_state cb_record_def upd_settings split: sum.split prod.split)

lemma cb_pick_settings: "cb_pick s = Some (i, s') \<Longrightarrow> upstream_settings s' = upstream_settings s"
  by (auto simp: cb_pick_def CBNext_def upstream_settings_def Let_def split: prod.splits sum.splits option.splits if_splits)

lemma grok_loop_settings: "upstream_settings (snd (grok_loop env pid start s)) = upstream_settings s"
  unfolding grok_loop_def
  by (rule retry_preserves [where P = "\<lambda>s'. upstream_settings s' = upstream_settings s"])
    (simp_all add: grok_step_settings grok_pick_settings)

lemma cb_loop_settings: "upstream_settings (snd (cb_loop env pid start s)) = upstream_settings s"
  unfolding cb_loop_def
  by (rule retry_preserves [where P = "\<lambda>s'. upstream_settings s' = upstream_settings s"])
    (simp_all add: cb_step_settings cb_pick_settings)

lemma ProxyGrok_settings: "upstream_settings (snd (ProxyGrok env s)) = upstream_settings s"
  using grok_loop_settings [of env pid start s1 for pid start s1]
  by (auto simp: ProxyGrok_def Let_def split_beta split: attempt_result.split dest!: snd_settings)

lemma ProxyCodeBuddy_settings: "upstream_settings (snd (ProxyCodeBuddy env body s)) = upstream_settings s"
  using cb_loop_settings [of env pid start s1 for pid start s1]
  by (auto simp: ProxyCodeBuddy_def Let_def split_beta split: attempt_result.split cb_reply.split transform_result.split option.split dest!: snd_settings)

lemma AddCredits_key: "AddCredits c k = Some k' \<Longrightarrow> ck_Key k' = ck_Key k"
  by (auto simp: AddCredits_def Let_def split: if_splits)

lemma cb_event_key: "cb_error_event marshal sc k = Some k' \<Longrightarrow> ck_Key k' = ck_Key k" "cb_credit_event sc k = Some k' \<Longrightarrow> ck_Key k' = ck_Key k"
  by (auto simp: cb_error_event_def cb_credit_event_def Let_def token_settings split: option.splits if_splits dest!: AddCredits_key)

lemma cb_line_key: "cb_line decode marshal line (a, k) = Some (a', k') \<Longrightarrow> ck_Key k' = ck_Key k"
  by (auto simp: cb_line_def Let_def split: option.splits if_splits dest!: cb_event_key)

lemma cb_stream_key: "cb_stream decode marshal alive wrote i lines (out, a, k) = Some (out', a', k') \<Longrightarrow> ck_Key k' = ck_Key k"
  by (induction lines arbitrary: i out a k) (auto split: if_splits option.splits prod.splits dest!: cb_line_key)

lemma cb_answer_key: "cb_answer re n cs model st body k c = Some (ws, c', k') \<Longrightarrow> ck_Key k' = ck_Key k"
  by (auto simp: cb_answer_def cbCollectStream_def Let_def split: if_splits option.splits prod.splits dest!: cb_stream_key AddCredits_key)

lemma respond_cb_settings: "respond_cb re cs model oc s c = Some (ws, c', s') \<Longrightarrow> upstream_settings s' = upstream_settings s"
  by (auto simp: respond_cb_def Let_def split: cb_outcome.splits option.splits intro!: upd_cb_settings dest!: cb_answer_key)

subsection \<open>The gateway\<close>

definition key_settings where
  "key_settings i = (gk_Key i, gk_KeyMasked i, gk_Name i, gk_Role i, gk_AllowedModels i, gk_RPM i, gk_Burst i, gk_TokenQuota i, gk_CreatedAt i)"

definition gateway_settings where
  "gateway_settings g =
     (upstream_settings (gw_up g), map (map_prod id key_settings) (gw_auth g), gw_custom g, map_option combos (gw_combos g))"

lemma update_settings: "map_of am k = Some i \<Longrightarrow> f i' = f i \<Longrightarrow> map (map_prod id f) (AList.update k i' am) = map (map_prod id f) am"
  by (induction am) auto

lemma count_settings: "map_of am k = Some i \<Longrightarrow> key_settings i' = key_settings i \<Longrightarrow>
    map (map_prod id key_settings) (AList.update k i' am) = map (map_prod id key_settings) am"
  by (rule update_settings)

lemma account_settings: "gateway_settings (account k c g) = gateway_settings g"
  by (auto simp: account_def Let_def IncrementTokens_def IncrementRequests_def gateway_settings_def counted_info_def
      intro!: count_settings split: option.split) (simp_all add: key_settings_def)

lemma ResolveCombo_eq: "ResolveCombo incr m r = (x, r') \<Longrightarrow> combos r' = combos r"
  using ResolveCombo_combos [of incr m r] by simp

lemma combo_step_combos: "map_option combos (snd (combo_step incr reg cbs rt)) = map_option combos cbs"
  by (auto simp: combo_step_def Let_def split: option.split prod.split dest: ResolveCombo_eq)

lemma resolve_route_combos: "map_option combos (snd (resolve_route env g bm)) = map_option combos (gw_combos g)"
  by (simp add: resolve_route_def Let_def split_beta combo_step_combos)

lemma dispatch_settings:
  assumes "dispatch env st up mn m bm c g = Some (ws, c', name, bm', g')"
  shows "gateway_settings g' = gateway_settings g"
proof -
  have "upstream_settings (gw_up g') = upstream_settings (gw_up g)"
    using assms
    by (auto simp: dispatch_def call_grok_def call_cb_def Let_def split_beta ProxyGrok_settings ProxyCodeBuddy_settings
        split: if_splits option.splits dest!: respond_cb_settings)
  then show ?thesis using dispatch_fields [OF assms] by (simp add: gateway_settings_def)
qed

lemma fallback_settings: "fallback_loop env cands a g = Some (a', g') \<Longrightarrow> gateway_settings g' = gateway_settings g"
  by (induction cands arbitrary: a g) (auto simp: Let_def split: prod.splits option.splits if_splits dest!: dispatch_settings)

lemma run_route_settings: "run_route env rq rt g = Some (a, g') \<Longrightarrow> gateway_settings g' = gateway_settings g"
  by (auto simp: run_route_def Let_def split: if_splits dest!: fallback_settings dispatch_settings)

lemma chat_settings: "gateway_settings (snd (chat_completion env rq bm g)) = gateway_settings g"
proof -
  obtain rt cbs where r: "resolve_route env g bm = (rt, cbs)" by fastforce
  have "map_option combos cbs = map_option combos (gw_combos g)" using resolve_route_combos [of env g bm] by (simp add: r)
  then have "gateway_settings (g\<lparr>gw_combos := cbs\<rparr>) = gateway_settings g" by (simp add: gateway_settings_def)
  then show ?thesis
    by (auto simp: chat_completion_def r Let_def account_settings split: option.split dest!: run_route_settings)
qed

lemma ProxyRequest_settings: "gateway_settings (snd (ProxyRequest env rq g)) = gateway_settings g"
  by (simp add: ProxyRequest_def chat_settings split: read_body.split map_result.split)

lemma HandleMessages_settings: "gateway_settings (snd (HandleMessages me rq g)) = gateway_settings g"
  using ProxyRequest_settings [of "me_gw me" rq' g for rq']
  by (auto simp: HandleMessages_def messages_call_def Let_def split_beta split: read_body.split option.split prod.split handled.split)

end
