(* ===== verification/PoolAdmin.thy ===== *)
theory PoolAdmin
  imports GrokPool CBPool ProxyPool Registry Health Auth
begin

text \<open>
  The administrative endpoints of the pools and registries: the account and key handlers of
  \<^verbatim>\<open>internal/handlers/handlers.go\<close>, and \<^verbatim>\<open>proxies.go\<close>, \<^verbatim>\<open>combos.go\<close> and \<^verbatim>\<open>custom.go\<close> beside it.

  An endpoint refuses with a status and a message or answers 200 with the values it puts in its
  object. A body is the decoded JSON value, \<open>None\<close> when it is not JSON. The texts of errors, the
  clock and the answers of the store are arguments. The branches for a nil registry or pool are
  not modelled.
\<close>

datatype 'a answer = Refused int string | Answer 'a

definition bind_json :: "(fields \<Rightarrow> 'a option) \<Rightarrow> json option \<Rightarrow> 'a option" where
  "bind_json dec body = Option.bind (Option.bind body json_fields) dec"

subsection \<open>Upstream accounts\<close>

definition HandleImportCBKey :: "json option \<Rightarrow> CBKeyManager \<Rightarrow> (bool \<times> nat \<times> string) answer \<times> CBKeyManager" where
  "HandleImportCBKey body km =
     (case bind_json (\<lambda>m. Option.bind (dec_string m ''api_key'') (\<lambda>a. map_option (Pair a) (dec_string m ''key''))) body of
        None \<Rightarrow> (Refused 400 ''invalid JSON body'', km)
      | Some (a, k) \<Rightarrow>
          (let apiKey = (if TrimSpace a = [] then TrimSpace k else TrimSpace a)
           in if apiKey = [] then (Refused 400 ''api_key (or key) is required'', km)
              else let ((added, total), km') = AddKey apiKey km
                   in (Answer (added, total, MaskKey apiKey), km')))"

record account_input =
  ai_Email :: string
  ai_AccessToken :: string
  ai_RefreshToken :: string
  ai_IDToken :: string
  ai_ExpiresIn :: int
  ai_Sub :: string

definition dec_account :: "fields \<Rightarrow> account_input option" where
  "dec_account m =
     (case (dec_string m ''email'', dec_string m ''access_token'', dec_string m ''refresh_token'', dec_string m ''id_token'',
            dec_int m ''expires_in'', dec_string m ''sub'') of
        (Some e, Some a, Some r, Some i, Some x, Some s) \<Rightarrow>
          Some \<lparr>ai_Email = e, ai_AccessToken = a, ai_RefreshToken = r, ai_IDToken = i, ai_ExpiresIn = x, ai_Sub = s\<rparr>
      | _ \<Rightarrow> None)"

definition incomplete :: "account_input \<Rightarrow> bool" where
  "incomplete a \<longleftrightarrow> ai_Email a = [] \<or> ai_AccessToken a = [] \<or> ai_RefreshToken a = []"

definition upsert :: "(gotime \<Rightarrow> string) \<Rightarrow> gotime \<Rightarrow> account_input \<Rightarrow> GrokAccountManager \<Rightarrow> (bool \<times> nat) \<times> GrokAccountManager" where
  "upsert fmt now a am =
     UpsertAccount fmt now (ai_Email a) (ai_AccessToken a) (ai_RefreshToken a) (ai_IDToken a) (ai_Sub a) (ai_ExpiresIn a) am"

definition HandleImportAccount ::
  "(gotime \<Rightarrow> string) \<Rightarrow> gotime \<Rightarrow> json option \<Rightarrow> GrokAccountManager \<Rightarrow> (string \<times> string \<times> nat) answer \<times> GrokAccountManager" where
  "HandleImportAccount fmt now body am =
     (case bind_json dec_account body of
        None \<Rightarrow> (Refused 400 ''invalid JSON body'', am)
      | Some a \<Rightarrow>
          if incomplete a then (Refused 400 ''email, access_token, refresh_token are required'', am)
          else (let ((_, total), am') = upsert fmt now a am;
                    expIn = (if ai_ExpiresIn a = 0 then 21600 else ai_ExpiresIn a)
                in (Answer (ai_Email a, fmt (now + expIn * second), total), am')))"

text \<open>The loop of a bulk import, counting added and skipped keys.\<close>

fun import_keys :: "string list \<Rightarrow> nat \<times> nat \<Rightarrow> CBKeyManager \<Rightarrow> (nat \<times> nat) \<times> CBKeyManager" where
  "import_keys [] n km = (n, km)"
| "import_keys (k0 # ks) (added, skipped) km =
     (let k = TrimSpace k0
      in if k = [] then import_keys ks (added, skipped) km
         else let ((ok, _), km') = AddKey k km
              in import_keys ks (if ok then (added + 1, skipped) else (added, skipped + 1)) km')"

definition raw_keys :: "string \<Rightarrow> string list" where
  "raw_keys s = filter (\<lambda>k. k \<noteq> []) (map TrimSpace (fields_func (\<lambda>c. c \<in> {CHR '','', CHR 0x0A, CHR 0x0D, CHR '' '', CHR 0x09}) [] s))"

definition HandleImportCBKeyBulk :: "json option \<Rightarrow> CBKeyManager \<Rightarrow> (nat \<times> nat \<times> nat) answer \<times> CBKeyManager" where
  "HandleImportCBKeyBulk body km =
     (case bind_json (\<lambda>m. Option.bind (dec_list json_string m ''api_keys'') (\<lambda>a. map_option (Pair a) (dec_string m ''raw''))) body of
        None \<Rightarrow> (Refused 400 ''invalid JSON body'', km)
      | Some (ks, rw) \<Rightarrow>
          (let keys = (if ks = [] \<and> rw \<noteq> [] then raw_keys rw else ks)
           in if keys = [] then (Refused 400 ''api_keys array or raw string is required'', km)
              else let ((added, skipped), km') = import_keys keys (0, 0) km
                   in (Answer (added, skipped, length (km_keys km')), km')))"

fun import_accounts ::
  "(gotime \<Rightarrow> string) \<Rightarrow> gotime \<Rightarrow> account_input list \<Rightarrow> nat \<times> nat \<times> nat \<Rightarrow> GrokAccountManager \<Rightarrow> (nat \<times> nat \<times> nat) \<times> GrokAccountManager" where
  "import_accounts fmt now [] n am = (n, am)"
| "import_accounts fmt now (a # as) (added, updated, failed) am =
     (if incomplete a then import_accounts fmt now as (added, updated, failed + 1) am
      else let ((created, _), am') = upsert fmt now a am
           in import_accounts fmt now as (if created then (added + 1, updated, failed) else (added, updated + 1, failed)) am')"

definition HandleImportAccountBulk ::
  "(gotime \<Rightarrow> string) \<Rightarrow> gotime \<Rightarrow> json option \<Rightarrow> GrokAccountManager \<Rightarrow> ((nat \<times> nat \<times> nat) \<times> nat) answer \<times> GrokAccountManager" where
  "HandleImportAccountBulk fmt now body am =
     (case bind_json (\<lambda>m. dec_list (\<lambda>v. Option.bind (json_fields v) dec_account) m ''accounts'') body of
        None \<Rightarrow> (Refused 400 ''invalid JSON body'', am)
      | Some as \<Rightarrow>
          if as = [] then (Refused 400 ''accounts array is required'', am)
          else (let (n, am') = import_accounts fmt now as (0, 0, 0) am in (Answer (n, length (gm_accounts am')), am')))"

definition HandleDeleteAccount :: "string \<Rightarrow> GrokAccountManager \<Rightarrow> (string \<times> nat) answer \<times> GrokAccountManager" where
  "HandleDeleteAccount email am =
     (if email = [] then (Refused 400 ''email required'', am)
      else case DeleteAccount email am of
             (False, am') \<Rightarrow> (Refused 404 ''account not found'', am')
           | (True, am') \<Rightarrow> (Answer (email, length (gm_accounts am')), am'))"

text \<open>The answer is \<open>None\<close> when the log line of \<^verbatim>\<open>DeleteKey\<close> panics on a short key.\<close>

definition HandleDeleteCBKey :: "string \<Rightarrow> CBKeyManager \<Rightarrow> nat answer option \<times> CBKeyManager" where
  "HandleDeleteCBKey keyParam km =
     (if keyParam = [] then (Some (Refused 400 ''key required''), km)
      else let fullKey = ResolveCBKey keyParam km
           in if fullKey = [] then (Some (Refused 404 ''cb key not found''), km)
              else case DeleteKey fullKey km of
                     (None, km') \<Rightarrow> (None, km')
                   | (Some False, km') \<Rightarrow> (Some (Refused 404 ''cb key not found''), km')
                   | (Some True, km') \<Rightarrow> (Some (Answer (length (km_keys km'))), km'))"

text \<open>Removed and remaining entries of each pool, \<open>None\<close> for a pool the query leaves out.\<close>

definition HandleCleanupDisabled ::
  "string \<Rightarrow> GrokAccountManager \<times> CBKeyManager
    \<Rightarrow> ((nat \<times> nat) option \<times> (nat \<times> nat) option) \<times> GrokAccountManager \<times> CBKeyManager" where
  "HandleCleanupDisabled typ s =
     (let (am, km) = s;
          (g, am') = (if typ = ''grok'' \<or> typ = ''all''
                      then (let (n, am') = GrokCleanupDisabled am in (Some (n, length (gm_accounts am')), am')) else (None, am));
          (c, km') = (if typ = ''cb'' \<or> typ = ''all''
                      then (let (n, km') = CBCleanupDisabled km in (Some (n, length (km_keys km')), km')) else (None, km))
      in ((g, c), am', km'))"

definition HandleCleanupBanned :: "string \<Rightarrow> GrokAccountManager \<Rightarrow> (nat \<times> nat) option \<times> GrokAccountManager" where
  "HandleCleanupBanned typ am =
     (if typ = ''grok'' \<or> typ = ''all''
      then (let (n, am') = CleanupBanned am in (Some (n, length (gm_accounts am')), am')) else (None, am))"

text \<open>A row of the CodeBuddy listing; \<open>None\<close> is the panic of slicing a short key.\<close>

definition cb_row :: "CBKey \<Rightarrow> (string \<times> bool \<times> rat \<times> rat \<times> int) option" where
  "cb_row k =
     (case (slice_to (ck_Key k) 8, slice_last (ck_Key k) 4) of
        (Some a, Some b) \<Rightarrow> Some (a @ ''...'' @ b, ck_disabled k, ck_creditsUsed k, CB_CREDIT_LIMIT - ck_creditsUsed k, ck_totalReqs k)
      | _ \<Rightarrow> None)"

definition grok_row :: "gotime \<Rightarrow> GrokAccount \<Rightarrow> string \<times> string \<times> string \<times> int \<times> string \<times> bool \<times> gotime \<times> string" where
  "grok_row now a =
     (ga_Email a, ga_Sub a, ga_Expired a, ga_ExpiresIn a, ga_LastRefresh a, ga_disabled a, ga_disabledAt a, TokenStatus now a)"

definition HandleAccounts where
  "HandleAccounts now am km =
     (case those (map cb_row (km_keys km)) of
        None \<Rightarrow> None
      | Some rows \<Rightarrow> Some (map (grok_row now) (gm_accounts am), rows, length (gm_accounts am), length rows))"

subsection \<open>The health endpoint\<close>

definition health_authed :: "bool \<Rightarrow> (string \<Rightarrow> 's \<Rightarrow> string \<times> 's) option \<Rightarrow> Manager \<Rightarrow> request \<Rightarrow> 's \<Rightarrow> bool \<times> 's" where
  "health_authed authDisabled sl am rq s =
     (if authDisabled then (True, s)
      else if prefix ''Bearer '' (rq_auth rq) then (GetKey am (drop 7 (rq_auth rq)) \<noteq> None, s)
      else case rq_cookie rq of
             Some ck \<Rightarrow>
               if ck \<noteq> []
               then (let (key, s') = (case sl of Some f \<Rightarrow> f ck s | None \<Rightarrow> (ck, s)) in (key \<noteq> [] \<and> GetKey am key \<noteq> None, s'))
               else (False, s)
           | None \<Rightarrow> (False, s))"

definition overall_status :: "UpstreamHealth \<Rightarrow> UpstreamHealth \<Rightarrow> string" where
  "overall_status grok cb =
     (if circuit_string (uh_state grok) = ''open'' \<or> circuit_string (uh_state cb) = ''open'' then ''degraded'' else ''healthy'')"

text \<open>The status, and for an authenticated caller the sizes of the pools and the keys in use.\<close>

definition HandleHealth where
  "HandleHealth authDisabled sl am rq grok cb gm km s =
     (let (authed, s') = health_authed authDisabled sl am rq s
      in ((overall_status grok cb,
           if authed then Some (length (gm_accounts gm), length (km_keys km), length (filter (\<lambda>k. \<not> ck_disabled k) (km_keys km))) else None), s'))"

subsection \<open>Proxies\<close>

record proxyInput =
  pi_Protocol :: string
  pi_Host :: string
  pi_Port :: int
  pi_Username :: string
  pi_Password :: string
  pi_Label :: string
  pi_Upstreams :: "string list option"
  pi_Enabled :: "bool option"

definition dec_proxy :: "fields \<Rightarrow> proxyInput option" where
  "dec_proxy m =
     (case (dec_string m ''protocol'', dec_string m ''host'', dec_int m ''port'', dec_string m ''username'', dec_string m ''password'',
            dec_string m ''label'', dec_ptr (dec_list json_string) m ''upstreams'', dec_ptr dec_bool m ''enabled'') of
        (Some p, Some h, Some n, Some u, Some w, Some l, Some us, Some e) \<Rightarrow>
          Some \<lparr>pi_Protocol = p, pi_Host = h, pi_Port = n, pi_Username = u, pi_Password = w, pi_Label = l, pi_Upstreams = us, pi_Enabled = e\<rparr>
      | _ \<Rightarrow> None)"

definition input_entry :: "proxyInput \<Rightarrow> bool \<Rightarrow> ProxyEntry" where
  "input_entry i en =
     \<lparr>pe_ID = [], pe_Protocol = pi_Protocol i, pe_Host = pi_Host i, pe_Port = pi_Port i, pe_Username = pi_Username i,
      pe_Password = pi_Password i, pe_Enabled = en, pe_Label = pi_Label i, pe_Upstreams = pi_Upstreams i,
      pe_CreatedAt = zero_time, pe_LastUsedAt = zero_time, pe_FailCount = 0\<rparr>"

text \<open>The listing: the masked entries, and how many there are, are enabled, are disabled and were active in the last five minutes.\<close>

definition proxy_active :: "gotime \<Rightarrow> ProxyEntry \<Rightarrow> bool" where
  "proxy_active now e \<longleftrightarrow> \<not> is_zero (pe_LastUsedAt e) \<and> pe_LastUsedAt e > now - 5 * minute"

definition HandleListProxies :: "gotime \<Rightarrow> ProxyPool \<Rightarrow> ProxyEntry list \<times> nat \<times> nat \<times> nat \<times> nat" where
  "HandleListProxies now p =
     (let es = List p
      in (es, length es, length (filter pe_Enabled es), length (filter (\<lambda>e. \<not> pe_Enabled e) es), length (filter (proxy_active now) es)))"

definition HandleAddProxy ::
  "(proxy_error \<Rightarrow> string) \<Rightarrow> save_result \<Rightarrow> go_error + string \<Rightarrow> gotime \<Rightarrow> json option \<Rightarrow> ProxyPool
    \<Rightarrow> ProxyEntry answer \<times> ProxyPool \<times> pool_write list" where
  "HandleAddProxy msg db newid now body p =
     (case bind_json dec_proxy body of
        None \<Rightarrow> (Refused 400 ''invalid JSON'', p, [])
      | Some i \<Rightarrow>
          (case Add db newid now (input_entry i (case pi_Enabled i of Some b \<Rightarrow> b | None \<Rightarrow> True)) p of
             (Inl e, p', w) \<Rightarrow> (Refused 400 (msg e), p', w)
           | (Inr created, p', w) \<Rightarrow> (Answer created, p', w)))"

definition HandleUpdateProxy ::
  "(proxy_error \<Rightarrow> string) \<Rightarrow> save_result \<Rightarrow> string \<Rightarrow> json option \<Rightarrow> ProxyPool \<Rightarrow> ProxyEntry answer \<times> ProxyPool \<times> pool_write list" where
  "HandleUpdateProxy msg db param body p =
     (let pid = TrimSpace param
      in if pid = [] then (Refused 400 ''id required'', p, [])
         else case bind_json dec_proxy body of
                None \<Rightarrow> (Refused 400 ''invalid JSON'', p, [])
              | Some i \<Rightarrow>
                  (case (case pi_Enabled i of Some b \<Rightarrow> Some b | None \<Rightarrow> map_option pe_Enabled (Get pid p)) of
                     None \<Rightarrow> (Refused 404 ''proxy not found'', p, [])
                   | Some en \<Rightarrow>
                       (case Update db pid (input_entry i en) p of
                          ((None, Some u), p', w) \<Rightarrow> (Answer (masked u), p', w)
                        | ((Some e, _), p', w) \<Rightarrow> (Refused 400 (msg e), p', w)
                        | ((None, None), p', w) \<Rightarrow> (Refused 400 [], p', w))))"

definition HandleDeleteProxy ::
  "(proxy_error \<Rightarrow> string) \<Rightarrow> go_error option option \<Rightarrow> string \<Rightarrow> ProxyPool \<Rightarrow> string answer \<times> ProxyPool \<times> pool_write list" where
  "HandleDeleteProxy msg db param p =
     (let pid = TrimSpace param
      in if pid = [] then (Refused 400 ''id required'', p, [])
         else case Delete db pid p of
                (Some e, p', w) \<Rightarrow> (Refused 400 (msg e), p', w)
              | (None, p', w) \<Rightarrow> (Answer pid, p', w))"

definition HandleToggleProxy ::
  "(proxy_error \<Rightarrow> string) \<Rightarrow> save_result \<Rightarrow> string \<Rightarrow> ProxyPool \<Rightarrow> (string \<times> bool) answer \<times> ProxyPool \<times> pool_write list" where
  "HandleToggleProxy msg db param p =
     (let pid = TrimSpace param
      in if pid = [] then (Refused 400 ''id required'', p, [])
         else case Toggle db pid p of
                ((Some e, _), p', w) \<Rightarrow> (Refused 400 (msg e), p', w)
              | ((None, en), p', w) \<Rightarrow> (Answer (pid, en), p', w))"

subsection \<open>Combos, custom models and aliases\<close>

definition HandleGetCombo :: "string \<Rightarrow> ComboRegistry \<Rightarrow> Combo answer" where
  "HandleGetCombo param r =
     (let name = trim_prefix ''/'' param
      in if name = [] then Refused 400 ''name required''
         else case GetCombo name r of None \<Rightarrow> Refused 404 ''combo not found'' | Some c \<Rightarrow> Answer c)"

definition dec_combo :: "fields \<Rightarrow> Combo option" where
  "dec_combo m =
     (case (dec_string m ''name'', dec_string m ''strategy'', dec_list json_string m ''models'', dec_string m ''description'') of
        (Some n, Some s, Some ms, Some d) \<Rightarrow> Some \<lparr>co_Name = n, co_Strategy = s, co_Models = ms, co_Description = d\<rparr>
      | _ \<Rightarrow> None)"

definition reg_answer :: "(registry_error \<Rightarrow> string) \<Rightarrow> int \<Rightarrow> 'a \<Rightarrow> registry_error option \<times> 's \<Rightarrow> 'a answer \<times> 's" where
  "reg_answer msg code v r = (case r of (Some e, s) \<Rightarrow> (Refused code (msg e), s) | (None, s) \<Rightarrow> (Answer v, s))"

definition HandleAddCombo ::
  "(registry_error \<Rightarrow> string) \<Rightarrow> write_result \<Rightarrow> json option \<Rightarrow> ComboRegistry \<Rightarrow> string answer \<times> ComboRegistry" where
  "HandleAddCombo msg st body r =
     (case bind_json dec_combo body of
        None \<Rightarrow> (Refused 400 ''invalid JSON'', r)
      | Some c \<Rightarrow> reg_answer msg 400 (co_Name c) (AddCombo st c r))"

definition HandleDeleteCombo ::
  "(registry_error \<Rightarrow> string) \<Rightarrow> write_result \<Rightarrow> string \<Rightarrow> ComboRegistry \<Rightarrow> string answer \<times> ComboRegistry" where
  "HandleDeleteCombo msg st param r =
     (let name = trim_prefix ''/'' param
      in if name = [] then (Refused 400 ''name required'', r) else reg_answer msg 500 name (DeleteCombo st name r))"

definition HandleAddCustomModel ::
  "(registry_error \<Rightarrow> string) \<Rightarrow> write_result \<Rightarrow> json option \<Rightarrow> CustomRegistry \<Rightarrow> string answer \<times> CustomRegistry" where
  "HandleAddCustomModel msg st body r =
     (case bind_json (\<lambda>m. case (dec_string m ''id'', dec_string m ''upstream'', dec_string m ''model_name'', dec_string m ''owned_by'') of
              (Some i, Some u, Some n, Some ow) \<Rightarrow> Some (i, \<lparr>cm_Upstream = u, cm_ModelName = n, cm_OwnedBy = ow\<rparr>) | _ \<Rightarrow> None) body of
        None \<Rightarrow> (Refused 400 ''invalid JSON'', r)
      | Some (i, cm) \<Rightarrow> reg_answer msg 400 i (AddModel st i cm r))"

definition HandleDeleteCustomModel ::
  "(registry_error \<Rightarrow> string) \<Rightarrow> write_result \<Rightarrow> string \<Rightarrow> CustomRegistry \<Rightarrow> string answer \<times> CustomRegistry" where
  "HandleDeleteCustomModel msg st param r =
     (let i = trim_prefix ''/'' param
      in if i = [] then (Refused 400 ''id required'', r) else reg_answer msg 500 i (DeleteModel st i r))"

definition HandleAddAlias ::
  "(registry_error \<Rightarrow> string) \<Rightarrow> write_result \<Rightarrow> json option \<Rightarrow> CustomRegistry \<Rightarrow> (string \<times> string) answer \<times> CustomRegistry" where
  "HandleAddAlias msg st body r =
     (case bind_json (\<lambda>m. Option.bind (dec_string m ''alias'') (\<lambda>a. map_option (Pair a) (dec_string m ''target''))) body of
        None \<Rightarrow> (Refused 400 ''invalid JSON'', r)
      | Some (a, t) \<Rightarrow> reg_answer msg 400 (a, t) (AddAlias st a t r))"

definition HandleDeleteAlias ::
  "(registry_error \<Rightarrow> string) \<Rightarrow> write_result \<Rightarrow> string \<Rightarrow> CustomRegistry \<Rightarrow> string answer \<times> CustomRegistry" where
  "HandleDeleteAlias msg st param r =
     (let a = trim_prefix ''/'' param
      in if a = [] then (Refused 400 ''alias required'', r) else reg_answer msg 500 a (DeleteAlias st a r))"

subsection \<open>Importing upstream credentials\<close>

definition cb_keys :: "CBKeyManager \<Rightarrow> string list" where
  "cb_keys km = map ck_Key (km_keys km)"

definition wanted :: "string list \<Rightarrow> string list" where
  "wanted ks = filter (\<lambda>k. k \<noteq> []) (map TrimSpace ks)"

lemma AddKey_trimmed:
  assumes "TrimSpace k \<noteq> []"
  shows "AddKey (TrimSpace k) km = (if TrimSpace k \<in> set (cb_keys km) then ((False, length (km_keys km)), km)
    else ((True, length (km_keys km) + 1), km\<lparr>km_keys := km_keys km @ [new_cb_key (TrimSpace k)]\<rparr>))"
  using assms by (auto simp: AddKey_def Let_def cb_keys_def list_ex_iff image_iff) metis

lemma import_keys_spec:
  assumes "import_keys ks (a, s) km = ((a', s'), km')"
  shows "\<exists>new. km_keys km' = km_keys km @ map new_cb_key new \<and> distinct new \<and> set new = set (wanted ks) - set (cb_keys km)
     \<and> a' = a + length new \<and> a' + s' = a + s + length (wanted ks)"
  using assms
proof (induction ks arbitrary: a s km)
  case Nil
  then show ?case by (intro exI [of _ "[]"]) (simp add: wanted_def)
next
  case (Cons k ks)
  show ?case
  proof (cases "TrimSpace k = []")
    case True
    then show ?thesis using Cons.IH [of a s km] Cons.prems by (simp add: wanted_def Let_def)
  next
    case False
    note add = AddKey_trimmed [OF False, of km]
    have w: "wanted (k # ks) = TrimSpace k # wanted ks" using False by (simp add: wanted_def)
    show ?thesis
    proof (cases "TrimSpace k \<in> set (cb_keys km)")
      case True
      then have "import_keys ks (a, s + 1) km = ((a', s'), km')" using Cons.prems False add by (simp add: Let_def)
      from Cons.IH [OF this] show ?thesis using True w by auto
    next
      case new: False
      let ?km = "km\<lparr>km_keys := km_keys km @ [new_cb_key (TrimSpace k)]\<rparr>"
      have "import_keys ks (a + 1, s) ?km = ((a', s'), km')" using Cons.prems False new add by (simp add: Let_def)
      from Cons.IH [OF this] obtain n where n: "km_keys km' = km_keys ?km @ map new_cb_key n" "distinct n"
          "set n = set (wanted ks) - set (cb_keys ?km)" "a' = a + 1 + length n" "a' + s' = a + 1 + s + length (wanted ks)"
        by blast
      have "set (cb_keys ?km) = insert (TrimSpace k) (set (cb_keys km))" by (auto simp: cb_keys_def new_cb_key_def)
      then show ?thesis using n new w by (intro exI [of _ "TrimSpace k # n"]) auto
    qed
  qed
qed

lemma import_keys_known: "import_keys ks n km = (n', km') \<Longrightarrow> set (wanted ks) \<subseteq> set (cb_keys km) \<Longrightarrow> km' = km"
proof (induction ks arbitrary: n)
  case (Cons k ks)
  obtain a s where n: "n = (a, s)" by fastforce
  show ?case
  proof (cases "TrimSpace k = []")
    case True
    then show ?thesis using Cons n by (auto simp: wanted_def Let_def)
  next
    case False
    then have "TrimSpace k \<in> set (cb_keys km)" "set (wanted ks) \<subseteq> set (cb_keys km)" using Cons.prems(2) by (auto simp: wanted_def)
    then show ?thesis using Cons.IH [of "(a, s + 1)"] Cons.prems(1) False n AddKey_trimmed [OF False, of km] by (auto simp: Let_def)
  qed
qed simp

text \<open>
  Bulk import of CodeBuddy keys is exact and idempotent. The pool keeps its keys with their
  state and order, gains each trimmed non-empty key it did not have exactly once, with a fresh
  state; the two counts add up to the keys sent; and sending the same list again adds nothing.
\<close>

theorem bulk_import_exact:
  assumes "HandleImportCBKeyBulk (Some (JObj [(''api_keys'', JArr (map JStr ks))])) km = (Answer (a, s, tot), km')"
  shows "(\<exists>new. km_keys km' = km_keys km @ map new_cb_key new \<and> distinct new \<and> set new = set (wanted ks) - set (cb_keys km) \<and> a = length new)
     \<and> a + s = length (wanted ks) \<and> tot = length (km_keys km')
     \<and> HandleImportCBKeyBulk (Some (JObj [(''api_keys'', JArr (map JStr ks))])) km' = (Answer (0, length (wanted ks), tot), km')"
proof -
  have those: "those (map (json_string \<circ> JStr) ks) = Some ks" by (induction ks) (simp_all add: json_string_def)
  have h: "HandleImportCBKeyBulk (Some (JObj [(''api_keys'', JArr (map JStr ks))])) m =
      (if ks = [] then (Refused 400 ''api_keys array or raw string is required'', m)
       else let ((added, skipped), m') = import_keys ks (0, 0) m in (Answer (added, skipped, length (km_keys m')), m'))" for m
    by (simp add: HandleImportCBKeyBulk_def bind_json_def json_fields_def dec_list_def json_list_def those dec_string_def)
  have ne: "ks \<noteq> []" using assms h [of km] by (cases "ks = []") auto
  then have i: "import_keys ks (0, 0) km = ((a, s), km')" and t: "tot = length (km_keys km')"
    using assms h [of km] by (auto split: prod.splits)
  from import_keys_spec [OF i] obtain new where n: "km_keys km' = km_keys km @ map new_cb_key new" "distinct new"
      "set new = set (wanted ks) - set (cb_keys km)" "a = length new" "a + s = length (wanted ks)"
    by auto
  have "set (cb_keys km') = set (cb_keys km) \<union> set new" using n(1) by (auto simp: cb_keys_def new_cb_key_def)
  then have all: "set (wanted ks) \<subseteq> set (cb_keys km')" using n(3) by auto
  obtain a2 s2 km2 where i2: "import_keys ks (0, 0) km' = ((a2, s2), km2)" by (metis prod.collapse)
  from import_keys_spec [OF i2] obtain new2 where n2: "km_keys km2 = km_keys km' @ map new_cb_key new2"
      "set new2 = set (wanted ks) - set (cb_keys km')" "a2 = 0 + length new2" "a2 + s2 = 0 + 0 + length (wanted ks)"
    by blast
  have "set new2 = {}" using n2(2) all by (simp only: Diff_eq_empty_iff)
  then have "new2 = []" by simp
  with n2 have "a2 = 0" "s2 = length (wanted ks)" "km_keys km2 = km_keys km'" by auto
  moreover have "km2 = km'" using i2 all import_keys_known by blast
  ultimately show ?thesis using n t ne i2 h [of km'] by auto
qed

theorem bulk_import_exact_witness:
  "(\<exists>new. km_keys (snd (HandleImportCBKeyBulk (Some (JObj [(''api_keys'', JArr (map JStr ['' ck-1'', ''ck-1'']))])) NewCBKeyManager))
        = km_keys NewCBKeyManager @ map new_cb_key new \<and> distinct new
        \<and> set new = set (wanted ['' ck-1'', ''ck-1'']) - set (cb_keys NewCBKeyManager) \<and> (1::nat) = length new)
     \<and> 1 + (1::nat) = length (wanted ['' ck-1'', ''ck-1''])
     \<and> (1::nat) = length (km_keys (snd (HandleImportCBKeyBulk (Some (JObj [(''api_keys'', JArr (map JStr ['' ck-1'', ''ck-1'']))])) NewCBKeyManager)))
     \<and> HandleImportCBKeyBulk (Some (JObj [(''api_keys'', JArr (map JStr ['' ck-1'', ''ck-1'']))]))
          (snd (HandleImportCBKeyBulk (Some (JObj [(''api_keys'', JArr (map JStr ['' ck-1'', ''ck-1'']))])) NewCBKeyManager))
        = (Answer (0, length (wanted ['' ck-1'', ''ck-1'']), 1),
           snd (HandleImportCBKeyBulk (Some (JObj [(''api_keys'', JArr (map JStr ['' ck-1'', ''ck-1'']))])) NewCBKeyManager))"
proof (rule bulk_import_exact)
  have t: "TrimSpace '' ck-1'' = ''ck-1''" "TrimSpace ''ck-1'' = ''ck-1''" by code_simp+
  show "HandleImportCBKeyBulk (Some (JObj [(''api_keys'', JArr (map JStr ['' ck-1'', ''ck-1'']))])) NewCBKeyManager
    = (Answer (1, 1, 1), snd (HandleImportCBKeyBulk (Some (JObj [(''api_keys'', JArr (map JStr ['' ck-1'', ''ck-1'']))])) NewCBKeyManager))"
    by (simp add: HandleImportCBKeyBulk_def bind_json_def json_fields_def dec_list_def json_list_def json_string_def dec_string_def
        Let_def t AddKey_def NewCBKeyManager_def new_cb_key_def)
qed

text \<open>
  A CodeBuddy key of fewer than eight bytes can be imported, and from then on the account
  listing fails: the endpoint answers 200, and \<^verbatim>\<open>HandleAccounts\<close> panics while the key is in the
  pool, whatever other keys and accounts there are.
\<close>

theorem short_key_breaks_listing:
  assumes "TrimSpace k = k" and "k \<noteq> []" and "length k < 8" and "k \<notin> set (cb_keys km)"
    and "HandleImportCBKey (Some (JObj [(''api_key'', JStr k)])) km = (r, km')"
  shows "r = Answer (True, length (km_keys km) + 1, k) \<and> (set (km_keys km') \<subseteq> set (km_keys km2) \<longrightarrow> HandleAccounts now am km2 = None)"
proof -
  have imp: "r = Answer (True, length (km_keys km) + 1, k)" "km_keys km' = km_keys km @ [new_cb_key k]"
    using assms AddKey_trimmed [of k km]
    by (auto simp: HandleImportCBKey_def bind_json_def json_fields_def dec_string_def Let_def MaskKey_def)
  have row: "cb_row (new_cb_key k) = None" using assms(3) by (simp add: cb_row_def new_cb_key_def slice_to_def)
  have "those (map cb_row xs) = None" if "new_cb_key k \<in> set xs" for xs
    using that row by (induction xs) (auto split: option.split)
  then have "HandleAccounts now am km2 = None" if "set (km_keys km') \<subseteq> set (km_keys km2)"
    using that imp(2) by (simp add: HandleAccounts_def)
  then show ?thesis using imp(1) by blast
qed

theorem short_key_breaks_listing_witness:
  "Answer (True, length (km_keys NewCBKeyManager) + 1, ''abc'') = Answer (True, length (km_keys NewCBKeyManager) + 1, ''abc'')
   \<and> HandleAccounts 0 NewGrokAccountManager (snd (HandleImportCBKey (Some (JObj [(''api_key'', JStr ''abc'')])) NewCBKeyManager)) = None"
proof -
  have t: "TrimSpace ''abc'' = ''abc''" by code_simp
  have "HandleImportCBKey (Some (JObj [(''api_key'', JStr ''abc'')])) NewCBKeyManager
      = (Answer (True, length (km_keys NewCBKeyManager) + 1, ''abc''),
         snd (HandleImportCBKey (Some (JObj [(''api_key'', JStr ''abc'')])) NewCBKeyManager))"
    by (simp add: HandleImportCBKey_def bind_json_def json_fields_def dec_string_def Let_def t AddKey_def NewCBKeyManager_def MaskKey_def)
  from short_key_breaks_listing [OF t _ _ _ this, where ?km2.0 = "snd (HandleImportCBKey (Some (JObj [(''api_key'', JStr ''abc'')])) NewCBKeyManager)"]
  show ?thesis by (simp add: cb_keys_def NewCBKeyManager_def)
qed

subsection \<open>Cleaning up\<close>

text \<open>
  The cleanup removes exactly the permanently disabled: of the Grok accounts and CodeBuddy keys
  those that were disabled without a time are dropped and all others, enabled or on cooldown, stay
  in order; removed and remaining add up; and a second cleanup removes nothing.
\<close>

theorem cleanup_exact:
  "HandleCleanupDisabled ''all'' (am, km) =
     ((Some (length (filter (\<lambda>a. permanent (ga_disabled a) (ga_disabledAt a)) (gm_accounts am)),
             length (filter (\<lambda>a. \<not> permanent (ga_disabled a) (ga_disabledAt a)) (gm_accounts am))),
       Some (length (filter (\<lambda>k. permanent (ck_disabled k) (ck_disabledAt k)) (km_keys km)),
             length (filter (\<lambda>k. \<not> permanent (ck_disabled k) (ck_disabledAt k)) (km_keys km)))),
      am\<lparr>gm_accounts := filter (\<lambda>a. \<not> permanent (ga_disabled a) (ga_disabledAt a)) (gm_accounts am)\<rparr>,
      km\<lparr>km_keys := filter (\<lambda>k. \<not> permanent (ck_disabled k) (ck_disabledAt k)) (km_keys km)\<rparr>)
   \<and> (case HandleCleanupDisabled ''all'' (am, km) of (_, s) \<Rightarrow>
        snd (HandleCleanupDisabled ''all'' s) = s \<and> HandleCleanupBanned ''all'' (fst s) = (Some (0, length (gm_accounts (fst s))), fst s))"
  by (simp add: HandleCleanupDisabled_def GrokCleanupDisabled_def cleanupBy_def CBCleanupDisabled_def HandleCleanupBanned_def
      CleanupBanned_def Let_def filter_empty_conv)

subsection \<open>The proxy endpoints\<close>

lemma masked_password: "pe_Password (masked e) \<in> {[], ''***''}"
  by (simp add: masked_def)

text \<open>
  Apart from the answer to its creation a proxy's password is never sent out: every entry of the
  listing and the answer to an update carry no password or three asterisks.
\<close>

theorem passwords_not_revealed:
  "list_all (\<lambda>e. pe_Password e \<in> {[], ''***''}) (fst (HandleListProxies now p))
   \<and> (case fst (HandleUpdateProxy msg db param body p) of Answer e \<Rightarrow> pe_Password e \<in> {[], ''***''} | Refused _ _ \<Rightarrow> True)"
proof
  show "list_all (\<lambda>e. pe_Password e \<in> {[], ''***''}) (fst (HandleListProxies now p))"
    using masked_password by (simp add: HandleListProxies_def Let_def List_def list_all_iff)
  show "case fst (HandleUpdateProxy msg db param body p) of Answer e \<Rightarrow> pe_Password e \<in> {[], ''***''} | Refused _ _ \<Rightarrow> True"
    using masked_password by (auto simp: HandleUpdateProxy_def Let_def split: option.split prod.split answer.split)
qed

datatype traffic = TNext incr_result gotime string | TResult bool string "go_error option" int

fun traffic_step :: "traffic \<Rightarrow> ProxyPool \<Rightarrow> ProxyPool" where
  "traffic_step (TNext incr now up) p = fst (snd (Next incr now up p))"
| "traffic_step (TResult has_db pid err st) p = fst (markProxyResult has_db pid err st p)"

definition used_times :: "ProxyPool \<Rightarrow> gotime list" where
  "used_times p = map pe_LastUsedAt (pp_entries p)"

lemma used_update:
  "i < length xs \<Longrightarrow> pe_LastUsedAt y = pe_LastUsedAt (xs ! i) \<Longrightarrow> map pe_LastUsedAt (xs[i := y]) = map pe_LastUsedAt xs"
  by (metis list_update_id map_update nth_map)

lemma used_traffic: "used_times (traffic_step e p) = used_times p"
proof (cases e)
  case (TNext incr now up)
  then show ?thesis by (auto simp: used_times_def Next_def Let_def rr_pick_def split: option.split sum.split prod.split)
next
  case (TResult has_db pid err st)
  have "used_times (fst (MarkFailed has_db pid p)) = used_times p"
    by (auto simp: MarkFailed_def Let_def used_times_def used_update dest!: find_index_Some split: option.split)
  moreover have "used_times (fst (MarkSuccess has_db pid p)) = used_times p"
    by (auto simp: MarkSuccess_def Let_def used_times_def used_update dest!: find_index_Some split: option.split)
  ultimately show ?thesis using TResult by (simp add: markProxyResult_def)
qed

text \<open>
  The number of active proxies the listing reports does not follow the traffic: selecting proxies
  and reporting results, in any order, leaves it as it was, because the time of last use is written
  to the store but not to the cached entries. A pool of newly added proxies reports none as active
  for ever.
\<close>

theorem active_count_frozen:
  "snd (snd (snd (snd (HandleListProxies now (fold traffic_step es p))))) = snd (snd (snd (snd (HandleListProxies now p))))"
proof -
  have f: "used_times (fold traffic_step es p) = used_times p" by (induction es arbitrary: p) (simp_all add: used_traffic)
  have m: "pe_LastUsedAt (masked e) = pe_LastUsedAt e" for e by (simp add: masked_def)
  have "snd (snd (snd (snd (HandleListProxies now q)))) = length (filter (\<lambda>t. \<not> is_zero t \<and> t > now - 5 * minute) (used_times q))" for q
    by (simp add: HandleListProxies_def Let_def List_def filter_map o_def m used_times_def proxy_active_def [abs_def])
  then show ?thesis by (simp add: f)
qed

subsection \<open>The registry endpoints\<close>

text \<open>
  A combo made through the endpoint is usable and can be taken away again: when the request is
  accepted, the combo is returned under its trimmed name, a request for it is routed to one of its
  models for every counter value, and after its deletion the name resolves to nothing.
\<close>

theorem combo_endpoint_roundtrip:
  assumes "HandleAddCombo msg st body r = (Answer n, r1)"
    and "HandleDeleteCombo msg None (''/'' @ TrimSpace n) r1 = (d, r2)"
  shows "\<exists>c. HandleGetCombo (''/'' @ TrimSpace n) r1 = Answer c \<and> co_Models c \<noteq> []
     \<and> (\<exists>m \<in> set (co_Models c). fst (ResolveCombo incr (''combo/'' @ TrimSpace n) r1) = Some m)
     \<and> d = Answer (TrimSpace n) \<and> fst (ResolveCombo incr (''combo/'' @ TrimSpace n) r2) = None"
proof -
  from assms(1) obtain c0 where c0: "co_Name c0 = n" "AddCombo st c0 r = (None, r1)"
    by (auto simp: HandleAddCombo_def reg_answer_def split: option.splits prod.splits)
  define c where "c = normalise_combo c0"
  have c: "co_Models c \<noteq> []" "combos r1 (TrimSpace n) = Some c" "TrimSpace n \<noteq> []"
    using c0 by (auto simp: AddCombo_def Let_def c_def normalise_combo_def validateName_def split: option.splits if_splits)
  have "d = Answer (TrimSpace n)" "combos r2 (TrimSpace n) = None"
    using assms(2) c(3) by (auto simp: HandleDeleteCombo_def Let_def reg_answer_def DeleteCombo_def write_error_def trim_prefix_def)
  moreover have "\<exists>m \<in> set (co_Models c). fst (ResolveCombo incr (''combo/'' @ TrimSpace n) r1) = Some m"
    by (rule ResolveCombo_hit [OF c(2,1)])
  ultimately show ?thesis using c by (auto simp: HandleGetCombo_def Let_def GetCombo_def trim_prefix_def ResolveCombo_def)
qed

definition ex_combo_body :: "json option" where
  "ex_combo_body = Some (JObj [(''name'', JStr ''fast''), (''models'', JArr [JStr ''grok-4.5''])])"

theorem combo_endpoint_roundtrip_witness:
  "\<exists>c. HandleGetCombo (''/'' @ TrimSpace ''fast'') (snd (HandleAddCombo (\<lambda>_. []) None ex_combo_body NewComboRegistry)) = Answer c
     \<and> co_Models c \<noteq> []
     \<and> (\<exists>m \<in> set (co_Models c). fst (ResolveCombo None (''combo/'' @ TrimSpace ''fast'')
            (snd (HandleAddCombo (\<lambda>_. []) None ex_combo_body NewComboRegistry))) = Some m)
     \<and> fst (HandleDeleteCombo (\<lambda>_. []) None (''/'' @ TrimSpace ''fast'') (snd (HandleAddCombo (\<lambda>_. []) None ex_combo_body NewComboRegistry)))
          = Answer (TrimSpace ''fast'')
     \<and> fst (ResolveCombo None (''combo/'' @ TrimSpace ''fast'')
          (snd (HandleDeleteCombo (\<lambda>_. []) None (''/'' @ TrimSpace ''fast'') (snd (HandleAddCombo (\<lambda>_. []) None ex_combo_body NewComboRegistry))))) = None"
proof (rule combo_endpoint_roundtrip [where st = None and body = ex_combo_body and msg = "\<lambda>_. []" and r = NewComboRegistry])
  have t: "TrimSpace ''fast'' = ''fast''" "TrimSpace ''grok-4.5'' = ''grok-4.5''" "TrimSpace [] = []" by code_simp+
  have v: "validateName ''fast'' ''name'' = None" by code_simp
  show "HandleAddCombo (\<lambda>_. []) None ex_combo_body NewComboRegistry = (Answer ''fast'', snd (HandleAddCombo (\<lambda>_. []) None ex_combo_body NewComboRegistry))"
    by (simp add: HandleAddCombo_def ex_combo_body_def bind_json_def json_fields_def dec_combo_def dec_string_def dec_list_def json_list_def
        json_string_def AddCombo_def Let_def normalise_combo_def t v write_error_def reg_answer_def)
qed simp

text \<open>
  The alias endpoint trims the alias it stores but echoes, and later deletes, the untrimmed one:
  deleting what the creation answered reports success and leaves the alias in place.
\<close>

lemma echoed_alias_not_deleted:
  assumes "HandleAddAlias (\<lambda>_. []) None (Some (JObj [(''alias'', JStr '' a''), (''target'', JStr ''b'')])) r = (ans, r1)"
  shows "ans = Answer ('' a'', ''b'') \<and> fst (HandleDeleteAlias (\<lambda>_. []) None ('' a'') r1) = Answer '' a''
    \<and> cr_aliases (snd (HandleDeleteAlias (\<lambda>_. []) None ('' a'') r1)) ''a'' = Some ''b''"
proof -
  have t: "TrimSpace '' a'' = ''a''" "TrimSpace ''b'' = ''b''" by code_simp+
  have v: "validateName ''a'' ''alias'' = None" "validateName ''b'' ''target'' = None" by code_simp+
  show ?thesis
    using assms
    by (auto simp: HandleAddAlias_def bind_json_def json_fields_def dec_string_def AddAlias_def Let_def t v write_error_def reg_answer_def
        HandleDeleteAlias_def DeleteAlias_def trim_prefix_def)
qed

end
