(* ===== verification/LogRing.thy ===== *)
theory LogRing
  imports Response
begin

text \<open>
  The output of a tunnel subprocess, \<^verbatim>\<open>internal/tunnel/manager.go\<close>: the bounded log of its lines
  (\<^verbatim>\<open>ringBuffer\<close>), the search for the address of a quick tunnel (\<^verbatim>\<open>quickURLRe\<close>), and the reader that
  feeds both (\<^verbatim>\<open>consume\<close>). The channel of capacity one is an option.
\<close>

subsection \<open>The ring buffer\<close>

record ringBuffer =
  rb_buf :: "string list"
  rb_size :: nat
  rb_start :: nat
  rb_count :: nat

definition newRingBuffer :: "int \<Rightarrow> ringBuffer" where
  "newRingBuffer sz =
     (let n = (if sz \<le> 0 then 100 else nat sz)
      in \<lparr>rb_buf = replicate n [], rb_size = n, rb_start = 0, rb_count = 0\<rparr>)"

definition hellip :: string where
  "hellip = [CHR 0xE2, CHR 0x80, CHR 0xA6]"

definition clip_line :: "string \<Rightarrow> string" where
  "clip_line l = (if length l > 4096 then take 4096 l @ hellip else l)"

definition rb_Add :: "string \<Rightarrow> ringBuffer \<Rightarrow> ringBuffer" where
  "rb_Add line0 r =
     (let line = clip_line line0
      in if rb_count r < rb_size r
         then r\<lparr>rb_buf := (rb_buf r)[(rb_start r + rb_count r) mod rb_size r := line], rb_count := rb_count r + 1\<rparr>
         else r\<lparr>rb_buf := (rb_buf r)[rb_start r := line], rb_start := (rb_start r + 1) mod rb_size r\<rparr>)"

definition rb_Snapshot :: "ringBuffer \<Rightarrow> string list" where
  "rb_Snapshot r = map (\<lambda>i. rb_buf r ! ((rb_start r + i) mod rb_size r)) [0..<rb_count r]"

definition rb_Reset :: "ringBuffer \<Rightarrow> ringBuffer" where
  "rb_Reset r = r\<lparr>rb_start := 0, rb_count := 0\<rparr>"

definition logRingSize :: int where
  "logRingSize = 400"

text \<open>What a bounded log promises: after every line it shows the newest lines up to its capacity.\<close>

locale bounded_log =
  fixes ok :: "'b \<Rightarrow> bool" and add :: "'l \<Rightarrow> 'b \<Rightarrow> 'b" and shown :: "'b \<Rightarrow> 'm list"
    and capacity :: "'b \<Rightarrow> nat" and norm_line :: "'l \<Rightarrow> 'm"
  assumes ok_add: "ok b \<Longrightarrow> ok (add l b)"
    and capacity_add: "capacity (add l b) = capacity b"
    and shown_add: "ok b \<Longrightarrow> shown (add l b) = drop (length (shown b) + 1 - capacity b) (shown b @ [norm_line l])"
    and shown_bound: "ok b \<Longrightarrow> length (shown b) \<le> capacity b"
begin

lemma ok_lines: "ok b \<Longrightarrow> ok (fold add ls b)"
  by (induction ls arbitrary: b) (simp_all add: ok_add)

lemma capacity_lines: "capacity (fold add ls b) = capacity b"
  by (induction ls arbitrary: b) (simp_all add: capacity_add)

lemma shown_lines:
  assumes "ok b"
  shows "shown (fold add ls b)
    = drop (length (shown b) + length ls - capacity b) (shown b @ map norm_line ls)"
  using assms
proof (induction ls arbitrary: b)
  case Nil
  then show ?case using shown_bound [of b] by simp
next
  case (Cons l ls)
  let ?x = "shown b" and ?n = "capacity b"
  have "shown (fold add ls (add l b)) = drop (length (shown (add l b)) + length ls - ?n) (shown (add l b) @ map norm_line ls)"
    using Cons.IH [OF ok_add [OF Cons.prems, of l]] by (simp add: capacity_add)
  also have "\<dots> = drop (length ?x + Suc (length ls) - ?n) (?x @ norm_line l # map norm_line ls)"
  proof (cases "length ?x = ?n")
    case True
    then show ?thesis by (cases ?x) (simp_all add: shown_add [OF Cons.prems] drop_Suc)
  next
    case False
    then have "length ?x < ?n" using shown_bound [OF Cons.prems] by simp
    then show ?thesis by (simp add: shown_add [OF Cons.prems])
  qed
  finally show ?case by simp
qed

lemma shown_at_most: "ok b \<Longrightarrow> length (shown (fold add ls b)) \<le> capacity b"
  using shown_bound [OF ok_lines, of b ls] by (simp add: capacity_lines)

end

definition rb_ok :: "ringBuffer \<Rightarrow> bool" where
  "rb_ok r \<longleftrightarrow> length (rb_buf r) = rb_size r \<and> 0 < rb_size r \<and> rb_start r < rb_size r \<and> rb_count r \<le> rb_size r"

lemma ring_index_inj:
  fixes s i j n :: nat
  assumes "i < n" and "j < n" and "(s + i) mod n = (s + j) mod n"
  shows "i = j"
proof -
  have "i mod n = j mod n" using assms(3) by (simp add: nat_mod_eq_iff)
  then show ?thesis using assms(1,2) by simp
qed

lemma rb_Add_ok: "rb_ok r \<Longrightarrow> rb_ok (rb_Add l r)"
  by (auto simp: rb_ok_def rb_Add_def Let_def)

lemma rb_Reset_ok: "rb_ok r \<Longrightarrow> rb_ok (rb_Reset r)"
  by (auto simp: rb_ok_def rb_Reset_def)

lemma newRingBuffer_ok: "rb_ok (newRingBuffer n)"
  by (auto simp: rb_ok_def newRingBuffer_def Let_def)

lemma rb_size_simps [simp]: "rb_size (rb_Add l r) = rb_size r" "rb_size (rb_Reset r) = rb_size r"
  by (simp_all add: rb_Add_def rb_Reset_def Let_def)

lemma Snapshot_Reset [simp]: "rb_Snapshot (rb_Reset r) = []"
  by (simp add: rb_Snapshot_def rb_Reset_def)

lemma Snapshot_new [simp]: "rb_Snapshot (newRingBuffer n) = []"
  by (simp add: rb_Snapshot_def newRingBuffer_def Let_def)

lemma Snapshot_Add_room:
  assumes "rb_ok r" and "rb_count r < rb_size r"
  shows "rb_Snapshot (rb_Add l r) = rb_Snapshot r @ [clip_line l]"
proof -
  have "(rb_start r + i) mod rb_size r \<noteq> (rb_start r + rb_count r) mod rb_size r" if "i < rb_count r" for i
    using ring_index_inj [of i "rb_size r" "rb_count r" "rb_start r"] that assms(2) by force
  then show ?thesis using assms
    by (auto simp: rb_Snapshot_def rb_Add_def Let_def rb_ok_def intro!: nth_list_update_neq) (metis nat_neq_iff)
qed

lemma Snapshot_Add_full:
  assumes "rb_ok r" and "rb_count r = rb_size r"
  shows "rb_Snapshot (rb_Add l r) = tl (rb_Snapshot r) @ [clip_line l]"
proof (rule nth_equalityI)
  let ?n = "rb_size r" and ?s = "rb_start r"
  have n: "0 < ?n" "?s < ?n" "length (rb_buf r) = ?n" using assms(1) by (auto simp: rb_ok_def)
  show len: "length (rb_Snapshot (rb_Add l r)) = length (tl (rb_Snapshot r) @ [clip_line l])"
    using assms(2) n by (simp add: rb_Snapshot_def rb_Add_def Let_def)
  fix i assume "i < length (rb_Snapshot (rb_Add l r))"
  then have i: "i < ?n" using assms(2) by (simp add: rb_Snapshot_def rb_Add_def Let_def)
  have at: "((?s + 1) mod ?n + i) mod ?n = (?s + Suc i) mod ?n" by (simp add: mod_add_left_eq)
  show "rb_Snapshot (rb_Add l r) ! i = (tl (rb_Snapshot r) @ [clip_line l]) ! i"
  proof (cases "Suc i = ?n")
    case True
    then have "(?s + Suc i) mod ?n = ?s" using n by simp
    then show ?thesis using assms(2) i n True at by (auto simp: rb_Snapshot_def rb_Add_def Let_def nth_append nth_tl)
  next
    case False
    then have "(?s + Suc i) mod ?n \<noteq> ?s"
      using ring_index_inj [of "Suc i" ?n 0 ?s] i n by auto
    then show ?thesis using assms(2) i n False at by (auto simp: rb_Snapshot_def rb_Add_def Let_def nth_append nth_tl)
  qed
qed

interpretation ring: bounded_log rb_ok rb_Add rb_Snapshot rb_size clip_line
proof
  fix b l
  assume ok: "rb_ok b"
  show "rb_ok (rb_Add l b)" by (rule rb_Add_ok [OF ok])
  have len: "length (rb_Snapshot b) = rb_count b" by (simp add: rb_Snapshot_def)
  show "length (rb_Snapshot b) \<le> rb_size b" using ok by (simp add: len rb_ok_def)
  show "rb_Snapshot (rb_Add l b) = drop (length (rb_Snapshot b) + 1 - rb_size b) (rb_Snapshot b @ [clip_line l])"
  proof (cases "rb_count b < rb_size b")
    case True
    then show ?thesis using Snapshot_Add_room [OF ok True] by (simp add: len)
  next
    case False
    then have full: "rb_count b = rb_size b" using ok by (simp add: rb_ok_def)
    moreover have "0 < length (rb_Snapshot b)" using ok full by (simp add: len rb_ok_def)
    ultimately show ?thesis using Snapshot_Add_full [OF ok full] by (simp add: len drop_Suc)
  qed
next
  fix b l show "rb_size (rb_Add l b) = rb_size b" by simp
qed


subsection \<open>The address of a quick tunnel\<close>

text \<open>
  \<^verbatim>\<open>https://[a-zA-Z0-9.-]+\.trycloudflare\.com\<close>: the leftmost match, the host part as long as
  possible.
\<close>

definition host_char :: "char \<Rightarrow> bool" where
  "host_char c =
     (let n = (of_char c :: nat)
      in 97 \<le> n \<and> n \<le> 122 \<or> 65 \<le> n \<and> n \<le> 90 \<or> 48 \<le> n \<and> n \<le> 57 \<or> n = 46 \<or> n = 45)"

definition url_at :: "string \<Rightarrow> string option" where
  "url_at s =
     (if prefix ''https://'' s
      then let t = drop 8 s; run = length (takeWhile host_char t);
               ks = filter (\<lambda>k. prefix ''.trycloudflare.com'' (drop k t)) [1..<run + 1]
           in if ks = [] then None else Some (take (8 + last ks + 18) s)
      else None)"

fun quickURL_FindString :: "string \<Rightarrow> string" where
  "quickURL_FindString [] = []"
| "quickURL_FindString (c # s) = (case url_at (c # s) of Some u \<Rightarrow> u | None \<Rightarrow> quickURL_FindString s)"

subsection \<open>The reader\<close>

definition consume_line :: "string \<Rightarrow> ringBuffer \<times> string option \<times> bool \<Rightarrow> ringBuffer \<times> string option \<times> bool" where
  "consume_line line st =
     (case st of (ring, urlCh, sentURL) \<Rightarrow>
        let ring' = rb_Add line ring
        in if sentURL then (ring', urlCh, sentURL)
           else let m = quickURL_FindString line
                in if m \<noteq> [] \<and> urlCh = None then (ring', Some m, True) else (ring', urlCh, False))"

definition consume :: "string \<Rightarrow> ringBuffer \<Rightarrow> string option \<Rightarrow> ringBuffer \<times> string option" where
  "consume r ring urlCh =
     (case fold consume_line (scan_lines r) (ring, urlCh, False) of (ring', urlCh', _) \<Rightarrow> (ring', urlCh'))"

definition is_tunnel_url :: "string \<Rightarrow> bool" where
  "is_tunnel_url u \<longleftrightarrow>
     (\<exists>h. h \<noteq> [] \<and> list_all host_char h \<and> u = ''https://'' @ h @ ''.trycloudflare.com'')"

lemma url_at_shape:
  assumes "url_at s = Some u"
  shows "is_tunnel_url u \<and> prefix u s"
proof -
  define t where "t = drop 8 s"
  define n where "n = length (takeWhile host_char t)"
  define ks where "ks = filter (\<lambda>k. prefix ''.trycloudflare.com'' (drop k t)) [1..<n + 1]"
  define k where "k = last ks"
  have pre: "prefix ''https://'' s" and ne: "ks \<noteq> []" and u: "u = take (8 + k + 18) s"
    using assms by (auto simp: url_at_def Let_def t_def n_def ks_def k_def split: if_splits)
  have "k \<in> set ks" using last_in_set [OF ne] by (simp add: k_def)
  then have k: "1 \<le> k" "k \<le> n" "prefix ''.trycloudflare.com'' (drop k t)" by (auto simp: ks_def)
  have s: "s = ''https://'' @ t" using pre by (auto simp: prefix_def t_def)
  obtain rest where rest: "drop k t = ''.trycloudflare.com'' @ rest" using k(3) by (auto simp: prefix_def)
  have t: "t = take k t @ ''.trycloudflare.com'' @ rest" using append_take_drop_id [of k t] by (simp only: rest)
  have len: "length (take k t) = k" using k(2) length_takeWhile_le [of host_char t] by (simp add: n_def)
  have "s = (''https://'' @ take k t @ ''.trycloudflare.com'') @ rest" using s t by simp
  moreover have "length (''https://'' @ take k t @ ''.trycloudflare.com'') = 8 + k + 18" using len by simp
  ultimately have eq: "u = ''https://'' @ take k t @ ''.trycloudflare.com''" unfolding u
    by (simp only: append_take_drop_id take_append) simp
  have "takeWhile host_char t = take n t" unfolding n_def by (rule takeWhile_eq_take)
  then have "take k t = take k (takeWhile host_char t)" using k(2) by (simp add: min_absorb1)
  then have "list_all host_char (take k t)" by (auto simp: list_all_iff dest!: in_set_takeD set_takeWhileD)
  moreover have "take k t \<noteq> []" using len k(1) by auto
  ultimately have "is_tunnel_url u" using eq by (auto simp: is_tunnel_url_def)
  then show ?thesis by (simp add: u take_is_prefix)
qed

lemma FindString_shape:
  "quickURL_FindString s \<noteq> [] \<Longrightarrow> is_tunnel_url (quickURL_FindString s) \<and> sublist (quickURL_FindString s) s"
proof (induction s)
  case (Cons c s)
  then show ?case
    by (cases "url_at (c # s)") (auto dest: url_at_shape intro: prefix_imp_sublist simp: sublist_Cons_right)
qed simp

text \<open>A line that has a tunnel address is matched.\<close>

lemma FindString_complete:
  assumes "is_tunnel_url u"
  shows "quickURL_FindString (pre @ u @ post) \<noteq> []"
proof (induction pre)
  case Nil
  obtain h where h: "h \<noteq> []" "list_all host_char h" "u = ''https://'' @ h @ ''.trycloudflare.com''"
    using assms by (auto simp: is_tunnel_url_def)
  let ?t = "h @ ''.trycloudflare.com'' @ post"
  define n where "n = length (takeWhile host_char ?t)"
  define ks where "ks = filter (\<lambda>k. prefix ''.trycloudflare.com'' (drop k ?t)) [1..<n + 1]"
  have "length h \<le> n"
    using h(2) by (simp add: n_def takeWhile_append list_all_iff)
  moreover have "0 < length h" using h(1) by simp
  moreover have "prefix ''.trycloudflare.com'' (drop (length h) ?t)" by simp
  ultimately have "length h \<in> set ks" unfolding ks_def by (simp del: upt_Suc append_Cons append_Nil add: Suc_le_eq)
  then have ne: "ks \<noteq> []" by auto
  have "drop 8 (u @ post) = ?t" "prefix ''https://'' (u @ post)" by (simp_all add: h(3))
  then have "url_at (u @ post) = Some (take (8 + last ks + 18) (u @ post))"
    unfolding url_at_def using ne by (simp only: Let_def n_def [symmetric] ks_def [symmetric] if_True if_False)
  moreover obtain c r where "u @ post = c # r" using h(3) by simp
  ultimately have "quickURL_FindString (u @ post) = take (8 + last ks + 18) (u @ post)" by simp
  then show ?case by (simp add: h(3))
next
  case (Cons c pre)
  then show ?case using url_at_shape [of "c # pre @ u @ post"]
    by (cases "url_at (c # pre @ u @ post)") (auto simp: is_tunnel_url_def)
qed

lemma consume_lines:
  "fold consume_line ls (ring, ch, sent)
   = (fold rb_Add ls ring,
      (if sent then ch else case ch of Some u \<Rightarrow> Some u | None \<Rightarrow> find (\<lambda>u. u \<noteq> []) (map quickURL_FindString ls)),
      sent \<or> ch = None \<and> (\<exists>l\<in>set ls. quickURL_FindString l \<noteq> []))"
proof (induction ls arbitrary: ring ch sent)
  case Nil
  show ?case by (cases ch) simp_all
next
  case (Cons l ls)
  show ?case
  proof (cases "sent \<or> ch \<noteq> None \<or> quickURL_FindString l = []")
    case True
    then have "consume_line l (ring, ch, sent) = (rb_Add l ring, ch, sent)" by (auto simp: consume_line_def Let_def)
    then show ?thesis using True by (auto simp: Cons.IH split: option.splits)
  next
    case False
    then have "consume_line l (ring, ch, sent) = (rb_Add l ring, Some (quickURL_FindString l), True)"
      by (auto simp: consume_line_def Let_def)
    then show ?thesis using False by (auto simp: Cons.IH)
  qed
qed

lemma captured_facts:
  assumes "rb_ok ring"
  shows "rb_Snapshot (fst (consume out (rb_Reset ring) None))
           = drop (length (scan_lines out) - rb_size ring) (map clip_line (scan_lines out))"
    and "snd (consume out (rb_Reset ring) None) = find (\<lambda>u. u \<noteq> []) (map quickURL_FindString (scan_lines out))"
    and "snd (consume out (rb_Reset ring) None) = Some u \<Longrightarrow>
           is_tunnel_url u \<and> (\<exists>l. l \<in> set (scan_lines out) \<and> sublist u l)"
proof -
  let ?ls = "scan_lines out"
  have run: "consume out (rb_Reset ring) None = (fold rb_Add ?ls (rb_Reset ring), find (\<lambda>u. u \<noteq> []) (map quickURL_FindString ?ls))"
    by (simp add: consume_def consume_lines)
  show "rb_Snapshot (fst (consume out (rb_Reset ring) None)) = drop (length ?ls - rb_size ring) (map clip_line ?ls)"
    using ring.shown_lines [OF rb_Reset_ok [OF assms], of ?ls] by (simp add: run)
  show "snd (consume out (rb_Reset ring) None) = find (\<lambda>u. u \<noteq> []) (map quickURL_FindString ?ls)"
    by (simp add: run)
  show "is_tunnel_url u \<and> (\<exists>l. l \<in> set ?ls \<and> sublist u l)" if found: "snd (consume out (rb_Reset ring) None) = Some u"
  proof -
    obtain i where "i < length ?ls" "quickURL_FindString (?ls ! i) = u" "u \<noteq> []"
      using found by (auto simp: run find_Some_iff)
    then show ?thesis using FindString_shape [of "?ls ! i"] nth_mem [of i ?ls] by blast
  qed
qed



end
