(* ===== verification/Tunnel.thy ===== *)
theory Tunnel
  imports PoolAdmin LogRing
begin

text \<open>
  The Cloudflare tunnel manager, \<^verbatim>\<open>internal/tunnel/manager.go\<close>, and its endpoints,
  \<^verbatim>\<open>internal/handlers/tunnels.go\<close>: the persisted configuration, starting and stopping of the
  cloudflared subprocesses, named tunnels through the Cloudflare API, and the goroutine that
  captures the address of a quick tunnel.

  A subprocess is a number with its arguments; \<open>ts_alive\<close> are the processes that run, \<open>ts_dying\<close>
  those that \<^verbatim>\<open>stopAll\<close> has taken from the manager and not yet waited for. \<open>ts_api\<close> lists the calls
  of the Cloudflare API that succeeded. Redis holds the decoded JSON value (\<open>None\<close> for a value that
  is not JSON). The outcomes of Redis, of the file system, of starting a process and of the API are
  arguments. Log lines for operators are not modelled.
\<close>

subsection \<open>Configuration\<close>

type_synonym mode = string

definition ModeNone :: mode where "ModeNone = ''none''"
definition ModeQuick :: mode where "ModeQuick = ''quick''"
definition ModeNamed :: mode where "ModeNamed = ''named''"
definition ModeHybrid :: mode where "ModeHybrid = ''hybrid''"

lemmas mode_defs = ModeNone_def ModeQuick_def ModeNamed_def ModeHybrid_def

definition mode_IsValid :: "mode \<Rightarrow> bool" where
  "mode_IsValid m \<longleftrightarrow> m = ModeNone \<or> m = ModeQuick \<or> m = ModeNamed \<or> m = ModeHybrid"

definition tunnelName :: string where "tunnelName = ''foxrouters''"

record tn_config =
  tc_Mode :: mode
  tc_APIToken :: string
  tc_AccountID :: string
  tc_ZoneID :: string
  tc_Domain :: string
  tc_TunnelID :: string
  tc_TunnelToken :: string
  tc_QuickURL :: string
  tc_UpstreamURL :: string
  tc_UpdatedAt :: int

definition none_config :: tn_config where
  "none_config =
     \<lparr>tc_Mode = ModeNone, tc_APIToken = [], tc_AccountID = [], tc_ZoneID = [], tc_Domain = [], tc_TunnelID = [],
      tc_TunnelToken = [], tc_QuickURL = [], tc_UpstreamURL = [], tc_UpdatedAt = 0\<rparr>"

definition omitempty :: "string \<Rightarrow> string \<Rightarrow> fields" where
  "omitempty k v = (if v = [] then [] else [(k, JStr v)])"

definition enc_config :: "tn_config \<Rightarrow> json" where
  "enc_config c =
     JObj ([(''mode'', JStr (tc_Mode c))] @ omitempty ''cloudflare_api_token'' (tc_APIToken c)
       @ omitempty ''cloudflare_account_id'' (tc_AccountID c) @ omitempty ''cloudflare_zone_id'' (tc_ZoneID c)
       @ omitempty ''tunnel_domain'' (tc_Domain c) @ omitempty ''tunnel_id'' (tc_TunnelID c)
       @ omitempty ''tunnel_token'' (tc_TunnelToken c) @ omitempty ''quick_url'' (tc_QuickURL c)
       @ omitempty ''upstream_url'' (tc_UpstreamURL c)
       @ (if tc_UpdatedAt c = 0 then [] else [(''updated_at'', JNum (of_int (tc_UpdatedAt c)))]))"

definition dec_config :: "fields \<Rightarrow> tn_config option" where
  "dec_config m =
     (case (dec_string m ''mode'', dec_string m ''cloudflare_api_token'', dec_string m ''cloudflare_account_id'',
            dec_string m ''cloudflare_zone_id'', dec_string m ''tunnel_domain'', dec_string m ''tunnel_id'',
            dec_string m ''tunnel_token'', dec_string m ''quick_url'', dec_string m ''upstream_url'', dec_int m ''updated_at'') of
        (Some mo, Some a, Some ac, Some z, Some d, Some i, Some t, Some q, Some u, Some n) \<Rightarrow>
          Some \<lparr>tc_Mode = mo, tc_APIToken = a, tc_AccountID = ac, tc_ZoneID = z, tc_Domain = d, tc_TunnelID = i,
                tc_TunnelToken = t, tc_QuickURL = q, tc_UpstreamURL = u, tc_UpdatedAt = n\<rparr>
      | _ \<Rightarrow> None)"

subsection \<open>The manager\<close>

record tn_cmd =
  cmd_pid :: nat
  cmd_args :: "string list"

datatype api_call =
    NewTunnel string string string \<comment> \<open>account, name, the id made\<close>
  | PutIngress string string "(string \<times> string) list" \<comment> \<open>tunnel, account, rules (host, service)\<close>
  | PutRecord string string string string \<comment> \<open>zone, record id, name, content\<close>
  | NewRecord string string string \<comment> \<open>zone, name, content\<close>

record tn_state =
  ts_redis :: bool
  ts_stored :: "json option option"
  ts_path :: string
  ts_upstreamURL :: string
  ts_quickCmd :: "tn_cmd option"
  ts_quickLog :: ringBuffer
  ts_quickURL :: string
  ts_namedCmd :: "tn_cmd option"
  ts_namedLog :: ringBuffer
  ts_alive :: "nat list"
  ts_dying :: "nat list"
  ts_next :: nat
  ts_api :: "api_call list"

text \<open>The outcomes around starting one subprocess: \<open>None\<close> is success, \<open>Some\<close> the text of the error.\<close>

record proc_env =
  px_stat :: "string option"
  px_stdout :: "string option"
  px_stderr :: "string option"
  px_start :: "string option"

record tn_env =
  te_get :: "string option"
  te_decode :: string
  te_set :: "string option"
  te_now :: int
  te_quick :: proc_env
  te_named :: proc_env
  te_token :: "string \<Rightarrow> string \<Rightarrow> string \<Rightarrow> string + string option" \<comment> \<open>API token, tunnel, account\<close>
  te_new :: "string \<Rightarrow> string \<Rightarrow> string \<Rightarrow> string + string option" \<comment> \<open>API token, account, name\<close>
  te_ingress :: "string \<Rightarrow> string \<Rightarrow> string \<Rightarrow> (string \<times> string) list \<Rightarrow> string option"
  te_list :: "string \<Rightarrow> string \<Rightarrow> string \<Rightarrow> string + string list" \<comment> \<open>API token, zone, name: the record ids\<close>
  te_put :: "string \<Rightarrow> string \<Rightarrow> string \<Rightarrow> string \<Rightarrow> string \<Rightarrow> string option"
  te_post :: "string \<Rightarrow> string \<Rightarrow> string \<Rightarrow> string \<Rightarrow> string option"

definition NewTunnelManager :: "bool \<Rightarrow> json option option \<Rightarrow> string \<Rightarrow> string \<Rightarrow> tn_state" where
  "NewTunnelManager rdb stored cloudflaredPath upstreamURL =
     \<lparr>ts_redis = rdb, ts_stored = stored, ts_path = cloudflaredPath, ts_upstreamURL = upstreamURL,
      ts_quickCmd = None, ts_quickLog = newRingBuffer logRingSize, ts_quickURL = [],
      ts_namedCmd = None, ts_namedLog = newRingBuffer logRingSize,
      ts_alive = [], ts_dying = [], ts_next = 0, ts_api = []\<rparr>"

definition LoadConfig :: "tn_env \<Rightarrow> tn_state \<Rightarrow> string + tn_config" where
  "LoadConfig env s =
     (if \<not> ts_redis s then Inr none_config
      else case te_get env of
        Some e \<Rightarrow> Inl (''redis GET: '' @ e)
      | None \<Rightarrow>
          (case ts_stored s of
             None \<Rightarrow> Inr none_config
           | Some raw \<Rightarrow>
               (case bind_json dec_config raw of
                  None \<Rightarrow> Inl (''decode config: '' @ te_decode env)
                | Some cfg \<Rightarrow> Inr (if mode_IsValid (tc_Mode cfg) then cfg else cfg\<lparr>tc_Mode := ModeNone\<rparr>))))"

definition SaveConfig :: "tn_env \<Rightarrow> tn_config \<Rightarrow> tn_state \<Rightarrow> string option \<times> tn_state" where
  "SaveConfig env cfg s =
     (if \<not> ts_redis s then (Some ''redis not initialised'', s)
      else let cfg = cfg\<lparr>tc_UpdatedAt := te_now env\<rparr>;
               cfg = (if tc_UpstreamURL cfg = [] then cfg\<lparr>tc_UpstreamURL := ts_upstreamURL s\<rparr> else cfg)
           in case te_set env of
                Some e \<Rightarrow> (Some (''redis SET: '' @ e), s)
              | None \<Rightarrow> (None, s\<lparr>ts_stored := Some (Some (enc_config cfg))\<rparr>))"

record tn_status =
  st_Mode :: mode
  st_QuickRunning :: bool
  st_NamedRunning :: bool
  st_QuickURL :: string
  st_Domain :: string
  st_TunnelID :: string
  st_UpstreamURL :: string
  st_HasAPIToken :: bool
  st_HasAccount :: bool
  st_HasZone :: bool
  st_UpdatedAt :: int
  st_Logs :: "string list"

definition cmd_running :: "tn_cmd option \<Rightarrow> tn_state \<Rightarrow> bool" where
  "cmd_running c s = (case c of None \<Rightarrow> False | Some k \<Rightarrow> cmd_pid k \<in> set (ts_alive s))"

definition tn_Status :: "tn_env \<Rightarrow> tn_state \<Rightarrow> string + tn_status" where
  "tn_Status env s =
     (case LoadConfig env s of
        Inl e \<Rightarrow> Inl e
      | Inr cfg \<Rightarrow>
          Inr \<lparr>st_Mode = tc_Mode cfg,
               st_QuickRunning = cmd_running (ts_quickCmd s) s, st_NamedRunning = cmd_running (ts_namedCmd s) s,
               st_QuickURL = (if ts_quickURL s = [] then tc_QuickURL cfg else ts_quickURL s),
               st_Domain = tc_Domain cfg, st_TunnelID = tc_TunnelID cfg, st_UpstreamURL = tc_UpstreamURL cfg,
               st_HasAPIToken = (tc_APIToken cfg \<noteq> []), st_HasAccount = (tc_AccountID cfg \<noteq> []),
               st_HasZone = (tc_ZoneID cfg \<noteq> []), st_UpdatedAt = tc_UpdatedAt cfg,
               st_Logs = map (\<lambda>l. ''[quick] '' @ l) (rb_Snapshot (ts_quickLog s))
                       @ map (\<lambda>l. ''[named] '' @ l) (rb_Snapshot (ts_namedLog s))\<rparr>)"

subsection \<open>Subprocesses\<close>

text \<open>The locked section of \<^verbatim>\<open>stopAll\<close>, and the end of a process that was asked to stop.\<close>

definition pid_list :: "tn_cmd option \<Rightarrow> nat list" where
  "pid_list c = (case c of None \<Rightarrow> [] | Some k \<Rightarrow> [cmd_pid k])"

definition detach :: "tn_state \<Rightarrow> tn_state" where
  "detach s =
     s\<lparr>ts_quickCmd := None, ts_namedCmd := None, ts_quickURL := [],
       ts_dying := ts_dying s @ pid_list (ts_quickCmd s) @ pid_list (ts_namedCmd s)\<rparr>"

definition killGracefully :: "tn_cmd option \<Rightarrow> tn_state \<Rightarrow> tn_state" where
  "killGracefully c s =
     (case c of
        None \<Rightarrow> s
      | Some k \<Rightarrow> s\<lparr>ts_alive := removeAll (cmd_pid k) (ts_alive s), ts_dying := removeAll (cmd_pid k) (ts_dying s)\<rparr>)"

definition stopAll :: "tn_state \<Rightarrow> tn_state" where
  "stopAll s = killGracefully (ts_namedCmd s) (killGracefully (ts_quickCmd s) (detach s))"

definition spawn :: "proc_env \<Rightarrow> string list \<Rightarrow> tn_state \<Rightarrow> (string + tn_cmd) \<times> tn_state" where
  "spawn pe args s =
     (case px_stdout pe of Some e \<Rightarrow> (Inl (''stdout pipe: '' @ e), s) | None \<Rightarrow>
      case px_stderr pe of Some e \<Rightarrow> (Inl (''stderr pipe: '' @ e), s) | None \<Rightarrow>
      case px_start pe of Some e \<Rightarrow> (Inl (''exec: '' @ e), s) | None \<Rightarrow>
        (Inr \<lparr>cmd_pid = ts_next s, cmd_args = args\<rparr>, s\<lparr>ts_alive := ts_alive s @ [ts_next s], ts_next := ts_next s + 1\<rparr>))"

definition or_upstream :: "tn_config \<Rightarrow> tn_state \<Rightarrow> string" where
  "or_upstream cfg s = (if tc_UpstreamURL cfg = [] then ts_upstreamURL s else tc_UpstreamURL cfg)"

text \<open>The part of \<^verbatim>\<open>startQuick\<close> that holds the lock.\<close>

definition quick_section :: "proc_env \<Rightarrow> tn_config \<Rightarrow> tn_state \<Rightarrow> string option \<times> tn_state" where
  "quick_section pe cfg s =
     (if ts_quickCmd s \<noteq> None then (Some ''quick tunnel already running'', s)
      else case spawn pe [ts_path s, ''tunnel'', ''--no-autoupdate'', ''--url'', or_upstream cfg s, ''--metrics'', ''127.0.0.1:0''] s of
        (Inl e, s1) \<Rightarrow> (Some e, s1)
      | (Inr cmd, s1) \<Rightarrow> (None, s1\<lparr>ts_quickCmd := Some cmd, ts_quickLog := rb_Reset (ts_quickLog s1), ts_quickURL := []\<rparr>))"

definition no_binary :: "tn_state \<Rightarrow> string \<Rightarrow> string" where
  "no_binary s e = ''cloudflared binary not found at '' @ ts_path s @ '': '' @ e"

definition startQuick :: "tn_env \<Rightarrow> tn_config \<Rightarrow> tn_state \<Rightarrow> string option \<times> tn_state" where
  "startQuick env cfg s =
     (if ts_path s = [] then (Some ''cloudflared binary path not set'', s)
      else case px_stat (te_quick env) of
        Some e \<Rightarrow> (Some (no_binary s e), s)
      | None \<Rightarrow> quick_section (te_quick env) cfg s)"

text \<open>The goroutine of a quick tunnel whose reader found an address.\<close>

definition url_captured :: "tn_env \<Rightarrow> string \<Rightarrow> tn_state \<Rightarrow> tn_state" where
  "url_captured env url s =
     (let s1 = s\<lparr>ts_quickURL := url\<rparr>
      in case LoadConfig env s1 of
           Inl _ \<Rightarrow> s1
         | Inr cfg \<Rightarrow> snd (SaveConfig env (cfg\<lparr>tc_QuickURL := url\<rparr>) s1))"

subsection \<open>Named tunnels\<close>

definition api_done :: "api_call \<Rightarrow> tn_state \<Rightarrow> tn_state" where
  "api_done c s = s\<lparr>ts_api := ts_api s @ [c]\<rparr>"

definition good_token :: "string + string option \<Rightarrow> string option" where
  "good_token r = (case r of Inr (Some t) \<Rightarrow> if t = [] then None else Some t | _ \<Rightarrow> None)"

definition createOrReuseTunnel :: "tn_env \<Rightarrow> tn_config \<Rightarrow> tn_state \<Rightarrow> (string + string \<times> string) \<times> tn_state" where
  "createOrReuseTunnel env cfg s =
     (case (if tc_TunnelID cfg = [] then None else good_token (te_token env (tc_APIToken cfg) (tc_TunnelID cfg) (tc_AccountID cfg))) of
        Some tok \<Rightarrow> (Inr (tc_TunnelID cfg, tok), s)
      | None \<Rightarrow>
          (case te_new env (tc_APIToken cfg) (tc_AccountID cfg) tunnelName of
             Inl e \<Rightarrow> (Inl (''Tunnels.Cloudflared.New: '' @ e), s)
           | Inr created \<Rightarrow>
               (case created of
                  None \<Rightarrow> (Inl ''empty tunnel ID from API'', s)
                | Some i \<Rightarrow>
                    if i = [] then (Inl ''empty tunnel ID from API'', s)
                    else let s1 = api_done (NewTunnel (tc_AccountID cfg) tunnelName i) s;
                             r = te_token env (tc_APIToken cfg) i (tc_AccountID cfg)
                         in case good_token r of
                              Some tok \<Rightarrow> (Inr (i, tok), s1)
                            | None \<Rightarrow> (Inl (''Tunnels.Cloudflared.Token.Get: '' @ (case r of Inl e \<Rightarrow> e | Inr _ \<Rightarrow> ''%!w(<nil>)'')), s1))))"

definition configureIngress :: "tn_env \<Rightarrow> tn_config \<Rightarrow> string \<Rightarrow> string \<Rightarrow> tn_state \<Rightarrow> string option \<times> tn_state" where
  "configureIngress env cfg tid upstream s =
     (let rules = [(tc_Domain cfg, upstream), ([], ''http_status:404'')]
      in case te_ingress env (tc_APIToken cfg) tid (tc_AccountID cfg) rules of
           Some e \<Rightarrow> (Some e, s)
         | None \<Rightarrow> (None, api_done (PutIngress tid (tc_AccountID cfg) rules) s))"

definition routeDNS :: "tn_env \<Rightarrow> tn_config \<Rightarrow> string \<Rightarrow> tn_state \<Rightarrow> string option \<times> tn_state" where
  "routeDNS env cfg tid s =
     (let target = tid @ ''.cfargotunnel.com''; tok = tc_APIToken cfg; zone = tc_ZoneID cfg; name = tc_Domain cfg
      in case te_list env tok zone name of
           Inl e \<Rightarrow> (Some (''list DNS: '' @ e), s)
         | Inr ids \<Rightarrow>
             (let existing = (case ids of [] \<Rightarrow> [] | i # _ \<Rightarrow> i)
              in if existing \<noteq> []
                 then (case te_put env tok zone existing name target of
                         Some e \<Rightarrow> (Some e, s) | None \<Rightarrow> (None, api_done (PutRecord zone existing name target) s))
                 else (case te_post env tok zone name target of
                         Some e \<Rightarrow> (Some e, s) | None \<Rightarrow> (None, api_done (NewRecord zone name target) s))))"

definition named_section :: "proc_env \<Rightarrow> string \<Rightarrow> tn_state \<Rightarrow> string option \<times> tn_state" where
  "named_section pe token s =
     (if ts_namedCmd s \<noteq> None then (Some ''named tunnel already running'', s)
      else case spawn pe [ts_path s, ''tunnel'', ''--no-autoupdate'', ''run'', ''--token'', token] s of
        (Inl e, s1) \<Rightarrow> (Some e, s1)
      | (Inr cmd, s1) \<Rightarrow> (None, s1\<lparr>ts_namedCmd := Some cmd, ts_namedLog := rb_Reset (ts_namedLog s1)\<rparr>))"

text \<open>
  \<^verbatim>\<open>startNamed\<close> also writes the tunnel id and the token into the configuration it was given.
\<close>

definition startNamed :: "tn_env \<Rightarrow> tn_config \<Rightarrow> tn_state \<Rightarrow> string option \<times> tn_config \<times> tn_state" where
  "startNamed env cfg s =
     (if tc_APIToken cfg = [] \<or> tc_AccountID cfg = [] \<or> tc_ZoneID cfg = [] \<or> tc_Domain cfg = []
      then (Some ''named tunnel requires CloudflareAPIToken, CloudflareAccountID, CloudflareZoneID, and TunnelDomain'', cfg, s)
      else case px_stat (te_named env) of
        Some e \<Rightarrow> (Some (no_binary s e), cfg, s)
      | None \<Rightarrow>
          (case createOrReuseTunnel env cfg s of
             (Inl e, s1) \<Rightarrow> (Some (''create/reuse tunnel: '' @ e), cfg, s1)
           | (Inr (tid, token), s1) \<Rightarrow>
               (let cfg1 = cfg\<lparr>tc_TunnelID := tid, tc_TunnelToken := token\<rparr>
                in case configureIngress env cfg1 tid (or_upstream cfg s) s1 of
                     (Some e, s2) \<Rightarrow> (Some (''configure ingress: '' @ e), cfg1, s2)
                   | (None, s2) \<Rightarrow>
                       (case routeDNS env cfg1 tid s2 of
                          (Some e, s3) \<Rightarrow> (Some (''route DNS: '' @ e), cfg1, s3)
                        | (None, s3) \<Rightarrow>
                            (case named_section (te_named env) token s3 of (err, s4) \<Rightarrow> (err, cfg1, s4))))))"

subsection \<open>Modes\<close>

definition start_mode :: "tn_env \<Rightarrow> tn_config \<Rightarrow> tn_state \<Rightarrow> string option \<times> tn_config \<times> tn_state" where
  "start_mode env cfg s =
     (if tc_Mode cfg = ModeNone then (None, cfg, s)
      else if tc_Mode cfg = ModeQuick then
        (case startQuick env cfg s of (err, s1) \<Rightarrow> (map_option (\<lambda>e. ''quick start: '' @ e) err, cfg, s1))
      else if tc_Mode cfg = ModeNamed then
        (case startNamed env cfg s of (err, cfg1, s1) \<Rightarrow> (map_option (\<lambda>e. ''named start: '' @ e) err, cfg1, s1))
      else
        (case startQuick env cfg s of (qerr, s1) \<Rightarrow>
         case startNamed env cfg s1 of (nerr, cfg1, s2) \<Rightarrow>
           (case (qerr, nerr) of
              (Some q, Some n) \<Rightarrow> (Some (''hybrid start: quick='' @ q @ '' named='' @ n), cfg1, s2)
            | _ \<Rightarrow> (None, cfg1, s2))))"

definition Enable :: "(string \<Rightarrow> string) \<Rightarrow> tn_env \<Rightarrow> tn_config \<Rightarrow> tn_state \<Rightarrow> string option \<times> tn_state" where
  "Enable quote env cfg s =
     (if \<not> mode_IsValid (tc_Mode cfg) then (Some (''invalid mode: '' @ quote (tc_Mode cfg)), s)
      else let s1 = stopAll s;
               cfg1 = (if tc_UpstreamURL cfg = [] then cfg\<lparr>tc_UpstreamURL := ts_upstreamURL s1\<rparr> else cfg)
           in case start_mode env cfg1 s1 of
                (Some e, _, s2) \<Rightarrow> (Some e, s2)
              | (None, cfg2, s2) \<Rightarrow>
                  (case SaveConfig env cfg2 s2 of (err, s3) \<Rightarrow> (map_option (\<lambda>e. ''save config: '' @ e) err, s3)))"

definition Disable :: "tn_env \<Rightarrow> tn_state \<Rightarrow> string option \<times> tn_state" where
  "Disable env s =
     (let s1 = stopAll s
      in case LoadConfig env s1 of
           Inl e \<Rightarrow> (Some e, s1)
         | Inr cfg \<Rightarrow> SaveConfig env (cfg\<lparr>tc_Mode := ModeNone, tc_QuickURL := []\<rparr>) s1)"

definition Restart :: "(string \<Rightarrow> string) \<Rightarrow> tn_env \<Rightarrow> tn_state \<Rightarrow> string option \<times> tn_state" where
  "Restart quote env s =
     (case LoadConfig env s of
        Inl e \<Rightarrow> (Some e, s)
      | Inr cfg \<Rightarrow> if tc_Mode cfg = ModeNone then (None, s) else Enable quote env cfg s)"

definition AutoStart :: "(string \<Rightarrow> string) \<Rightarrow> tn_env \<Rightarrow> tn_state \<Rightarrow> tn_state" where
  "AutoStart quote env s =
     (case LoadConfig env s of
        Inl e \<Rightarrow> s
      | Inr cfg \<Rightarrow> if tc_Mode cfg = ModeNone then s else snd (Enable quote env cfg s))"

definition Shutdown :: "tn_state \<Rightarrow> tn_state" where
  "Shutdown s = stopAll s"

definition MaskToken :: "string \<Rightarrow> string" where
  "MaskToken tok0 =
     (let tok = TrimSpace tok0
      in if tok = [] then [] else if length tok \<le> 12 then ''***''
         else take 6 tok @ hellip @ drop (length tok - 4) tok)"

subsection \<open>Endpoints\<close>

datatype tn_reply = TnRefused int string "string list" | TnOk "tn_status option"

record tunnelEnableInput =
  ti_Mode :: string
  ti_APIToken :: string
  ti_AccountID :: string
  ti_ZoneID :: string
  ti_Domain :: string

definition dec_enable :: "fields \<Rightarrow> tunnelEnableInput option" where
  "dec_enable m =
     (case (dec_string m ''mode'', dec_string m ''cloudflare_api_token'', dec_string m ''cloudflare_account_id'',
            dec_string m ''cloudflare_zone_id'', dec_string m ''tunnel_domain'') of
        (Some mo, Some a, Some ac, Some z, Some d) \<Rightarrow>
          Some \<lparr>ti_Mode = mo, ti_APIToken = a, ti_AccountID = ac, ti_ZoneID = z, ti_Domain = d\<rparr>
      | _ \<Rightarrow> None)"

definition status_reply :: "tn_env \<Rightarrow> tn_state \<Rightarrow> tn_reply" where
  "status_reply env s = TnOk (case tn_Status env s of Inl _ \<Rightarrow> None | Inr st \<Rightarrow> Some st)"

definition HandleTunnelStatus :: "tn_env \<Rightarrow> tn_state \<Rightarrow> tn_reply" where
  "HandleTunnelStatus env s = (case tn_Status env s of Inl e \<Rightarrow> TnRefused 500 e [] | Inr st \<Rightarrow> TnOk (Some st))"

definition keep_or :: "string \<Rightarrow> string \<Rightarrow> string" where
  "keep_or v old = (if TrimSpace v = [] then old else TrimSpace v)"

definition enable_mode :: "string \<Rightarrow> mode" where
  "enable_mode m = (if TrimSpace (ToLower m) = [] then ModeQuick else TrimSpace (ToLower m))"

definition merge_config :: "tunnelEnableInput \<Rightarrow> tn_config \<Rightarrow> tn_config" where
  "merge_config i cfg =
     cfg\<lparr>tc_Mode := enable_mode (ti_Mode i), tc_APIToken := keep_or (ti_APIToken i) (tc_APIToken cfg),
         tc_AccountID := keep_or (ti_AccountID i) (tc_AccountID cfg), tc_ZoneID := keep_or (ti_ZoneID i) (tc_ZoneID cfg),
         tc_Domain := keep_or (ti_Domain i) (tc_Domain cfg)\<rparr>"

definition missing_fields :: "tn_config \<Rightarrow> string list" where
  "missing_fields cfg =
     (if tc_APIToken cfg = [] then [''cloudflare_api_token''] else []) @ (if tc_AccountID cfg = [] then [''cloudflare_account_id''] else [])
     @ (if tc_ZoneID cfg = [] then [''cloudflare_zone_id''] else []) @ (if tc_Domain cfg = [] then [''tunnel_domain''] else [])"

definition HandleTunnelEnable ::
  "(string \<Rightarrow> string) \<Rightarrow> string \<Rightarrow> tn_env \<Rightarrow> tn_env \<Rightarrow> json option \<Rightarrow> tn_state \<Rightarrow> tn_reply \<times> tn_state" where
  "HandleTunnelEnable quote jsonErr env env' body s =
     (case bind_json dec_enable body of
        None \<Rightarrow> (TnRefused 400 (''invalid JSON: '' @ jsonErr) [], s)
      | Some i \<Rightarrow>
          (let mode = enable_mode (ti_Mode i)
           in if \<not> mode_IsValid mode then (TnRefused 400 ''invalid mode; must be none|quick|named|hybrid'' [], s)
              else case LoadConfig env s of
                Inl e \<Rightarrow> (TnRefused 500 (''load config: '' @ e) [], s)
              | Inr old \<Rightarrow>
                  (let cfg = merge_config i old
                   in if (mode = ModeNamed \<or> mode = ModeHybrid) \<and> missing_fields cfg \<noteq> []
                      then (TnRefused 400 (''missing required fields for '' @ mode @ '' mode'') (missing_fields cfg), s)
                      else case Enable quote env cfg s of
                             (Some e, s1) \<Rightarrow> (TnRefused 500 e [], s1)
                           | (None, s1) \<Rightarrow> (status_reply env' s1, s1))))"

definition HandleTunnelDisable :: "tn_env \<Rightarrow> tn_env \<Rightarrow> tn_state \<Rightarrow> tn_reply \<times> tn_state" where
  "HandleTunnelDisable env env' s =
     (case Disable env s of (Some e, s1) \<Rightarrow> (TnRefused 500 e [], s1) | (None, s1) \<Rightarrow> (status_reply env' s1, s1))"

definition HandleTunnelRestart :: "(string \<Rightarrow> string) \<Rightarrow> tn_env \<Rightarrow> tn_env \<Rightarrow> tn_state \<Rightarrow> tn_reply \<times> tn_state" where
  "HandleTunnelRestart quote env env' s =
     (case Restart quote env s of (Some e, s1) \<Rightarrow> (TnRefused 500 e [], s1) | (None, s1) \<Rightarrow> (status_reply env' s1, s1))"

subsection \<open>The configuration survives Redis\<close>

lemma map_of_omitempty:
  "map_of (omitempty k v @ r) k' = (if k = k' \<and> v \<noteq> [] then Some (JStr v) else map_of r k')"
  by (simp add: omitempty_def)

lemma dec_enc_config:
  assumes "int64_range (tc_UpdatedAt c)"
  shows "bind_json dec_config (Some (enc_config c)) = Some c"
proof -
  obtain m where m: "enc_config c = JObj m" by (simp add: enc_config_def)
  note mp = m [unfolded enc_config_def json.inject, symmetric]
  have "dec_string m ''mode'' = Some (tc_Mode c)" "dec_string m ''cloudflare_api_token'' = Some (tc_APIToken c)"
    "dec_string m ''cloudflare_account_id'' = Some (tc_AccountID c)" "dec_string m ''cloudflare_zone_id'' = Some (tc_ZoneID c)"
    "dec_string m ''tunnel_domain'' = Some (tc_Domain c)" "dec_string m ''tunnel_id'' = Some (tc_TunnelID c)"
    "dec_string m ''tunnel_token'' = Some (tc_TunnelToken c)" "dec_string m ''quick_url'' = Some (tc_QuickURL c)"
    "dec_string m ''upstream_url'' = Some (tc_UpstreamURL c)"
    by (simp_all add: mp dec_string_def map_of_omitempty del: map_of_append)
  moreover have "dec_int m ''updated_at'' = Some (tc_UpdatedAt c)" using assms by (simp add: mp dec_int_def map_of_omitempty del: map_of_append)
  ultimately show ?thesis by (simp add: bind_json_def m json_fields_def dec_config_def)
qed

definition stored_config :: "tn_config \<Rightarrow> tn_state \<Rightarrow> bool" where
  "stored_config c s \<longleftrightarrow> ts_redis s \<and> ts_stored s = Some (Some (enc_config c)) \<and> int64_range (tc_UpdatedAt c) \<and> mode_IsValid (tc_Mode c)"

lemma Load_stored: "stored_config c s \<Longrightarrow> te_get env = None \<Longrightarrow> LoadConfig env s = Inr c"
  by (simp add: stored_config_def LoadConfig_def dec_enc_config)

definition saved_config :: "tn_env \<Rightarrow> tn_state \<Rightarrow> tn_config \<Rightarrow> tn_config" where
  "saved_config env s cfg = cfg\<lparr>tc_UpdatedAt := te_now env, tc_UpstreamURL := or_upstream cfg s\<rparr>"

lemma Save_ok:
  "ts_redis s \<Longrightarrow> te_set env = None \<Longrightarrow> SaveConfig env cfg s = (None, s\<lparr>ts_stored := Some (Some (enc_config (saved_config env s cfg)))\<rparr>)"
  by (simp add: SaveConfig_def saved_config_def or_upstream_def Let_def)

lemma Save_cases:
  "SaveConfig env cfg s = (err, s') \<Longrightarrow>
     err \<noteq> None \<and> s' = s \<or>
     err = None \<and> ts_redis s \<and> s' = s\<lparr>ts_stored := Some (Some (enc_config (saved_config env s cfg)))\<rparr>"
  by (auto simp: SaveConfig_def saved_config_def or_upstream_def Let_def split: if_splits option.splits)

lemma Load_mode_valid: "LoadConfig env s = Inr c \<Longrightarrow> mode_IsValid (tc_Mode c)"
  by (auto simp: LoadConfig_def none_config_def mode_IsValid_def split: if_splits option.splits)

subsection \<open>Interleavings\<close>

text \<open>
  The manager holds its lock only in short sections. A step is one such section of any goroutine,
  a write to Redis, a call of the API, a line of output, the end of a stopped process or of one that
  exits by itself.
\<close>

inductive tn_step :: "tn_state \<Rightarrow> tn_state \<Rightarrow> bool" where
  Detach: "tn_step s (detach s)"
| Killed: "cmd_pid k \<in> set (ts_dying s) \<Longrightarrow> tn_step s (killGracefully (Some k) s)"
| Quick: "tn_step s (snd (quick_section pe cfg s))"
| Named: "tn_step s (snd (named_section pe token s))"
| Write: "tn_step s (s\<lparr>ts_stored := v\<rparr>)"
| Called: "tn_step s (api_done c s)"
| Found: "tn_step s (s\<lparr>ts_quickURL := url\<rparr>)"
| QuickLine: "tn_step s (s\<lparr>ts_quickLog := rb_Add l (ts_quickLog s)\<rparr>)"
| NamedLine: "tn_step s (s\<lparr>ts_namedLog := rb_Add l (ts_namedLog s)\<rparr>)"
| Exited: "tn_step s (s\<lparr>ts_alive := removeAll p (ts_alive s)\<rparr>)"

definition held_pids :: "tn_state \<Rightarrow> nat list" where
  "held_pids s = pid_list (ts_quickCmd s) @ pid_list (ts_namedCmd s)"

definition tn_inv :: "tn_state \<Rightarrow> bool" where
  "tn_inv s \<longleftrightarrow>
     set (ts_alive s) \<subseteq> set (held_pids s) \<union> set (ts_dying s) \<and>
     distinct (held_pids s @ ts_dying s) \<and>
     (\<forall>p \<in> set (held_pids s) \<union> set (ts_dying s). p < ts_next s) \<and>
     rb_ok (ts_quickLog s) \<and> rb_ok (ts_namedLog s)"

lemma pid_list_simps [simp]: "pid_list None = []" "pid_list (Some k) = [cmd_pid k]"
  by (simp_all add: pid_list_def)

lemma tn_inv_new: "tn_inv (NewTunnelManager r st p u)"
  by (simp add: tn_inv_def NewTunnelManager_def held_pids_def newRingBuffer_ok)

lemma detach_inv: "tn_inv s \<Longrightarrow> tn_inv (detach s)"
  by (auto simp: tn_inv_def detach_def held_pids_def)

lemma killed_inv: "tn_inv s \<Longrightarrow> p \<in> set (ts_dying s) \<Longrightarrow> tn_inv (s\<lparr>ts_alive := removeAll p (ts_alive s), ts_dying := removeAll p (ts_dying s)\<rparr>)"
  by (auto simp: tn_inv_def held_pids_def distinct_removeAll)

lemma spawn_cases:
  "spawn pe args s = (r, s') \<Longrightarrow>
     (\<exists>e. r = Inl e) \<and> s' = s \<or>
     r = Inr \<lparr>cmd_pid = ts_next s, cmd_args = args\<rparr> \<and> s' = s\<lparr>ts_alive := ts_alive s @ [ts_next s], ts_next := ts_next s + 1\<rparr>"
  by (auto simp: spawn_def split: option.splits)

lemma quick_cases:
  assumes "quick_section pe cfg s = (err, s')"
  shows "err \<noteq> None \<and> s' = s \<or>
    err = None \<and> ts_quickCmd s = None \<and>
    s' = s\<lparr>ts_alive := ts_alive s @ [ts_next s], ts_next := ts_next s + 1,
           ts_quickCmd := Some \<lparr>cmd_pid = ts_next s, cmd_args = [ts_path s, ''tunnel'', ''--no-autoupdate'', ''--url'', or_upstream cfg s, ''--metrics'', ''127.0.0.1:0'']\<rparr>,
           ts_quickLog := rb_Reset (ts_quickLog s), ts_quickURL := []\<rparr>"
  using assms by (auto simp: quick_section_def split: if_splits prod.splits sum.splits dest!: spawn_cases)

lemma named_cases:
  assumes "named_section pe token s = (err, s')"
  shows "err \<noteq> None \<and> s' = s \<or>
    err = None \<and> ts_namedCmd s = None \<and>
    s' = s\<lparr>ts_alive := ts_alive s @ [ts_next s], ts_next := ts_next s + 1,
           ts_namedCmd := Some \<lparr>cmd_pid = ts_next s, cmd_args = [ts_path s, ''tunnel'', ''--no-autoupdate'', ''run'', ''--token'', token]\<rparr>,
           ts_namedLog := rb_Reset (ts_namedLog s)\<rparr>"
  using assms by (auto simp: named_section_def split: if_splits prod.splits sum.splits dest!: spawn_cases)

lemma quick_inv: "tn_inv s \<Longrightarrow> tn_inv (snd (quick_section pe cfg s))"
  using quick_cases [of pe cfg s "fst (quick_section pe cfg s)" "snd (quick_section pe cfg s)"]
  by (auto simp: tn_inv_def held_pids_def rb_Reset_ok less_Suc_eq)

lemma named_inv: "tn_inv s \<Longrightarrow> tn_inv (snd (named_section pe token s))"
  using named_cases [of pe token s "fst (named_section pe token s)" "snd (named_section pe token s)"]
  by (auto simp: tn_inv_def held_pids_def rb_Reset_ok less_Suc_eq)

lemma tn_step_inv: "tn_step s s' \<Longrightarrow> tn_inv s \<Longrightarrow> tn_inv s'"
proof (induction rule: tn_step.induct)
  case (Killed k s) then show ?case using killed_inv [of s "cmd_pid k"] by (simp add: killGracefully_def)
qed (auto simp: detach_inv quick_inv named_inv, auto simp: tn_inv_def held_pids_def api_done_def rb_Add_ok)

lemma tn_run_inv: "tn_step\<^sup>*\<^sup>* s s' \<Longrightarrow> tn_inv s \<Longrightarrow> tn_inv s'"
  by (induction rule: rtranclp_induct) (auto intro: tn_step_inv)

subsection \<open>The operations are such steps\<close>

lemma removeAll_filter: "removeAll p xs = filter (\<lambda>x. x \<noteq> p) xs"
  by (induction xs) auto

lemma stopAll_eq:
  "stopAll s = s\<lparr>ts_quickCmd := None, ts_namedCmd := None, ts_quickURL := [],
       ts_alive := filter (\<lambda>p. p \<notin> set (held_pids s)) (ts_alive s), ts_dying := filter (\<lambda>p. p \<notin> set (held_pids s)) (ts_dying s)\<rparr>"
  by (auto simp: stopAll_def killGracefully_def detach_def held_pids_def removeAll_filter split: option.splits)

lemma stopAll_steps:
  assumes "tn_inv s"
  shows "tn_step\<^sup>*\<^sup>* s (stopAll s)"
proof -
  let ?s1 = "detach s"
  let ?s2 = "killGracefully (ts_quickCmd s) ?s1"
  have 1: "tn_step s ?s1" by (rule Detach)
  have 2: "tn_step\<^sup>*\<^sup>* ?s1 ?s2"
  proof (cases "ts_quickCmd s")
    case (Some k)
    then have "cmd_pid k \<in> set (ts_dying ?s1)" by (simp add: detach_def)
    then have "tn_step ?s1 (killGracefully (Some k) ?s1)" by (rule Killed)
    then show ?thesis by (simp add: Some)
  qed (simp add: killGracefully_def)
  have 3: "tn_step\<^sup>*\<^sup>* ?s2 (killGracefully (ts_namedCmd s) ?s2)"
  proof (cases "ts_namedCmd s")
    case (Some k)
    then have "cmd_pid k \<in> set (ts_dying ?s2)" using assms
      by (auto simp: detach_def killGracefully_def tn_inv_def held_pids_def split: option.splits)
    then have "tn_step ?s2 (killGracefully (Some k) ?s2)" by (rule Killed)
    then show ?thesis by (simp add: Some)
  qed (simp add: killGracefully_def)
  show ?thesis unfolding stopAll_def using 1 2 3 by (meson converse_rtranclp_into_rtranclp rtranclp_trans)
qed

lemma Save_steps: "tn_step\<^sup>*\<^sup>* s (snd (SaveConfig env cfg s))"
  using Save_cases [of env cfg s "fst (SaveConfig env cfg s)" "snd (SaveConfig env cfg s)"]
    r_into_rtranclp [of tn_step, OF Write [of s "Some (Some (enc_config (saved_config env s cfg)))"]] by auto

lemma startQuick_steps: "tn_step\<^sup>*\<^sup>* s (snd (startQuick env cfg s))"
  by (auto simp: startQuick_def intro: Quick split: option.splits)

lemma create_steps: "tn_step\<^sup>*\<^sup>* s (snd (createOrReuseTunnel env cfg s))"
  by (auto simp: createOrReuseTunnel_def Let_def intro: Called split: option.splits sum.splits)

lemma ingress_steps: "tn_step\<^sup>*\<^sup>* s (snd (configureIngress env cfg tid u s))"
  by (auto simp: configureIngress_def Let_def intro: Called split: option.splits)

lemma dns_steps: "tn_step\<^sup>*\<^sup>* s (snd (routeDNS env cfg tid s))"
  by (auto simp: routeDNS_def Let_def intro: Called split: option.splits sum.splits list.splits)

lemma named_steps: "tn_step\<^sup>*\<^sup>* s (snd (named_section pe token s))"
  by (rule r_into_rtranclp [of tn_step]) (rule Named)

lemmas section_steps = Save_steps startQuick_steps create_steps ingress_steps dns_steps named_steps

text \<open>Steps of a computation whose first part ran to \<open>s1\<close>.\<close>

lemma then_steps: "tn_step\<^sup>*\<^sup>* s (snd r) \<Longrightarrow> r = (x, s1) \<Longrightarrow> tn_step\<^sup>*\<^sup>* s1 s2 \<Longrightarrow> tn_step\<^sup>*\<^sup>* s s2"
  by auto

lemma startNamed_steps: "tn_step\<^sup>*\<^sup>* s (snd (snd (startNamed env cfg s)))"
proof -
  have dns: "tn_step\<^sup>*\<^sup>* s2 (snd (snd (case routeDNS env c tid s2 of
      (Some e, s3) \<Rightarrow> (Some (''route DNS: '' @ e), c, s3)
    | (None, s3) \<Rightarrow> (case named_section (te_named env) token s3 of (err, s4) \<Rightarrow> (err, c, s4)))))" for c tid token s2
    by (cases "routeDNS env c tid s2")
      (auto split: option.splits prod.splits intro: then_steps [OF dns_steps] then_steps [OF named_steps])
  have ing: "tn_step\<^sup>*\<^sup>* s1 (snd (snd (case configureIngress env c tid u s1 of
      (Some e, s2) \<Rightarrow> (Some (''configure ingress: '' @ e), c, s2)
    | (None, s2) \<Rightarrow> (case routeDNS env c tid s2 of
      (Some e, s3) \<Rightarrow> (Some (''route DNS: '' @ e), c, s3)
    | (None, s3) \<Rightarrow> (case named_section (te_named env) token s3 of (err, s4) \<Rightarrow> (err, c, s4))))))" for c tid token u s1
  proof (cases "configureIngress env c tid u s1")
    case (Pair r s2)
    then show ?thesis using then_steps [OF ingress_steps Pair dns] then_steps [OF ingress_steps Pair rtranclp.rtrancl_refl]
      by (cases r) simp_all
  qed
  show ?thesis
  proof (cases "createOrReuseTunnel env cfg s")
    case (Pair r s1)
    then show ?thesis
      using then_steps [OF create_steps Pair ing] then_steps [OF create_steps Pair rtranclp.rtrancl_refl]
      by (cases r) (auto simp: startNamed_def Let_def split: option.split)
  qed
qed

lemma start_mode_steps: "tn_step\<^sup>*\<^sup>* s (snd (snd (start_mode env cfg s)))"
proof -
  obtain qerr s1 where q: "startQuick env cfg s = (qerr, s1)" by fastforce
  obtain nerr c2 s2 where n: "startNamed env cfg s1 = (nerr, c2, s2)" by (metis prod_cases3)
  obtain nerr' c3 s3 where n': "startNamed env cfg s = (nerr', c3, s3)" by (metis prod_cases3)
  have 1: "tn_step\<^sup>*\<^sup>* s s1" using startQuick_steps [of s env cfg] by (simp add: q)
  have 2: "tn_step\<^sup>*\<^sup>* s s2" using rtranclp_trans [OF 1 startNamed_steps [of s1 env cfg]] by (simp add: n)
  have 3: "tn_step\<^sup>*\<^sup>* s s3" using startNamed_steps [of s env cfg] by (simp add: n')
  show ?thesis using 1 2 3 by (auto simp: start_mode_def q n n' split: option.split)
qed

lemma Enable_steps:
  assumes "tn_inv s"
  shows "tn_step\<^sup>*\<^sup>* s (snd (Enable quote env cfg s))"
proof (cases "mode_IsValid (tc_Mode cfg)")
  case True
  let ?s1 = "stopAll s"
  let ?c = "if tc_UpstreamURL cfg = [] then cfg\<lparr>tc_UpstreamURL := ts_upstreamURL ?s1\<rparr> else cfg"
  obtain err c2 s2 where r: "start_mode env ?c ?s1 = (err, c2, s2)" by (metis prod_cases3)
  have 2: "tn_step\<^sup>*\<^sup>* s s2"
    using rtranclp_trans [OF stopAll_steps [OF assms] start_mode_steps [of ?s1 env ?c]] by (simp add: r)
  have 3: "tn_step\<^sup>*\<^sup>* s (snd (SaveConfig env c2 s2))" by (rule rtranclp_trans [OF 2 Save_steps])
  show ?thesis using 2 3 True
    by (cases "SaveConfig env c2 s2") (simp add: Enable_def Let_def r split: option.split)
qed (simp add: Enable_def)

lemma Disable_steps: "tn_inv s \<Longrightarrow> tn_step\<^sup>*\<^sup>* s (snd (Disable env s))"
  using stopAll_steps [of s] rtranclp_trans [OF stopAll_steps Save_steps, of s]
  by (simp add: Disable_def Let_def split: sum.split)

lemma Restart_steps: "tn_inv s \<Longrightarrow> tn_step\<^sup>*\<^sup>* s (snd (Restart quote env s))"
  using Enable_steps by (simp add: Restart_def split: sum.split)

lemma AutoStart_steps: "tn_inv s \<Longrightarrow> tn_step\<^sup>*\<^sup>* s (AutoStart quote env s)"
  using Enable_steps by (simp add: AutoStart_def split: sum.split)

lemma url_captured_steps: "tn_step\<^sup>*\<^sup>* s (url_captured env url s)"
  using r_into_rtranclp [of tn_step, OF Found [of s url]]
    converse_rtranclp_into_rtranclp [of tn_step, OF Found [of s url] Save_steps]
  by (simp add: url_captured_def Let_def split: sum.split)

lemma snd_reply: "snd (case r of (Some e, s1) \<Rightarrow> (TnRefused 500 e [], s1) | (None, s1) \<Rightarrow> (status_reply env' s1, s1)) = snd r"
  for r :: "string option \<times> tn_state"
  by (cases r) (simp split: option.split)

lemma handler_steps:
  assumes "tn_inv s"
  shows "tn_step\<^sup>*\<^sup>* s (snd (HandleTunnelEnable quote je env env' body s))"
    and "tn_step\<^sup>*\<^sup>* s (snd (HandleTunnelDisable env env' s))"
    and "tn_step\<^sup>*\<^sup>* s (snd (HandleTunnelRestart quote env env' s))"
proof -
  show "tn_step\<^sup>*\<^sup>* s (snd (HandleTunnelEnable quote je env env' body s))"
    by (simp add: HandleTunnelEnable_def Let_def snd_reply Enable_steps [OF assms] split: option.split sum.split)
  show "tn_step\<^sup>*\<^sup>* s (snd (HandleTunnelDisable env env' s))"
    by (simp add: HandleTunnelDisable_def snd_reply Disable_steps [OF assms])
  show "tn_step\<^sup>*\<^sup>* s (snd (HandleTunnelRestart quote env env' s))"
    by (simp add: HandleTunnelRestart_def snd_reply Restart_steps [OF assms])
qed

subsection \<open>Outcomes\<close>

lemma orphan_facts:
  assumes "tn_step\<^sup>*\<^sup>* (NewTunnelManager rdb stored path upstream) s"
  shows "set (ts_alive s) \<subseteq> set (held_pids s) \<union> set (ts_dying s)"
    and "distinct (held_pids s @ ts_dying s)"
    and "ts_dying s = [] \<Longrightarrow> ts_alive (Shutdown s) = []"
    and "tn_step\<^sup>*\<^sup>* s (snd (HandleTunnelEnable quote je env env' body s))"
    and "tn_step\<^sup>*\<^sup>* s (snd (HandleTunnelDisable env env' s))"
    and "tn_step\<^sup>*\<^sup>* s (snd (HandleTunnelRestart quote env env' s))"
    and "tn_step\<^sup>*\<^sup>* s (AutoStart quote env s)"
    and "tn_step\<^sup>*\<^sup>* s (url_captured env url s)"
proof -
  have inv: "tn_inv s" by (rule tn_run_inv [OF assms tn_inv_new])
  show "set (ts_alive s) \<subseteq> set (held_pids s) \<union> set (ts_dying s)" "distinct (held_pids s @ ts_dying s)"
    using inv by (simp_all add: tn_inv_def)
  then show "ts_alive (Shutdown s) = []" if "ts_dying s = []"
    using that by (auto simp: Shutdown_def stopAll_eq filter_empty_conv)
qed (intro handler_steps AutoStart_steps url_captured_steps tn_run_inv [OF assms tn_inv_new])+



text \<open>A manager none of whose stops is pending, between two operations of one client.\<close>

definition tn_idle :: "tn_state \<Rightarrow> bool" where
  "tn_idle s \<longleftrightarrow> tn_inv s \<and> ts_dying s = []"

lemma stopAll_idle:
  assumes "tn_idle s"
  shows "stopAll s = s\<lparr>ts_quickCmd := None, ts_namedCmd := None, ts_quickURL := [], ts_alive := [], ts_dying := []\<rparr>"
proof -
  have "filter (\<lambda>p. p \<notin> set (held_pids s)) (ts_alive s) = []"
    using assms by (auto simp: tn_idle_def tn_inv_def filter_empty_conv)
  then show ?thesis using assms by (simp add: stopAll_eq tn_idle_def)
qed

lemma startQuick_cases:
  "startQuick env cfg s = (err, s') \<Longrightarrow>
     err \<noteq> None \<and> s' = s \<or> err = None \<and> quick_section (te_quick env) cfg s = (None, s')"
  using quick_cases [of "te_quick env" cfg s] by (fastforce simp: startQuick_def split: if_splits option.splits)

fun made_by :: "api_call \<Rightarrow> string list" where
  "made_by (NewTunnel _ _ i) = [i]"
| "made_by _ = []"

definition tunnels_made :: "tn_state \<Rightarrow> string list" where
  "tunnels_made s = concat (map made_by (ts_api s))"

lemma tunnels_made_done: "tunnels_made (api_done c s) = tunnels_made s @ made_by c"
  by (simp add: tunnels_made_def api_done_def)

text \<open>The calls of the API change only the list of calls.\<close>

definition api_only :: "tn_state \<Rightarrow> tn_state \<Rightarrow> bool" where
  "api_only s s' \<longleftrightarrow> s' = s\<lparr>ts_api := ts_api s'\<rparr>"

lemma api_only_refl [simp]: "api_only s s"
  by (simp add: api_only_def)

lemma api_only_done [simp]: "api_only s (api_done c s)"
  by (simp add: api_only_def api_done_def)

lemma api_only_trans: "api_only s s1 \<Longrightarrow> api_only s1 s2 \<Longrightarrow> api_only s s2"
  unfolding api_only_def by (metis tn_state.update_convs(13) tn_state.surjective tn_state.select_convs(13))

lemma create_frame: "createOrReuseTunnel env cfg s = (r, s') \<Longrightarrow> api_only s s'"
  by (auto simp: createOrReuseTunnel_def Let_def split: option.splits sum.splits if_splits)

lemma ingress_frame: "configureIngress env cfg tid u s = (r, s') \<Longrightarrow> api_only s s' \<and> tunnels_made s' = tunnels_made s"
  by (auto simp: configureIngress_def Let_def tunnels_made_done split: option.splits)

lemma dns_frame: "routeDNS env cfg tid s = (r, s') \<Longrightarrow> api_only s s' \<and> tunnels_made s' = tunnels_made s"
  by (auto simp: routeDNS_def Let_def tunnels_made_done split: option.splits sum.splits list.splits if_splits)

lemma startNamed_cases:
  assumes "startNamed env cfg s = (err, c', s')"
  shows "tc_Mode c' = tc_Mode cfg \<and> (err \<noteq> None \<and> api_only s s' \<or>
    err = None \<and> (\<exists>s3. api_only s s3 \<and> named_section (te_named env) (tc_TunnelToken c') s3 = (None, s')))"
proof (cases "fst (createOrReuseTunnel env cfg s)")
  case (Inl e)
  then show ?thesis using assms create_frame [of env cfg s]
    by (cases "createOrReuseTunnel env cfg s") (auto simp: startNamed_def split: if_splits option.splits)
next
  case (Inr p)
  obtain tid tok s1 where c: "createOrReuseTunnel env cfg s = (Inr (tid, tok), s1)"
    using Inr by (cases p; cases "createOrReuseTunnel env cfg s") auto
  let ?c = "cfg\<lparr>tc_TunnelID := tid, tc_TunnelToken := tok\<rparr>"
  obtain ei s2 where i: "configureIngress env ?c tid (or_upstream cfg s) s1 = (ei, s2)" by fastforce
  obtain ed s3 where d: "routeDNS env ?c tid s2 = (ed, s3)" by fastforce
  obtain en s4 where n: "named_section (te_named env) tok s3 = (en, s4)" by fastforce
  have f1: "api_only s s1" by (rule create_frame [OF c])
  have f2: "api_only s s2" using api_only_trans [OF f1] ingress_frame [OF i] by blast
  have f3: "api_only s s3" using api_only_trans [OF f2] dns_frame [OF d] by blast
  show ?thesis using assms f1 f2 f3 n named_cases [OF n]
    by (auto simp: startNamed_def c i d n Let_def split: if_splits option.splits)
qed

text \<open>What a start from a stopped manager leaves: on success the processes of the mode, on failure none.\<close>

definition mode_held :: "mode \<Rightarrow> tn_state \<Rightarrow> bool" where
  "mode_held m s \<longleftrightarrow>
     (m = ModeNone \<longrightarrow> held_pids s = []) \<and>
     (m = ModeQuick \<longrightarrow> ts_quickCmd s \<noteq> None \<and> ts_namedCmd s = None) \<and>
     (m = ModeNamed \<longrightarrow> ts_namedCmd s \<noteq> None \<and> ts_quickCmd s = None) \<and>
     (m = ModeHybrid \<longrightarrow> held_pids s \<noteq> [])"

definition stopped :: "tn_state \<Rightarrow> bool" where
  "stopped s \<longleftrightarrow> ts_quickCmd s = None \<and> ts_namedCmd s = None \<and> ts_alive s = []"

definition same_store :: "tn_state \<Rightarrow> tn_state \<Rightarrow> bool" where
  "same_store s s' \<longleftrightarrow> ts_redis s' = ts_redis s \<and> ts_stored s' = ts_stored s \<and> ts_upstreamURL s' = ts_upstreamURL s"

lemma startQuick_outcome:
  assumes "startQuick env cfg s = (err, s')" and "stopped s"
  shows "same_store s s' \<and> ts_alive s' = held_pids s' \<and> ts_namedCmd s' = None \<and> (err = None \<longleftrightarrow> ts_quickCmd s' \<noteq> None)"
  using startQuick_cases [OF assms(1)] assms(2)
  by (auto simp: stopped_def same_store_def held_pids_def dest!: quick_cases)

lemma api_only_fields:
  "api_only s s' \<Longrightarrow> same_store s s' \<and> ts_alive s' = ts_alive s \<and> ts_quickCmd s' = ts_quickCmd s \<and> ts_namedCmd s' = ts_namedCmd s"
  unfolding api_only_def same_store_def by (metis tn_state.ext_inject tn_state.surjective tn_state.update_convs(13))

lemma startNamed_outcome:
  assumes "startNamed env cfg s = (err, c', s')" and "ts_namedCmd s = None" and "ts_alive s = held_pids s"
  shows "tc_Mode c' = tc_Mode cfg \<and> same_store s s' \<and> ts_alive s' = held_pids s' \<and> ts_quickCmd s' = ts_quickCmd s
    \<and> (err = None \<longleftrightarrow> ts_namedCmd s' \<noteq> None)"
proof -
  consider (fail) "err \<noteq> None" "api_only s s'"
    | (ok) s3 where "err = None" "api_only s s3" "named_section (te_named env) (tc_TunnelToken c') s3 = (None, s')"
    using startNamed_cases [OF assms(1)] by blast
  then show ?thesis
  proof cases
    case fail
    then show ?thesis using api_only_fields [OF fail(2)] startNamed_cases [OF assms(1)] assms(2,3) by (simp add: held_pids_def)
  next
    case ok
    then show ?thesis using api_only_fields [OF ok(2)] startNamed_cases [OF assms(1)] assms(2,3) named_cases [OF ok(3)]
      by (auto simp: held_pids_def same_store_def)
  qed
qed

lemma start_mode_outcome:
  assumes "start_mode env cfg s = (err, c', s')" and "stopped s" and "mode_IsValid (tc_Mode cfg)"
  shows "tc_Mode c' = tc_Mode cfg \<and> same_store s s' \<and> ts_alive s' = held_pids s'
    \<and> (err = None \<longrightarrow> mode_held (tc_Mode cfg) s') \<and> (err \<noteq> None \<longrightarrow> held_pids s' = [])"
proof -
  obtain qe s1 where q: "startQuick env cfg s = (qe, s1)" by fastforce
  obtain ne c2 s2 where n: "startNamed env cfg s1 = (ne, c2, s2)" by (metis prod_cases3)
  obtain ne' c3 s3 where n': "startNamed env cfg s = (ne', c3, s3)" by (metis prod_cases3)
  note qo = startQuick_outcome [OF q assms(2)]
  have no: "tc_Mode c2 = tc_Mode cfg \<and> same_store s1 s2 \<and> ts_alive s2 = held_pids s2 \<and> ts_quickCmd s2 = ts_quickCmd s1
    \<and> (ne = None \<longleftrightarrow> ts_namedCmd s2 \<noteq> None)" by (rule startNamed_outcome [OF n]) (use qo in simp_all)
  have no': "tc_Mode c3 = tc_Mode cfg \<and> same_store s s3 \<and> ts_alive s3 = held_pids s3 \<and> ts_quickCmd s3 = ts_quickCmd s
    \<and> (ne' = None \<longleftrightarrow> ts_namedCmd s3 \<noteq> None)"
    by (rule startNamed_outcome [OF n']) (use assms(2) in \<open>simp_all add: stopped_def held_pids_def\<close>)
  show ?thesis using assms qo no no'
    by (auto simp: start_mode_def q n n' mode_IsValid_def mode_held_def mode_defs stopped_def held_pids_def same_store_def split: option.splits if_splits)
qed

definition with_upstream :: "tn_config \<Rightarrow> tn_state \<Rightarrow> tn_config" where
  "with_upstream cfg s = cfg\<lparr>tc_UpstreamURL := or_upstream cfg s\<rparr>"

lemma Enable_unfold:
  assumes "tn_idle s" and "mode_IsValid (tc_Mode cfg)"
  shows "Enable quote env cfg s =
    (case start_mode env (with_upstream cfg s) (stopAll s) of
       (Some e, _, s2) \<Rightarrow> (Some e, s2)
     | (None, cfg2, s2) \<Rightarrow> (case SaveConfig env cfg2 s2 of (err, s3) \<Rightarrow> (map_option (\<lambda>e. ''save config: '' @ e) err, s3)))"
proof -
  have "(if tc_UpstreamURL cfg = [] then cfg\<lparr>tc_UpstreamURL := ts_upstreamURL (stopAll s)\<rparr> else cfg) = with_upstream cfg s"
    by (simp add: with_upstream_def or_upstream_def stopAll_eq)
  then show ?thesis using assms(2) by (simp add: Enable_def Let_def)
qed

lemma stopAll_stopped: "tn_idle s \<Longrightarrow> stopped (stopAll s) \<and> same_store s (stopAll s)"
  by (simp add: stopAll_idle stopped_def same_store_def)

subsection \<open>A concrete manager\<close>

definition ex_proc :: proc_env where
  "ex_proc = \<lparr>px_stat = None, px_stdout = None, px_stderr = None, px_start = None\<rparr>"

definition ex_tenv :: tn_env where
  "ex_tenv =
     \<lparr>te_get = None, te_decode = [], te_set = None, te_now = 1700000000, te_quick = ex_proc, te_named = ex_proc,
      te_token = (\<lambda>_ _ _. Inr (Some ''tok'')), te_new = (\<lambda>_ _ _. Inr (Some ''t-2'')), te_ingress = (\<lambda>_ _ _ _. None),
      te_list = (\<lambda>_ _ _. Inr []), te_put = (\<lambda>_ _ _ _ _. None), te_post = (\<lambda>_ _ _ _. None)\<rparr>"

definition ex_config :: tn_config where
  "ex_config = none_config\<lparr>tc_Mode := ModeNamed, tc_APIToken := ''api'', tc_AccountID := ''acc'', tc_ZoneID := ''zone'',
     tc_Domain := ''x.example'', tc_TunnelID := ''t-1'', tc_QuickURL := ''https://a.trycloudflare.com''\<rparr>"

definition ex_manager :: tn_state where
  "ex_manager = NewTunnelManager True (Some (Some (enc_config ex_config))) ''/bin/cloudflared'' ''http://127.0.0.1:8080''"

lemma ex_stored: "stored_config ex_config ex_manager"
  by (simp add: stored_config_def ex_manager_def NewTunnelManager_def ex_config_def none_config_def int64_range_def mode_IsValid_def)

lemma ex_idle: "tn_idle ex_manager"
  by (simp add: tn_idle_def ex_manager_def tn_inv_new) (simp add: NewTunnelManager_def)

lemma enable_facts:
  assumes "tn_idle s" and "mode_IsValid (tc_Mode cfg)" and "Enable quote env cfg s = (err, s')"
  shows "ts_alive s' = held_pids s'"
    and "err = None \<Longrightarrow> mode_held (tc_Mode cfg) s' \<and> (\<exists>c. ts_stored s' = Some (Some (enc_config c)) \<and> tc_Mode c = tc_Mode cfg)"
    and "err \<noteq> None \<Longrightarrow> ts_redis s \<Longrightarrow> te_set env = None \<Longrightarrow> ts_alive s' = [] \<and> ts_stored s' = ts_stored s"
proof -
  obtain e2 c2 s2 where r: "start_mode env (with_upstream cfg s) (stopAll s) = (e2, c2, s2)" by (metis prod_cases3)
  have m: "tc_Mode (with_upstream cfg s) = tc_Mode cfg" by (simp add: with_upstream_def)
  note st = stopAll_stopped [OF assms(1)]
  note o = start_mode_outcome [OF r conjunct1 [OF st], unfolded m, OF assms(2)]
  obtain e3 s3 where sv: "SaveConfig env c2 s2 = (e3, s3)" by fastforce
  have res: "(err, s') = (case e2 of Some e \<Rightarrow> (Some e, s2) | None \<Rightarrow> (map_option (\<lambda>e. ''save config: '' @ e) e3, s3))"
    using assms(3) [symmetric] unfolding Enable_unfold [OF assms(1,2)]
    by (cases e2) (simp_all only: r sv prod.case option.case)
  note svc = Save_cases [OF sv]
  show "ts_alive s' = held_pids s'" using res o svc by (auto simp: held_pids_def split: option.splits)
  show "mode_held (tc_Mode cfg) s' \<and> (\<exists>c. ts_stored s' = Some (Some (enc_config c)) \<and> tc_Mode c = tc_Mode cfg)" if "err = None"
  proof -
    have "e2 = None" "e3 = None" "s' = s3" using res that by (auto split: option.splits)
    then have s': "s' = s2\<lparr>ts_stored := Some (Some (enc_config (saved_config env s2 c2)))\<rparr>" using svc by simp
    have "mode_held (tc_Mode cfg) s2" using o \<open>e2 = None\<close> by simp
    then have "mode_held (tc_Mode cfg) s'" by (simp add: s' mode_held_def held_pids_def)
    moreover have "tc_Mode (saved_config env s2 c2) = tc_Mode cfg" using o by (simp add: saved_config_def)
    ultimately show ?thesis using s' by auto
  qed
  show "ts_alive s' = [] \<and> ts_stored s' = ts_stored s" if "err \<noteq> None" "ts_redis s" "te_set env = None"
  proof -
    have "ts_redis s2" using o st that(2) by (simp add: same_store_def)
    then have "e3 = None" using sv that(3) by (simp add: Save_ok)
    then have "e2 \<noteq> None" "s' = s2" using res that(1) by (auto split: option.splits)
    then show ?thesis using o st by (simp add: same_store_def)
  qed
qed



text \<open>
  Credentials and the tunnel survive switching off: after \<^verbatim>\<open>POST /api/tunnel/disable\<close> and
  \<^verbatim>\<open>POST /api/tunnel/enable\<close> with nothing but a mode, no tunnel is made at Cloudflare as long as the
  API still gives a token for the one that is stored.
\<close>

lemma reuse_no_new:
  assumes "good_token (te_token env (tc_APIToken cfg) (tc_TunnelID cfg) (tc_AccountID cfg)) = Some tok" and "tc_TunnelID cfg \<noteq> []"
  shows "createOrReuseTunnel env cfg s = (Inr (tc_TunnelID cfg, tok), s)"
  using assms by (simp add: createOrReuseTunnel_def)

lemma quick_made: "tunnels_made (snd (startQuick env cfg s)) = tunnels_made s"
  using startQuick_cases [of env cfg s "fst (startQuick env cfg s)" "snd (startQuick env cfg s)"]
  by (auto simp: tunnels_made_def dest!: quick_cases)

lemma named_made: "named_section pe tok s = (e, s') \<Longrightarrow> tunnels_made s' = tunnels_made s"
  by (drule named_cases) (auto simp: tunnels_made_def)

lemma reuse_made:
  assumes "good_token (te_token env (tc_APIToken cfg) (tc_TunnelID cfg) (tc_AccountID cfg)) = Some tok" and "tc_TunnelID cfg \<noteq> []"
  shows "tunnels_made (snd (snd (startNamed env cfg s))) = tunnels_made s"
  using ingress_frame dns_frame named_made
  by (auto simp: startNamed_def reuse_no_new [OF assms] Let_def split: option.split prod.split)

lemma Save_made: "tunnels_made (snd (SaveConfig env cfg s)) = tunnels_made s"
  using Save_cases [of env cfg s "fst (SaveConfig env cfg s)" "snd (SaveConfig env cfg s)"] by (auto simp: tunnels_made_def)

lemma stopAll_made: "tunnels_made (stopAll s) = tunnels_made s"
  by (simp add: stopAll_eq tunnels_made_def)

lemma Enable_made:
  assumes "tc_Mode cfg = ModeQuick \<or> good_token (te_token env (tc_APIToken cfg) (tc_TunnelID cfg) (tc_AccountID cfg)) = Some tok \<and> tc_TunnelID cfg \<noteq> []"
  shows "tunnels_made (snd (Enable quote env cfg s)) = tunnels_made s"
proof (cases "mode_IsValid (tc_Mode cfg)")
  case True
  let ?s1 = "stopAll s"
  let ?c = "if tc_UpstreamURL cfg = [] then cfg\<lparr>tc_UpstreamURL := ts_upstreamURL ?s1\<rparr> else cfg"
  obtain e2 c2 s2 where r: "start_mode env ?c ?s1 = (e2, c2, s2)" by (metis prod_cases3)
  have named: "tc_Mode cfg \<noteq> ModeQuick \<Longrightarrow> tunnels_made (snd (snd (startNamed env ?c x))) = tunnels_made x" for x
    using assms reuse_made [of env ?c tok x] by auto
  have mode: "tc_Mode ?c = tc_Mode cfg" by simp
  have "tunnels_made s2 = tunnels_made ?s1"
  proof -
    obtain qe x1 where q: "startQuick env ?c ?s1 = (qe, x1)" by fastforce
    have qm: "tunnels_made x1 = tunnels_made ?s1" using quick_made [of env ?c ?s1] q by simp
    show ?thesis using r named [of ?s1] named [of x1] qm
      by (auto simp: start_mode_def mode q mode_defs split: prod.splits option.splits if_splits)
  qed
  then show ?thesis using True Save_made [of env c2 s2]
    by (cases "SaveConfig env c2 s2") (simp add: Enable_def Let_def r stopAll_made split: option.split)
qed (simp add: Enable_def)

definition complete :: "tn_config \<Rightarrow> bool" where
  "complete c \<longleftrightarrow> tc_APIToken c \<noteq> [] \<and> tc_AccountID c \<noteq> [] \<and> tc_ZoneID c \<noteq> [] \<and> tc_Domain c \<noteq> []"

lemma complete_no_missing: "complete c \<Longrightarrow> missing_fields c = []"
  by (simp add: complete_def missing_fields_def)

definition mode_body :: "mode \<Rightarrow> json option" where
  "mode_body m = Some (JObj [(''mode'', JStr m)])"

lemma TrimSpace_Nil [simp]: "TrimSpace [] = []"
  by code_simp

lemma merge_mode_only:
  "merge_config \<lparr>ti_Mode = m, ti_APIToken = [], ti_AccountID = [], ti_ZoneID = [], ti_Domain = []\<rparr> c = c\<lparr>tc_Mode := enable_mode m\<rparr>"
  by (simp add: merge_config_def keep_or_def)

lemma decode_mode_body: "bind_json dec_enable (mode_body m) = Some \<lparr>ti_Mode = m, ti_APIToken = [], ti_AccountID = [], ti_ZoneID = [], ti_Domain = []\<rparr>"
  by (simp add: mode_body_def bind_json_def json_fields_def dec_enable_def dec_string_def)

lemma enable_modes: "enable_mode ''named'' = ModeNamed" "enable_mode ''none'' = ModeNone" "enable_mode ''quick'' = ModeQuick"
  by code_simp+

lemma handle_enable_mode:
  assumes "stored_config c s" and "te_get env = None" and "enable_mode m = m" and "mode_IsValid m"
    and "m = ModeNamed \<or> m = ModeHybrid \<Longrightarrow> complete c"
  shows "HandleTunnelEnable quote je env env' (mode_body m) s =
    (case Enable quote env (c\<lparr>tc_Mode := m\<rparr>) s of (Some e, s1) \<Rightarrow> (TnRefused 500 e [], s1) | (None, s1) \<Rightarrow> (status_reply env' s1, s1))"
proof -
  have "\<not> ((m = ModeNamed \<or> m = ModeHybrid) \<and> missing_fields (c\<lparr>tc_Mode := m\<rparr>) \<noteq> [])"
    using assms(5) complete_no_missing [of "c\<lparr>tc_Mode := m\<rparr>"] by (auto simp: complete_def)
  then show ?thesis
    unfolding HandleTunnelEnable_def decode_mode_body option.case Let_def tunnelEnableInput.select_convs assms(3)
      Load_stored [OF assms(1,2)] sum.case merge_mode_only
    using assms(4) by (simp only: if_False not_True_eq_False simp_thms)
qed

definition disabled_config :: "tn_env \<Rightarrow> tn_state \<Rightarrow> tn_config \<Rightarrow> tn_config" where
  "disabled_config env s c = saved_config env s (c\<lparr>tc_Mode := ModeNone, tc_QuickURL := []\<rparr>)"

lemma Disable_stored:
  assumes "stored_config c s" and "te_get env = None" and "te_set env = None"
  shows "Disable env s = (None, (stopAll s)\<lparr>ts_stored := Some (Some (enc_config (disabled_config env s c)))\<rparr>)"
proof -
  have st: "stored_config c (stopAll s)" using assms(1) by (simp add: stored_config_def stopAll_eq)
  have "saved_config env (stopAll s) x = saved_config env s x" for x
    by (simp add: saved_config_def or_upstream_def stopAll_eq)
  then show ?thesis using Load_stored [OF st assms(2)] st assms(3)
    by (simp add: Disable_def Let_def Save_ok stored_config_def disabled_config_def)
qed

lemma named_mode: "enable_mode ModeNamed = ModeNamed" "mode_IsValid ModeNamed"
  by (simp_all add: enable_modes(1) [folded ModeNamed_def] mode_IsValid_def)

theorem disable_keeps_tunnel:
  assumes "stored_config c s" and "complete c" and "tc_TunnelID c \<noteq> []"
    and "te_get env = None" and "te_set env = None" and "int64_range (te_now env)"
    and "te_get env2 = None" and "te_token env2 (tc_APIToken c) (tc_TunnelID c) (tc_AccountID c) = Inr (Some tok)" and "tok \<noteq> []"
    and s1: "s1 = snd (HandleTunnelDisable env env' s)"
  shows "stored_config (disabled_config env s c) s1"
    and "tunnels_made (snd (HandleTunnelEnable quote je env2 env2' (mode_body ModeNamed) s1)) = tunnels_made s"
proof -
  let ?d = "disabled_config env s c"
  have s1': "s1 = (stopAll s)\<lparr>ts_stored := Some (Some (enc_config ?d))\<rparr>"
    by (simp add: s1 HandleTunnelDisable_def snd_reply Disable_stored [OF assms(1,4,5)])
  show st: "stored_config ?d s1" using assms(1,6)
    by (simp add: s1' stored_config_def stopAll_eq disabled_config_def saved_config_def mode_IsValid_def)
  have c: "complete ?d" using assms(2) by (simp add: complete_def disabled_config_def saved_config_def)
  have made: "tunnels_made (snd (Enable quote env2 (?d\<lparr>tc_Mode := ModeNamed\<rparr>) s1)) = tunnels_made s1"
    by (rule Enable_made [where tok = tok]) (use assms(3,8,9) in \<open>simp add: good_token_def disabled_config_def saved_config_def\<close>)
  show "tunnels_made (snd (HandleTunnelEnable quote je env2 env2' (mode_body ModeNamed) s1)) = tunnels_made s"
    unfolding handle_enable_mode [OF st assms(7) named_mode c] snd_reply made
    by (simp add: s1' stopAll_eq tunnels_made_def)
qed

theorem disable_keeps_tunnel_witness:
  "tunnels_made (snd (HandleTunnelEnable (\<lambda>m. m) [] ex_tenv ex_tenv (mode_body ModeNamed) (snd (HandleTunnelDisable ex_tenv ex_tenv ex_manager)))) = []"
proof -
  have "tunnels_made (snd (HandleTunnelEnable (\<lambda>m. m) [] ex_tenv ex_tenv (mode_body ModeNamed) (snd (HandleTunnelDisable ex_tenv ex_tenv ex_manager))))
      = tunnels_made ex_manager"
    by (rule disable_keeps_tunnel(2) [OF ex_stored, where tok = "''tok''"])
      (simp_all add: complete_def ex_config_def ex_tenv_def int64_range_def)
  then show ?thesis by (simp add: tunnels_made_def ex_manager_def NewTunnelManager_def)
qed

text \<open>A set-up that fails after the tunnel was made: the DNS records cannot be listed.\<close>

definition setup_fails :: "tn_config \<Rightarrow> tn_env \<times> string \<Rightarrow> bool" where
  "setup_fails c p =
     (case p of (env, i) \<Rightarrow>
        te_get env = None \<and> px_stat (te_named env) = None \<and> i \<noteq> [] \<and>
        te_new env (tc_APIToken c) (tc_AccountID c) tunnelName = Inr (Some i) \<and>
        good_token (te_token env (tc_APIToken c) i (tc_AccountID c)) \<noteq> None \<and>
        isl (te_list env (tc_APIToken c) (tc_ZoneID c) (tc_Domain c)))"

lemma failing_named:
  assumes "complete c" and "tc_TunnelID c = []" and "setup_fails c (env, i)"
  obtains e c' s' where "startNamed env c s = (Some e, c', s')" and "same_store s s'" and "tunnels_made s' = tunnels_made s @ [i]"
proof -
  obtain tok where tok: "good_token (te_token env (tc_APIToken c) i (tc_AccountID c)) = Some tok"
    using assms(3) by (auto simp: setup_fails_def)
  let ?s2 = "api_done (NewTunnel (tc_AccountID c) tunnelName i) s"
  let ?c1 = "c\<lparr>tc_TunnelID := i, tc_TunnelToken := tok\<rparr>"
  have create: "createOrReuseTunnel env c s = (Inr (i, tok), ?s2)"
    using assms(2,3) tok by (simp add: createOrReuseTunnel_def setup_fails_def Let_def)
  obtain ie s3 where ing: "configureIngress env ?c1 i (or_upstream c s) ?s2 = (ie, s3)" by fastforce
  obtain le where "te_list env (tc_APIToken c) (tc_ZoneID c) (tc_Domain c) = Inl le"
    using assms(3) by (auto simp: setup_fails_def isl_def)
  then have dns: "routeDNS env ?c1 i s3 = (Some (''list DNS: '' @ le), s3)" by (simp add: routeDNS_def Let_def)
  have "\<exists>e c'. startNamed env c s = (Some e, c', s3)"
    using assms(1,3) by (cases ie) (simp_all add: startNamed_def create ing dns complete_def setup_fails_def Let_def)
  moreover have "same_store s s3"
    using ingress_frame [OF ing] api_only_fields [of ?s2 s3] by (simp add: same_store_def api_done_def)
  moreover have "tunnels_made s3 = tunnels_made s @ [i]" using ingress_frame [OF ing] by (simp add: tunnels_made_done)
  ultimately show thesis using that by blast
qed

lemma failing_setup:
  assumes "stored_config c s" and "complete c" and "tc_TunnelID c = []" and "setup_fails c (env, i)"
  shows "stored_config c (snd (HandleTunnelEnable quote je env env' (mode_body ModeNamed) s))
    \<and> tunnels_made (snd (HandleTunnelEnable quote je env env' (mode_body ModeNamed) s)) = tunnels_made s @ [i]"
proof -
  let ?s1 = "stopAll s" and ?n = "c\<lparr>tc_Mode := ModeNamed\<rparr>"
  define d where "d = (if tc_UpstreamURL ?n = [] then ?n\<lparr>tc_UpstreamURL := ts_upstreamURL ?s1\<rparr> else ?n)"
  have d: "complete d" "tc_TunnelID d = []" "setup_fails d (env, i)" and mode: "tc_Mode d = ModeNamed"
    using assms(2-4) by (simp_all add: d_def complete_def setup_fails_def)
  obtain e c' s3 where n: "startNamed env d ?s1 = (Some e, c', s3)" "same_store ?s1 s3" "tunnels_made s3 = tunnels_made ?s1 @ [i]"
    using failing_named [OF d] by metis
  have "start_mode env d ?s1 = (Some (''named start: '' @ e), c', s3)" using n(1) mode by (simp add: start_mode_def mode_defs)
  then have en: "snd (Enable quote env ?n s) = s3"
    unfolding Enable_def Let_def d_def [symmetric] using named_mode(2) by simp
  have get: "te_get env = None" using assms(4) by (simp add: setup_fails_def)
  have "stored_config c s3" using n(2) assms(1) by (simp add: stored_config_def same_store_def stopAll_eq)
  then show ?thesis using n(3)
    unfolding handle_enable_mode [OF assms(1) get named_mode assms(2)] snd_reply en by (simp add: stopAll_made)
qed

text \<open>
  A named start that fails after the tunnel was made forgets it: nothing is stored, and every further
  attempt asks Cloudflare for another tunnel of the same name.
\<close>

theorem failed_setups_pile_up:
  assumes "stored_config c s" and "complete c" and "tc_TunnelID c = []" and "list_all (setup_fails c) attempts"
  shows "tunnels_made (fold (\<lambda>(env, i) s. snd (HandleTunnelEnable quote je env env' (mode_body ModeNamed) s)) attempts s)
    = tunnels_made s @ map snd attempts"
  using assms(1,4)
proof (induction attempts arbitrary: s)
  case (Cons p ps)
  obtain env i where p: "p = (env, i)" by fastforce
  then show ?case
    using Cons.prems Cons.IH failing_setup [OF Cons.prems(1) assms(2,3), of env i quote je env'] by simp
qed simp

theorem failed_setups_pile_up_witness:
  "tunnels_made (fold (\<lambda>(env, i) s. snd (HandleTunnelEnable (\<lambda>m. m) [] env ex_tenv (mode_body ModeNamed) s))
       [(ex_tenv\<lparr>te_list := \<lambda>_ _ _. Inl ''down''\<rparr>, ''t-2''), (ex_tenv\<lparr>te_new := \<lambda>_ _ _. Inr (Some ''t-3''), te_list := \<lambda>_ _ _. Inl ''down''\<rparr>, ''t-3'')]
       (ex_manager\<lparr>ts_stored := Some (Some (enc_config (ex_config\<lparr>tc_TunnelID := []\<rparr>)))\<rparr>))
   = [''t-2'', ''t-3'']"
proof -
  let ?c = "ex_config\<lparr>tc_TunnelID := []\<rparr>"
  let ?s = "ex_manager\<lparr>ts_stored := Some (Some (enc_config ?c))\<rparr>"
  let ?as = "[(ex_tenv\<lparr>te_list := \<lambda>_ _ _. Inl ''down''\<rparr>, ''t-2''), (ex_tenv\<lparr>te_new := \<lambda>_ _ _. Inr (Some ''t-3''), te_list := \<lambda>_ _ _. Inl ''down''\<rparr>, ''t-3'')]"
  have st: "stored_config ?c ?s" using ex_stored by (simp add: stored_config_def)
  have fails: "list_all (setup_fails ?c) ?as" by (simp add: setup_fails_def ex_tenv_def ex_proc_def good_token_def)
  have "complete ?c" "tc_TunnelID ?c = []" by (simp_all add: complete_def ex_config_def)
  then have "tunnels_made (fold (\<lambda>(env, i) s. snd (HandleTunnelEnable (\<lambda>m. m) [] env ex_tenv (mode_body ModeNamed) s)) ?as ?s)
      = tunnels_made ?s @ map snd ?as"
    by (rule failed_setups_pile_up [OF st _ _ fails])
  moreover have "tunnels_made ?s = []" by (simp add: tunnels_made_def ex_manager_def NewTunnelManager_def)
  ultimately show ?thesis by simp
qed

text \<open>
  Enabling mode none is documented as the same as \<^verbatim>\<open>Disable\<close>. Both stop everything, but it keeps the
  stored address of the quick tunnel: the status goes on showing the address of a tunnel that is gone.
\<close>

theorem enable_none_is_not_disable:
  assumes "tn_idle s" and "stored_config c s" and "te_get env = None" and "te_set env = None" and "int64_range (te_now env)" and "te_get env' = None"
  shows "\<exists>st. tn_Status env' (snd (HandleTunnelEnable quote je env env' (mode_body ModeNone) s)) = Inr st
      \<and> \<not> st_QuickRunning st \<and> st_QuickURL st = tc_QuickURL c"
    and "\<exists>st. tn_Status env' (snd (HandleTunnelDisable env env' s)) = Inr st \<and> \<not> st_QuickRunning st \<and> st_QuickURL st = []"
proof -
  let ?s1 = "stopAll s" and ?n = "c\<lparr>tc_Mode := ModeNone\<rparr>"
  have none: "enable_mode ModeNone = ModeNone" "mode_IsValid ModeNone"
    by (simp_all add: enable_modes(2) [folded ModeNone_def] mode_IsValid_def)
  have "snd (HandleTunnelEnable quote je env env' (mode_body ModeNone) s) = snd (Enable quote env ?n s)"
    by (subst handle_enable_mode [OF assms(2,3) none]) (simp_all add: mode_defs snd_reply)
  note h = this
  have red: "ts_redis ?s1" using assms(2) by (simp add: stored_config_def stopAll_eq)
  have view: "\<exists>st. tn_Status env' (?s1\<lparr>ts_stored := Some (Some (enc_config d))\<rparr>) = Inr st \<and> \<not> st_QuickRunning st \<and> st_QuickURL st = tc_QuickURL d"
    if "int64_range (tc_UpdatedAt d)" "mode_IsValid (tc_Mode d)" for d
  proof -
    have "LoadConfig env' (?s1\<lparr>ts_stored := Some (Some (enc_config d))\<rparr>) = Inr d"
      by (rule Load_stored [OF _ assms(6)]) (use that red in \<open>simp add: stored_config_def\<close>)
    then show ?thesis by (simp add: tn_Status_def cmd_running_def stopAll_eq)
  qed
  have en: "Enable quote env ?n s = (None, ?s1\<lparr>ts_stored := Some (Some (enc_config (saved_config env ?s1 (with_upstream ?n s))))\<rparr>)"
    using Enable_unfold [OF assms(1), of ?n] none(2)
    by (simp add: start_mode_def with_upstream_def Save_ok [OF red assms(4)])
  show "\<exists>st. tn_Status env' (snd (HandleTunnelEnable quote je env env' (mode_body ModeNone) s)) = Inr st
      \<and> \<not> st_QuickRunning st \<and> st_QuickURL st = tc_QuickURL c"
    unfolding h en snd_conv
    using view [of "saved_config env ?s1 (with_upstream ?n s)"] assms(5) none(2) by (simp add: saved_config_def with_upstream_def)
  show "\<exists>st. tn_Status env' (snd (HandleTunnelDisable env env' s)) = Inr st \<and> \<not> st_QuickRunning st \<and> st_QuickURL st = []"
    unfolding HandleTunnelDisable_def snd_reply Disable_stored [OF assms(2,3,4)] snd_conv
    using view [of "disabled_config env s c"] assms(5) none(2) by (simp add: saved_config_def disabled_config_def)
qed

theorem enable_none_is_not_disable_witness:
  "\<exists>st. tn_Status ex_tenv (snd (HandleTunnelEnable (\<lambda>m. m) [] ex_tenv ex_tenv (mode_body ModeNone) ex_manager)) = Inr st
     \<and> \<not> st_QuickRunning st \<and> st_QuickURL st = ''https://a.trycloudflare.com''"
proof -
  have "\<exists>st. tn_Status ex_tenv (snd (HandleTunnelEnable (\<lambda>m. m) [] ex_tenv ex_tenv (mode_body ModeNone) ex_manager)) = Inr st
     \<and> \<not> st_QuickRunning st \<and> st_QuickURL st = tc_QuickURL ex_config"
    by (rule enable_none_is_not_disable(1) [OF ex_idle ex_stored]) (simp_all add: ex_tenv_def int64_range_def)
  then show ?thesis by (simp add: ex_config_def)
qed

end
