(* ===== verification/Rows.thy ===== *)
theory Rows
  imports Auth PoolAdmin
begin

text \<open>
  The other Redis rows of \<^verbatim>\<open>internal/db/db.go\<close>: Grok accounts, CodeBuddy keys, proxies with the set of
  enabled ids, custom models, aliases and combos; and what a restart makes of them.

  The rows below one key prefix are a map from the rest of the key to the hash, as in \<open>KeyStore\<close>. The
  client writes numbers in decimal, a boolean as \<open>eb\<close> gives it and a float as \<open>ef\<close>; the JSON array of
  a proxy's scopes is written and read by \<open>enc\<close> and \<open>dec\<close>. The hashes of models and combos hold the
  decoded JSON value, \<open>None\<close> for text that is not JSON. The outcome of every command sent to the server is
  an argument; a command that fails changes nothing.
\<close>

definition on_ok :: "go_error option \<Rightarrow> 'a \<Rightarrow> 'a \<Rightarrow> 'a" where
  "on_ok err st' st = (if err = None then st' else st)"

lemma on_ok_simps [simp]: "on_ok None st' st = st'" "on_ok (Some e) st' st = st"
  by (simp_all add: on_ok_def)

text \<open>INCR on a 64-bit counter.\<close>

definition redis_incr :: "go_error option \<Rightarrow> 64 word \<Rightarrow> go_error + 64 word" where
  "redis_incr err v =
     (case err of
        Some e \<Rightarrow> Inl e
      | None \<Rightarrow> if v = 0x7FFFFFFFFFFFFFFF then Inl ''ERR increment or decrement would overflow'' else Inr (v + 1))"

subsection \<open>Accounts and keys of the upstreams\<close>

record GrokAccountDTO =
  gd_Email :: string
  gd_AccessToken :: string
  gd_RefreshToken :: string
  gd_IDToken :: string
  gd_ExpiresAt :: gotime
  gd_ExpiresIn :: int
  gd_Expired :: string
  gd_LastRefresh :: string
  gd_Sub :: string
  gd_Disabled :: bool
  gd_DisabledAt :: gotime

definition toDTO :: "GrokAccount \<Rightarrow> GrokAccountDTO" where
  "toDTO a =
     \<lparr>gd_Email = ga_Email a, gd_AccessToken = ga_AccessToken a, gd_RefreshToken = ga_RefreshToken a, gd_IDToken = ga_IDToken a,
      gd_ExpiresAt = ga_expiresAt a, gd_ExpiresIn = ga_ExpiresIn a, gd_Expired = ga_Expired a, gd_LastRefresh = ga_LastRefresh a,
      gd_Sub = ga_Sub a, gd_Disabled = ga_disabled a, gd_DisabledAt = ga_disabledAt a\<rparr>"

definition grok_fields :: "(bool \<Rightarrow> string) \<Rightarrow> GrokAccountDTO \<Rightarrow> (string \<times> string) list" where
  "grok_fields eb d =
     [(''email'', gd_Email d), (''access_token'', gd_AccessToken d), (''refresh_token'', gd_RefreshToken d), (''id_token'', gd_IDToken d),
      (''expires_at'', Itoa (unix (gd_ExpiresAt d))), (''expires_in'', Itoa (gd_ExpiresIn d)), (''expired'', gd_Expired d),
      (''last_refresh'', gd_LastRefresh d), (''sub'', gd_Sub d), (''disabled'', eb (gd_Disabled d)),
      (''disabled_at'', Itoa (unix (gd_DisabledAt d)))]"

definition SaveGrokAccount :: "go_error option \<Rightarrow> (bool \<Rightarrow> string) \<Rightarrow> GrokAccountDTO \<Rightarrow> key_rows \<Rightarrow> key_rows" where
  "SaveGrokAccount err eb d st = on_ok err (st(gd_Email d \<mapsto> row (gd_Email d) st ++ map_of (grok_fields eb d))) st"

definition DeleteGrokAccount :: "go_error option \<Rightarrow> string \<Rightarrow> key_rows \<Rightarrow> key_rows" where
  "DeleteGrokAccount err email st = on_ok err (st(email := None)) st"

text \<open>
  \<open>scan\<close>: the keys the iteration yields and the error it ends with; \<open>bad\<close>: the keys whose HGETALL
  fails.
\<close>

definition LoadGrokAccounts ::
  "string list \<times> go_error option \<Rightarrow> (string \<Rightarrow> bool) \<Rightarrow> key_rows \<Rightarrow> go_error + (string \<times> redis_hash) list" where
  "LoadGrokAccounts scan bad st =
     (case scan of (ks, err) \<Rightarrow>
        case err of Some e \<Rightarrow> Inl e | None \<Rightarrow> Inr (map (\<lambda>k. (k, row k st)) (filter (\<lambda>k. \<not> bad k) (remdups ks))))"

record CBKeyDTO =
  cd_Key :: string
  cd_CreditsUsed :: rat
  cd_TotalReqs :: int
  cd_Disabled :: bool
  cd_DisabledAt :: gotime

definition cb_fields :: "(bool \<Rightarrow> string) \<Rightarrow> (rat \<Rightarrow> string) \<Rightarrow> gotime \<Rightarrow> CBKeyDTO \<Rightarrow> (string \<times> string) list" where
  "cb_fields eb ef now d =
     [(''credits_used'', ef (cd_CreditsUsed d)), (''total_requests'', Itoa (cd_TotalReqs d)), (''disabled'', eb (cd_Disabled d)),
      (''disabled_at'', Itoa (unix (cd_DisabledAt d))), (''updated_at'', Itoa (unix now))]"

definition SaveCBKey :: "go_error option \<Rightarrow> (bool \<Rightarrow> string) \<Rightarrow> (rat \<Rightarrow> string) \<Rightarrow> gotime \<Rightarrow> CBKeyDTO \<Rightarrow> key_rows \<Rightarrow> key_rows" where
  "SaveCBKey err eb ef now d st = on_ok err (st(cd_Key d \<mapsto> row (cd_Key d) st ++ map_of (cb_fields eb ef now d))) st"

definition saveCBKey :: "go_error option \<Rightarrow> (bool \<Rightarrow> string) \<Rightarrow> (rat \<Rightarrow> string) \<Rightarrow> gotime \<Rightarrow> CBKey \<Rightarrow> key_rows \<Rightarrow> key_rows" where
  "saveCBKey err eb ef now k st =
     SaveCBKey err eb ef now \<lparr>cd_Key = ck_Key k, cd_CreditsUsed = ck_creditsUsed k, cd_TotalReqs = ck_totalReqs k,
       cd_Disabled = ck_disabled k, cd_DisabledAt = ck_disabledAt k\<rparr> st"

definition DeleteCBKey :: "go_error option \<Rightarrow> string \<Rightarrow> key_rows \<Rightarrow> key_rows" where
  "DeleteCBKey err k st = on_ok err (st(k := None)) st"

text \<open>The error of the scan is not looked at.\<close>

definition LoadCBKeys ::
  "string list \<times> go_error option \<Rightarrow> (string \<Rightarrow> bool) \<Rightarrow> key_rows \<Rightarrow> go_error + (string \<times> redis_hash) list" where
  "LoadCBKeys scan bad st = (case scan of (ks, err) \<Rightarrow> Inr (map (\<lambda>k. (k, row k st)) (filter (\<lambda>k. \<not> bad k) (remdups ks))))"

subsection \<open>Proxies\<close>

record px_db =
  px_rows :: key_rows
  px_enabled :: "string list"
  px_rr :: "64 word"

definition proxy_fields :: "(bool \<Rightarrow> string) \<Rightarrow> (string list \<Rightarrow> string) \<Rightarrow> ProxyEntry \<Rightarrow> (string \<times> string) list" where
  "proxy_fields eb enc e =
     [(''id'', pe_ID e), (''protocol'', pe_Protocol e), (''host'', pe_Host e), (''port'', Itoa (pe_Port e)),
      (''username'', pe_Username e), (''password'', pe_Password e), (''enabled'', eb (pe_Enabled e)), (''label'', pe_Label e),
      (''upstreams'', (if ups_list (pe_Upstreams e) = [] then ''[]'' else enc (ups_list (pe_Upstreams e)))),
      (''created_at'', Itoa (unix (pe_CreatedAt e))), (''last_used_at'', Itoa (unix (pe_LastUsedAt e))),
      (''fail_count'', Itoa (pe_FailCount e))]"

text \<open>\<open>herr\<close>: the outcome of HSET; \<open>serr\<close>: of SADD or SREM, which is only logged.\<close>

definition SaveProxy ::
  "go_error option \<times> go_error option \<Rightarrow> (bool \<Rightarrow> string) \<Rightarrow> (string list \<Rightarrow> string) \<Rightarrow> ProxyEntry \<Rightarrow> px_db \<Rightarrow> go_error option \<times> px_db" where
  "SaveProxy errs eb enc e db =
     (case errs of (herr, serr) \<Rightarrow>
        if pe_ID e = [] then (Some ''proxy id required'', db)
        else if herr \<noteq> None then (herr, db)
        else (None, db\<lparr>px_rows := (px_rows db)(pe_ID e \<mapsto> row (pe_ID e) (px_rows db) ++ map_of (proxy_fields eb enc e)),
                       px_enabled := on_ok serr
                         (if pe_Enabled e then List.insert (pe_ID e) (px_enabled db) else removeAll (pe_ID e) (px_enabled db))
                         (px_enabled db)\<rparr>))"

definition set_field :: "go_error option \<Rightarrow> string \<Rightarrow> string \<Rightarrow> string \<Rightarrow> px_db \<Rightarrow> px_db" where
  "set_field err i f v db =
     (if i = [] then db else on_ok err (db\<lparr>px_rows := (px_rows db)(i \<mapsto> (row i (px_rows db))(f \<mapsto> v))\<rparr>) db)"

definition UpdateProxyLastUsed :: "go_error option \<Rightarrow> string \<Rightarrow> gotime \<Rightarrow> px_db \<Rightarrow> px_db" where
  "UpdateProxyLastUsed err i ts db = set_field err i ''last_used_at'' (Itoa (unix ts)) db"

definition UpdateProxyFailCount :: "go_error option \<Rightarrow> string \<Rightarrow> int \<Rightarrow> px_db \<Rightarrow> px_db" where
  "UpdateProxyFailCount err i n db = set_field err i ''fail_count'' (Itoa n) db"

definition DeleteProxy :: "go_error option \<times> go_error option \<Rightarrow> string \<Rightarrow> px_db \<Rightarrow> go_error option \<times> px_db" where
  "DeleteProxy errs i db =
     (case errs of (derr, serr) \<Rightarrow>
        if i = [] then (Some ''id required'', db)
        else if derr \<noteq> None then (derr, db)
        else (None, db\<lparr>px_rows := (px_rows db)(i := None), px_enabled := on_ok serr (removeAll i (px_enabled db)) (px_enabled db)\<rparr>))"

definition positive_time :: "string \<Rightarrow> gotime" where
  "positive_time v = (case Atoi v of Some n \<Rightarrow> if n > 0 then n * second else zero_time | None \<Rightarrow> zero_time)"

definition load_proxy :: "(string \<Rightarrow> string list option) \<Rightarrow> string list \<Rightarrow> string \<Rightarrow> redis_hash \<Rightarrow> ProxyEntry" where
  "load_proxy dec enabledSet i h =
     \<lparr>pe_ID = i, pe_Protocol = field h ''protocol'', pe_Host = field h ''host'',
      pe_Port = (case Atoi (field h ''port'') of Some v \<Rightarrow> v | None \<Rightarrow> 0),
      pe_Username = field h ''username'', pe_Password = field h ''password'', pe_Enabled = (i \<in> set enabledSet),
      pe_Label = field h ''label'',
      pe_Upstreams = (case h ''upstreams'' of
                        Some raw \<Rightarrow> if raw \<noteq> [] \<and> raw \<noteq> ''null'' then dec raw else None
                      | None \<Rightarrow> None),
      pe_CreatedAt = positive_time (field h ''created_at''), pe_LastUsedAt = positive_time (field h ''last_used_at''),
      pe_FailCount = (case Atoi (field h ''fail_count'') of Some v \<Rightarrow> v | None \<Rightarrow> 0)\<rparr>"

text \<open>
  \<open>smerr\<close>: the outcome of SMEMBERS, which is not looked at. The scan yields the ids of the rows, in any
  order, and also the keys of the enabled set and of the shared counter, which have the same prefix;
  \<open>bad\<close>: the keys whose HGETALL fails. A hash with no fields does not exist. The entries read before
  the scan fails are dropped by the caller.
\<close>

definition LoadProxies ::
  "(string \<Rightarrow> string list option) \<Rightarrow> go_error option \<Rightarrow> (string \<Rightarrow> bool) \<Rightarrow> string list \<times> go_error option \<Rightarrow> px_db \<Rightarrow> go_error + ProxyEntry list" where
  "LoadProxies dec smerr bad scan db =
     (let enabledSet = on_ok smerr (px_enabled db) []
      in case scan of (ks, err) \<Rightarrow>
        case err of
          Some e \<Rightarrow> Inl e
        | None \<Rightarrow>
            Inr (List.map_filter (\<lambda>k. if k = ''enabled'' \<or> k = ''rr'' \<or> bad k then None
                   else case px_rows db k of None \<Rightarrow> None | Some h \<Rightarrow> Some (load_proxy dec enabledSet k h)) ks))"

definition IncrProxyRR :: "go_error option \<Rightarrow> px_db \<Rightarrow> (go_error + 64 word) \<times> px_db" where
  "IncrProxyRR err db =
     (case redis_incr err (px_rr db) of
        Inl e \<Rightarrow> (Inl e, db)
      | Inr v \<Rightarrow> (Inr v, db\<lparr>px_rr := v\<rparr>))"

text \<open>The effect of a write of the pool that succeeds.\<close>

fun apply_write :: "(bool \<Rightarrow> string) \<Rightarrow> (string list \<Rightarrow> string) \<Rightarrow> pool_write \<Rightarrow> px_db \<Rightarrow> px_db" where
  "apply_write eb enc (WSaveProxy e) db = snd (SaveProxy (None, None) eb enc e db)"
| "apply_write eb enc (WDeleteProxy i) db = snd (DeleteProxy (None, None) i db)"
| "apply_write eb enc (WFailCount i n) db = UpdateProxyFailCount None i n db"
| "apply_write eb enc (WLastUsed i ts) db = UpdateProxyLastUsed None i ts db"

subsection \<open>Custom models, aliases and combos\<close>

type_synonym json_rows = "string \<rightharpoonup> json option"

definition enc_model :: "CustomModel \<Rightarrow> json" where
  "enc_model cm = JObj [(''upstream'', JStr (cm_Upstream cm)), (''model_name'', JStr (cm_ModelName cm)), (''owned_by'', JStr (cm_OwnedBy cm))]"

definition dec_model :: "fields \<Rightarrow> CustomModel option" where
  "dec_model m =
     (case (dec_string m ''upstream'', dec_string m ''model_name'', dec_string m ''owned_by'') of
        (Some u, Some n, Some b) \<Rightarrow> Some \<lparr>cm_Upstream = u, cm_ModelName = n, cm_OwnedBy = b\<rparr>
      | _ \<Rightarrow> None)"

definition SaveCustomModel :: "go_error option \<Rightarrow> string \<Rightarrow> CustomModel \<Rightarrow> json_rows \<Rightarrow> go_error option \<times> json_rows" where
  "SaveCustomModel err i cm st = (err, on_ok err (st(i \<mapsto> Some (enc_model cm))) st)"

definition DeleteCustomModel :: "go_error option \<Rightarrow> string \<Rightarrow> json_rows \<Rightarrow> go_error option \<times> json_rows" where
  "DeleteCustomModel err i st = (err, on_ok err (st(i := None)) st)"

definition model_rows :: "json_rows \<Rightarrow> (string \<rightharpoonup> CustomModel)" where
  "model_rows st i = (case st i of None \<Rightarrow> None | Some raw \<Rightarrow> bind_json dec_model raw)"

definition LoadCustomModels :: "go_error option \<Rightarrow> json_rows \<Rightarrow> go_error + (string \<rightharpoonup> CustomModel)" where
  "LoadCustomModels err st = (case err of Some e \<Rightarrow> Inl e | None \<Rightarrow> Inr (model_rows st))"

type_synonym alias_rows = "string \<rightharpoonup> string"

definition SaveCustomAlias :: "go_error option \<Rightarrow> string \<Rightarrow> string \<Rightarrow> alias_rows \<Rightarrow> go_error option \<times> alias_rows" where
  "SaveCustomAlias err a t st =
     (if a = [] \<or> t = [] then (Some ''alias and target required'', st) else (err, on_ok err (st(a \<mapsto> t)) st))"

definition DeleteCustomAlias :: "go_error option \<Rightarrow> string \<Rightarrow> alias_rows \<Rightarrow> go_error option \<times> alias_rows" where
  "DeleteCustomAlias err a st = (err, on_ok err (st(a := None)) st)"

definition LoadCustomAliases :: "go_error option \<Rightarrow> alias_rows \<Rightarrow> go_error + (string \<rightharpoonup> string)" where
  "LoadCustomAliases err st = (case err of Some e \<Rightarrow> Inl e | None \<Rightarrow> Inr st)"

record combo_db =
  cb_rows :: json_rows
  cb_counters :: "string \<Rightarrow> 64 word"

definition enc_combo :: "Combo \<Rightarrow> json" where
  "enc_combo c =
     JObj [(''name'', JStr (co_Name c)), (''strategy'', JStr (co_Strategy c)), (''models'', JArr (map JStr (co_Models c))),
           (''description'', JStr (co_Description c))]"

definition dec_combo_row :: "fields \<Rightarrow> Combo option" where
  "dec_combo_row m =
     (case (dec_string m ''name'', dec_string m ''strategy'', dec_list json_string m ''models'', dec_string m ''description'') of
        (Some n, Some s, Some ms, Some d) \<Rightarrow> Some \<lparr>co_Name = n, co_Strategy = s, co_Models = ms, co_Description = d\<rparr>
      | _ \<Rightarrow> None)"

definition SaveCombo :: "go_error option \<Rightarrow> Combo \<Rightarrow> combo_db \<Rightarrow> go_error option \<times> combo_db" where
  "SaveCombo err c db =
     (if co_Name c = [] then (Some ''combo name required'', db)
      else (err, on_ok err (db\<lparr>cb_rows := (cb_rows db)(co_Name c \<mapsto> Some (enc_combo c))\<rparr>) db))"

text \<open>\<open>herr\<close>: the outcome of HDEL; \<open>cerr\<close>: of DEL on the counter, which is dropped.\<close>

definition DeleteComboRow :: "go_error option \<Rightarrow> go_error option \<Rightarrow> string \<Rightarrow> combo_db \<Rightarrow> go_error option \<times> combo_db" where
  "DeleteComboRow herr cerr n db =
     (herr, on_ok herr (db\<lparr>cb_rows := (cb_rows db)(n := None),
                             cb_counters := on_ok cerr ((cb_counters db)(n := 0)) (cb_counters db)\<rparr>) db)"

definition combo_row :: "combo_db \<Rightarrow> (string \<rightharpoonup> Combo)" where
  "combo_row db n =
     (case cb_rows db n of
        None \<Rightarrow> None
      | Some raw \<Rightarrow>
          (case bind_json dec_combo_row raw of
             None \<Rightarrow> None
           | Some c \<Rightarrow> Some (if co_Name c = [] then c\<lparr>co_Name := n\<rparr> else c)))"

definition LoadComboRows :: "go_error option \<Rightarrow> combo_db \<Rightarrow> go_error + (string \<rightharpoonup> Combo)" where
  "LoadComboRows err db = (case err of Some e \<Rightarrow> Inl e | None \<Rightarrow> Inr (combo_row db))"

definition IncrComboCounter :: "go_error option \<Rightarrow> string \<Rightarrow> combo_db \<Rightarrow> (go_error + 64 word) \<times> combo_db" where
  "IncrComboCounter err n db =
     (case redis_incr err (cb_counters db n) of
        Inl e \<Rightarrow> (Inl e, db)
      | Inr v \<Rightarrow> (Inr v, db\<lparr>cb_counters := (cb_counters db)(n := v)\<rparr>))"

subsection \<open>Accounts and keys after a restart\<close>

definition kept_time :: "bool \<Rightarrow> gotime \<Rightarrow> gotime" where
  "kept_time dis t = (if dis \<and> 0 < unix t then unix t * second else zero_time)"

lemma bool_codec_dec: "bool_codec eb \<Longrightarrow> (eb b = ''true'' \<or> eb b = ''1'') = b"
  by (cases b) (auto simp: bool_codec_def)

lemma Itoa_nonempty [simp]: "Itoa i \<noteq> []"
  by (simp add: Itoa_def)

text \<open>
  A saved account comes back with all its fields, its expiry read from the printed form and the time
  of its suspension in whole seconds; in particular a banned account stays banned and one in
  cooldown stays in cooldown.
\<close>

theorem grok_account_survives_restart:
  assumes "bool_codec eb" and "ga_AccessToken a \<noteq> []" and "ga_RefreshToken a \<noteq> []"
    and "ga_Expired a \<noteq> []" and "parse (ga_Expired a) = Some (ga_expiresAt a)"
    and "int64_range (ga_ExpiresIn a)" and "int64_range (unix (ga_disabledAt a))"
    and "is_zero (ga_disabledAt a) \<or> 0 < unix (ga_disabledAt a)"
    and h: "SaveGrokAccount None eb (toDTO a) st (ga_Email a) = Some h"
  shows "load_account parse now (ga_Email a) h = Some (a\<lparr>ga_disabledAt := kept_time (ga_disabled a) (ga_disabledAt a)\<rparr>)
    \<and> TokenStatus t (a\<lparr>ga_disabledAt := kept_time (ga_disabled a) (ga_disabledAt a)\<rparr>) = TokenStatus t a"
proof
  have f: "h = row (ga_Email a) st ++ map_of (grok_fields eb (toDTO a))" using h by (simp add: SaveGrokAccount_def toDTO_def)
  show "load_account parse now (ga_Email a) h = Some (a\<lparr>ga_disabledAt := kept_time (ga_disabled a) (ga_disabledAt a)\<rparr>)"
    using assms(2-7) bool_codec_dec [OF assms(1), of "ga_disabled a"]
    by (simp add: load_account_def f grok_fields_def toDTO_def Atoi_Itoa kept_time_def Let_def)
  have "is_zero (kept_time True (ga_disabledAt a)) = is_zero (ga_disabledAt a)"
    using assms(8) by (auto simp: kept_time_def is_zero_def zero_time_def unix_def second_def)
  then show "TokenStatus t (a\<lparr>ga_disabledAt := kept_time (ga_disabled a) (ga_disabledAt a)\<rparr>) = TokenStatus t a"
    by (cases "ga_disabled a") (simp_all add: TokenStatus_def IsExpired_def)
qed

lemma cb_key_survives_restart:
  assumes "bool_codec eb" and "parseFloat (ef (ck_creditsUsed k)) = Some (ck_creditsUsed k)"
    and "int64_range (ck_totalReqs k)" and "int64_range (unix (ck_disabledAt k))"
    and h: "saveCBKey None eb ef now k st (ck_Key k) = Some h"
  shows "load_cb_key parseFloat (ck_Key k) h = k\<lparr>ck_disabledAt := kept_time (ck_disabled k) (ck_disabledAt k)\<rparr>"
  using assms(2-4) bool_codec_dec [OF assms(1), of "ck_disabled k"] h
  by (auto simp: load_cb_key_def saveCBKey_def SaveCBKey_def cb_fields_def Atoi_Itoa kept_time_def Let_def)

text \<open>
  A scan of the CodeBuddy keys that fails at once looks like an empty pool: the keys of the
  environment are loaded instead, enabled and with no credits used, whatever is stored.
\<close>

theorem cb_scan_failure_resets:
  "LoadCB parseFloat env (LoadCBKeys ([], Some e) bad st) km = (None, km\<lparr>km_keys := km_keys km @ map new_cb_key (cb_boot_keys env)\<rparr>)"
  by (simp add: LoadCBKeys_def LoadCB_def)

subsection \<open>Proxies after a restart\<close>

definition scope_codec :: "(string list \<Rightarrow> string) \<Rightarrow> (string \<Rightarrow> string list option) \<Rightarrow> bool" where
  "scope_codec enc dec \<longleftrightarrow> (\<forall>us. us \<noteq> [] \<longrightarrow> dec (enc us) = Some us \<and> enc us \<noteq> [] \<and> enc us \<noteq> ''null'')"

definition core :: "ProxyEntry \<Rightarrow> ProxyEntry" where
  "core e = e\<lparr>pe_CreatedAt := 0, pe_LastUsedAt := 0\<rparr>"

definition row_agrees :: "(string list \<Rightarrow> string) \<Rightarrow> ProxyEntry \<Rightarrow> redis_hash \<Rightarrow> bool" where
  "row_agrees enc e h \<longleftrightarrow>
     h ''protocol'' = Some (pe_Protocol e) \<and> h ''host'' = Some (pe_Host e) \<and> h ''port'' = Some (Itoa (pe_Port e))
     \<and> h ''username'' = Some (pe_Username e) \<and> h ''password'' = Some (pe_Password e) \<and> h ''label'' = Some (pe_Label e)
     \<and> h ''upstreams'' = Some (enc (ups_list (pe_Upstreams e))) \<and> h ''fail_count'' = Some (Itoa (pe_FailCount e))"

definition scoped_entry :: "ProxyEntry \<Rightarrow> bool" where
  "scoped_entry e \<longleftrightarrow> (\<exists>us. us \<noteq> [] \<and> pe_Upstreams e = Some us)"

definition agree :: "(string list \<Rightarrow> string) \<Rightarrow> ProxyEntry list \<Rightarrow> px_db \<Rightarrow> bool" where
  "agree enc es db \<longleftrightarrow>
     (\<forall>e \<in> set es. scoped_entry e \<and> (\<exists>h. px_rows db (pe_ID e) = Some h \<and> row_agrees enc e h) \<and> (pe_ID e \<in> set (px_enabled db)) = pe_Enabled e)
     \<and> dom (px_rows db) = pe_ID ` set es"

lemma saved_row_agrees: "scoped_entry e \<Longrightarrow> row_agrees enc e (h ++ map_of (proxy_fields eb enc e))"
  by (auto simp: row_agrees_def proxy_fields_def scoped_entry_def ups_list_def)

lemma agree_save:
  assumes "agree enc es db" and "pe_ID e \<noteq> []" and "scoped_entry e"
    and "set es' = insert e {x \<in> set es. pe_ID x \<noteq> pe_ID e}"
  shows "agree enc es' (snd (SaveProxy (None, None) eb enc e db))"
  using assms(1-3) saved_row_agrees [OF assms(3)]
  by (auto simp: agree_def SaveProxy_def assms(4))

lemma agree_fail:
  assumes "agree enc es db" and "pe_ID e \<noteq> []" and "e \<in> set es"
    and "set es' = insert (e\<lparr>pe_FailCount := n\<rparr>) {x \<in> set es. pe_ID x \<noteq> pe_ID e}"
  shows "agree enc es' (UpdateProxyFailCount None (pe_ID e) n db)"
proof -
  obtain h where h: "px_rows db (pe_ID e) = Some h" "row_agrees enc e h" using assms(1,3) by (auto simp: agree_def)
  have "row_agrees enc (e\<lparr>pe_FailCount := n\<rparr>) (h(''fail_count'' \<mapsto> Itoa n))" using h(2) by (simp add: row_agrees_def)
  then show ?thesis using assms(1-3) h
    by (auto simp: agree_def UpdateProxyFailCount_def set_field_def row_def assms(4) scoped_entry_def)
qed

lemma agree_touch:
  assumes "agree enc es db" and "i \<in> pe_ID ` set es"
  shows "agree enc es (UpdateProxyLastUsed None i ts db)"
  using assms by (auto simp: agree_def UpdateProxyLastUsed_def set_field_def row_def row_agrees_def)

lemma agree_delete:
  assumes "agree enc es db" and "i \<noteq> []"
  shows "agree enc (filter (\<lambda>e. pe_ID e \<noteq> i) es) (snd (DeleteProxy (None, None) i db))"
  using assms by (auto simp: agree_def DeleteProxy_def)

text \<open>The writes an operation makes, and the operations whose writes reach the store.\<close>

fun pool_writes :: "pool_event \<Rightarrow> ProxyPool \<Rightarrow> pool_write list" where
  "pool_writes (EAdd db nid now e) p = snd (snd (Add db nid now e p))"
| "pool_writes (EUpdate db pid e) p = snd (snd (Update db pid e p))"
| "pool_writes (EDelete db pid) p = snd (snd (Delete db pid p))"
| "pool_writes (EToggle db pid) p = snd (snd (Toggle db pid p))"
| "pool_writes (ENext incr now up) p = snd (snd (Next incr now up p))"
| "pool_writes (EFailed b pid) p = snd (MarkFailed b pid p)"
| "pool_writes (ESuccess b pid) p = snd (MarkSuccess b pid p)"
| "pool_writes (ETransport env e) p = []"

definition saves :: save_result where
  "saves = Some (\<lambda>_. None)"

definition fresh_id :: "go_error + string \<Rightarrow> ProxyPool \<Rightarrow> bool" where
  "fresh_id nid p = (case nid of Inl _ \<Rightarrow> True | Inr i \<Rightarrow> i \<notin> {[], ''enabled'', ''rr''} \<union> pe_ID ` set (pp_entries p))"

fun persisted :: "pool_event \<Rightarrow> ProxyPool \<Rightarrow> bool" where
  "persisted (EAdd db nid now e) p \<longleftrightarrow> db = saves \<and> fresh_id nid p"
| "persisted (EUpdate db pid e) p \<longleftrightarrow> db = saves"
| "persisted (EDelete db pid) p \<longleftrightarrow> db = Some None"
| "persisted (EToggle db pid) p \<longleftrightarrow> db = saves"
| "persisted (ENext incr now up) p \<longleftrightarrow> incr \<noteq> None"
| "persisted (EFailed b pid) p \<longleftrightarrow> b"
| "persisted (ESuccess b pid) p \<longleftrightarrow> b"
| "persisted (ETransport env e) p \<longleftrightarrow> True"

definition store_step :: "(bool \<Rightarrow> string) \<Rightarrow> (string list \<Rightarrow> string) \<Rightarrow> pool_event \<Rightarrow> ProxyPool \<times> px_db \<Rightarrow> ProxyPool \<times> px_db" where
  "store_step eb enc ev = (\<lambda>(p, db). (pool_apply ev p, fold (apply_write eb enc) (pool_writes ev p) db))"

fun all_persisted :: "pool_event list \<Rightarrow> ProxyPool \<Rightarrow> bool" where
  "all_persisted [] p \<longleftrightarrow> True"
| "all_persisted (ev # evs) p \<longleftrightarrow> persisted ev p \<and> all_persisted evs (pool_apply ev p)"

definition synced :: "(string list \<Rightarrow> string) \<Rightarrow> ProxyPool \<times> px_db \<Rightarrow> bool" where
  "synced enc = (\<lambda>(p, db). pool_inv p \<and> distinct (map pe_ID (pp_entries p))
     \<and> set (map pe_ID (pp_entries p)) \<inter> {[], ''enabled'', ''rr''} = {} \<and> agree enc (pp_entries p) db)"

lemma set_update_id:
  assumes "distinct (map pe_ID es)" and "k < length es" and "pe_ID y = pe_ID (es ! k)"
  shows "set (es[k := y]) = insert y {x \<in> set es. pe_ID x \<noteq> pe_ID y}"
proof -
  define a where "a = take k es"
  define b where "b = drop (Suc k) es"
  have es: "es = a @ es ! k # b" "length a = k" using assms(2) id_take_nth_drop [of k es] by (simp_all add: a_def b_def)
  have upd: "es[k := y] = a @ y # b" using assms(2) by (simp add: a_def b_def upd_conv_take_nth_drop)
  have "distinct (map pe_ID (a @ es ! k # b))" using assms(1) es(1) by simp
  then have other: "\<forall>v \<in> set a \<union> set b. pe_ID v \<noteq> pe_ID y" unfolding assms(3) by (auto simp: image_iff)
  have "set es = insert (es ! k) (set a \<union> set b)" using arg_cong [OF es(1), of set] by simp
  then show ?thesis using other assms(3) by (auto simp: upd)
qed

lemma synced_id: "synced enc (p, db) \<Longrightarrow> e \<in> set (pp_entries p) \<Longrightarrow> pe_ID e \<noteq> []"
  by (auto simp: synced_def image_iff)

lemma synced_replace:
  assumes "synced enc (p, db)" and "k < length (pp_entries p)" and "pe_ID y = pe_ID (pp_entries p ! k)"
    and "pp_entries q = (pp_entries p)[k := y]" and "pool_inv q"
    and "agree enc (pp_entries q) db'"
  shows "synced enc (q, db')"
proof -
  have "map pe_ID (pp_entries q) = map pe_ID (pp_entries p)" using assms(2-4) by (simp add: map_update_same)
  then show ?thesis using assms(1,5,6) by (simp only: synced_def prod.case)
qed

lemma synced_save:
  assumes "synced enc (p, db)" and "k < length (pp_entries p)" and "pe_ID y = pe_ID (pp_entries p ! k)" and "scoped_entry y"
    and "pp_entries q = (pp_entries p)[k := y]" and "pool_inv q"
  shows "synced enc (q, snd (SaveProxy (None, None) eb enc y db))"
proof (rule synced_replace [OF assms(1,2,3,5,6)])
  have "pe_ID y \<noteq> []" using synced_id [OF assms(1) nth_mem [OF assms(2)]] assms(3) by simp
  moreover have "set (pp_entries q) = insert y {x \<in> set (pp_entries p). pe_ID x \<noteq> pe_ID y}"
    unfolding assms(5) using assms(1) by (intro set_update_id [OF _ assms(2,3)]) (simp add: synced_def)
  ultimately show "agree enc (pp_entries q) (snd (SaveProxy (None, None) eb enc y db))"
    using assms(1,4) by (intro agree_save) (simp_all add: synced_def)
qed

lemma synced_fail:
  assumes "synced enc (p, db)" and "k < length (pp_entries p)"
    and "pp_entries q = (pp_entries p)[k := (pp_entries p ! k)\<lparr>pe_FailCount := n\<rparr>]" and "pool_inv q"
  shows "synced enc (q, UpdateProxyFailCount None (pe_ID (pp_entries p ! k)) n db)"
proof (rule synced_replace [OF assms(1,2) _ assms(3,4)])
  let ?e = "pp_entries p ! k"
  have mem: "?e \<in> set (pp_entries p)" using assms(2) by simp
  have "pe_ID ?e \<noteq> []" by (rule synced_id [OF assms(1) mem])
  moreover have "set (pp_entries q) = insert (?e\<lparr>pe_FailCount := n\<rparr>) {x \<in> set (pp_entries p). pe_ID x \<noteq> pe_ID ?e}"
    unfolding assms(3) using assms(1) set_update_id [of "pp_entries p" k "?e\<lparr>pe_FailCount := n\<rparr>"] assms(2) by (simp add: synced_def)
  ultimately show "agree enc (pp_entries q) (UpdateProxyFailCount None (pe_ID ?e) n db)"
    using assms(1) mem by (intro agree_fail) (simp_all add: synced_def)
qed simp

lemma synced_scoped: "synced enc (p, db) \<Longrightarrow> k < length (pp_entries p) \<Longrightarrow> scoped_entry (pp_entries p ! k)"
  by (simp add: synced_def agree_def)

lemma step_Add:
  assumes "synced enc (p, db)" and "fresh_id nid p"
  shows "synced enc (store_step eb enc (EAdd saves nid now e) (p, db))"
proof (cases "fst (Add saves nid now e p)")
  case (Inl err)
  then have "snd (Add saves nid now e p) = (p, [])"
    by (auto simp: Add_def saves_def save_error_def Let_def split: sum.splits)
  then show ?thesis using assms(1) by (simp add: store_step_def)
next
  case (Inr v)
  then obtain i v0 where v: "nid = Inr i" "validateEntry e = Inr v0" "v = v0\<lparr>pe_ID := i, pe_CreatedAt := now, pe_FailCount := 0\<rparr>"
    and s: "snd (Add saves nid now e p) = (rebuildEnabledLocked (p\<lparr>pp_entries := pp_entries p @ [v]\<rparr>), [WSaveProxy v])"
    by (auto simp: Add_def saves_def save_error_def save_write_def Let_def split: sum.splits)
  have i: "pe_ID v = i" "i \<notin> {[], ''enabled'', ''rr''}" "i \<notin> pe_ID ` set (pp_entries p)"
    using v assms(2) by (simp_all add: fresh_id_def)
  have sc: "scoped_entry v" using normaliseUpstreams_shape(2) by (simp add: v(3) validateEntry_Inr(1) [OF v(2)] scoped_entry_def)
  have "{x \<in> set (pp_entries p). pe_ID x \<noteq> pe_ID v} = set (pp_entries p)" using i by (auto simp: image_iff)
  then have "agree enc (pp_entries p @ [v]) (snd (SaveProxy (None, None) eb enc v db))"
    using assms(1) i sc by (intro agree_save [where es = "pp_entries p"]) (auto simp: synced_def)
  moreover have "pool_inv (fst (snd (Add saves nid now e p)))" using assms(1) by (intro pool_inv_Add) (simp add: synced_def)
  ultimately show ?thesis using assms(1) i by (auto simp: store_step_def s synced_def)
qed

lemma step_Update:
  assumes "synced enc (p, db)"
  shows "synced enc (store_step eb enc (EUpdate saves pid inp) (p, db))"
proof (cases "snd (Update saves pid inp p) = (p, [])")
  case True
  then show ?thesis using assms by (simp add: store_step_def)
next
  case False
  then obtain k v where k: "find_index (\<lambda>e. pe_ID e = pid) (pp_entries p) = Some k" "validateEntry (merge_update inp (pp_entries p ! k)) = Inr v"
    by (auto simp: Update_def split: if_splits option.splits sum.splits)
  let ?y = "v\<lparr>pe_FailCount := 0\<rparr>" and ?q = "fst (snd (Update saves pid inp p))"
  have idx: "k < length (pp_entries p)" using find_index_Some [OF k(1)] by simp
  have q: "pp_entries ?q = (pp_entries p)[k := ?y]" "snd (snd (Update saves pid inp p)) = [WSaveProxy ?y]"
    using False k by (simp_all add: Update_def save_write_def saves_def Let_def split: if_splits)
  have "pe_ID ?y = pe_ID (pp_entries p ! k)" by (simp add: validateEntry_Inr(1) [OF k(2)] merge_update_def)
  moreover have "scoped_entry ?y" using normaliseUpstreams_shape(2) by (simp add: validateEntry_Inr(1) [OF k(2)] scoped_entry_def)
  moreover have "pool_inv ?q" using assms by (intro pool_inv_Update) (simp add: synced_def)
  ultimately have "synced enc (?q, snd (SaveProxy (None, None) eb enc ?y db))" by (intro synced_save [OF assms idx _ _ q(1)])
  then show ?thesis by (simp add: store_step_def q(2))
qed

lemma step_Delete:
  assumes "synced enc (p, db)"
  shows "synced enc (store_step eb enc (EDelete (Some None) pid) (p, db))"
proof (cases "snd (Delete (Some None) pid p) = (p, [])")
  case True
  then show ?thesis using assms by (simp add: store_step_def)
next
  case False
  let ?q = "fst (snd (Delete (Some None) pid p))"
  have q: "pid \<noteq> []" "pp_entries ?q = filter (\<lambda>e. pe_ID e \<noteq> pid) (pp_entries p)" "snd (snd (Delete (Some None) pid p)) = [WDeleteProxy pid]"
    using False by (auto simp: Delete_def Let_def split: if_splits)
  have "pool_inv ?q" using assms by (intro pool_inv_Delete) (simp add: synced_def)
  moreover have "agree enc (pp_entries ?q) (snd (DeleteProxy (None, None) pid db))"
    unfolding q(2) using assms q(1) by (intro agree_delete) (simp_all add: synced_def)
  moreover have "distinct (map pe_ID (pp_entries ?q))" using assms by (simp add: q(2) synced_def distinct_map_filter)
  moreover have "set (map pe_ID (pp_entries ?q)) \<subseteq> set (map pe_ID (pp_entries p))" by (auto simp: q(2))
  ultimately show ?thesis using assms by (auto simp: store_step_def q(3) synced_def)
qed

lemma step_Toggle:
  assumes "synced enc (p, db)"
  shows "synced enc (store_step eb enc (EToggle saves pid) (p, db))"
proof (cases "find_index (\<lambda>e. pe_ID e = pid) (pp_entries p)")
  case None
  then show ?thesis using assms by (simp add: store_step_def Toggle_def)
next
  case (Some k)
  have idx: "k < length (pp_entries p)" using find_index_Some [OF Some] by simp
  let ?e = "pp_entries p ! k"
  let ?y = "if \<not> pe_Enabled ?e then ?e\<lparr>pe_Enabled := \<not> pe_Enabled ?e, pe_FailCount := 0\<rparr> else ?e\<lparr>pe_Enabled := \<not> pe_Enabled ?e\<rparr>"
  let ?q = "fst (snd (Toggle saves pid p))"
  have q: "pp_entries ?q = (pp_entries p)[k := ?y]" "snd (snd (Toggle saves pid p)) = [WSaveProxy ?y]"
    using Some by (simp_all add: Toggle_def save_write_def saves_def Let_def)
  have "scoped_entry ?y" using synced_scoped [OF assms idx] by (simp add: scoped_entry_def)
  moreover have "pool_inv ?q" using assms by (intro pool_inv_Toggle) (simp add: synced_def)
  ultimately have "synced enc (?q, snd (SaveProxy (None, None) eb enc ?y db))" by (intro synced_save [OF assms idx _ _ q(1)]) simp_all
  then show ?thesis by (simp only: store_step_def prod.case pool_apply.simps pool_writes.simps q(2) fold_simps(2) fold_simps(1) apply_write.simps)
qed

lemma step_Next:
  assumes "synced enc (p, db)" and "incr \<noteq> None"
  shows "synced enc (store_step eb enc (ENext incr now up) (p, db))"
proof -
  let ?q = "fst (snd (Next incr now up p))"
  have same: "pp_entries ?q = pp_entries p" "pp_enabled ?q = pp_enabled p" by simp_all
  have inv: "pool_inv ?q" using assms(1) pool_inv_cong [OF same] by (simp add: synced_def)
  have "snd (snd (Next incr now up p)) = [] \<or> (\<exists>i \<in> pe_ID ` set (pp_entries p). snd (snd (Next incr now up p)) = [WLastUsed i now])"
  proof (cases "fst (Next incr now up p)")
    case (Inl e)
    then show ?thesis by (auto simp: Next_def Let_def split: if_splits prod.splits)
  next
    case (Inr e)
    have "e \<in> set (pp_enabled p)" using Next_Inr_scoped [OF Inr] by (auto simp: scoped_def)
    moreover have "map clear_fail (pp_enabled p) = filter pe_Enabled (map clear_fail (pp_entries p))"
      using assms(1) by (simp add: synced_def pool_inv_def enabled_core_def)
    ultimately have "clear_fail e \<in> set (filter pe_Enabled (map clear_fail (pp_entries p)))" by (metis image_eqI set_map)
    then have "clear_fail e \<in> clear_fail ` set (pp_entries p)" by auto
    then have "pe_ID e \<in> pe_ID ` set (pp_entries p)" by (metis (no_types, lifting) clear_fail_sel(1) image_iff)
    moreover have "snd (snd (Next incr now up p)) = [WLastUsed (pe_ID e) now]"
      using Inr assms(2) by (auto simp: Next_def Let_def split: if_splits prod.splits)
    ultimately show ?thesis by blast
  qed
  then have "agree enc (pp_entries p) (fold (apply_write eb enc) (snd (snd (Next incr now up p))) db)"
    using assms(1) agree_touch by (auto simp: synced_def)
  then show ?thesis using assms(1) inv by (simp add: store_step_def synced_def)
qed

lemma step_Failed:
  assumes "synced enc (p, db)"
  shows "synced enc (store_step eb enc (EFailed True pid) (p, db))"
proof (cases "pid = [] \<or> find_index (\<lambda>e. pe_ID e = pid) (pp_entries p) = None")
  case True
  then have "MarkFailed True pid p = (p, [])" by (auto simp: MarkFailed_def)
  then show ?thesis using assms by (simp add: store_step_def)
next
  case False
  then obtain k where k: "find_index (\<lambda>e. pe_ID e = pid) (pp_entries p) = Some k" and ne: "pid \<noteq> []" by auto
  have idx: "k < length (pp_entries p)" and i: "pe_ID (pp_entries p ! k) = pid" using find_index_Some [OF k] by simp_all
  let ?e = "pp_entries p ! k" and ?q = "fst (MarkFailed True pid p)"
  let ?fc = "pe_FailCount ?e + 1"
  have inv: "pool_inv ?q" using assms by (intro pool_inv_MarkFailed) (simp add: synced_def)
  show ?thesis
  proof (cases "PROXY_FAIL_THRESHOLD \<le> ?fc \<and> pe_Enabled ?e")
    case True
    let ?y = "?e\<lparr>pe_FailCount := ?fc, pe_Enabled := False\<rparr>"
    have q: "pp_entries ?q = (pp_entries p)[k := ?y]" "snd (MarkFailed True pid p) = [WSaveProxy ?y]"
      using True k ne by (simp_all add: MarkFailed_def Let_def)
    have "scoped_entry ?y" using synced_scoped [OF assms idx] by (simp add: scoped_entry_def)
    then have "synced enc (?q, snd (SaveProxy (None, None) eb enc ?y db))" by (intro synced_save [OF assms idx _ _ q(1) inv]) simp_all
    then show ?thesis by (simp add: store_step_def q(2))
  next
    case nothr: False
    have q: "pp_entries ?q = (pp_entries p)[k := ?e\<lparr>pe_FailCount := ?fc\<rparr>]" "snd (MarkFailed True pid p) = [WFailCount pid ?fc]"
      using nothr k ne by (auto simp: MarkFailed_def Let_def)
    show ?thesis using synced_fail [OF assms idx q(1) inv] by (simp add: store_step_def q(2) i)
  qed
qed

lemma step_Success:
  assumes "synced enc (p, db)"
  shows "synced enc (store_step eb enc (ESuccess True pid) (p, db))"
proof (cases "snd (MarkSuccess True pid p) = []")
  case True
  then have "MarkSuccess True pid p = (p, [])" by (auto simp: MarkSuccess_def Let_def split: if_splits option.splits)
  then show ?thesis using assms by (simp add: store_step_def)
next
  case False
  then obtain k where k: "find_index (\<lambda>e. pe_ID e = pid) (pp_entries p) = Some k"
    by (auto simp: MarkSuccess_def split: if_splits option.splits)
  have idx: "k < length (pp_entries p)" and i: "pe_ID (pp_entries p ! k) = pid" using find_index_Some [OF k] by simp_all
  let ?q = "fst (MarkSuccess True pid p)"
  have inv: "pool_inv ?q" using assms by (intro pool_inv_MarkSuccess) (simp add: synced_def)
  have q: "pp_entries ?q = (pp_entries p)[k := (pp_entries p ! k)\<lparr>pe_FailCount := 0\<rparr>]" "snd (MarkSuccess True pid p) = [WFailCount pid 0]"
    using False k by (auto simp: MarkSuccess_def Let_def split: if_splits)
  show ?thesis using synced_fail [OF assms idx q(1) inv] by (simp add: store_step_def q(2) i)
qed

lemma step_synced: "synced enc (p, db) \<Longrightarrow> persisted ev p \<Longrightarrow> synced enc (store_step eb enc ev (p, db))"
proof (cases ev)
  case (ETransport env e)
  moreover have "pool_inv (snd (Transport env e p)) = pool_inv p" by (rule pool_inv_cong) simp_all
  ultimately show "synced enc (p, db) \<Longrightarrow> persisted ev p \<Longrightarrow> synced enc (store_step eb enc ev (p, db))"
    by (simp add: store_step_def synced_def)
qed (simp_all add: step_Add step_Update step_Delete step_Toggle step_Next step_Failed step_Success)

lemma run_synced:
  "synced enc (p, db) \<Longrightarrow> all_persisted evs p \<Longrightarrow> synced enc (fold (store_step eb enc) evs (p, db)) \<and> fst (fold (store_step eb enc) evs (p, db)) = pool_run evs p"
proof (induction evs arbitrary: p db)
  case (Cons ev evs)
  have "store_step eb enc ev (p, db) = (pool_apply ev p, snd (store_step eb enc ev (p, db)))" by (simp add: store_step_def)
  then show ?case using Cons.IH [of "pool_apply ev p" "snd (store_step eb enc ev (p, db))"] step_synced [OF Cons.prems(1), of ev eb] Cons.prems(2)
    by (simp add: pool_run_def)
qed (simp add: pool_run_def)

lemma load_agreeing:
  assumes "scope_codec enc dec" and "row_agrees enc e h" and "scoped_entry e" and "(pe_ID e \<in> set en) = pe_Enabled e"
    and "int64_range (pe_Port e)" and "int64_range (pe_FailCount e)"
  shows "core (dtoToEntry (load_proxy dec en (pe_ID e) h)) = core e"
proof -
  obtain us where us: "us \<noteq> []" "pe_Upstreams e = Some us" using assms(3) by (auto simp: scoped_entry_def)
  have "pe_Upstreams (load_proxy dec en (pe_ID e) h) = Some us"
    using assms(1,2) us by (simp add: load_proxy_def row_agrees_def ups_list_def scope_codec_def)
  then have "dtoToEntry (load_proxy dec en (pe_ID e) h) = load_proxy dec en (pe_ID e) h" using us by (simp add: dtoToEntry_def ups_list_def)
  then show ?thesis using assms us
    by (simp add: core_def load_proxy_def row_agrees_def field_def Atoi_Itoa ups_list_def scope_codec_def)
qed

definition px_empty :: px_db where
  "px_empty = \<lparr>px_rows = Map.empty, px_enabled = [], px_rr = 0\<rparr>"

lemma px_empty_synced: "synced enc (NewProxyPool, px_empty)"
  by (simp add: synced_def pool_inv_new agree_def) (simp add: NewProxyPool_def px_empty_def)

lemma synced_load:
  assumes "scope_codec enc dec" and sync: "synced enc (p, db)" and "set ks - {''enabled'', ''rr''} = dom (px_rows db)"
    and "list_all (\<lambda>e. int64_range (pe_Port e) \<and> int64_range (pe_FailCount e)) (pp_entries p)"
  shows "\<exists>q. Load (Some (LoadProxies dec None (\<lambda>_. False) (ks, None) db)) NewProxyPool = (None, q) \<and> core ` set (pp_entries q) = core ` set (pp_entries p)"
proof -
  define load where "load k = (case px_rows db k of None \<Rightarrow> None | Some h \<Rightarrow> Some (load_proxy dec (px_enabled db) k h))" for k
  define ds where "ds = List.map_filter (\<lambda>k. if k = ''enabled'' \<or> k = ''rr'' \<or> False then None else load k) ks"
  have l: "LoadProxies dec None (\<lambda>_. False) (ks, None) db = Inr ds" unfolding LoadProxies_def ds_def load_def by (simp add: Let_def)
  have ag: "agree enc (pp_entries p) db" using sync by (simp add: synced_def)
  have one: "core (dtoToEntry d) = core e" if mem: "e \<in> set (pp_entries p)" and ld: "load (pe_ID e) = Some d" for e d
  proof -
    obtain h where h: "px_rows db (pe_ID e) = Some h" "row_agrees enc e h" and e: "scoped_entry e" "(pe_ID e \<in> set (px_enabled db)) = pe_Enabled e"
      using bspec [OF conjunct1 [OF ag [unfolded agree_def]] mem] by blast
    have "int64_range (pe_Port e)" "int64_range (pe_FailCount e)" using assms(4) mem by (simp_all add: list_all_iff)
    then show ?thesis using load_agreeing [OF assms(1) h(2) e] ld h(1) by (simp add: load_def)
  qed
  have dom: "set ks - {''enabled'', ''rr''} = pe_ID ` set (pp_entries p)" using assms(3) ag by (simp add: agree_def)
  have set: "set ds = {d. \<exists>e \<in> set (pp_entries p). load (pe_ID e) = Some d}"
  proof -
    have "set ds = {d. \<exists>k \<in> set ks - {''enabled'', ''rr''}. load k = Some d}"
      by (auto simp: ds_def List.map_filter_def split: if_splits) (force simp: image_iff)
    then show ?thesis unfolding dom by auto
  qed
  have ex: "\<exists>d. load (pe_ID e) = Some d" if "e \<in> set (pp_entries p)" for e
    using ag that by (auto simp: agree_def load_def)
  have "core ` set (map dtoToEntry ds) = core ` set (pp_entries p)"
  proof
    show "core ` set (map dtoToEntry ds) \<subseteq> core ` set (pp_entries p)" using one by (auto simp: set)
    show "core ` set (pp_entries p) \<subseteq> core ` set (map dtoToEntry ds)"
    proof
      fix c assume "c \<in> core ` set (pp_entries p)"
      then obtain e where e: "e \<in> set (pp_entries p)" "c = core e" by blast
      then obtain d where d: "load (pe_ID e) = Some d" using ex by blast
      then have "d \<in> set ds" using e(1) by (auto simp: set)
      moreover have "c = core (dtoToEntry d)" using one [OF e(1) d] e(2) by simp
      ultimately show "c \<in> core ` set (map dtoToEntry ds)" by simp
    qed
  qed
  then show "\<exists>q. Load (Some (LoadProxies dec None (\<lambda>_. False) (ks, None) db)) NewProxyPool = (None, q) \<and> core ` set (pp_entries q) = core ` set (pp_entries p)"
    by (simp add: Load_def l)
qed

text \<open>
  Through any history of the proxy pool whose writes reach Redis, in their order, a restart loads the
  same proxies with the same scopes, failure counts and enabled flags; only the order and the two
  times may differ.
\<close>

theorem proxies_survive_restart:
  assumes "scope_codec enc dec" and "all_persisted evs NewProxyPool"
    and run: "fold (store_step eb enc) evs (NewProxyPool, px_empty) = (p, db)"
    and "set ks - {''enabled'', ''rr''} = dom (px_rows db)"
    and "list_all (\<lambda>e. int64_range (pe_Port e) \<and> int64_range (pe_FailCount e)) (pp_entries p)"
  shows "p = pool_run evs NewProxyPool \<and>
    (\<exists>q. Load (Some (LoadProxies dec None (\<lambda>_. False) (ks, None) db)) NewProxyPool = (None, q) \<and> core ` set (pp_entries q) = core ` set (pp_entries p))"
proof -
  have r: "synced enc (p, db) \<and> p = pool_run evs NewProxyPool"
    using run_synced [OF px_empty_synced assms(2), of enc eb] unfolding run fst_conv .
  then show ?thesis using synced_load [OF assms(1) _ assms(4,5)] by blast
qed

text \<open>
  \<^verbatim>\<open>Next\<close> touches the last use of a proxy in a goroutine. When that write arrives after the proxy was
  deleted it makes a new row, and the next start loads a proxy without host, port and protocol.
\<close>

theorem late_touch_revives_proxy:
  assumes "i \<noteq> []" and "i \<noteq> ''enabled''" and "i \<noteq> ''rr''"
  shows "\<exists>e. LoadProxies dec None (\<lambda>_. False) ([i], None) (UpdateProxyLastUsed None i ts (snd (DeleteProxy (None, None) i db))) = Inr [e]
    \<and> pe_ID e = i \<and> pe_Host e = [] \<and> pe_Port e = 0 \<and> pe_Protocol e = [] \<and> \<not> pe_Enabled e"
  using assms
  by (simp add: LoadProxies_def UpdateProxyLastUsed_def DeleteProxy_def set_field_def row_def List.map_filter_def load_proxy_def field_def Atoi_def)

text \<open>The failure of SMEMBERS is dropped: every proxy is then loaded, and every one of them is disabled.\<close>

theorem smembers_failure_disables:
  "LoadProxies dec (Some e) bad scan db = Inr ds \<Longrightarrow> Load (Some (Inr ds)) p = (None, q) \<Longrightarrow> pp_enabled q = []"
proof -
  assume l: "LoadProxies dec (Some e) bad scan db = Inr ds" and q: "Load (Some (Inr ds)) p = (None, q)"
  have "list_all (\<lambda>d. \<not> pe_Enabled d) ds"
    using l by (auto simp: LoadProxies_def list_all_iff List.map_filter_def load_proxy_def split: prod.splits option.splits if_splits)
  then have "\<not> pe_Enabled (dtoToEntry d)" if "d \<in> set ds" for d using that by (simp add: list_all_iff dtoToEntry_def)
  then have "filter pe_Enabled (map dtoToEntry ds) = []" by (simp add: filter_empty_conv)
  moreover have "q = rebuildEnabledLocked (p\<lparr>pp_entries := map dtoToEntry ds\<rparr>)" using q by (simp add: Load_def)
  ultimately show "pp_enabled q = []" by (simp add: rebuildEnabledLocked_def)
qed

text \<open>
  SCAN may yield a key twice. The proxy is then in the pool twice, and disabling it disables one of the
  two: the other stays in the rotation.
\<close>

theorem repeated_key_stays_enabled:
  assumes "px_rows db i = Some h" and "i \<in> set (px_enabled db)" and "i \<noteq> ''enabled''" and "i \<noteq> ''rr''"
  shows "\<exists>q. Load (Some (LoadProxies dec None (\<lambda>_. False) ([i, i], None) db)) NewProxyPool = (None, q)
    \<and> fst (Toggle saves i q) = (None, False) \<and> map pe_ID (pp_enabled (fst (snd (Toggle saves i q)))) = [i]"
proof -
  define e where "e = dtoToEntry (load_proxy dec (px_enabled db) i h)"
  have e: "pe_ID e = i" "pe_Enabled e" using assms(2) by (simp_all add: e_def dtoToEntry_def load_proxy_def)
  have "Load (Some (LoadProxies dec None (\<lambda>_. False) ([i, i], None) db)) NewProxyPool = (None, rebuildEnabledLocked (NewProxyPool\<lparr>pp_entries := [e, e]\<rparr>))"
    using assms by (simp add: LoadProxies_def List.map_filter_def Load_def Let_def e_def)
  then show ?thesis
    using e by (simp add: Toggle_def saves_def save_error_def rebuildEnabledLocked_def Let_def)
qed

subsection \<open>Registries after a restart\<close>

lemma dec_enc_model: "bind_json dec_model (Some (enc_model cm)) = Some cm"
  by (simp add: bind_json_def enc_model_def json_fields_def dec_model_def dec_string_def)

lemma dec_enc_combo: "bind_json dec_combo_row (Some (enc_combo c)) = Some c"
proof -
  have "json_list json_string (JArr (map JStr xs)) = Some xs" for xs
    by (induction xs) (simp_all add: json_list_def json_string_def)
  then show ?thesis by (simp add: bind_json_def enc_combo_def json_fields_def dec_combo_row_def dec_string_def dec_list_def)
qed

datatype registry_event =
    RAddModel string CustomModel | RDeleteModel string | RAddAlias string string | RDeleteAlias string
  | RAddCombo Combo | RDeleteCombo "go_error option" string

record registry_world =
  w_custom :: CustomRegistry
  w_combos :: ComboRegistry
  w_models :: json_rows
  w_aliases :: alias_rows
  w_combo_db :: combo_db

text \<open>The operations of the registries with a store that works, and the rows they write.\<close>

fun registry_step :: "registry_event \<Rightarrow> registry_world \<Rightarrow> registry_world" where
  "registry_step (RAddModel i cm) w =
     (case AddModel (Some None) i cm (w_custom w) of
        (None, r) \<Rightarrow> w\<lparr>w_custom := r, w_models := snd (SaveCustomModel None (TrimSpace i) (normalise_model i cm) (w_models w))\<rparr>
      | (Some _, _) \<Rightarrow> w)"
| "registry_step (RDeleteModel i) w =
     w\<lparr>w_custom := snd (DeleteModel (Some None) i (w_custom w)), w_models := snd (DeleteCustomModel None i (w_models w))\<rparr>"
| "registry_step (RAddAlias a t) w =
     (case AddAlias (Some None) a t (w_custom w) of
        (None, r) \<Rightarrow> w\<lparr>w_custom := r, w_aliases := snd (SaveCustomAlias None (TrimSpace a) (TrimSpace t) (w_aliases w))\<rparr>
      | (Some _, _) \<Rightarrow> w)"
| "registry_step (RDeleteAlias a) w =
     w\<lparr>w_custom := snd (DeleteAlias (Some None) a (w_custom w)), w_aliases := snd (DeleteCustomAlias None a (w_aliases w))\<rparr>"
| "registry_step (RAddCombo c) w =
     (case AddCombo (Some None) c (w_combos w) of
        (None, r) \<Rightarrow> w\<lparr>w_combos := r, w_combo_db := snd (SaveCombo None (normalise_combo c) (w_combo_db w))\<rparr>
      | (Some _, _) \<Rightarrow> w)"
| "registry_step (RDeleteCombo cerr n) w =
     (case DeleteCombo (Some None) n (w_combos w) of
        (None, r) \<Rightarrow> w\<lparr>w_combos := r, w_combo_db := snd (DeleteComboRow None cerr (TrimSpace n) (w_combo_db w))\<rparr>
      | (Some _, _) \<Rightarrow> w)"

definition registry_start :: registry_world where
  "registry_start = \<lparr>w_custom = NewCustomRegistry, w_combos = NewComboRegistry, w_models = Map.empty, w_aliases = Map.empty,
     w_combo_db = \<lparr>cb_rows = Map.empty, cb_counters = (\<lambda>_. 0)\<rparr>\<rparr>"

definition registry_synced :: "registry_world \<Rightarrow> bool" where
  "registry_synced w \<longleftrightarrow> model_rows (w_models w) = cr_models (w_custom w) \<and> w_aliases w = cr_aliases (w_custom w)
     \<and> combo_row (w_combo_db w) = combos (w_combos w)"

lemma load_saved_model: "model_rows (snd (SaveCustomModel None i cm st)) = (model_rows st)(i \<mapsto> cm)"
  by (auto simp: model_rows_def SaveCustomModel_def dec_enc_model)

lemma load_saved_combo: "co_Name c \<noteq> [] \<Longrightarrow> combo_row (snd (SaveCombo None c db)) = (combo_row db)(co_Name c \<mapsto> c)"
  by (auto simp: combo_row_def SaveCombo_def dec_enc_combo)

lemma load_deleted: "model_rows (snd (DeleteCustomModel None i st)) = (model_rows st)(i := None)"
  "combo_row (snd (DeleteComboRow None cerr n db)) = (combo_row db)(n := None)"
  by (auto simp: model_rows_def DeleteCustomModel_def combo_row_def DeleteComboRow_def)

lemma AddModel_None: "AddModel (Some None) i cm r = (None, r') \<Longrightarrow> r' = r\<lparr>cr_models := (cr_models r)(TrimSpace i \<mapsto> normalise_model i cm)\<rparr>"
  by (auto simp: AddModel_def Let_def write_error_def split: option.splits if_splits)

lemma AddAlias_None: "AddAlias (Some None) a t r = (None, r') \<Longrightarrow>
    r' = r\<lparr>cr_aliases := (cr_aliases r)(TrimSpace a \<mapsto> TrimSpace t)\<rparr> \<and> TrimSpace a \<noteq> [] \<and> TrimSpace t \<noteq> []"
  by (auto simp: AddAlias_def Let_def write_error_def validateName_def split: option.splits if_splits)

lemma AddCombo_None: "AddCombo (Some None) c r = (None, r') \<Longrightarrow>
    r' = r\<lparr>combos := (combos r)(co_Name (normalise_combo c) \<mapsto> normalise_combo c)\<rparr> \<and> co_Name (normalise_combo c) \<noteq> []"
  by (auto simp: AddCombo_def Let_def write_error_def validateName_def split: option.splits if_splits)

lemma registry_step_synced: "registry_synced w \<Longrightarrow> registry_synced (registry_step ev w)"
proof (cases ev)
  case (RAddModel i cm)
  then show "registry_synced w \<Longrightarrow> registry_synced (registry_step ev w)"
    by (auto simp: registry_synced_def load_saved_model dest!: AddModel_None split: prod.split option.split)
next
  case (RDeleteModel i)
  then show "registry_synced w \<Longrightarrow> registry_synced (registry_step ev w)"
    by (simp add: registry_synced_def load_deleted DeleteModel_def write_error_def)
next
  case (RAddAlias a t)
  then show "registry_synced w \<Longrightarrow> registry_synced (registry_step ev w)"
    by (auto simp: registry_synced_def SaveCustomAlias_def dest!: AddAlias_None split: prod.split option.split)
next
  case (RDeleteAlias a)
  then show "registry_synced w \<Longrightarrow> registry_synced (registry_step ev w)"
    by (simp add: registry_synced_def DeleteCustomAlias_def DeleteAlias_def write_error_def)
next
  case (RAddCombo c)
  then show "registry_synced w \<Longrightarrow> registry_synced (registry_step ev w)"
    by (auto simp: registry_synced_def load_saved_combo dest!: AddCombo_None split: prod.split option.split)
next
  case (RDeleteCombo cerr n)
  then show "registry_synced w \<Longrightarrow> registry_synced (registry_step ev w)"
    by (auto simp: registry_synced_def load_deleted DeleteCombo_def write_error_def Let_def split: prod.split option.split)
qed

lemma registry_run_synced: "registry_synced (fold registry_step evs registry_start)"
proof -
  have "registry_synced w \<Longrightarrow> registry_synced (fold registry_step evs w)" for w
    by (induction evs arbitrary: w) (simp_all add: registry_step_synced)
  moreover have "registry_synced registry_start"
    by (auto simp: registry_synced_def registry_start_def NewCustomRegistry_def NewComboRegistry_def model_rows_def combo_row_def)
  ultimately show ?thesis by blast
qed

text \<open>
  After any history of registry operations a restart loads exactly the models, aliases and combos
  that were in memory.
\<close>

theorem registries_survive_restart:
  "w = fold registry_step evs registry_start \<Longrightarrow>
     LoadCustom (Some (LoadCustomModels None (w_models w), LoadCustomAliases None (w_aliases w))) NewCustomRegistry = (None, w_custom w)
     \<and> combos (snd (LoadCombos (Some (LoadComboRows None (w_combo_db w))) NewComboRegistry)) = combos (w_combos w)"
  using registry_run_synced [of evs] by (simp add: registry_synced_def LoadCustom_def LoadCombos_def LoadCustomModels_def LoadCustomAliases_def LoadComboRows_def NewCustomRegistry_def)

subsection \<open>Examples\<close>

definition ex_scope_enc :: "string list \<Rightarrow> string" where
  "ex_scope_enc us = concat (map (\<lambda>u. concat (map (\<lambda>c. [CHR ''x'', c]) u) @ ''.'') us)"

fun ex_scopes :: "string \<Rightarrow> string \<Rightarrow> string list" where
  "ex_scopes cur [] = []"
| "ex_scopes cur [a] = [cur]"
| "ex_scopes cur (a # c # r) = (if a = CHR ''.'' then cur # ex_scopes [] (c # r) else ex_scopes (cur @ [c]) r)"

lemma ex_scopes_step: "ex_scopes cur (concat (map (\<lambda>c. [CHR ''x'', c]) u) @ ''.'' @ r) = (cur @ u) # ex_scopes [] r"
proof (induction u arbitrary: cur)
  case Nil
  then show ?case by (cases r) simp_all
qed simp

lemma ex_scope_codec: "scope_codec ex_scope_enc (\<lambda>s. Some (ex_scopes [] s))"
proof -
  have "ex_scopes [] (ex_scope_enc us) = us" for us
    using ex_scopes_step [of "[]"] by (induction us) (simp_all add: ex_scope_enc_def)
  moreover have "ex_scope_enc us \<noteq> [] \<and> ex_scope_enc us \<noteq> ''null''" if "us \<noteq> []" for us
  proof (cases us)
    case (Cons u r)
    then show ?thesis by (cases u) (simp_all add: ex_scope_enc_def)
  qed (use that in simp)
  ultimately show ?thesis by (simp add: scope_codec_def)
qed

definition ex_events :: "pool_event list" where
  "ex_events = [EAdd saves (Inr ''p1'') 0 ex_raw, EFailed True ''p1'', EToggle saves ''p1'']"

definition ex_world :: "ProxyPool \<times> px_db" where
  "ex_world = fold (store_step ex_codec ex_scope_enc) ex_events (NewProxyPool, px_empty)"

definition ex_disabled :: ProxyEntry where
  "ex_disabled = (ex_entry ''a'' [''grok''])\<lparr>pe_ID := ''p1'', pe_FailCount := 1, pe_Enabled := False\<rparr>"

lemma ex_world_pool: "pp_entries (fst ex_world) = [ex_disabled]"
  by (simp add: ex_world_def ex_events_def store_step_def Add_def ex_raw_valid saves_def save_error_def save_write_def MarkFailed_def
      Toggle_def rebuildEnabledLocked_def NewProxyPool_def PROXY_FAIL_THRESHOLD_def ex_entry_def ex_disabled_def Let_def)

lemma ex_events_persisted: "all_persisted ex_events NewProxyPool"
  by (simp add: ex_events_def fresh_id_def NewProxyPool_def)

lemma ex_world_rows: "dom (px_rows (snd ex_world)) = {''p1''}"
proof -
  have "synced ex_scope_enc (NewProxyPool, px_empty)" by (rule px_empty_synced)
  then have "synced ex_scope_enc ex_world" unfolding ex_world_def using run_synced ex_events_persisted by blast
  then show ?thesis using ex_world_pool by (simp add: synced_def agree_def ex_disabled_def split_beta)
qed

theorem proxies_survive_restart_witness:
  "fst ex_world = pool_run ex_events NewProxyPool \<and>
    (\<exists>q. Load (Some (LoadProxies (\<lambda>s. Some (ex_scopes [] s)) None (\<lambda>_. False) ([''enabled'', ''p1''], None) (snd ex_world))) NewProxyPool = (None, q)
      \<and> core ` set (pp_entries q) = core ` set (pp_entries (fst ex_world)))"
proof (rule proxies_survive_restart [OF ex_scope_codec ex_events_persisted])
  show "fold (store_step ex_codec ex_scope_enc) ex_events (NewProxyPool, px_empty) = (fst ex_world, snd ex_world)" by (simp add: ex_world_def)
  show "set [''enabled'', ''p1''] - {''enabled'', ''rr''} = dom (px_rows (snd ex_world))" by (auto simp: ex_world_rows)
  show "list_all (\<lambda>e. int64_range (pe_Port e) \<and> int64_range (pe_FailCount e)) (pp_entries (fst ex_world))"
    by (simp add: ex_world_pool ex_disabled_def ex_entry_def int64_range_def)
qed

definition ex_row :: px_db where
  "ex_row = \<lparr>px_rows = [''p1'' \<mapsto> [''host'' \<mapsto> ''h'']], px_enabled = [''p1''], px_rr = 0\<rparr>"

theorem repeated_key_stays_enabled_witness:
  "\<exists>q. Load (Some (LoadProxies (\<lambda>_. None) None (\<lambda>_. False) ([''p1'', ''p1''], None) ex_row)) NewProxyPool = (None, q)
    \<and> fst (Toggle saves ''p1'' q) = (None, False) \<and> map pe_ID (pp_enabled (fst (snd (Toggle saves ''p1'' q)))) = [''p1'']"
  by (rule repeated_key_stays_enabled [where h = "[''host'' \<mapsto> ''h'']"]) (simp_all add: ex_row_def)

definition ex_registries :: registry_world where
  "ex_registries = fold registry_step [RAddAlias ''fast'' ''grok-3'', RAddCombo \<lparr>co_Name = ''c'', co_Strategy = ''fallback'', co_Models = [''m''], co_Description = []\<rparr>, RDeleteAlias ''fast''] registry_start"

theorem registries_survive_restart_witness:
  "LoadCustom (Some (LoadCustomModels None (w_models ex_registries), LoadCustomAliases None (w_aliases ex_registries))) NewCustomRegistry
     = (None, w_custom ex_registries)
   \<and> combos (snd (LoadCombos (Some (LoadComboRows None (w_combo_db ex_registries))) NewComboRegistry)) = combos (w_combos ex_registries)"
  by (rule registries_survive_restart [OF ex_registries_def])

definition ex_banned :: GrokAccount where
  "ex_banned = (ex_account ''a'' 3)\<lparr>ga_Expired := ''e'', ga_disabled := True\<rparr>"

theorem grok_account_survives_restart_witness:
  "load_account (\<lambda>_. Some 3) 0 ''a'' (the (SaveGrokAccount None ex_codec (toDTO ex_banned) Map.empty ''a''))
     = Some (ex_banned\<lparr>ga_disabledAt := kept_time True zero_time\<rparr>)
   \<and> TokenStatus 7 (ex_banned\<lparr>ga_disabledAt := kept_time True zero_time\<rparr>) = TokenStatus 7 ex_banned"
  using grok_account_survives_restart [of ex_codec ex_banned "\<lambda>_. Some 3" Map.empty _ 0 7]
  by (simp add: ex_banned_def ex_account_def bool_codec_def ex_codec_def SaveGrokAccount_def toDTO_def int64_range_def unix_def zero_time_def is_zero_def second_def)

end
