(* ===== verification/Workers.thy ===== *)
theory Workers
  imports Rows Upstream
begin

text \<open>
  What runs beside the requests: the worker that renews tokens before they expire and the endpoint that
  renews all of them (\<^verbatim>\<open>internal/upstream/grok.go\<close>, \<^verbatim>\<open>internal/handlers/handlers.go\<close>), the live test of a
  proxy, the telemetry of \<^verbatim>\<open>health.go\<close> and \<^verbatim>\<open>metrics_pool.go\<close>, and the listings of the registries.

  The goroutines of one tick of the worker each renew one account; they are run one after the other,
  in an arbitrary order. The clock is read once when the worker chooses the accounts.
\<close>

subsection \<open>Token renewal\<close>

definition needsRefresh :: "gotime \<Rightarrow> GrokAccount \<Rightarrow> bool" where
  "needsRefresh now a \<longleftrightarrow> \<not> (ga_disabled a \<and> is_zero (ga_disabledAt a)) \<and> now > ga_expiresAt a - PRE_WARM_WINDOW"

definition prewarm_account :: "net_env \<Rightarrow> nat \<Rightarrow> upstream_state \<Rightarrow> upstream_state" where
  "prewarm_account env i s =
     (case Refresh env i s of
        (Some e, s1) \<Rightarrow> if contains ''invalid_grant'' e then upd_grok i disable_for_good s1 else s1
      | (None, s1) \<Rightarrow> s1)"

definition AutoRefreshWorker :: "net_env \<Rightarrow> nat list \<Rightarrow> upstream_state \<Rightarrow> upstream_state" where
  "AutoRefreshWorker env order s =
     fold (prewarm_account env) (filter (\<lambda>i. needsRefresh (us_now env s) (gm_accounts (us_grok s) ! i)) order) s"

definition EnsureValid :: "net_env \<Rightarrow> nat \<Rightarrow> upstream_state \<Rightarrow> go_error option \<times> upstream_state" where
  "EnsureValid env i s =
     (if \<not> IsExpired (us_now env s) (gm_accounts (us_grok s) ! i) then (None, s) else Refresh env i s)"

fun refresh_all :: "net_env \<Rightarrow> nat list \<Rightarrow> upstream_state \<Rightarrow> (string \<times> string) list \<times> upstream_state" where
  "refresh_all env [] s = ([], s)"
| "refresh_all env (i # is) s =
     (let (err, s1) = Refresh env i s;
          (rest, s2) = refresh_all env is s1
      in ((ga_Email (gm_accounts (us_grok s1) ! i), if err = None then ''ok'' else ''refresh_failed'') # rest, s2))"

definition HandleRefresh :: "net_env \<Rightarrow> upstream_state \<Rightarrow> (string \<times> string) list \<times> upstream_state" where
  "HandleRefresh env s = refresh_all env [0..<length (gm_accounts (us_grok s))] s"

subsection \<open>The test of a proxy\<close>

text \<open>
  \<open>probe\<close>: the answer to the request through the proxy. The latency is left out. Nothing is recorded on
  the pool.
\<close>

definition Test :: "transport_env \<Rightarrow> (ProxyEntry \<Rightarrow> go_error + int \<times> string) \<Rightarrow> string \<Rightarrow> ProxyPool \<Rightarrow> go_error + string" where
  "Test env probe i p =
     (case find (\<lambda>e. pe_ID e = i) (pp_entries p) of
        None \<Rightarrow> Inl (''proxy not found: '' @ i)
      | Some target \<Rightarrow>
          (case buildTransport env target of
             Inl e \<Rightarrow> Inl e
           | Inr t \<Rightarrow>
               (case probe t of
                  Inl e \<Rightarrow> Inl e
                | Inr (st, body0) \<Rightarrow>
                    (let body = TrimSpace (take 1024 body0)
                     in if st < 200 \<or> st \<ge> 400 then Inl (''HTTP '' @ Itoa st @ '': '' @ body) else Inr body))))"

definition HandleTestProxy ::
  "transport_env \<Rightarrow> (ProxyEntry \<Rightarrow> go_error + int \<times> string) \<Rightarrow> string \<Rightarrow> ProxyPool \<Rightarrow> (bool \<times> string option \<times> string option) answer" where
  "HandleTestProxy env probe param p =
     (let i = TrimSpace param
      in if i = [] then Refused 400 ''id required''
         else case Test env probe i p of
                Inl e \<Rightarrow> Answer (False, None, Some e)
              | Inr ip \<Rightarrow> Answer (True, if ip \<noteq> [] then Some ip else None, None))"

subsection \<open>Listings\<close>

definition HandleListCustomModels :: "CustomRegistry \<Rightarrow> (string \<rightharpoonup> CustomModel)" where
  "HandleListCustomModels r = cr_models r"

definition HandleListAliases :: "CustomRegistry \<Rightarrow> (string \<rightharpoonup> string)" where
  "HandleListAliases r = cr_aliases r"

text \<open>\<open>order\<close>: the order in which the map is enumerated.\<close>

definition HandleListCombos :: "string list \<Rightarrow> ComboRegistry \<Rightarrow> Combo list" where
  "HandleListCombos order r = List.map_filter (combos r) order"

definition cb_stats_row :: "CBKey \<Rightarrow> string \<times> rat \<times> rat \<times> rat \<times> int \<times> bool" where
  "cb_stats_row k =
     (let key = ck_Key k
      in (if length key > 12 then take 8 key @ ''...'' @ drop (length key - 4) key else key,
          ck_creditsUsed k, CB_CREDIT_LIMIT, CB_CREDIT_LIMIT - ck_creditsUsed k, ck_totalReqs k, ck_disabled k))"

definition cb_stats :: "CBKeyManager \<Rightarrow> (string \<times> rat \<times> rat \<times> rat \<times> int \<times> bool) list" where
  "cb_stats km = map cb_stats_row (km_keys km)"

subsection \<open>Telemetry\<close>

text \<open>\<^verbatim>\<open>round2\<close>: the conversion to an integer cuts towards zero; the argument is not negative here.\<close>

definition round2 :: "rat \<Rightarrow> rat" where
  "round2 f = of_int \<lfloor>f * 100 + 1 / 2\<rfloor> / 100"

definition formatTime :: "(gotime \<Rightarrow> string) \<Rightarrow> gotime \<Rightarrow> string" where
  "formatTime fmt t = (if is_zero t then [] else fmt t)"

record health_stats =
  hs_name :: string
  hs_circuit_state :: string
  hs_consecutive_errs :: int
  hs_total_requests :: int
  hs_total_errors :: int
  hs_error_rate_pct :: rat
  hs_avg_latency_ms :: rat
  hs_last_request_at :: string
  hs_last_error_at :: string
  hs_last_error_msg :: string
  hs_last_check_at :: string
  hs_last_check_ok :: bool
  hs_last_check_ms :: int
  hs_opened_at :: string

definition Stats :: "(gotime \<Rightarrow> string) \<Rightarrow> UpstreamHealth \<Rightarrow> health_stats" where
  "Stats fmt h =
     (let n = totalRequests h;
          avg = (if n > 0 then of_int (totalLatencyMs h) / of_int n else 0);
          rate = (if n > 0 then of_int (totalErrors h) / of_int n * 100 else 0)
      in \<lparr>hs_name = uh_Name h, hs_circuit_state = circuit_string (uh_state h), hs_consecutive_errs = consecutiveErrs h,
          hs_total_requests = n, hs_total_errors = totalErrors h, hs_error_rate_pct = round2 rate, hs_avg_latency_ms = round2 avg,
          hs_last_request_at = formatTime fmt (lastRequestAt h), hs_last_error_at = formatTime fmt (lastErrorAt h),
          hs_last_error_msg = lastErrorMsg h, hs_last_check_at = formatTime fmt (lastCheckAt h), hs_last_check_ok = lastCheckOK h,
          hs_last_check_ms = lastCheckLatMs h, hs_opened_at = formatTime fmt (openedAt h)\<rparr>)"

definition pool_gauge :: "('a \<Rightarrow> bool) \<Rightarrow> 'a list \<Rightarrow> nat \<times> nat" where
  "pool_gauge disabled xs = (length (filter (\<lambda>x. \<not> disabled x) xs), length (filter disabled xs))"

definition updatePoolGauges :: "GrokAccountManager \<Rightarrow> CBKeyManager \<Rightarrow> Manager \<Rightarrow> (string \<times> nat \<times> nat) list" where
  "updatePoolGauges am km keys =
     [(''grok'', pool_gauge ga_disabled (gm_accounts am)), (''codebuddy'', pool_gauge ck_disabled (km_keys km)),
      (''auth'', pool_gauge (gk_Disabled \<circ> snd) keys)]"

subsection \<open>What a renewal changes\<close>

abbreviation acct :: "nat \<Rightarrow> upstream_state \<Rightarrow> GrokAccount" where
  "acct i s \<equiv> gm_accounts (us_grok s) ! i"

abbreviation pool_size :: "upstream_state \<Rightarrow> nat" where
  "pool_size s \<equiv> length (gm_accounts (us_grok s))"

text \<open>The answer the account gets when its renewal is call number \<open>n\<close>.\<close>

definition token_answer :: "net_env \<Rightarrow> nat \<Rightarrow> GrokAccount \<Rightarrow> go_error + token_reply" where
  "token_answer env n a = refresh_result (ne_decode_tokens env) (ne_token env n (ga_RefreshToken a))"

definition renewed :: "net_env \<Rightarrow> nat \<Rightarrow> GrokAccount \<Rightarrow> GrokAccount" where
  "renewed env n a = (case token_answer env n a of Inl _ \<Rightarrow> a | Inr t \<Rightarrow> apply_tokens (ne_fmt env) (ne_clock env n) t a)"

definition prewarmed :: "net_env \<Rightarrow> nat \<Rightarrow> GrokAccount \<Rightarrow> GrokAccount" where
  "prewarmed env n a =
     (case token_answer env n a of
        Inl e \<Rightarrow> if contains ''invalid_grant'' e then disable_for_good a else a
      | Inr t \<Rightarrow> apply_tokens (ne_fmt env) (ne_clock env n) t a)"

lemma upd_grok_own [simp]: "i < pool_size s \<Longrightarrow> acct i (upd_grok i f s) = f (acct i s)"
  by (simp add: upd_grok_def upd_account_def)

lemma Refresh_effect:
  assumes "i < pool_size s"
  shows "acct i (snd (Refresh env i s)) = renewed env (us_calls s) (acct i s)"
    and "fst (Refresh env i s) = (case token_answer env (us_calls s) (acct i s) of Inl e \<Rightarrow> Some e | Inr _ \<Rightarrow> None)"
    and "us_calls (snd (Refresh env i s)) = Suc (us_calls s)"
  using assms by (auto simp: Refresh_def Let_def split_beta renewed_def token_answer_def us_now_def split: sum.split)

lemma prewarm_effect:
  assumes "i < pool_size s"
  shows "acct i (prewarm_account env i s) = prewarmed env (us_calls s) (acct i s)"
    and "us_calls (prewarm_account env i s) = Suc (us_calls s)" and "grok_same i s (prewarm_account env i s)"
proof -
  obtain err s1 where r: "Refresh env i s = (err, s1)" by fastforce
  note e = Refresh_effect [OF assms, of env, unfolded r fst_conv snd_conv]
  have same: "grok_same i s s1" using Refresh_same [of i s env] by (simp add: r)
  have size: "i < pool_size s1" using same assms by (simp add: grok_same_def)
  show "acct i (prewarm_account env i s) = prewarmed env (us_calls s) (acct i s)"
    using e(1,2) size by (auto simp: prewarm_account_def r prewarmed_def renewed_def split: sum.splits)
  show "us_calls (prewarm_account env i s) = Suc (us_calls s)" "grok_same i s (prewarm_account env i s)"
    using e(3) same by (auto simp: prewarm_account_def r grok_same_upd split: option.split)
qed

lemma prewarm_run:
  "distinct is \<Longrightarrow> set is \<subseteq> {..<pool_size s} \<Longrightarrow>
     pool_size (fold (prewarm_account env) is s) = pool_size s
     \<and> (if j \<in> set is then \<exists>n \<ge> us_calls s. acct j (fold (prewarm_account env) is s) = prewarmed env n (acct j s)
        else acct j (fold (prewarm_account env) is s) = acct j s)"
proof (induction "is" arbitrary: s)
  case (Cons i "is")
  let ?s1 = "prewarm_account env i s" and ?s' = "fold (prewarm_account env) is (prewarm_account env i s)"
  have i: "i < pool_size s" using Cons.prems(2) by simp
  note e = prewarm_effect [OF i, of env]
  have size: "pool_size ?s1 = pool_size s" and other: "j \<noteq> i \<Longrightarrow> acct j ?s1 = acct j s"
    using e(3) by (simp_all add: grok_same_def)
  have IH: "pool_size ?s' = pool_size ?s1" "j \<notin> set is \<Longrightarrow> acct j ?s' = acct j ?s1"
      "j \<in> set is \<Longrightarrow> \<exists>n \<ge> us_calls ?s1. acct j ?s' = prewarmed env n (acct j ?s1)"
    using Cons.IH [of ?s1] Cons.prems size by (auto split: if_splits)
  show ?case
  proof (cases "j = i")
    case True
    then have "acct j ?s' = prewarmed env (us_calls s) (acct j s)" using Cons.prems(1) IH(2) e(1) by simp
    then show ?thesis using True IH(1) size by auto
  next
    case False
    have "\<exists>n \<ge> us_calls s. acct j ?s' = prewarmed env n (acct j s)" if jin: "j \<in> set is"
    proof -
      obtain n where "n \<ge> us_calls ?s1" "acct j ?s' = prewarmed env n (acct j ?s1)" using IH(3) [OF jin] by blast
      then show ?thesis using e(2) other [OF False] by (intro exI [of _ n]) simp
    qed
    then show ?thesis using False IH(1,2) size other by simp
  qed
qed simp

text \<open>
  In which order the renewals of one tick are done does not matter to what becomes of an account: one
  outside the window or banned for good is left alone, any other is renewed, banned if its grant was
  revoked, or left as it was.
\<close>

lemma prewarm_tick:
  assumes "distinct order" and "set order = {..<pool_size s}" and "j < pool_size s"
  shows "if needsRefresh (us_now env s) (acct j s)
    then \<exists>n \<ge> us_calls s. acct j (AutoRefreshWorker env order s) = prewarmed env n (acct j s)
    else acct j (AutoRefreshWorker env order s) = acct j s"
proof -
  let ?is = "filter (\<lambda>i. needsRefresh (us_now env s) (acct i s)) order"
  have "distinct ?is" "set ?is \<subseteq> {..<pool_size s}" "j \<in> set ?is \<longleftrightarrow> needsRefresh (us_now env s) (acct j s)"
    using assms by auto
  then show ?thesis using prewarm_run [of ?is s env j] by (simp add: AutoRefreshWorker_def)
qed


definition ex_token_env :: net_env where
  "ex_token_env = \<lparr>ne_do = \<lambda>_ _. Inl ''down'', ne_token = \<lambda>_ _. Inr (200, ''ok''),
     ne_decode_tokens = \<lambda>_. Inr \<lparr>tr_access_token = ''t'', tr_refresh_token = [], tr_expires_in = 3600, tr_id_token = []\<rparr>,
     ne_fmt = \<lambda>_. ''now'', ne_clock = \<lambda>n. int n, ne_cancelled = \<lambda>_. False, ne_incr = \<lambda>_. None,
     ne_transport = \<lparr>parse_url = \<lambda>_. None, socks5 = \<lambda>_ _. None\<rparr>, ne_db = False\<rparr>"

definition ex_upstream :: upstream_state where
  "ex_upstream = \<lparr>us_grok = ex_accounts, us_cb = NewCBKeyManager, us_gh = NewUpstreamHealth ''grok'', us_ch = NewUpstreamHealth ''codebuddy'',
     us_proxy = NewProxyPool, us_calls = 0\<rparr>"


definition refresh_status :: "net_env \<Rightarrow> nat \<Rightarrow> GrokAccount \<Rightarrow> string" where
  "refresh_status env n a = (if isl (token_answer env n a) then ''refresh_failed'' else ''ok'')"

lemma refresh_all_run:
  "distinct is \<Longrightarrow> set is \<subseteq> {..<pool_size s} \<Longrightarrow> refresh_all env is s = (rs, s') \<Longrightarrow>
     map fst rs = map (\<lambda>i. ga_Email (acct i s)) is
     \<and> (if j \<in> set is
        then \<exists>n. acct j s' = renewed env n (acct j s)
             \<and> (ga_Email (acct j s), refresh_status env n (acct j s)) \<in> set rs
        else acct j s' = acct j s)"
proof (induction "is" arbitrary: s rs)
  case (Cons i "is")
  have i: "i < pool_size s" using Cons.prems(2) by simp
  obtain err s1 where r: "Refresh env i s = (err, s1)" by fastforce
  note e = Refresh_effect [OF i, of env, unfolded r fst_conv snd_conv]
  obtain rs1 where rs1: "refresh_all env is s1 = (rs1, s')" "rs = (ga_Email (acct i s1), if err = None then ''ok'' else ''refresh_failed'') # rs1"
    using Cons.prems(3) by (auto simp: r Let_def split: prod.splits)
  have same: "pool_size s1 = pool_size s" and other: "\<And>j. j \<noteq> i \<Longrightarrow> acct j s1 = acct j s"
    using Refresh_same [of i s env] by (simp_all add: r grok_same_def)
  have mail: "ga_Email (acct i s1) = ga_Email (acct i s)"
    using e(1) by (simp add: renewed_def apply_tokens_def Let_def split: sum.split)
  have ok: "distinct is" "set is \<subseteq> {..<pool_size s1}" "i \<notin> set is" using Cons.prems(1,2) same by auto
  note IH = Cons.IH [OF ok(1,2) rs1(1)]
  have "map (\<lambda>l. ga_Email (acct l s1)) is = map (\<lambda>l. ga_Email (acct l s)) is"
    using ok(3) by (intro map_cong [OF refl] arg_cong [of _ _ ga_Email] other) blast
  then have names: "map fst rs = map (\<lambda>l. ga_Email (acct l s)) (i # is)" using conjunct1 [OF IH] mail by (simp add: rs1(2))
  have status: "(if err = None then ''ok'' else ''refresh_failed'') = refresh_status env (us_calls s) (acct i s)"
    using e(2) by (simp add: refresh_status_def split: sum.split)
  show ?case
  proof (cases "j = i")
    case True
    then have "acct j s' = renewed env (us_calls s) (acct j s)" using IH ok(3) e(1) by simp
    moreover have "(ga_Email (acct j s), refresh_status env (us_calls s) (acct j s)) \<in> set rs" using True mail status by (simp add: rs1(2))
    ultimately show ?thesis using True names by auto
  next
    case False
    have "set rs1 \<subseteq> set rs" by (auto simp: rs1(2))
    then show ?thesis using False names IH other [OF False] by (auto split: if_splits)
  qed
qed simp

text \<open>
  The forced renewal reports one line per account, in the order of the pool, and its word about an
  account is true: the account has the new tokens, or it is unchanged.
\<close>

lemma HandleRefresh_outcome:
  assumes "HandleRefresh env s = (rs, s')" and "j < pool_size s"
  shows "map fst rs = map ga_Email (gm_accounts (us_grok s))"
    and "\<exists>n. acct j s' = renewed env n (acct j s)
          \<and> (ga_Email (acct j s), refresh_status env n (acct j s)) \<in> set rs"
proof -
  have r: "map fst rs = map (\<lambda>i. ga_Email (acct i s)) [0..<pool_size s]
      \<and> (\<exists>n. acct j s' = renewed env n (acct j s) \<and> (ga_Email (acct j s), refresh_status env n (acct j s)) \<in> set rs)"
    using refresh_all_run [of "[0..<pool_size s]" s env rs s' j] assms by (simp add: HandleRefresh_def lessThan_atLeast0)
  have "map (\<lambda>i. ga_Email (acct i s)) [0..<pool_size s] = map ga_Email (gm_accounts (us_grok s))"
    using arg_cong [OF map_nth [of "gm_accounts (us_grok s)"], of "map ga_Email"] by (simp add: comp_def)
  then show "map fst rs = map ga_Email (gm_accounts (us_grok s))"
    "\<exists>n. acct j s' = renewed env n (acct j s) \<and> (ga_Email (acct j s), refresh_status env n (acct j s)) \<in> set rs"
    using r by simp_all
qed

text \<open>
  The token endpoint is believed without a token: an answer with status 200 and no \<^verbatim>\<open>access_token\<close> empties the
  account's token, the account stays enabled, and the next start drops it because its row has none.
\<close>

theorem empty_token_loses_account:
  assumes "token_answer env n a = Inr t" and "tr_access_token t = []"
    and "SaveGrokAccount None eb (toDTO (renewed env n a)) st (ga_Email a) = Some h"
  shows "ga_AccessToken (renewed env n a) = [] \<and> ga_disabled (renewed env n a) = ga_disabled a
    \<and> load_account parse now (ga_Email a) h = None"
  using assms by (auto simp: renewed_def apply_tokens_def Let_def SaveGrokAccount_def toDTO_def grok_fields_def load_account_def)

subsection \<open>Telemetry\<close>

lemma round2_bounds: "0 \<le> f \<Longrightarrow> f \<le> 100 \<Longrightarrow> 0 \<le> round2 f \<and> round2 f \<le> 100"
proof -
  assume f: "0 \<le> f" "f \<le> 100"
  have "0 \<le> \<lfloor>f * 100 + 1 / 2\<rfloor>" using f(1) by simp
  moreover have "\<lfloor>f * 100 + 1 / 2\<rfloor> \<le> 10000" using f(2) by linarith
  ultimately show ?thesis by (simp add: round2_def)
qed

text \<open>
  Through any history of requests and checks the reported error rate is a percentage, and the totals are
  consistent with it.
\<close>

theorem error_rate_is_percentage:
  assumes "health_reachable name h"
  shows "0 \<le> hs_error_rate_pct (Stats fmt h) \<and> hs_error_rate_pct (Stats fmt h) \<le> 100
    \<and> hs_total_errors (Stats fmt h) \<le> hs_total_requests (Stats fmt h)"
proof -
  have inv: "0 \<le> totalErrors h" "totalErrors h \<le> totalRequests h" using health_reachable_inv [OF assms] by (simp_all add: health_inv_def)
  let ?r = "if totalRequests h > 0 then of_int (totalErrors h) / of_int (totalRequests h) * 100 else 0 :: rat"
  have "0 \<le> ?r \<and> ?r \<le> 100" using inv by (simp add: divide_le_eq)
  then have "0 \<le> round2 ?r \<and> round2 ?r \<le> 100" using round2_bounds by blast
  then show ?thesis using inv(2) by (simp add: Stats_def Let_def)
qed

theorem error_rate_is_percentage_witness:
  "0 \<le> hs_error_rate_pct (Stats (\<lambda>_. []) (health_apply (Record 1 2 None) (NewUpstreamHealth ''grok'')))
   \<and> hs_error_rate_pct (Stats (\<lambda>_. []) (health_apply (Record 1 2 None) (NewUpstreamHealth ''grok''))) \<le> 100
   \<and> hs_total_errors (Stats (\<lambda>_. []) (health_apply (Record 1 2 None) (NewUpstreamHealth ''grok'')))
       \<le> hs_total_requests (Stats (\<lambda>_. []) (health_apply (Record 1 2 None) (NewUpstreamHealth ''grok'')))"
  by (rule error_rate_is_percentage [OF health_next [OF health_start]])

text \<open>
  A time that was never set is to be shown as the empty text. The counters of the last request and the
  last error start at zero nanoseconds, which is not the zero time: an unused upstream shows 1970.
\<close>

theorem unused_upstream_shows_epoch:
  "hs_last_request_at (Stats fmt (NewUpstreamHealth name)) = fmt 0 \<and> hs_last_error_at (Stats fmt (NewUpstreamHealth name)) = fmt 0
   \<and> hs_opened_at (Stats fmt (NewUpstreamHealth name)) = []"
  by (simp add: Stats_def NewUpstreamHealth_def formatTime_def is_zero_def zero_time_def second_def)

lemma pool_gauge_total: "fst (pool_gauge d xs) + snd (pool_gauge d xs) = length xs"
  using sum_length_filter_compl [of d xs] by (simp add: pool_gauge_def add.commute)

text \<open>Testing a proxy tells a working one from the others: it succeeds just if the answer through its transport is good.\<close>

lemma Test_succeeds:
  "(\<exists>ip. Test env probe i p = Inr ip) \<longleftrightarrow>
     (\<exists>e t st b. find (\<lambda>e. pe_ID e = i) (pp_entries p) = Some e \<and> buildTransport env e = Inr t \<and> probe t = Inr (st, b) \<and> 200 \<le> st \<and> st < 400)"
  by (auto simp: Test_def Let_def split: option.split sum.split)

lemma HandleListCombos_all:
  assumes "set order = dom (combos r)"
  shows "set (HandleListCombos order r) = ran (combos r)"
proof -
  have "set (HandleListCombos order r) = {c. \<exists>n \<in> set order. combos r n = Some c}"
    by (force simp: HandleListCombos_def List.map_filter_def image_iff)
  then show ?thesis using assms by (auto simp: ran_def)
qed

end
