(* ===== verification/KeyAdmin.thy ===== *)
theory KeyAdmin
  imports Auth Json
begin

text \<open>
  The administration of gateway keys and the dashboard login, from
  \<^verbatim>\<open>internal/handlers/handlers.go\<close>: \<^verbatim>\<open>HandleListKeys\<close>, \<^verbatim>\<open>HandleCreateKey\<close>, \<^verbatim>\<open>HandleDeleteKey\<close>,
  \<^verbatim>\<open>HandleUpdateKey\<close>, \<^verbatim>\<open>HandleKeyUsage\<close>, \<^verbatim>\<open>HandleLogin\<close> and \<^verbatim>\<open>HandleLogout\<close>.

  A handler's answer is the status and the object of its \<^verbatim>\<open>c.JSON\<close> call. The body of a request is
  its decoded JSON value, \<open>None\<close> when it is not JSON. The generated key, the clock and the text
  form of a time are arguments. A nil and an empty list of models are shown alike.
\<close>

type_synonym reply = "int \<times> fields"

definition err :: "int \<Rightarrow> string \<Rightarrow> reply" where
  "err code msg = (code, [(''error'', JStr msg)])"

subsection \<open>Keys\<close>

definition key_view :: "(gotime \<Rightarrow> string) \<Rightarrow> GatewayKeyInfo \<Rightarrow> fields" where
  "key_view fmt i =
     [(''key_masked'', JStr (MaskKey (gk_Key i))), (''name'', JStr (gk_Name i)), (''role'', JStr (gk_Role i)),
      (''allowed_models'', JArr (map JStr (gk_AllowedModels i))), (''rpm'', JNum (of_int (gk_RPM i))),
      (''burst'', JNum (of_int (gk_Burst i))), (''token_quota'', JNum (of_int (gk_TokenQuota i))),
      (''tokens_used'', JNum (of_int (gk_TokensUsed i))), (''requests'', JNum (of_int (gk_Requests i))),
      (''created_at'', JStr (fmt (gk_CreatedAt i))), (''disabled'', JBool (gk_Disabled i))]"

definition HandleListKeys :: "(gotime \<Rightarrow> string) \<Rightarrow> Manager \<Rightarrow> reply" where
  "HandleListKeys fmt am =
     (200, [(''keys'', JArr (map (\<lambda>(_, i). JObj (key_view fmt i)) am)), (''count'', JNum (of_nat (length am)))])"

definition control_char :: "char \<Rightarrow> bool" where
  "control_char c \<longleftrightarrow> (of_char c :: nat) < 0x20 \<or> (of_char c :: nat) = 0x7f"

definition bad_name :: "string \<Rightarrow> reply option" where
  "bad_name name =
     (if length name > 128 then Some (err 400 ''name too long (max 128 chars)'')
      else if list_ex control_char name then Some (err 400 ''name contains control characters'')
      else None)"

text \<open>The request structs, \<open>None\<close> when the body cannot be bound to them.\<close>

definition dec_create :: "json option \<Rightarrow> (string \<times> string \<times> string list \<times> int \<times> int \<times> int) option" where
  "dec_create body =
     (case Option.bind body json_fields of
        None \<Rightarrow> None
      | Some m \<Rightarrow>
          (case (dec_string m ''name'', dec_string m ''role'', dec_list json_string m ''allowed_models'', dec_int m ''rpm'',
                 dec_int m ''burst'', dec_int m ''token_quota'') of
             (Some name, Some role, Some models, Some rpm, Some burst, Some quota) \<Rightarrow> Some (name, role, models, rpm, burst, quota)
           | _ \<Rightarrow> None))"

record update_req =
  uq_Name :: "string option"
  uq_Role :: "string option"
  uq_AllowedModels :: "string list option"
  uq_RPM :: "int option"
  uq_Burst :: "int option"
  uq_TokenQuota :: "int option"
  uq_Disabled :: "bool option"

definition dec_update :: "json option \<Rightarrow> update_req option" where
  "dec_update body =
     (case Option.bind body json_fields of
        None \<Rightarrow> None
      | Some m \<Rightarrow>
          (case (dec_ptr dec_string m ''name'', dec_ptr dec_string m ''role'', dec_ptr (dec_list json_string) m ''allowed_models'',
                 dec_ptr dec_int m ''rpm'', dec_ptr dec_int m ''burst'', dec_ptr dec_int m ''token_quota'', dec_ptr dec_bool m ''disabled'') of
             (Some name, Some role, Some models, Some rpm, Some burst, Some quota, Some dis) \<Rightarrow>
               Some \<lparr>uq_Name = name, uq_Role = role, uq_AllowedModels = models, uq_RPM = rpm, uq_Burst = burst, uq_TokenQuota = quota, uq_Disabled = dis\<rparr>
           | _ \<Rightarrow> None))"

definition HandleCreateKey ::
  "(gotime \<Rightarrow> string) \<Rightarrow> gotime \<Rightarrow> string \<Rightarrow> json option \<Rightarrow> Manager \<Rightarrow> key_store \<Rightarrow> reply \<times> Manager \<times> key_store" where
  "HandleCreateKey fmt now key body am st =
     (case dec_create body of
        None \<Rightarrow> (err 400 ''invalid JSON body'', am, st)
      | Some (name0, role0, models, rpm, burst, quota) \<Rightarrow>
          (let name = (if name0 = [] then ''unnamed'' else name0);
               role = (if role0 \<noteq> RoleAdmin \<and> role0 \<noteq> RoleInference then RoleInference else role0)
           in case bad_name name of
                Some r \<Rightarrow> (r, am, st)
              | None \<Rightarrow>
                  (let (info, am', st') = AddWithRole now key name role (Some models) rpm burst quota am st
                   in ((201, (''key'', JStr (gk_Key info)) # key_view fmt info @
                          [(''message'', JStr (''Save this key now '' @ [CHR 0xE2, CHR 0x80, CHR 0x94] @ '' it will not be shown again.''))]),
                       am', st'))))"

definition HandleDeleteKey :: "string \<Rightarrow> Manager \<Rightarrow> key_store \<Rightarrow> reply \<times> Manager \<times> key_store" where
  "HandleDeleteKey keyParam am st =
     (case ResolveKey am keyParam of
        None \<Rightarrow> (err 404 ''key not found'', am, st)
      | Some fullKey \<Rightarrow>
          if (case GetKey am fullKey of Some info \<Rightarrow> gk_Role info = RoleAdmin \<and> CountAdmins am \<le> 1 | None \<Rightarrow> False)
          then (err 409 (''cannot delete the last admin key '' @ [CHR 0xE2, CHR 0x80, CHR 0x94] @ '' create another admin key first''), am, st)
          else (let (am', st') = RemoveKey fullKey am st in ((200, [(''deleted'', JStr (MaskKey fullKey))]), am', st')))"

text \<open>\<open>-1\<close> and the empty string stand for no change.\<close>

definition or_minus_one :: "int option \<Rightarrow> int" where
  "or_minus_one v = (case v of Some n \<Rightarrow> n | None \<Rightarrow> -1)"

definition update_name :: "update_req \<Rightarrow> string" where
  "update_name rq = (case uq_Name rq of Some n \<Rightarrow> n | None \<Rightarrow> [])"

definition update_role :: "update_req \<Rightarrow> string" where
  "update_role rq = (case uq_Role rq of Some r \<Rightarrow> if r = RoleAdmin \<or> r = RoleInference then r else [] | None \<Rightarrow> [])"

definition HandleUpdateKey ::
  "(gotime \<Rightarrow> string) \<Rightarrow> string \<Rightarrow> json option \<Rightarrow> Manager \<Rightarrow> key_store \<Rightarrow> reply \<times> Manager \<times> key_store" where
  "HandleUpdateKey fmt keyParam body am st =
     (case ResolveKey am keyParam of
        None \<Rightarrow> (err 404 ''key not found'', am, st)
      | Some fullKey \<Rightarrow>
          (case dec_update body of
             None \<Rightarrow> (err 400 ''invalid JSON body'', am, st)
           | Some rq \<Rightarrow>
               (case (if uq_Name rq = None then None else bad_name (update_name rq)) of
                  Some r \<Rightarrow> (r, am, st)
                | None \<Rightarrow>
                    (let (ok, am', st') = UpdateKey fullKey (update_name rq) (update_role rq) (uq_AllowedModels rq)
                           (or_minus_one (uq_RPM rq)) (or_minus_one (uq_Burst rq)) (or_minus_one (uq_TokenQuota rq)) (uq_Disabled rq) am st
                     in if \<not> ok then (err 404 ''key not found'', am', st')
                        else ((200, case GetKey am' fullKey of Some i \<Rightarrow> key_view fmt i | None \<Rightarrow> []), am', st')))))"

definition HandleKeyUsage :: "(gotime \<Rightarrow> string) \<Rightarrow> string \<Rightarrow> Manager \<Rightarrow> reply" where
  "HandleKeyUsage fmt keyParam am =
     (case Option.bind (ResolveKey am keyParam) (GetKey am) of
        None \<Rightarrow> err 404 ''key not found''
      | Some i \<Rightarrow>
          (200, key_view fmt i @
             [(''tokens_left'', JNum (of_int (if gk_TokenQuota i > 0 then wrap64 (gk_TokenQuota i - gk_TokensUsed i) else -1))),
              (''quota_pct'', JNum (if gk_TokenQuota i > 0 then of_int (gk_TokensUsed i) / of_int (gk_TokenQuota i) * 100 else 0))]))"

subsection \<open>Login and logout\<close>

text \<open>
  The posted key is \<open>None\<close> when the form cannot be read. The answer is the login page with a
  message, or a redirect to the dashboard that sets the session cookie.
\<close>

datatype login_reply = LoginPage string | LoggedIn string

definition HandleLogin ::
  "go_error + string \<Rightarrow> gotime \<Rightarrow> string option \<Rightarrow> Manager \<Rightarrow> SessionStore \<Rightarrow> login_reply \<times> SessionStore" where
  "HandleLogin rand now posted am ss =
     (case posted of
        None \<Rightarrow> (LoginPage ''Key is required'', ss)
      | Some key0 \<Rightarrow>
          if key0 = [] then (LoginPage ''Key is required'', ss)
          else (let key = TrimSpace key0
                in if \<not> Valid am key then (LoginPage ''Invalid API key'', ss)
                   else if (case GetKey am key of None \<Rightarrow> True | Some info \<Rightarrow> gk_Role info \<noteq> RoleAdmin)
                   then (LoginPage ''This key does not have dashboard access (admin role required)'', ss)
                   else (case CreateSession rand now key ss of
                           (Inl _, ss') \<Rightarrow> (LoginPage ''Session error'', ss')
                         | (Inr token, ss') \<Rightarrow> (LoggedIn token, ss'))))"

definition HandleLogout :: "string option \<Rightarrow> SessionStore \<Rightarrow> SessionStore" where
  "HandleLogout ck ss = RevokeSession (case ck of Some t \<Rightarrow> t | None \<Rightarrow> []) ss"

subsection \<open>What the key handlers keep\<close>

datatype key_call =
    CallCreate gotime string "json option"
  | CallDelete string
  | CallUpdate string "json option"

fun run_call :: "(gotime \<Rightarrow> string) \<Rightarrow> key_call \<Rightarrow> Manager \<times> key_store \<Rightarrow> reply \<times> Manager \<times> key_store" where
  "run_call fmt (CallCreate now key body) (am, st) = HandleCreateKey fmt now key body am st"
| "run_call fmt (CallDelete p) (am, st) = HandleDeleteKey p am st"
| "run_call fmt (CallUpdate p body) (am, st) = HandleUpdateKey fmt p body am st"

definition key_calls :: "(gotime \<Rightarrow> string) \<Rightarrow> key_call list \<Rightarrow> Manager \<times> key_store \<Rightarrow> Manager \<times> key_store" where
  "key_calls fmt cs ms = fold (\<lambda>c ms. snd (run_call fmt c ms)) cs ms"

definition key_name_ok :: "string \<Rightarrow> bool" where
  "key_name_ok n \<longleftrightarrow> length n \<le> 128 \<and> \<not> list_ex control_char n"

definition entry_ok :: "string \<times> GatewayKeyInfo \<Rightarrow> bool" where
  "entry_ok e \<longleftrightarrow>
     (case e of (k, i) \<Rightarrow> gk_Key i = k \<and> gk_KeyMasked i = MaskKey k \<and> (gk_Role i = RoleAdmin \<or> gk_Role i = RoleInference) \<and> key_name_ok (gk_Name i))"

definition manager_ok :: "Manager \<Rightarrow> bool" where
  "manager_ok am \<longleftrightarrow> distinct (map fst am) \<and> list_all entry_ok am"

lemma bad_name_None: "bad_name n = None \<longleftrightarrow> key_name_ok n"
  by (auto simp: bad_name_def key_name_ok_def)

lemma set_alist_update: "set (AList.update k v al) \<subseteq> insert (k, v) (set al)"
  by (induction al) auto

lemma set_alist_delete: "set (AList.delete k al) \<subseteq> set al"
  by (auto simp: AList.delete_eq)

lemma manager_ok_update: "manager_ok am \<Longrightarrow> entry_ok (k, i) \<Longrightarrow> manager_ok (AList.update k i am)"
  using set_alist_update [of k i am] by (auto simp: manager_ok_def AList.distinct_update list_all_iff)

lemma manager_ok_delete: "manager_ok am \<Longrightarrow> manager_ok (AList.delete k am)"
  using set_alist_delete [of k am] by (auto simp: manager_ok_def AList.distinct_delete list_all_iff)

lemma manager_ok_lookup: "manager_ok am \<Longrightarrow> map_of am k = Some i \<Longrightarrow> entry_ok (k, i)"
  by (auto simp: manager_ok_def list_all_iff dest: map_of_SomeD)

lemma create_cases:
  obtains r where "HandleCreateKey fmt now key body am st = (r, am, st)" "fst r = 400"
  | name role models rpm burst quota where "key_name_ok name" "role = RoleAdmin \<or> role = RoleInference"
      "snd (HandleCreateKey fmt now key body am st) = snd (AddWithRole now key name role (Some models) rpm burst quota am st)"
      "fst (fst (HandleCreateKey fmt now key body am st)) = 201"
proof (cases "dec_create body")
  case None
  then show ?thesis using that(1) by (simp add: HandleCreateKey_def err_def)
next
  case (Some req)
  then obtain n r ms rp bu qu where d: "dec_create body = Some (n, r, ms, rp, bu, qu)" by (cases req) auto
  define name where "name = (if n = [] then ''unnamed'' else n)"
  define role where "role = (if r \<noteq> RoleAdmin \<and> r \<noteq> RoleInference then RoleInference else r)"
  have role: "role = RoleAdmin \<or> role = RoleInference" by (simp add: role_def)
  show ?thesis
  proof (cases "bad_name name")
    case None
    then have "key_name_ok name" by (simp add: bad_name_None)
    moreover have "snd (HandleCreateKey fmt now key body am st) = snd (AddWithRole now key name role (Some ms) rp bu qu am st)"
        "fst (fst (HandleCreateKey fmt now key body am st)) = 201"
      using None d by (simp_all add: HandleCreateKey_def Let_def name_def role_def split: prod.split)
    ultimately show ?thesis using that(2) [OF _ role] by blast
  next
    case (Some r)
    then show ?thesis using that(1) [of r] d by (auto simp: HandleCreateKey_def Let_def name_def bad_name_def err_def split: if_splits)
  qed
qed

lemma update_cases:
  obtains r where "HandleUpdateKey fmt p body am st = (r, am, st)"
  | key name role models rpm burst quota dis where "ResolveKey am p = Some key" "key_name_ok name" "role \<in> {[], RoleAdmin, RoleInference}"
      "snd (HandleUpdateKey fmt p body am st) = snd (UpdateKey key name role models rpm burst quota dis am st)"
proof (cases "ResolveKey am p")
  case None
  then show ?thesis using that(1) by (simp add: HandleUpdateKey_def)
next
  case key: (Some key)
  show ?thesis
  proof (cases "dec_update body")
    case None
    then show ?thesis using key that(1) by (simp add: HandleUpdateKey_def)
  next
    case rq: (Some rq)
    have bn: "(if uq_Name rq = None then None else bad_name (update_name rq)) = bad_name (update_name rq)"
      by (simp add: update_name_def bad_name_def split: option.split)
    have role: "update_role rq \<in> {[], RoleAdmin, RoleInference}" by (simp add: update_role_def split: option.split)
    show ?thesis
    proof (cases "bad_name (update_name rq)")
      case None
      then have "key_name_ok (update_name rq)" by (simp add: bad_name_None)
      moreover have "snd (HandleUpdateKey fmt p body am st) = snd (UpdateKey key (update_name rq) (update_role rq) (uq_AllowedModels rq)
          (or_minus_one (uq_RPM rq)) (or_minus_one (uq_Burst rq)) (or_minus_one (uq_TokenQuota rq)) (uq_Disabled rq) am st)"
        using key rq bn None by (simp add: HandleUpdateKey_def split: prod.split)
      ultimately show ?thesis using that(2) [OF key _ role] by blast
    next
      case (Some r)
      then show ?thesis using that(1) [of r] key rq bn by (simp add: HandleUpdateKey_def)
    qed
  qed
qed

lemma manager_ok_call: "manager_ok (fst ms) \<Longrightarrow> manager_ok (fst (snd (run_call fmt c ms)))"
proof (cases ms)
  case (Pair am st)
  assume "manager_ok (fst ms)"
  with Pair have ok: "manager_ok am" by simp
  show ?thesis
  proof (cases c)
    case (CallCreate now key body)
    show ?thesis
    proof (cases rule: create_cases [of fmt now key body am st])
      case (2 name role models rpm burst quota)
      then show ?thesis
        using ok Pair CallCreate by (auto simp: AddWithRole_def Let_def intro!: manager_ok_update simp: entry_ok_def)
    qed (use ok Pair CallCreate in simp)
  next
    case (CallDelete p)
    then show ?thesis
      using ok Pair manager_ok_delete by (auto simp: HandleDeleteKey_def RemoveKey_def split: option.splits)
  next
    case (CallUpdate p body)
    show ?thesis
    proof (cases rule: update_cases [of fmt p body am st])
      case (2 key name role models rpm burst quota dis)
      show ?thesis
      proof (cases "map_of am key")
        case (Some i)
        have "entry_ok (key, updated_info name role models rpm burst quota dis i)"
          using manager_ok_lookup [OF ok Some] 2(2,3) by (auto simp: entry_ok_def updated_info_def)
        then show ?thesis using 2 Pair CallUpdate ok Some by (simp add: UpdateKey_def Let_def manager_ok_update)
      qed (use 2 Pair CallUpdate ok in \<open>simp add: UpdateKey_def\<close>)
    qed (use ok Pair CallUpdate in simp)
  qed
qed

text \<open>
  Whatever requests the key endpoints serve, every registered key is stored under itself with its
  own mask, has one of the two roles, and has a name of at most 128 bytes without control
  characters.
\<close>

theorem key_endpoints_keep_keys_wellformed:
  assumes "manager_ok am"
  shows "manager_ok (fst (key_calls fmt cs (am, st)))"
proof -
  have "manager_ok (fst ms) \<Longrightarrow> manager_ok (fst (key_calls fmt cs ms))" for ms
    by (induction cs arbitrary: ms) (simp_all add: key_calls_def manager_ok_call)
  then show ?thesis using assms by simp
qed

theorem key_endpoints_keep_keys_wellformed_witness:
  "manager_ok (fst (key_calls (\<lambda>_. []) [CallCreate 0 ''gw-0123456789'' (Some (JObj [(''name'', JStr ''ci''), (''role'', JStr ''root'')]))] ([], None)))"
  by (rule key_endpoints_keep_keys_wellformed) (simp add: manager_ok_def)

subsection \<open>Administrator lock-out\<close>

definition enabled_admin :: "string \<times> GatewayKeyInfo \<Rightarrow> bool" where
  "enabled_admin e \<longleftrightarrow> gk_Role (snd e) = RoleAdmin \<and> \<not> gk_Disabled (snd e)"

lemma CountAdmins_filter: "CountAdmins am = length (filter enabled_admin am)"
  unfolding CountAdmins_def by (rule arg_cong [where f = length], rule filter_cong) (auto simp: enabled_admin_def)

lemma CountAdmins_zero: "CountAdmins am = 0 \<longleftrightarrow> (\<forall>e \<in> set am. \<not> enabled_admin e)"
  by (auto simp: CountAdmins_filter filter_empty_conv)

lemma CountAdmins_delete:
  assumes "distinct (map fst am)"
  shows "CountAdmins am \<le> CountAdmins (AList.delete k am) + (case map_of am k of Some i \<Rightarrow> of_bool (gk_Role i = RoleAdmin) | None \<Rightarrow> 0)"
  using assms
proof (induction am)
  case (Cons e am)
  show ?case
  proof (cases "fst e = k")
    case True
    then have "k \<notin> fst ` set am" using Cons.prems by (cases e) force
    then have "AList.delete k am = am" by simp
    then show ?thesis using True by (cases e) (simp add: CountAdmins_filter enabled_admin_def)
  next
    case False
    then show ?thesis using Cons by (cases e) (simp add: CountAdmins_filter)
  qed
qed (simp add: CountAdmins_def)

lemma CountAdmins_update_new:
  "map_of am k = None \<Longrightarrow> CountAdmins am \<le> CountAdmins (AList.update k i am)"
  by (induction am) (auto simp: CountAdmins_filter split: if_splits)

fun adds_fresh :: "(gotime \<Rightarrow> string) \<Rightarrow> key_call list \<Rightarrow> Manager \<times> key_store \<Rightarrow> bool" where
  "adds_fresh fmt [] ms \<longleftrightarrow> True"
| "adds_fresh fmt (c # cs) ms \<longleftrightarrow>
     (case c of CallCreate _ key _ \<Rightarrow> map_of (fst ms) key = None | CallDelete _ \<Rightarrow> True | CallUpdate _ _ \<Rightarrow> False)
     \<and> adds_fresh fmt cs (snd (run_call fmt c ms))"

lemma call_keeps_admin:
  assumes "manager_ok (fst ms)" and "CountAdmins (fst ms) > 0"
    and "case c of CallCreate _ key _ \<Rightarrow> map_of (fst ms) key = None | CallDelete _ \<Rightarrow> True | CallUpdate _ _ \<Rightarrow> False"
  shows "CountAdmins (fst (snd (run_call fmt c ms))) > 0"
proof (cases ms)
  case (Pair am st)
  show ?thesis
  proof (cases c)
    case (CallCreate now key body)
    show ?thesis
    proof (cases rule: create_cases [of fmt now key body am st])
      case (2 name role models rpm burst quota)
      then show ?thesis
        using assms Pair CallCreate CountAdmins_update_new [of am key] by (auto simp: AddWithRole_def Let_def intro: less_le_trans)
    qed (use assms Pair CallCreate in simp)
  next
    case (CallDelete p)
    have d: "distinct (map fst am)" using assms(1) Pair by (simp add: manager_ok_def)
    show ?thesis
    proof (cases "ResolveKey am p")
      case (Some k)
      have "CountAdmins (AList.delete k am) > 0"
        if "\<not> (case GetKey am k of Some info \<Rightarrow> gk_Role info = RoleAdmin \<and> CountAdmins am \<le> 1 | None \<Rightarrow> False)"
        using that CountAdmins_delete [OF d, of k] assms(2) Pair by (auto simp: GetKey_def of_bool_def split: option.splits if_splits)
      then show ?thesis using CallDelete Some Pair assms(2) by (simp add: HandleDeleteKey_def RemoveKey_def)
    qed (use CallDelete Pair assms(2) in \<open>simp add: HandleDeleteKey_def\<close>)
  qed (use assms(3) in simp)
qed

text \<open>
  C22: Deleting and creating keys never leaves the gateway without an enabled administrator: from a
  well-formed manager with an enabled administrator key, any sequence of deletions, by full or
  masked key, and of creations of new keys ends with one.
\<close>

theorem deletion_keeps_admin:
  assumes "manager_ok am" and "CountAdmins am > 0" and "adds_fresh fmt cs (am, st)"
  shows "CountAdmins (fst (key_calls fmt cs (am, st))) > 0"
proof -
  have "manager_ok (fst ms) \<Longrightarrow> CountAdmins (fst ms) > 0 \<Longrightarrow> adds_fresh fmt cs ms \<Longrightarrow> CountAdmins (fst (key_calls fmt cs ms)) > 0" for ms
    by (induction cs arbitrary: ms) (simp_all add: key_calls_def manager_ok_call call_keeps_admin)
  then show ?thesis using assms by simp
qed

theorem deletion_keeps_admin_witness:
  "CountAdmins (fst (key_calls (\<lambda>_. []) [CallDelete ''gw-1'', CallDelete ''gw-2''] ([(''gw-1'', ex_info ''gw-1'' ''admin''), (''gw-2'', ex_info ''gw-2'' ''admin'')], None))) > 0"
  by (rule deletion_keeps_admin)
     (simp_all add: manager_ok_def entry_ok_def key_name_ok_def ex_info_def bootstrap_info_def MaskKey_def RoleAdmin_def RoleInference_def
       control_char_def CountAdmins_def)

lemma CountAdmins_update:
  assumes "distinct (map fst am)" and "map_of am k = Some i"
  shows "CountAdmins (AList.update k j am) + of_bool (enabled_admin (k, i)) = CountAdmins am + of_bool (enabled_admin (k, j))"
  using assms by (induction am) (auto simp: CountAdmins_filter enabled_admin_def split: if_splits)

lemma no_admin_no_access:
  assumes "CountAdmins am = 0"
  shows "fst (admin_chain False sl am rq s) \<noteq> Pass ck"
proof
  assume p: "fst (admin_chain False sl am rq s) = Pass ck"
  obtain key info where "map_of am key = Some info" "gk_Role info = RoleAdmin" "\<not> gk_Disabled info"
    using admin_chain_pass [OF p] by blast
  then show False using assms map_of_SomeD [of am key info] by (auto simp: CountAdmins_zero enabled_admin_def)
qed

definition disable_body :: "json option" where
  "disable_body = Some (JObj [(''disabled'', JBool True)])"

lemma dec_disable_body:
  "dec_update disable_body = Some \<lparr>uq_Name = None, uq_Role = None, uq_AllowedModels = None, uq_RPM = None, uq_Burst = None,
     uq_TokenQuota = None, uq_Disabled = Some True\<rparr>"
  by (simp add: dec_update_def disable_body_def json_fields_def dec_ptr_def dec_bool_def)

text \<open>
  Updating has no such guard: disabling the only enabled administrator key through the update
  endpoint succeeds, and from then on no request, with whatever header or cookie, passes the
  chain in front of the administrative endpoints.
\<close>

theorem update_locks_out:
  assumes "manager_ok am" and "CountAdmins am = 1" and "map_of am k = Some i" and "gk_Role i = RoleAdmin" and "\<not> gk_Disabled i"
    and "HandleUpdateKey fmt k disable_body am st = (r, am', st')"
  shows "fst r = 200 \<and> fst (admin_chain False sl am' rq s) \<noteq> Pass ck"
proof -
  define j where "j = updated_info [] [] None (-1) (-1) (-1) (Some True) i"
  have "ResolveKey am k = Some k" using assms(3) by (simp add: ResolveKey_def)
  then have u: "am' = AList.update k j am" "fst r = 200"
    using assms(6) dec_disable_body assms(3)
    by (auto simp: HandleUpdateKey_def UpdateKey_def Let_def j_def update_name_def update_role_def or_minus_one_def)
  have "gk_Disabled j" by (simp add: j_def updated_info_def)
  then have "CountAdmins am' = 0"
    using CountAdmins_update [of am k i j] assms(1-5) u(1) by (simp add: manager_ok_def enabled_admin_def)
  then show ?thesis using u(2) by (simp add: no_admin_no_access)
qed

definition ex_admins :: Manager where
  "ex_admins = [(''gw-1'', ex_info ''gw-1'' ''admin'')]"

theorem update_locks_out_witness:
  "fst (fst (HandleUpdateKey (\<lambda>_. []) ''gw-1'' disable_body ex_admins None)) = 200
   \<and> fst (admin_chain False (Some (LookupSession 0)) (fst (snd (HandleUpdateKey (\<lambda>_. []) ''gw-1'' disable_body ex_admins None))) ex_request Map.empty)
        \<noteq> Pass (Some ''gw-1'')"
proof -
  have "manager_ok ex_admins" "CountAdmins ex_admins = 1"
    by (simp_all add: ex_admins_def manager_ok_def entry_ok_def key_name_ok_def ex_info_def bootstrap_info_def MaskKey_def RoleAdmin_def
        RoleInference_def control_char_def CountAdmins_def)
  moreover have "map_of ex_admins ''gw-1'' = Some (ex_info ''gw-1'' ''admin'')" by (simp add: ex_admins_def)
  moreover have "gk_Role (ex_info ''gw-1'' ''admin'') = RoleAdmin" "\<not> gk_Disabled (ex_info ''gw-1'' ''admin'')"
    by (simp_all add: ex_info_def bootstrap_info_def RoleAdmin_def)
  ultimately show ?thesis
    by (rule update_locks_out [where fmt = "\<lambda>_. []" and st = None
          and st' = "snd (snd (HandleUpdateKey (\<lambda>_. []) ''gw-1'' disable_body ex_admins None))"]) simp
qed

text \<open>The guard of the deletion counts enabled administrators only, so it also protects a disabled one.\<close>

lemma disabled_admin_not_deletable:
  assumes "CountAdmins am \<le> 1" and "map_of am k = Some i" and "gk_Role i = RoleAdmin"
  shows "fst (fst (HandleDeleteKey k am st)) = 409"
  using assms by (simp add: HandleDeleteKey_def ResolveKey_def GetKey_def err_def)

subsection \<open>Dashboard sessions\<close>

lemma login_cases:
  assumes "HandleLogin rand now posted am ss = (LoggedIn t, ss')"
  obtains key info where "posted \<noteq> None" "key = TrimSpace (the posted)" "map_of am key = Some info" "gk_Role info = RoleAdmin"
    "\<not> gk_Disabled info" "rand = Inr t" "ss' = ss(t \<mapsto> \<lparr>s_key = key, s_createdAt = now, s_lastSeen = now\<rparr>)"
  using assms
  by (auto simp: HandleLogin_def Let_def Valid_iff GetKey_def CreateSession_def split: option.splits if_splits sum.splits)

text \<open>
  C21: A login is the way into the dashboard, and logging out ends it. When the login endpoint accepts
  a posted key, that key is an enabled administrator key; for seven days a request with the
  session cookie passes the chain in front of every non-public endpoint under that key; and after
  a logout with the cookie it no longer passes.
\<close>

theorem login_session_lifecycle:
  assumes "HandleLogin (Inr t) now posted am ss = (LoggedIn t, ss')" and "t \<noteq> []" and "TrimSpace (the posted) \<noteq> []"
    and "rq_path rq \<notin> set public_paths" and "\<not> prefix ''Bearer '' (rq_auth rq)" and "rq_cookie rq = Some t"
    and "later - now \<le> SessionTTL"
  shows "Valid am (TrimSpace (the posted))
     \<and> fst (admin_chain False (Some (LookupSession later)) am rq ss') = Pass (Some (TrimSpace (the posted)))
     \<and> fst (admin_chain False (Some (LookupSession later)) am rq (HandleLogout (Some t) ss')) \<noteq> Pass ck"
proof -
  from assms(1) obtain key info where k: "key = TrimSpace (the posted)" "map_of am key = Some info" "gk_Role info = RoleAdmin"
      "\<not> gk_Disabled info" "ss' = ss(t \<mapsto> \<lparr>s_key = key, s_createdAt = now, s_lastSeen = now\<rparr>)"
    by (rule login_cases)
  have v: "Valid am key" using k(2,4) by (simp add: Valid_iff)
  have "LookupSession later t ss' = (key, ss'(t \<mapsto> \<lparr>s_key = key, s_createdAt = now, s_lastSeen = later\<rparr>))"
    using k(5) assms(2,7) by (simp add: LookupSession_def)
  then have "fst (extract_key (Some (LookupSession later)) rq ss') = key" using assms(2,5,6) by (simp add: extract_key_def)
  then have "fst (admin_chain False (Some (LookupSession later)) am rq ss') = Pass (Some key)"
    using v k assms(3,4) by (auto simp: admin_chain_def AuthMiddleware_def AdminMiddleware_def GetKey_def Let_def split_beta)
  moreover have "extract_key (Some (LookupSession later)) rq (HandleLogout (Some t) ss') = ([], HandleLogout (Some t) ss')"
    using assms(2,5,6) by (simp add: extract_key_def LookupSession_def HandleLogout_def RevokeSession_def)
  then have "fst (admin_chain False (Some (LookupSession later)) am rq (HandleLogout (Some t) ss')) \<noteq> Pass ck"
    using assms(4) by (auto simp: admin_chain_def AuthMiddleware_def Let_def)
  ultimately show ?thesis using v k(1) by blast
qed

theorem login_session_lifecycle_witness:
  "Valid ex_admins (TrimSpace (the (Some ''gw-1'')))
     \<and> fst (admin_chain False (Some (LookupSession hour)) ex_admins \<lparr>rq_path = ''/api/keys'', rq_auth = [], rq_accept = [], rq_cookie = Some ''t''\<rparr>
          (snd (HandleLogin (Inr ''t'') 0 (Some ''gw-1'') ex_admins Map.empty))) = Pass (Some (TrimSpace (the (Some ''gw-1''))))
     \<and> fst (admin_chain False (Some (LookupSession hour)) ex_admins \<lparr>rq_path = ''/api/keys'', rq_auth = [], rq_accept = [], rq_cookie = Some ''t''\<rparr>
          (HandleLogout (Some ''t'') (snd (HandleLogin (Inr ''t'') 0 (Some ''gw-1'') ex_admins Map.empty)))) \<noteq> Pass None"
proof (rule login_session_lifecycle)
  have t: "TrimSpace ''gw-1'' = ''gw-1''" by code_simp
  show "HandleLogin (Inr ''t'') 0 (Some ''gw-1'') ex_admins Map.empty
      = (LoggedIn ''t'', snd (HandleLogin (Inr ''t'') 0 (Some ''gw-1'') ex_admins Map.empty))"
    by (simp add: HandleLogin_def Let_def t Valid_def ex_admins_def GetKey_def ex_info_def bootstrap_info_def RoleAdmin_def CreateSession_def)
  show "TrimSpace (the (Some ''gw-1'')) \<noteq> []" by (simp add: t)
qed (simp_all add: public_paths_def SessionTTL_def hour_def minute_def second_def)

end
