(* ===== verification/Encoding.thy ===== *)
theory Encoding
  imports Fox_Prelude
begin

text \<open>
  The identifiers and credentials the gateway makes out of random bytes: \<^verbatim>\<open>encoding/hex\<close> and the raw
  URL-safe \<^verbatim>\<open>encoding/base64\<close> of the Go library, and the generators built on them in
  \<^verbatim>\<open>internal/auth/auth.go\<close>, \<^verbatim>\<open>internal/proxy/pool.go\<close> and \<^verbatim>\<open>internal/handlers/anthropic.go\<close>.

  The source of randomness is an argument: \<open>rand n\<close> is what \<^verbatim>\<open>crypto/rand.Read\<close> does to a buffer of \<open>n\<close>
  bytes, an error or the bytes; \<open>fills rand\<close> says that it fills the buffer.
\<close>

subsection \<open>Alphabets\<close>

definition position :: "'a list \<Rightarrow> 'a \<Rightarrow> nat" where
  "position xs c = length (takeWhile (\<lambda>d. d \<noteq> c) xs)"

lemma position_nth: "distinct xs \<Longrightarrow> i < length xs \<Longrightarrow> position xs (xs ! i) = i"
proof (induction xs arbitrary: i)
  case (Cons x xs)
  then show ?case by (cases i) (auto simp: position_def)
qed simp

type_synonym bytes = "8 word list"

lemma unat_byte: "unat (b :: 8 word) < 256"
  using unsigned_less [of b, where ?'a = nat] by simp

lemma word_of_byte: "word_of_nat (unat (b :: 8 word)) = b"
  by simp

subsection \<open>Hexadecimal\<close>

definition hex_digits :: string where
  "hex_digits = ''0123456789abcdef''"

definition hex_byte :: "8 word \<Rightarrow> string" where
  "hex_byte b = [hex_digits ! (unat b div 16), hex_digits ! (unat b mod 16)]"

definition hex_EncodeToString :: "bytes \<Rightarrow> string" where
  "hex_EncodeToString bs = concat (map hex_byte bs)"

fun hex_decode :: "string \<Rightarrow> bytes" where
  "hex_decode (h # l # r) = word_of_nat (16 * position hex_digits h + position hex_digits l) # hex_decode r"
| "hex_decode _ = []"

lemma hex_digits_facts: "distinct hex_digits" "length hex_digits = 16"
  by (simp_all add: hex_digits_def)

lemma nibbles: "unat (b :: 8 word) div 16 < 16" "unat b mod 16 < 16"
  using unat_byte [of b] by (auto simp: div_less_iff_less_mult)

lemma hex_length [simp]: "length (hex_EncodeToString bs) = 2 * length bs"
  by (induction bs) (simp_all add: hex_EncodeToString_def hex_byte_def)

lemma hex_alphabet: "set (hex_EncodeToString bs) \<subseteq> set hex_digits"
  using nibbles by (auto simp: hex_EncodeToString_def hex_byte_def hex_digits_facts intro!: nth_mem)

lemma hex_decode_encode: "hex_decode (hex_EncodeToString bs) = bs"
proof (induction bs)
  case (Cons b bs)
  have "16 * (unat b div 16) + unat b mod 16 = unat b" by simp
  then show ?case
    using Cons by (simp add: hex_EncodeToString_def hex_byte_def position_nth hex_digits_facts nibbles)
qed (simp add: hex_EncodeToString_def)

lemma hex_inj: "hex_EncodeToString a = hex_EncodeToString b \<longleftrightarrow> a = b"
  by (metis hex_decode_encode)

subsection \<open>Raw URL-safe base 64\<close>

definition url_alphabet :: string where
  "url_alphabet = ''ABCDEFGHIJKLMNOPQRSTUVWXYZabcdefghijklmnopqrstuvwxyz0123456789-_''"

definition sextet :: "nat \<Rightarrow> nat \<Rightarrow> char" where
  "sextet v k = url_alphabet ! (v div 2 ^ k mod 64)"

fun base64url :: "bytes \<Rightarrow> string" where
  "base64url (a # b # c # r) =
     (let v = unat a * 65536 + unat b * 256 + unat c in [sextet v 18, sextet v 12, sextet v 6, sextet v 0] @ base64url r)"
| "base64url [a, b] = (let v = unat a * 65536 + unat b * 256 in [sextet v 18, sextet v 12, sextet v 6])"
| "base64url [a] = (let v = unat a * 65536 in [sextet v 18, sextet v 12])"
| "base64url [] = []"

definition url_value :: "char \<Rightarrow> nat" where
  "url_value c = position url_alphabet c"

fun base64url_decode :: "string \<Rightarrow> bytes" where
  "base64url_decode (p # q # r # s # t) =
     (let v = url_value p * 262144 + url_value q * 4096 + url_value r * 64 + url_value s
      in [word_of_nat (v div 65536), word_of_nat (v div 256 mod 256), word_of_nat (v mod 256)] @ base64url_decode t)"
| "base64url_decode [p, q, r] =
     (let v = url_value p * 262144 + url_value q * 4096 + url_value r * 64 in [word_of_nat (v div 65536), word_of_nat (v div 256 mod 256)])"
| "base64url_decode [p, q] = (let v = url_value p * 262144 + url_value q * 4096 in [word_of_nat (v div 65536)])"
| "base64url_decode _ = []"

lemma url_alphabet_facts: "distinct url_alphabet" "length url_alphabet = 64"
  by (code_simp, simp add: url_alphabet_def)

lemma url_value_sextet [simp]: "url_value (sextet v k) = v div 2 ^ k mod 64"
  by (simp add: url_value_def sextet_def position_nth url_alphabet_facts)

lemma sextet_in: "sextet v k \<in> set url_alphabet"
  by (simp add: sextet_def url_alphabet_facts)

lemma base64url_alphabet: "set (base64url bs) \<subseteq> set url_alphabet"
  by (induction bs rule: base64url.induct) (auto simp: Let_def sextet_in)

lemma base64url_length: "length (base64url bs) = (4 * length bs + 2) div 3"
  by (induction bs rule: base64url.induct) (auto simp: Let_def)

lemma sextets:
  assumes "(v :: nat) < 16777216"
  shows "v div 262144 mod 64 * 262144 + v div 4096 mod 64 * 4096 + v div 64 mod 64 * 64 + v mod 64 = v"
proof -
  have q: "v div 4096 = v div 64 div 64" "v div 262144 = v div 64 div 64 div 64" by (simp_all add: div_mult2_eq [symmetric])
  have "v div 262144 < 64" using assms by (simp add: div_less_iff_less_mult)
  then have "v div 262144 mod 64 = v div 64 div 64 div 64" using q by simp
  then show ?thesis
    unfolding q(1) using div_mult_mod_eq [of v 64] div_mult_mod_eq [of "v div 64" 64] div_mult_mod_eq [of "v div 64 div 64" 64] by linarith
qed

lemma sextet_values:
  "url_value (sextet v 18) = v div 262144 mod 64" "url_value (sextet v 12) = v div 4096 mod 64"
  "url_value (sextet v 6) = v div 64 mod 64" "url_value (sextet v 0) = v mod 64"
  by simp_all

text \<open>Decoding a group gives back the three bytes of its value; a short group has no bits below its last character.\<close>

lemma decode_groups:
  assumes "v < 16777216"
  shows "base64url_decode (sextet v 18 # sextet v 12 # sextet v 6 # sextet v 0 # t)
           = word_of_nat (v div 65536) # word_of_nat (v div 256 mod 256) # word_of_nat (v mod 256) # base64url_decode t"
    and "v mod 64 = 0 \<Longrightarrow> base64url_decode [sextet v 18, sextet v 12, sextet v 6] = [word_of_nat (v div 65536), word_of_nat (v div 256 mod 256)]"
    and "v mod 4096 = 0 \<Longrightarrow> base64url_decode [sextet v 18, sextet v 12] = [word_of_nat (v div 65536)]"
proof -
  note s = sextets [OF assms]
  then show "base64url_decode (sextet v 18 # sextet v 12 # sextet v 6 # sextet v 0 # t)
           = word_of_nat (v div 65536) # word_of_nat (v div 256 mod 256) # word_of_nat (v mod 256) # base64url_decode t"
    by (simp only: base64url_decode.simps Let_def sextet_values append.simps)
  show "base64url_decode [sextet v 18, sextet v 12, sextet v 6] = [word_of_nat (v div 65536), word_of_nat (v div 256 mod 256)]" if "v mod 64 = 0"
    using s that by (simp only: base64url_decode.simps Let_def sextet_values add_0_right)
  show "base64url_decode [sextet v 18, sextet v 12] = [word_of_nat (v div 65536)]" if z: "v mod 4096 = 0"
  proof -
    have "v mod (64 * 64) = 64 * (v div 64 mod 64) + v mod 64" by (rule mod_mult2_eq)
    then have "v div 64 mod 64 = 0" "v mod 64 = 0" using z by simp_all
    with s show ?thesis by (simp only: base64url_decode.simps Let_def sextet_values add_0_right mult_zero_left)
  qed
qed

lemma octets:
  assumes "a < 256" and "b < 256" and "c < (256 :: nat)"
  shows "(a * 65536 + b * 256 + c) div 65536 = a \<and> (a * 65536 + b * 256 + c) div 256 mod 256 = b
    \<and> (a * 65536 + b * 256 + c) mod 256 = c \<and> a * 65536 + b * 256 + c < 16777216"
proof -
  have v: "a * 65536 + b * 256 + c = c + 256 * (b + 256 * a)" by simp
  have "(a * 65536 + b * 256 + c) div 256 = b + 256 * a" using assms unfolding v by simp
  moreover have "(b + 256 * a) div 256 = a" "(b + 256 * a) mod 256 = b" using assms by simp_all
  moreover have "(a * 65536 + b * 256 + c) div 65536 = (a * 65536 + b * 256 + c) div 256 div 256" by (simp add: div_mult2_eq [symmetric])
  moreover have "(a * 65536 + b * 256 + c) mod 256 = c" unfolding v using assms by (simp only: mod_mult_self2 mod_less)
  ultimately show ?thesis using assms by simp
qed

lemmas byte_octets = octets [OF unat_byte unat_byte unat_byte]

lemma base64url_decode_encode: "base64url_decode (base64url bs) = bs"
proof (induction bs rule: base64url.induct)
  case (1 a b c r)
  have "base64url (a # b # c # r) = (let v = unat a * 65536 + unat b * 256 + unat c in sextet v 18 # sextet v 12 # sextet v 6 # sextet v 0 # base64url r)"
    by (simp only: base64url.simps append.simps)
  then show ?case using 1 byte_octets [of a b c] by (simp only: Let_def decode_groups word_of_byte)
next
  case (2 a b)
  have "unat a * 65536 + unat b * 256 = 64 * (1024 * unat a + 4 * unat b)" by simp
  then have "(unat a * 65536 + unat b * 256) mod 64 = 0" by (metis mod_mult_self1_is_0)
  then show ?case using byte_octets [of a b 0] by (simp only: base64url.simps Let_def decode_groups word_of_byte unat_0 add_0_right)
next
  case (3 a)
  have "unat a * 65536 = 4096 * (16 * unat a)" by simp
  then have "unat a * 65536 mod 4096 = 0" by (metis mod_mult_self1_is_0)
  then show ?case using byte_octets [of a 0 0]
    by (simp only: base64url.simps Let_def decode_groups word_of_byte unat_0 add_0_right mult_zero_left)
qed simp

lemma base64url_inj: "base64url a = base64url b \<longleftrightarrow> a = b"
  by (metis base64url_decode_encode)

subsection \<open>Generators\<close>

text \<open>The outcome of code that may end the process with \<^verbatim>\<open>os.Exit\<close>.\<close>

datatype 'a process = Exit int | Proceed 'a

type_synonym rand_source = "nat \<Rightarrow> go_error + bytes"

definition fills :: "rand_source \<Rightarrow> bool" where
  "fills rand \<longleftrightarrow> (\<forall>n b. rand n = Inr b \<longrightarrow> length b = n)"

definition GenerateRandomKey :: "rand_source \<Rightarrow> nat \<Rightarrow> string process" where
  "GenerateRandomKey rand n = (case rand n of Inl _ \<Rightarrow> Exit 1 | Inr b \<Rightarrow> Proceed (hex_EncodeToString b))"

definition GenerateGatewayKey :: "rand_source \<Rightarrow> string process" where
  "GenerateGatewayKey rand = (case rand 24 of Inl _ \<Rightarrow> Exit 1 | Inr b \<Rightarrow> Proceed (''gw-'' @ base64url b))"

definition newProxyID :: "rand_source \<Rightarrow> go_error + string" where
  "newProxyID rand = (case rand 4 of Inl e \<Rightarrow> Inl e | Inr b \<Rightarrow> Inr (hex_EncodeToString b))"

text \<open>The token of a new session; the caller wraps the error.\<close>

definition newSessionToken :: "rand_source \<Rightarrow> go_error + string" where
  "newSessionToken rand = (case rand 32 of Inl e \<Rightarrow> Inl e | Inr b \<Rightarrow> Inr (hex_EncodeToString b))"

text \<open>The error is dropped: the array then still has its zeros.\<close>

definition genMsgID :: "rand_source \<Rightarrow> string" where
  "genMsgID rand = ''msg_'' @ hex_EncodeToString (case rand 12 of Inl _ \<Rightarrow> replicate 12 0 | Inr b \<Rightarrow> b)"

subsection \<open>The form of what is generated\<close>

definition hex_string :: "nat \<Rightarrow> string \<Rightarrow> bool" where
  "hex_string n s \<longleftrightarrow> length s = n \<and> set s \<subseteq> set hex_digits"

definition gateway_key :: "string \<Rightarrow> bool" where
  "gateway_key k \<longleftrightarrow> length k = 35 \<and> prefix ''gw-'' k \<and> set k \<subseteq> set url_alphabet"

lemma hex_string_encode: "hex_string n (hex_EncodeToString b) \<longleftrightarrow> 2 * length b = n"
  using hex_alphabet by (simp add: hex_string_def)

lemma fillsD: "fills rand \<Longrightarrow> rand n = Inr b \<Longrightarrow> length b = n"
  by (simp add: fills_def)

lemma gateway_key_base64: "length b = 24 \<Longrightarrow> gateway_key (''gw-'' @ base64url b)"
  using base64url_alphabet [of b] by (simp add: gateway_key_def base64url_length url_alphabet_def)

lemma Generated_key: "fills rand \<Longrightarrow> GenerateGatewayKey rand = Proceed k \<Longrightarrow> gateway_key k"
  by (auto simp: GenerateGatewayKey_def split: sum.splits intro!: gateway_key_base64 dest: fillsD simp del: append_Cons append.simps)

lemma Generated_proxy_id: "fills rand \<Longrightarrow> newProxyID rand = Inr i \<Longrightarrow> hex_string 8 i"
  by (auto simp: newProxyID_def hex_string_encode split: sum.splits dest: fillsD)

lemma Generated_token: "fills rand \<Longrightarrow> newSessionToken rand = Inr t \<Longrightarrow> hex_string 64 t"
  by (auto simp: newSessionToken_def hex_string_encode split: sum.splits dest: fillsD)

text \<open>A proxy identifier is none of the names that share its key prefix in Redis.\<close>

lemma proxy_id_reserved: "hex_string 8 i \<Longrightarrow> i \<notin> {[], ''enabled'', ''rr''}"
  by (auto simp: hex_string_def)

end
