(* ===== verification/Server.thy ===== *)
theory Server
  imports KeyAdmin Messages Encoding
begin

text \<open>
  The server put together in \<^verbatim>\<open>main.go\<close>: the middlewares every request passes, in their order, the route
  table with the guards of each endpoint, and the middlewares of \<^verbatim>\<open>internal/ratelimit/ratelimit.go\<close> that
  set headers and wrap the writer.

  The router is gin's and therefore an argument, \<open>rt\<close>; what is relied on is in \<open>gin_router\<close>: it returns
  a route of the table with the method of the request and a pattern the path matches, and one whenever
  there is one. A parameter of a pattern stands for one segment that is not empty, a catch-all for the
  rest. What gin does on its own, redirecting a path with a superfluous slash, is not modelled. An
  endpoint is named after its handler, which the other theories model.
\<close>

subsection \<open>Requests\<close>

record http_request =
  hq_method :: string
  hq_base :: request
  hq_host :: string
  hq_origin :: string
  hq_referer :: string
  hq_api_key :: string
  hq_accept_encoding :: string
  hq_request_id :: string
  hq_ip :: string

text \<open>What the cross-origin guard sees; the \<^verbatim>\<open>Authorization\<close> header may have been set by a middleware before.\<close>

definition csrf_view :: "http_request \<Rightarrow> request \<Rightarrow> csrf_request" where
  "csrf_view hq rq =
     \<lparr>cq_method = hq_method hq, cq_has_cookie = (rq_cookie rq \<noteq> None), cq_auth = rq_auth rq, cq_host = hq_host hq,
      cq_origin = hq_origin hq, cq_referer = hq_referer hq\<rparr>"

subsection \<open>Header middlewares\<close>

definition RequestIDMiddleware :: "string \<Rightarrow> bytes option \<Rightarrow> string" where
  "RequestIDMiddleware inbound rand =
     (if inbound \<noteq> [] then inbound
      else case rand of None \<Rightarrow> ''0000000000000000'' | Some b \<Rightarrow> hex_EncodeToString b)"

definition quoted :: "string \<Rightarrow> string" where
  "quoted s = CHR 0x27 # s @ [CHR 0x27]"

definition SecurityHeadersMiddleware :: "(string \<times> string) list" where
  "SecurityHeadersMiddleware =
     [(''X-Content-Type-Options'', ''nosniff''), (''X-Frame-Options'', ''DENY''), (''Referrer-Policy'', ''no-referrer''),
      (''Content-Security-Policy'',
         ''default-src '' @ quoted ''self'' @ ''; script-src '' @ quoted ''self'' @ '' '' @ quoted ''unsafe-inline''
         @ ''; style-src '' @ quoted ''self'' @ '' '' @ quoted ''unsafe-inline'' @ '' https://fonts.googleapis.com; font-src ''
         @ quoted ''self'' @ '' https://fonts.gstatic.com; connect-src '' @ quoted ''self'' @ ''; img-src '' @ quoted ''self''
         @ '' data:; frame-ancestors '' @ quoted ''none'')]"

definition GzipMiddleware :: "http_request \<Rightarrow> bool" where
  "GzipMiddleware hq \<longleftrightarrow>
     (if \<not> contains ''gzip'' (hq_accept_encoding hq) then False
      else if contains ''text/event-stream'' (rq_accept (hq_base hq)) then False
      else rq_path (hq_base hq) \<noteq> ''/v1/chat/completions'')"

definition gzip_headers :: "http_request \<Rightarrow> (string \<times> string) list" where
  "gzip_headers hq = (if GzipMiddleware hq then [(''Content-Encoding'', ''gzip''), (''Vary'', ''Accept-Encoding'')] else [])"

subsection \<open>Routes\<close>

datatype endpoint =
    ListKeys | CreateKey | DeleteKey | UpdateKey | KeyUsage | Dashboard | LoginForm | LoginPost | Logout | HealthFull | HealthMinimal | Metrics
  | Accounts | CBStats | RefreshAll | ImportAccount | ImportAccountBulk | ImportCBKey | ImportCBKeyBulk | DeleteAccountE | DeleteCBKeyE
  | CleanupDisabledE | CleanupBannedE | History | RecentRequests | HistoryDetail | ListCustomModels | AddCustomModel | DeleteCustomModelE
  | ListAliases | AddAliasE | DeleteAliasE | ListCombos | AddComboE | GetComboE | DeleteComboE | ListProxies | AddProxy | UpdateProxy
  | DeleteProxyE | ToggleProxy | TestProxy | TunnelStatus | TunnelEnable | TunnelDisable | TunnelRestart | V1 | Index

datatype guard = NeedsOrigin | NeedsAdmin | LoginRate

type_synonym route_entry = "string \<times> string \<times> guard list \<times> endpoint"

text \<open>\<^verbatim>\<open>r.Any\<close> registers a route for these methods.\<close>

definition any_methods :: "string list" where
  "any_methods = [''GET'', ''POST'', ''PUT'', ''PATCH'', ''HEAD'', ''OPTIONS'', ''DELETE'', ''CONNECT'', ''TRACE'']"

definition routes :: "route_entry list" where
  "routes =
     [(''GET'', ''/api/keys'', [NeedsAdmin], ListKeys),
      (''POST'', ''/api/keys'', [NeedsOrigin, NeedsAdmin], CreateKey),
      (''DELETE'', ''/api/keys/:key'', [NeedsOrigin, NeedsAdmin], DeleteKey),
      (''PUT'', ''/api/keys/:key'', [NeedsOrigin, NeedsAdmin], UpdateKey),
      (''GET'', ''/api/keys/:key/usage'', [NeedsAdmin], KeyUsage),
      (''GET'', ''/dashboard'', [], Dashboard),
      (''GET'', ''/login'', [], LoginForm),
      (''POST'', ''/login'', [LoginRate], LoginPost),
      (''GET'', ''/logout'', [], Logout),
      (''GET'', ''/health'', [], HealthFull),
      (''HEAD'', ''/health'', [], HealthMinimal),
      (''GET'', ''/metrics'', [], Metrics),
      (''GET'', ''/accounts'', [NeedsAdmin], Accounts),
      (''GET'', ''/cb-stats'', [NeedsAdmin], CBStats),
      (''POST'', ''/accounts/refresh'', [NeedsOrigin, NeedsAdmin], RefreshAll),
      (''POST'', ''/accounts/import'', [NeedsOrigin, NeedsAdmin], ImportAccount),
      (''POST'', ''/accounts/import/bulk'', [NeedsOrigin, NeedsAdmin], ImportAccountBulk),
      (''POST'', ''/cb/import'', [NeedsOrigin, NeedsAdmin], ImportCBKey),
      (''POST'', ''/cb/import/bulk'', [NeedsOrigin, NeedsAdmin], ImportCBKeyBulk),
      (''DELETE'', ''/accounts/:email'', [NeedsOrigin, NeedsAdmin], DeleteAccountE),
      (''DELETE'', ''/cb/keys/:key'', [NeedsOrigin, NeedsAdmin], DeleteCBKeyE),
      (''POST'', ''/cleanup/disabled'', [NeedsOrigin, NeedsAdmin], CleanupDisabledE),
      (''POST'', ''/cleanup/banned'', [NeedsOrigin, NeedsAdmin], CleanupBannedE),
      (''GET'', ''/history'', [NeedsAdmin], History),
      (''GET'', ''/history/recent'', [NeedsAdmin], RecentRequests),
      (''GET'', ''/history/detail/:id'', [NeedsAdmin], HistoryDetail),
      (''GET'', ''/api/models/custom'', [NeedsAdmin], ListCustomModels),
      (''POST'', ''/api/models/custom'', [NeedsOrigin, NeedsAdmin], AddCustomModel),
      (''DELETE'', ''/api/models/custom/*id'', [NeedsOrigin, NeedsAdmin], DeleteCustomModelE),
      (''GET'', ''/api/aliases'', [NeedsAdmin], ListAliases),
      (''POST'', ''/api/aliases'', [NeedsOrigin, NeedsAdmin], AddAliasE),
      (''DELETE'', ''/api/aliases/*alias'', [NeedsOrigin, NeedsAdmin], DeleteAliasE),
      (''GET'', ''/api/combos'', [NeedsAdmin], ListCombos),
      (''POST'', ''/api/combos'', [NeedsOrigin, NeedsAdmin], AddComboE),
      (''GET'', ''/api/combos/*name'', [NeedsAdmin], GetComboE),
      (''DELETE'', ''/api/combos/*name'', [NeedsOrigin, NeedsAdmin], DeleteComboE),
      (''GET'', ''/api/proxies'', [NeedsAdmin], ListProxies),
      (''POST'', ''/api/proxies'', [NeedsOrigin, NeedsAdmin], AddProxy),
      (''PUT'', ''/api/proxies/:id'', [NeedsOrigin, NeedsAdmin], UpdateProxy),
      (''DELETE'', ''/api/proxies/:id'', [NeedsOrigin, NeedsAdmin], DeleteProxyE),
      (''POST'', ''/api/proxies/:id/toggle'', [NeedsOrigin, NeedsAdmin], ToggleProxy),
      (''POST'', ''/api/proxies/:id/test'', [NeedsOrigin, NeedsAdmin], TestProxy),
      (''GET'', ''/api/tunnel/status'', [NeedsAdmin], TunnelStatus),
      (''POST'', ''/api/tunnel/enable'', [NeedsOrigin, NeedsAdmin], TunnelEnable),
      (''POST'', ''/api/tunnel/disable'', [NeedsOrigin, NeedsAdmin], TunnelDisable),
      (''POST'', ''/api/tunnel/restart'', [NeedsOrigin, NeedsAdmin], TunnelRestart)]
     @ map (\<lambda>m. (m, ''/v1/*path'', [], V1)) any_methods
     @ [(''GET'', ''/'', [], Index)]"

text \<open>The handler of the catch-all: the Messages adapter or the proxy.\<close>

definition v1_is_messages :: "http_request \<Rightarrow> bool" where
  "v1_is_messages hq \<longleftrightarrow> rq_path (hq_base hq) = ''/v1/messages'' \<and> hq_method hq = ''POST''"

fun seg_match :: "string list \<Rightarrow> string list \<Rightarrow> bool" where
  "seg_match [] xs = (xs = [])"
| "seg_match (p # ps) [] = False"
| "seg_match (p # ps) (x # xs) =
     (if prefix ''*'' p then True else if prefix '':'' p then x \<noteq> [] \<and> seg_match ps xs else p = x \<and> seg_match ps xs)"

definition path_match :: "string \<Rightarrow> string \<Rightarrow> bool" where
  "path_match pat path = seg_match (split_at CHR ''/'' pat) (split_at CHR ''/'' path)"

definition route_fits :: "string \<Rightarrow> string \<Rightarrow> route_entry \<Rightarrow> bool" where
  "route_fits m path = (\<lambda>(rm, pat, gs, e). rm = m \<and> path_match pat path)"

definition gin_router :: "(string \<Rightarrow> string \<Rightarrow> route_entry option) \<Rightarrow> bool" where
  "gin_router rt \<longleftrightarrow>
     (\<forall>m path. case rt m path of
                 Some r \<Rightarrow> r \<in> set routes \<and> route_fits m path r
               | None \<Rightarrow> \<not> (\<exists>r \<in> set routes. route_fits m path r))"

subsection \<open>Serving a request\<close>

record server =
  sv_keys :: Manager
  sv_sessions :: SessionStore
  sv_limiter :: Limiter
  sv_logins :: loginLimiter

datatype verdict = Reached endpoint "string option" | Stopped int | LoginRedirect | NotFound

record served =
  sr_headers :: "(string \<times> string) list"
  sr_compressed :: bool
  sr_verdict :: verdict

definition run_guard :: "bool \<Rightarrow> gotime \<Rightarrow> http_request \<Rightarrow> request \<Rightarrow> string option \<Rightarrow> guard \<Rightarrow> server \<Rightarrow> verdict option \<times> server" where
  "run_guard authDisabled now hq rq ck g sv =
     (case g of
        NeedsOrigin \<Rightarrow> (if csrfGuard (csrf_view hq rq) then None else Some (Stopped 403), sv)
      | NeedsAdmin \<Rightarrow>
          (case AdminMiddleware authDisabled (sv_keys sv) ck of
             Pass _ \<Rightarrow> None | Abort st _ \<Rightarrow> Some (Stopped st) | ToLogin _ \<Rightarrow> Some LoginRedirect, sv)
      | LoginRate \<Rightarrow>
          (let (ok, l) = login_attempt now (hq_ip hq) (sv_logins sv)
           in (if ok then None else Some (Stopped 429), sv\<lparr>sv_logins := l\<rparr>)))"

fun run_guards :: "bool \<Rightarrow> gotime \<Rightarrow> http_request \<Rightarrow> request \<Rightarrow> string option \<Rightarrow> guard list \<Rightarrow> server \<Rightarrow> verdict option \<times> server" where
  "run_guards d now hq rq ck [] sv = (None, sv)"
| "run_guards d now hq rq ck (g # gs) sv =
     (case run_guard d now hq rq ck g sv of
        (Some v, sv') \<Rightarrow> (Some v, sv')
      | (None, sv') \<Rightarrow> run_guards d now hq rq ck gs sv')"

definition route_request ::
  "(string \<Rightarrow> string \<Rightarrow> route_entry option) \<Rightarrow> bool \<Rightarrow> gotime \<Rightarrow> http_request \<Rightarrow> request \<Rightarrow> string option \<Rightarrow> server \<Rightarrow> verdict \<times> server" where
  "route_request rt d now hq rq ck sv =
     (case rt (hq_method hq) (rq_path rq) of
        None \<Rightarrow> (NotFound, sv)
      | Some (_, _, gs, e) \<Rightarrow>
          (case run_guards d now hq rq ck gs sv of
             (Some v, sv') \<Rightarrow> (v, sv')
           | (None, sv') \<Rightarrow> (Reached e ck, sv')))"

definition pass_chain ::
  "(string \<Rightarrow> string \<Rightarrow> route_entry option) \<Rightarrow> bool \<Rightarrow> gotime \<Rightarrow> http_request \<Rightarrow> server \<Rightarrow> verdict \<times> server" where
  "pass_chain rt d now hq sv =
     (let rq = AnthropicAuthMiddleware (hq_api_key hq) (hq_base hq)
      in case AuthMiddleware d (Some (LookupSession now)) (sv_keys sv) rq (sv_sessions sv) of
           (Abort st _, ss) \<Rightarrow> (Stopped st, sv\<lparr>sv_sessions := ss\<rparr>)
         | (ToLogin _, ss) \<Rightarrow> (LoginRedirect, sv\<lparr>sv_sessions := ss\<rparr>)
         | (Pass ck, ss) \<Rightarrow>
             (let (ok, rl) = Middleware (Some (LookupKey (sv_keys sv))) now (rq_path rq) (hq_ip hq) ck (sv_limiter sv);
                  sv' = sv\<lparr>sv_sessions := ss, sv_limiter := rl\<rparr>
              in if ok then route_request rt d now hq rq ck sv' else (Stopped 429, sv')))"

definition serve ::
  "(string \<Rightarrow> string \<Rightarrow> route_entry option) \<Rightarrow> bool \<Rightarrow> gotime \<Rightarrow> 8 word list option \<Rightarrow> http_request \<Rightarrow> server \<Rightarrow> served \<times> server" where
  "serve rt d now rand hq sv =
     (let (v, sv') = pass_chain rt d now hq sv
      in (\<lparr>sr_headers = (''X-Request-ID'', RequestIDMiddleware (hq_request_id hq) rand) # SecurityHeadersMiddleware @ gzip_headers hq,
           sr_compressed = GzipMiddleware hq, sr_verdict = v\<rparr>, sv'))"

text \<open>The server \<^verbatim>\<open>main\<close> starts: 60 requests per minute with bursts of 10.\<close>

definition new_server :: "Manager \<Rightarrow> server" where
  "new_server keys = \<lparr>sv_keys = keys, sv_sessions = Map.empty, sv_limiter = NewLimiter 60 10 minute, sv_logins = Map.empty\<rparr>"

subsection \<open>The route table\<close>

definition is_public :: "endpoint \<Rightarrow> bool" where
  "is_public e \<longleftrightarrow> e \<in> set [Dashboard, LoginForm, LoginPost, Logout, HealthFull, HealthMinimal, Metrics, Index]"

definition well_guarded :: "route_entry \<Rightarrow> bool" where
  "well_guarded = (\<lambda>(m, pat, gs, e). is_public e \<or> (if e = V1 then pat = ''/v1/*path'' else NeedsAdmin \<in> set gs \<and> (m = ''GET'' \<or> NeedsOrigin \<in> set gs)))"

lemma routes_well_guarded: "list_all well_guarded routes"
  by (simp add: routes_def any_methods_def well_guarded_def is_public_def)

lemma routes_login: "list_all (\<lambda>(m, pat, gs, e). is_public e \<or> LoginRate \<notin> set gs) routes"
  by (simp add: routes_def any_methods_def is_public_def)

lemma v1_not_public: "list_all (\<lambda>p. \<not> path_match ''/v1/*path'' p) public_paths"
  by (simp add: public_paths_def path_match_def)

text \<open>Two patterns that no path matches both.\<close>

fun seg_apart :: "string list \<Rightarrow> string list \<Rightarrow> bool" where
  "seg_apart [] qs = (qs \<noteq> [])"
| "seg_apart (p # ps) [] = True"
| "seg_apart (p # ps) (q # qs) =
     (if prefix ''*'' p \<or> prefix ''*'' q then False
      else if prefix '':'' p \<or> prefix '':'' q then seg_apart ps qs else p \<noteq> q \<or> seg_apart ps qs)"

lemma seg_apart_sound: "seg_apart ps qs \<Longrightarrow> seg_match ps xs \<Longrightarrow> \<not> seg_match qs xs"
proof (induction ps qs arbitrary: xs rule: seg_apart.induct)
  case (1 qs)
  then show ?case by (cases qs) auto
next
  case (2 p ps)
  then show ?case by (cases xs) auto
next
  case (3 p ps q qs)
  then show ?case by (cases xs) (auto split: if_splits)
qed

fun table_apart :: "(string \<times> string list) list \<Rightarrow> bool" where
  "table_apart [] = True"
| "table_apart ((m, ps) # rs) = (list_all (\<lambda>(m', qs). m' \<noteq> m \<or> seg_apart ps qs) rs \<and> table_apart rs)"

definition route_key :: "route_entry \<Rightarrow> string \<times> string list" where
  "route_key = (\<lambda>(m, pat, gs, e). (m, split_at CHR ''/'' pat))"

lemma routes_apart: "table_apart (map route_key routes)"
  by code_simp

lemma table_apart_unique:
  "table_apart (map route_key rs) \<Longrightarrow> r \<in> set rs \<Longrightarrow> r' \<in> set rs \<Longrightarrow> route_fits m path r \<Longrightarrow> route_fits m path r' \<Longrightarrow> r = r'"
proof (induction rs)
  case (Cons x rs)
  have key: "route_fits m path y \<longleftrightarrow> fst (route_key y) = m \<and> seg_match (snd (route_key y)) (split_at CHR ''/'' path)" for y
    by (cases y) (auto simp: route_fits_def path_match_def route_key_def)
  obtain xm xs where x: "route_key x = (xm, xs)" by fastforce
  have away: "\<not> route_fits m path y" if "y \<in> set rs" "route_fits m path x" for y
  proof -
    obtain ym ys where y: "route_key y = (ym, ys)" by fastforce
    have "ym \<noteq> xm \<or> seg_apart xs ys" using Cons.prems(1) that(1) x y by (force simp: list_all_iff)
    then show ?thesis using that(2) seg_apart_sound [of xs ys] by (auto simp: key x y)
  qed
  have tail: "table_apart (map route_key rs)" using Cons.prems(1) by (simp add: x)
  consider "r = x" "r' = x" | "r = x" "r' \<in> set rs" | "r \<in> set rs" "r' = x" | "r \<in> set rs" "r' \<in> set rs" using Cons.prems(2,3) by auto
  then show ?case using Cons.prems(4,5) away [of r'] away [of r] Cons.IH [OF tail] by cases simp_all
qed simp

lemma gin_router_cases:
  assumes "gin_router rt"
  shows "rt m path = Some r \<Longrightarrow> r \<in> set routes \<and> route_fits m path r"
    and "rt m path = None \<Longrightarrow> find (route_fits m path) routes = None"
proof -
  have c: "case rt m path of Some r \<Rightarrow> r \<in> set routes \<and> route_fits m path r | None \<Rightarrow> \<not> (\<exists>r \<in> set routes. route_fits m path r)"
    using assms unfolding gin_router_def by blast
  show "rt m path = Some r \<Longrightarrow> r \<in> set routes \<and> route_fits m path r" using c by (simp only: option.case)
  show "rt m path = None \<Longrightarrow> find (route_fits m path) routes = None" using c by (simp only: option.case find_None_iff) blast
qed

lemma routing_eq:
  assumes "gin_router rt"
  shows "rt m path = find (route_fits m path) routes"
proof (cases "rt m path")
  case None
  then show ?thesis using gin_router_cases(2) [OF assms None] by simp
next
  case (Some r)
  have r: "r \<in> set routes" "route_fits m path r" using gin_router_cases(1) [OF assms Some] by blast+
  then obtain r' where r': "find (route_fits m path) routes = Some r'"
    using find_None_iff [of "route_fits m path" routes] by (cases "find (route_fits m path) routes") blast+
  then have "r' \<in> set routes" "route_fits m path r'" unfolding find_Some_iff by auto
  then show ?thesis using table_apart_unique [OF routes_apart r(1) _ r(2)] r' Some by simp
qed

text \<open>
  No path matches two routes of one method. What the router does is therefore fixed by what is relied on,
  in whatever order it tries the routes: it finds the first match of the table.
\<close>

theorem routing_determined:
  assumes "gin_router rt"
  shows "rt m path = find (route_fits m path) routes"
  by (rule routing_eq [OF assms])

lemma table_router: "gin_router (\<lambda>m path. find (route_fits m path) routes)"
  by (auto simp: gin_router_def find_None_iff find_Some_iff split: option.split)

lemma find_SomeD: "find P xs = Some x \<Longrightarrow> x \<in> set xs \<and> P x"
  by (auto simp: find_Some_iff)

lemma backwards_router: "gin_router (\<lambda>m path. find (route_fits m path) (rev routes))"
  by (auto simp: gin_router_def find_None_iff split: option.split dest!: find_SomeD)

theorem routing_determined_witness:
  "find (route_fits ''DELETE'' ''/api/proxies/p1'') (rev routes) = find (route_fits ''DELETE'' ''/api/proxies/p1'') routes"
  by (rule routing_determined [OF backwards_router])

subsection \<open>Who reaches what\<close>

lemma run_guard_keys [simp]: "sv_keys (snd (run_guard d now hq rq ck g sv)) = sv_keys sv"
  by (simp add: run_guard_def Let_def split_beta split: guard.split)

lemma guard_stops: "run_guards d now hq rq ck gs sv = (Some v, sv') \<Longrightarrow> v \<noteq> Reached e ck'"
proof (induction gs arbitrary: sv)
  case (Cons g gs)
  then show ?case
    by (auto simp: run_guard_def Let_def split: prod.splits option.splits guard.splits gate.splits if_splits)
qed simp

lemma guards_passed:
  "fst (run_guards d now hq rq ck gs sv) = None \<Longrightarrow> g \<in> set gs \<Longrightarrow>
     \<exists>sv1. sv_keys sv1 = sv_keys sv \<and> fst (run_guard d now hq rq ck g sv1) = None"
proof (induction gs arbitrary: sv)
  case (Cons h gs)
  obtain v sv' where h: "run_guard d now hq rq ck h sv = (v, sv')" by fastforce
  have keys: "sv_keys sv' = sv_keys sv" using run_guard_keys [of d now hq rq ck h sv] by (simp add: h)
  have v: "v = None" and rest: "fst (run_guards d now hq rq ck gs sv') = None" using Cons.prems(1) by (auto simp: h split: option.splits)
  show ?case
  proof (cases "g = h")
    case True
    then show ?thesis using h v by (intro exI [of _ sv]) simp
  next
    case False
    then show ?thesis using Cons.IH [OF rest] Cons.prems(2) keys by auto
  qed
qed simp

lemma admin_passed: "fst (run_guard False now hq rq ck NeedsAdmin sv) = None \<Longrightarrow>
    \<exists>key info. ck = Some key \<and> map_of (sv_keys sv) key = Some info \<and> gk_Role info = RoleAdmin"
  by (auto simp: run_guard_def AdminMiddleware_def GetKey_def split: option.splits if_splits gate.splits)

lemma csrf_passed: "fst (run_guard d now hq rq ck NeedsOrigin sv) = None \<Longrightarrow> csrfGuard (csrf_view hq rq)"
  by (simp add: run_guard_def split: if_splits)

lemma serve_reached:
  assumes "sr_verdict (fst (serve rt d now rand hq sv)) = Reached e ck" and rq: "rq = AnthropicAuthMiddleware (hq_api_key hq) (hq_base hq)"
  obtains m pat gs sv1 where "fst (AuthMiddleware d (Some (LookupSession now)) (sv_keys sv) rq (sv_sessions sv)) = Pass ck"
    and "rt (hq_method hq) (rq_path rq) = Some (m, pat, gs, e)" and "sv_keys sv1 = sv_keys sv"
    and "fst (run_guards d now hq rq ck gs sv1) = None"
proof -
  have pc: "fst (pass_chain rt d now hq sv) = Reached e ck" using assms(1) by (simp add: serve_def split_beta)
  obtain g ss where a: "AuthMiddleware d (Some (LookupSession now)) (sv_keys sv) rq (sv_sessions sv) = (g, ss)" by fastforce
  obtain ck' where g: "g = Pass ck'" using pc by (cases g) (simp_all add: pass_chain_def rq [symmetric] a)
  obtain ok rl where m: "Middleware (Some (LookupKey (sv_keys sv))) now (rq_path rq) (hq_ip hq) ck' (sv_limiter sv) = (ok, rl)" by fastforce
  define sv1 where "sv1 = sv\<lparr>sv_sessions := ss, sv_limiter := rl\<rparr>"
  have r: "fst (route_request rt d now hq rq ck' sv1) = Reached e ck"
    using pc by (simp add: pass_chain_def rq [symmetric] a g m sv1_def Let_def split: if_splits)
  obtain m' pat gs e' where f: "rt (hq_method hq) (rq_path rq) = Some (m', pat, gs, e')"
    using r by (cases "rt (hq_method hq) (rq_path rq)") (auto simp: route_request_def)
  have end': "e' = e" "ck' = ck" "fst (run_guards d now hq rq ck' gs sv1) = None"
    using r by (auto simp: route_request_def f split: prod.splits option.splits dest: guard_stops)
  show thesis by (rule that [of m' pat gs sv1]) (use a g f end' in \<open>simp_all add: sv1_def\<close>)
qed

lemma endpoints_guarded_facts:
  assumes "gin_router rt" and "sr_verdict (fst (serve rt False now rand hq sv)) = Reached e ck" and "\<not> is_public e"
    and "rq = AnthropicAuthMiddleware (hq_api_key hq) (hq_base hq)"
  shows "\<exists>key info. ck = Some key \<and> presents (Some (LookupSession now)) rq (sv_sessions sv) key \<and> map_of (sv_keys sv) key = Some info
    \<and> \<not> gk_Disabled info \<and> (e = V1 \<or> gk_Role info = RoleAdmin \<and> csrfGuard (csrf_view hq rq))"
proof -
  obtain m pat gs sv1 where auth: "fst (AuthMiddleware False (Some (LookupSession now)) (sv_keys sv) rq (sv_sessions sv)) = Pass ck"
    and f: "rt (hq_method hq) (rq_path rq) = Some (m, pat, gs, e)" and keys: "sv_keys sv1 = sv_keys sv"
    and g: "fst (run_guards False now hq rq ck gs sv1) = None"
    using serve_reached [OF assms(2,4)] .
  have r: "(m, pat, gs, e) \<in> set routes" and fits: "m = hq_method hq" "path_match pat (rq_path rq)"
    using gin_router_cases(1) [OF assms(1) f] by (auto simp: route_fits_def)
  have wg: "if e = V1 then pat = ''/v1/*path'' else NeedsAdmin \<in> set gs \<and> (m = ''GET'' \<or> NeedsOrigin \<in> set gs)"
    using r routes_well_guarded assms(3) by (auto simp: list_all_iff well_guarded_def)
  have admin: "(\<exists>key info. ck = Some key \<and> map_of (sv_keys sv) key = Some info \<and> gk_Role info = RoleAdmin) \<and> csrfGuard (csrf_view hq rq)"
    if nv: "e \<noteq> V1"
  proof
    obtain sv2 where "sv_keys sv2 = sv_keys sv1" "fst (run_guard False now hq rq ck NeedsAdmin sv2) = None"
      using guards_passed [OF g] wg nv by auto
    then show "\<exists>key info. ck = Some key \<and> map_of (sv_keys sv) key = Some info \<and> gk_Role info = RoleAdmin"
      using admin_passed [of now hq rq ck sv2] keys by simp
    show "csrfGuard (csrf_view hq rq)"
    proof (cases "m = ''GET''")
      case True
      then show ?thesis using fits(1) by (simp add: csrfGuard_def csrf_view_def)
    next
      case False
      then show ?thesis using wg nv guards_passed [OF g, of NeedsOrigin] csrf_passed by auto
    qed
  qed
  have path: "rq_path rq \<notin> set public_paths"
  proof (cases "e = V1")
    case True
    then show ?thesis using wg fits(2) v1_not_public by (auto simp: list_all_iff)
  next
    case False
    then show ?thesis using admin auth by (auto simp: AuthMiddleware_pass split: if_splits)
  qed
  then obtain key info where k: "ck = Some key" "key \<noteq> []" "fst (extract_key (Some (LookupSession now)) rq (sv_sessions sv)) = key"
      "map_of (sv_keys sv) key = Some info" "\<not> gk_Disabled info"
    using auth by (auto simp: AuthMiddleware_pass Valid_iff)
  then show ?thesis using extract_key_presents [OF k(3,2)] admin by auto
qed

text \<open>
  C3: Every endpoint but the eight public ones is reached only with a key that the request presents, as a
  bearer token, by the header of the Messages interface or through a session, and that is registered
  and enabled. Every endpoint other than the inference interface moreover needs the role of an
  administrator and a request that passes the cross-origin guard, whatever its method.
\<close>

theorem endpoints_guarded:
  assumes "gin_router rt" and "sr_verdict (fst (serve rt False now rand hq sv)) = Reached e ck" and "\<not> is_public e"
    and "rq = AnthropicAuthMiddleware (hq_api_key hq) (hq_base hq)"
  shows "\<exists>key info. ck = Some key \<and> presents (Some (LookupSession now)) rq (sv_sessions sv) key \<and> map_of (sv_keys sv) key = Some info
    \<and> \<not> gk_Disabled info \<and> (e = V1 \<or> gk_Role info = RoleAdmin \<and> csrfGuard (csrf_view hq rq))"
  by (rule endpoints_guarded_facts [OF assms])

lemma key_reaches:
  assumes "gin_router rt" and "(m, pat, gs, e) \<in> set routes" and "path_match pat (rq_path (hq_base hq))" and "hq_method hq = m"
    and "rq_auth (hq_base hq) = ''Bearer '' @ key" and "key \<noteq> []"
    and "map_of (sv_keys sv) key = Some info" and "\<not> gk_Disabled info" and "gk_RPM info = 0"
    and "rq_path (hq_base hq) \<notin> set public_paths"
    and guards: "\<And>sv'. sv_keys sv' = sv_keys sv \<Longrightarrow> run_guards False now hq (hq_base hq) (Some key) gs sv' = (None, sv')"
  shows "sr_verdict (fst (serve rt False now rand hq sv)) = Reached e (Some key)"
proof -
  let ?rq = "hq_base hq"
  have rq: "AnthropicAuthMiddleware (hq_api_key hq) ?rq = ?rq" using assms(5) by (simp add: AnthropicAuthMiddleware_def)
  have ex: "extract_key (Some (LookupSession now)) ?rq (sv_sessions sv) = (key, sv_sessions sv)"
    using assms(5) by (simp add: extract_key_def trim_prefix_def)
  have auth: "AuthMiddleware False (Some (LookupSession now)) (sv_keys sv) ?rq (sv_sessions sv) = (Pass (Some key), sv_sessions sv)"
    using assms(6-8,10) by (auto simp: AuthMiddleware_def ex Let_def Valid_iff)
  have rate: "Middleware (Some (LookupKey (sv_keys sv))) now (rq_path ?rq) (hq_ip hq) (Some key) (sv_limiter sv) = (True, sv_limiter sv)"
    using assms(6,7,9) by (simp add: Middleware_def limits_def LookupKey_def)
  have fits: "route_fits m (rq_path ?rq) (m, pat, gs, e)" using assms(3) by (simp add: route_fits_def)
  have "rt m (rq_path ?rq) = Some (m, pat, gs, e)"
  proof (cases "rt m (rq_path ?rq)")
    case None
    then show ?thesis using gin_router_cases(2) [OF assms(1) None] fits assms(2) find_None_iff [of "route_fits m (rq_path ?rq)" routes] by blast
  next
    case (Some r)
    then show ?thesis using gin_router_cases(1) [OF assms(1) Some] table_apart_unique [OF routes_apart _ assms(2) _ fits, of r] by simp
  qed
  then show ?thesis using assms(4) guards
    by (simp add: serve_def pass_chain_def rq auth rate Let_def route_request_def split_beta)
qed

text \<open>An enabled key without a rate limit reaches the inference interface.\<close>

lemma inference_reached:
  assumes "gin_router rt" and "hq_method hq \<in> set any_methods" and "path_match ''/v1/*path'' (rq_path (hq_base hq))"
    and "rq_auth (hq_base hq) = ''Bearer '' @ key" and "key \<noteq> []"
    and "map_of (sv_keys sv) key = Some info" and "\<not> gk_Disabled info" and "gk_RPM info = 0"
  shows "sr_verdict (fst (serve rt False now rand hq sv)) = Reached V1 (Some key)"
proof -
  have "(hq_method hq, ''/v1/*path'', [], V1) \<in> set routes" using assms(2) by (simp add: routes_def)
  moreover have "rq_path (hq_base hq) \<notin> set public_paths" using assms(3) v1_not_public by (auto simp: list_all_iff)
  ultimately show ?thesis using key_reaches [OF assms(1) _ assms(3) refl assms(4-8)] by simp
qed

text \<open>
  An administrator whose key has no rate limit reaches every endpoint of the table that is not public,
  with the key as bearer token.
\<close>

theorem admin_reaches_everything:
  assumes "gin_router rt" and "(m, pat, gs, e) \<in> set routes" and "path_match pat (rq_path (hq_base hq))" and "hq_method hq = m"
    and "\<not> is_public e" and "rq_auth (hq_base hq) = ''Bearer '' @ key" and "key \<noteq> []"
    and "map_of (sv_keys sv) key = Some info" and "\<not> gk_Disabled info" and "gk_Role info = RoleAdmin" and "gk_RPM info = 0"
    and "rq_path (hq_base hq) \<notin> set public_paths"
  shows "sr_verdict (fst (serve rt False now rand hq sv)) = Reached e (Some key)"
proof (rule key_reaches [OF assms(1-4,6-9,11,12)])
  have "LoginRate \<notin> set gs" using assms(2,5) routes_login by (auto simp: list_all_iff)
  then show "run_guards False now hq (hq_base hq) (Some key) gs sv' = (None, sv')" if "sv_keys sv' = sv_keys sv" for sv'
    using that assms(6,8,10)
    by (induction gs) (auto simp: run_guard_def csrfGuard_def csrf_view_def AdminMiddleware_def GetKey_def split: guard.split)
qed

definition ex_hq :: http_request where
  "ex_hq = \<lparr>hq_method = ''DELETE'', hq_base = \<lparr>rq_path = ''/api/proxies/p1'', rq_auth = ''Bearer gw-1'', rq_accept = [], rq_cookie = None\<rparr>,
     hq_host = ''gw'', hq_origin = [], hq_referer = [], hq_api_key = [], hq_accept_encoding = ''gzip'', hq_request_id = [], hq_ip = ''10.0.0.1''\<rparr>"

definition ex_server :: server where
  "ex_server = new_server [(''gw-1'', (ex_info ''gw-1'' ''admin'')\<lparr>gk_RPM := 0\<rparr>)]"

theorem admin_reaches_everything_witness:
  "sr_verdict (fst (serve (\<lambda>m path. find (route_fits m path) routes) False 0 None ex_hq ex_server)) = Reached DeleteProxyE (Some ''gw-1'')"
proof (rule admin_reaches_everything [OF table_router])
  show "(''DELETE'', ''/api/proxies/:id'', [NeedsOrigin, NeedsAdmin], DeleteProxyE) \<in> set routes" by (simp add: routes_def)
  show "map_of (sv_keys ex_server) ''gw-1'' = Some ((ex_info ''gw-1'' ''admin'')\<lparr>gk_RPM := 0\<rparr>)" by (simp add: ex_server_def new_server_def)
qed (simp_all add: ex_hq_def path_match_def is_public_def public_paths_def ex_info_def bootstrap_info_def RoleAdmin_def)

lemma ex_reached: "sr_verdict (fst (serve (\<lambda>m path. find (route_fits m path) routes) False 0 None ex_hq ex_server)) = Reached DeleteProxyE (Some ''gw-1'')"
  by code_simp

theorem endpoints_guarded_witness:
  "\<exists>key info. Some ''gw-1'' = Some key \<and> presents (Some (LookupSession 0)) (hq_base ex_hq) (sv_sessions ex_server) key
    \<and> map_of (sv_keys ex_server) key = Some info \<and> \<not> gk_Disabled info
    \<and> (DeleteProxyE = V1 \<or> gk_Role info = RoleAdmin \<and> csrfGuard (csrf_view ex_hq (hq_base ex_hq)))"
  by (rule endpoints_guarded [OF table_router ex_reached])
    (simp_all add: is_public_def AnthropicAuthMiddleware_def ex_hq_def)

subsection \<open>Compression\<close>

text \<open>
  The middleware that compresses is to leave streams alone. It knows the path of the chat completions
  only: an answer of the Messages interface is compressed whether it streams or not, unless the
  client says that it accepts an event stream.
\<close>

theorem messages_stream_compressed:
  assumes "v1_is_messages hq" and "contains ''gzip'' (hq_accept_encoding hq)" and "\<not> contains ''text/event-stream'' (rq_accept (hq_base hq))"
  shows "sr_compressed (fst (serve rt d now rand hq sv))"
  using assms by (simp add: serve_def split_beta GzipMiddleware_def v1_is_messages_def)

text \<open>
  The handler of \<^verbatim>\<open>HEAD /health\<close> is there to keep the compression away from an answer without body; the
  compression is mounted before all routes and wraps it as well.
\<close>

theorem head_health_compressed:
  assumes "hq_method hq = ''HEAD''" and "rq_path (hq_base hq) = ''/health''" and "hq_api_key hq = []"
    and "contains ''gzip'' (hq_accept_encoding hq)" and "\<not> contains ''text/event-stream'' (rq_accept (hq_base hq))" and "gin_router rt"
  shows "sr_verdict (fst (serve rt d now rand hq sv)) = Reached HealthMinimal None \<and> sr_compressed (fst (serve rt d now rand hq sv))"
proof -
  have "find (route_fits ''HEAD'' ''/health'') routes = Some (''HEAD'', ''/health'', [], HealthMinimal)" by code_simp
  then have "rt ''HEAD'' ''/health'' = Some (''HEAD'', ''/health'', [], HealthMinimal)"
    by (simp only: routing_eq [OF assms(6)])
  then show ?thesis using assms(1-5)
    by (simp add: serve_def pass_chain_def AnthropicAuthMiddleware_def AuthMiddleware_def public_paths_def Middleware_def Let_def
        route_request_def split_beta GzipMiddleware_def)
qed

text \<open>A generated request id has sixteen characters.\<close>

lemma RequestID_length: "length b = 8 \<Longrightarrow> length (RequestIDMiddleware [] (Some b)) = 16"
  by (simp add: RequestIDMiddleware_def)

end
