(* ===== verification/Application.thy ===== *)
theory Application
  imports Settings Tunnel Workers Server
begin

text \<open>
  The running program: the state of all components in one record, and what one HTTP request does to it.
  A request passes the chain of middlewares and guards of \<open>Server\<close>; if it reaches an endpoint, the handler
  that \<^verbatim>\<open>main.go\<close> registers for the endpoint runs on the component it was given. Requests are
  executed one after the other.

  The lemmas say which requests can change what was set up, and what creating and deleting a gateway
  key does; \<open>Background\<close> has the properties of whole runs.
\<close>

subsection \<open>State and inputs\<close>

record app =
  ap_gw :: gateway
  ap_sessions :: SessionStore
  ap_limiter :: Limiter
  ap_logins :: loginLimiter
  ap_tunnel :: tn_state

text \<open>
  What a handler takes from outside: the clock, the source of randomness, the body as JSON (\<open>None\<close>: not JSON)
  and as posted form, the \<^verbatim>\<open>type\<close> query, the headers and the body as the inference interface reads it, the answers of
  the network, of Redis and of the tunnel's environment, and the rendering of times.
\<close>

record call_input =
  ci_now :: gotime
  ci_rand :: rand_source
  ci_fmt :: "gotime \<Rightarrow> string"
  ci_body :: "json option"
  ci_form :: "string option"
  ci_type :: string
  ci_headers :: headers
  ci_read :: read_body
  ci_messages :: messages_env
  ci_net :: net_env
  ci_save :: save_result
  ci_delete :: "go_error option option"
  ci_write :: write_result
  ci_quote :: "string \<Rightarrow> string"
  ci_tunnel :: tn_env

definition app_server :: "app \<Rightarrow> server" where
  "app_server a =
     \<lparr>sv_keys = gw_auth (ap_gw a), sv_sessions = ap_sessions a, sv_limiter = ap_limiter a, sv_logins = ap_logins a\<rparr>"

definition with_server :: "server \<Rightarrow> app \<Rightarrow> app" where
  "with_server sv a = a\<lparr>ap_sessions := sv_sessions sv, ap_limiter := sv_limiter sv, ap_logins := sv_logins sv\<rparr>"

text \<open>The parameter of a route: one segment, or for a catch-all the rest of the path with its slash.\<close>

fun seg_param :: "string list \<Rightarrow> string list \<Rightarrow> string" where
  "seg_param (p # ps) (x # xs) =
     (if prefix ''*'' p then CHR ''/'' # join ''/'' (x # xs) else if prefix '':'' p then x else seg_param ps xs)"
| "seg_param _ _ = []"

definition path_param :: "string \<Rightarrow> string \<Rightarrow> string" where
  "path_param pat path = seg_param (split_at CHR ''/'' pat) (split_at CHR ''/'' path)"

subsection \<open>The handlers on their components\<close>

definition on_gw :: "(gateway \<Rightarrow> gateway) \<Rightarrow> app \<Rightarrow> app" where
  "on_gw f a = a\<lparr>ap_gw := f (ap_gw a)\<rparr>"

definition on_auth :: "(Manager \<Rightarrow> key_store \<Rightarrow> 'r \<times> Manager \<times> key_store) \<Rightarrow> app \<Rightarrow> app" where
  "on_auth f = on_gw (\<lambda>g. let (_, am, st) = f (gw_auth g) (gw_keys g) in g\<lparr>gw_auth := am, gw_keys := st\<rparr>)"

definition on_up :: "(upstream_state \<Rightarrow> upstream_state) \<Rightarrow> app \<Rightarrow> app" where
  "on_up f = on_gw (\<lambda>g. g\<lparr>gw_up := f (gw_up g)\<rparr>)"

definition on_grok :: "(GrokAccountManager \<Rightarrow> 'r \<times> GrokAccountManager) \<Rightarrow> app \<Rightarrow> app" where
  "on_grok f = on_up (\<lambda>s. s\<lparr>us_grok := snd (f (us_grok s))\<rparr>)"

definition on_cb :: "(CBKeyManager \<Rightarrow> 'r \<times> CBKeyManager) \<Rightarrow> app \<Rightarrow> app" where
  "on_cb f = on_up (\<lambda>s. s\<lparr>us_cb := snd (f (us_cb s))\<rparr>)"

definition on_proxies :: "(ProxyPool \<Rightarrow> 'r \<times> ProxyPool \<times> pool_write list) \<Rightarrow> app \<Rightarrow> app" where
  "on_proxies f = on_up (\<lambda>s. s\<lparr>us_proxy := fst (snd (f (us_proxy s)))\<rparr>)"

definition on_custom :: "(CustomRegistry \<Rightarrow> 'r \<times> CustomRegistry) \<Rightarrow> app \<Rightarrow> app" where
  "on_custom f = on_gw (\<lambda>g. g\<lparr>gw_custom := map_option (snd \<circ> f) (gw_custom g)\<rparr>)"

definition on_combos :: "(ComboRegistry \<Rightarrow> 'r \<times> ComboRegistry) \<Rightarrow> app \<Rightarrow> app" where
  "on_combos f = on_gw (\<lambda>g. g\<lparr>gw_combos := map_option (snd \<circ> f) (gw_combos g)\<rparr>)"

definition on_tunnel :: "(tn_state \<Rightarrow> 'r \<times> tn_state) \<Rightarrow> app \<Rightarrow> app" where
  "on_tunnel f a = a\<lparr>ap_tunnel := snd (f (ap_tunnel a))\<rparr>"

text \<open>Creating a key ends the process when there is no randomness; a refused request does not get that far.\<close>

definition create_key :: "call_input \<Rightarrow> app \<Rightarrow> app process" where
  "create_key ci a =
     (let handler = (\<lambda>key. HandleCreateKey (ci_fmt ci) (ci_now ci) key (ci_body ci));
          accepted = (fst (fst (handler [] (gw_auth (ap_gw a)) (gw_keys (ap_gw a)))) = 201)
      in case GenerateGatewayKey (ci_rand ci) of
           Exit n \<Rightarrow> if accepted then Exit n else Proceed a
         | Proceed key \<Rightarrow> Proceed (on_auth (handler key) a))"

definition v1_request :: "call_input \<Rightarrow> http_request \<Rightarrow> string option \<Rightarrow> proxy_request" where
  "v1_request ci hq ck =
     \<lparr>pr_path = rq_path (hq_base hq), pr_headers = ci_headers ci, pr_body = ci_read ci,
      pr_client_key = (case ck of Some k \<Rightarrow> k | None \<Rightarrow> []),
      pr_request_id = RequestIDMiddleware (hq_request_id hq) (case ci_rand ci 8 of Inl _ \<Rightarrow> None | Inr b \<Rightarrow> Some b),
      pr_key_masked = (case ck of Some k \<Rightarrow> MaskKey k | None \<Rightarrow> [])\<rparr>"

definition v1_effect :: "call_input \<Rightarrow> http_request \<Rightarrow> string option \<Rightarrow> gateway \<Rightarrow> gateway" where
  "v1_effect ci hq ck g =
     (if v1_is_messages hq then snd (HandleMessages (ci_messages ci) (v1_request ci hq ck) g)
      else snd (ProxyRequest (me_gw (ci_messages ci)) (v1_request ci hq ck) g))"

text \<open>
  The effect of an endpoint; the texts of error messages play no role for it. The endpoints that are
  not listed only read.
\<close>

definition endpoint_effect :: "bool \<Rightarrow> call_input \<Rightarrow> http_request \<Rightarrow> string \<Rightarrow> string option \<Rightarrow> endpoint \<Rightarrow> app \<Rightarrow> app process" where
  "endpoint_effect d ci hq param ck e a =
     (case e of
        CreateKey \<Rightarrow> create_key ci a
      | DeleteKey \<Rightarrow> Proceed (on_auth (HandleDeleteKey param) a)
      | UpdateKey \<Rightarrow> Proceed (on_auth (HandleUpdateKey (ci_fmt ci) param (ci_body ci)) a)
      | LoginPost \<Rightarrow>
          Proceed (a\<lparr>ap_sessions := snd (HandleLogin (newSessionToken (ci_rand ci)) (ci_now ci) (ci_form ci) (gw_auth (ap_gw a)) (ap_sessions a))\<rparr>)
      | Logout \<Rightarrow> Proceed (a\<lparr>ap_sessions := HandleLogout (rq_cookie (hq_base hq)) (ap_sessions a)\<rparr>)
      | HealthFull \<Rightarrow>
          Proceed (a\<lparr>ap_sessions := snd (health_authed d (Some (LookupSession (ci_now ci))) (gw_auth (ap_gw a)) (hq_base hq) (ap_sessions a))\<rparr>)
      | RefreshAll \<Rightarrow> Proceed (on_up (\<lambda>s. snd (HandleRefresh (ci_net ci) s)) a)
      | ImportAccount \<Rightarrow> Proceed (on_grok (HandleImportAccount (ci_fmt ci) (ci_now ci) (ci_body ci)) a)
      | ImportAccountBulk \<Rightarrow> Proceed (on_grok (HandleImportAccountBulk (ci_fmt ci) (ci_now ci) (ci_body ci)) a)
      | ImportCBKey \<Rightarrow> Proceed (on_cb (HandleImportCBKey (ci_body ci)) a)
      | ImportCBKeyBulk \<Rightarrow> Proceed (on_cb (HandleImportCBKeyBulk (ci_body ci)) a)
      | DeleteAccountE \<Rightarrow> Proceed (on_grok (HandleDeleteAccount param) a)
      | DeleteCBKeyE \<Rightarrow> Proceed (on_cb (HandleDeleteCBKey param) a)
      | CleanupDisabledE \<Rightarrow>
          Proceed (on_up (\<lambda>s. let (_, am, km) = HandleCleanupDisabled (ci_type ci) (us_grok s, us_cb s) in s\<lparr>us_grok := am, us_cb := km\<rparr>) a)
      | CleanupBannedE \<Rightarrow> Proceed (on_grok (HandleCleanupBanned (ci_type ci)) a)
      | AddCustomModel \<Rightarrow> Proceed (on_custom (HandleAddCustomModel (\<lambda>_. []) (ci_write ci) (ci_body ci)) a)
      | DeleteCustomModelE \<Rightarrow> Proceed (on_custom (HandleDeleteCustomModel (\<lambda>_. []) (ci_write ci) param) a)
      | AddAliasE \<Rightarrow> Proceed (on_custom (HandleAddAlias (\<lambda>_. []) (ci_write ci) (ci_body ci)) a)
      | DeleteAliasE \<Rightarrow> Proceed (on_custom (HandleDeleteAlias (\<lambda>_. []) (ci_write ci) param) a)
      | AddComboE \<Rightarrow> Proceed (on_combos (HandleAddCombo (\<lambda>_. []) (ci_write ci) (ci_body ci)) a)
      | DeleteComboE \<Rightarrow> Proceed (on_combos (HandleDeleteCombo (\<lambda>_. []) (ci_write ci) param) a)
      | AddProxy \<Rightarrow> Proceed (on_proxies (HandleAddProxy (\<lambda>_. []) (ci_save ci) (newProxyID (ci_rand ci)) (ci_now ci) (ci_body ci)) a)
      | UpdateProxy \<Rightarrow> Proceed (on_proxies (HandleUpdateProxy (\<lambda>_. []) (ci_save ci) param (ci_body ci)) a)
      | DeleteProxyE \<Rightarrow> Proceed (on_proxies (HandleDeleteProxy (\<lambda>_. []) (ci_delete ci) param) a)
      | ToggleProxy \<Rightarrow> Proceed (on_proxies (HandleToggleProxy (\<lambda>_. []) (ci_save ci) param) a)
      | TunnelEnable \<Rightarrow> Proceed (on_tunnel (HandleTunnelEnable (ci_quote ci) [] (ci_tunnel ci) (ci_tunnel ci) (ci_body ci)) a)
      | TunnelDisable \<Rightarrow> Proceed (on_tunnel (HandleTunnelDisable (ci_tunnel ci) (ci_tunnel ci)) a)
      | TunnelRestart \<Rightarrow> Proceed (on_tunnel (HandleTunnelRestart (ci_quote ci) (ci_tunnel ci) (ci_tunnel ci)) a)
      | V1 \<Rightarrow> Proceed (on_gw (v1_effect ci hq ck) a)
      | _ \<Rightarrow> Proceed a)"

subsection \<open>One request\<close>

definition request_param :: "(string \<Rightarrow> string \<Rightarrow> route_entry option) \<Rightarrow> http_request \<Rightarrow> string" where
  "request_param rt hq =
     (case rt (hq_method hq) (rq_path (hq_base hq)) of
        None \<Rightarrow> [] | Some (_, pat, _, _) \<Rightarrow> path_param pat (rq_path (hq_base hq)))"

definition app_step ::
  "(string \<Rightarrow> string \<Rightarrow> route_entry option) \<Rightarrow> bool \<Rightarrow> call_input \<Rightarrow> http_request \<Rightarrow> app \<Rightarrow> verdict \<times> app process" where
  "app_step rt d ci hq a =
     (let (r, sv) = serve rt d (ci_now ci) (case ci_rand ci 8 of Inl _ \<Rightarrow> None | Inr b \<Rightarrow> Some b) hq (app_server a);
          a1 = with_server sv a
      in (sr_verdict r,
          case sr_verdict r of
            Reached e ck \<Rightarrow> endpoint_effect d ci hq (request_param rt hq) ck e a1
          | _ \<Rightarrow> Proceed a1))"

subsection \<open>Who can change what was set up\<close>

text \<open>What an administrator set up; see \<open>Settings\<close> for the part of the gateway.\<close>

definition configuration where
  "configuration a = (gateway_settings (ap_gw a), ap_tunnel a)"

text \<open>The request presents, in whatever way, a registered and enabled key of an administrator.\<close>

definition by_admin :: "gotime \<Rightarrow> http_request \<Rightarrow> app \<Rightarrow> bool" where
  "by_admin now hq a \<longleftrightarrow>
     (\<exists>key info. presents (Some (LookupSession now)) (AnthropicAuthMiddleware (hq_api_key hq) (hq_base hq)) (ap_sessions a) key
        \<and> map_of (gw_auth (ap_gw a)) key = Some info \<and> \<not> gk_Disabled info \<and> gk_Role info = RoleAdmin)"

lemma with_server_sel [simp]:
  "ap_gw (with_server sv a) = ap_gw a" "ap_tunnel (with_server sv a) = ap_tunnel a" "ap_sessions (with_server sv a) = sv_sessions sv"
  by (simp_all add: with_server_def)

lemma app_server_sel [simp]: "sv_keys (app_server a) = gw_auth (ap_gw a)" "sv_sessions (app_server a) = ap_sessions a"
  by (simp_all add: app_server_def)

lemma app_step_verdict:
  "fst (app_step rt d ci hq a) = sr_verdict (fst (serve rt d (ci_now ci) (case ci_rand ci 8 of Inl _ \<Rightarrow> None | Inr b \<Rightarrow> Some b) hq (app_server a)))"
  by (simp add: app_step_def split_beta Let_def)

lemma app_step_reached:
  assumes "fst (app_step rt d ci hq a) = Reached e ck"
  obtains sv where "snd (app_step rt d ci hq a) = endpoint_effect d ci hq (request_param rt hq) ck e (with_server sv a)"
  using assms by (auto simp: app_step_def split_beta Let_def)

text \<open>A request that is not an administrator's reaches public endpoints and the inference interface only.\<close>

lemma reached_unprivileged:
  assumes "gin_router rt" and "fst (app_step rt False ci hq a) = Reached e ck" and "\<not> by_admin (ci_now ci) hq a"
  shows "is_public e \<or> e = V1"
proof (rule ccontr)
  assume n: "\<not> (is_public e \<or> e = V1)"
  then show False
    using endpoints_guarded_facts [OF assms(1) assms(2) [unfolded app_step_verdict] _ refl] assms(3) by (auto simp: by_admin_def)
qed

lemma public_effect:
  assumes "is_public e"
  shows "\<exists>a'. endpoint_effect d ci hq param ck e a = Proceed a' \<and> configuration a' = configuration a"
  using assms by (cases e) (simp_all add: is_public_def endpoint_effect_def configuration_def)

lemma v1_settings: "gateway_settings (v1_effect ci hq ck g) = gateway_settings g"
  by (simp add: v1_effect_def HandleMessages_settings ProxyRequest_settings)

lemma unprivileged_step:
  assumes "gin_router rt" and "\<not> by_admin (ci_now ci) hq a"
  shows "\<exists>a'. snd (app_step rt False ci hq a) = Proceed a' \<and> configuration a' = configuration a"
proof -
  obtain r sv where s: "serve rt False (ci_now ci) (case ci_rand ci 8 of Inl _ \<Rightarrow> None | Inr b \<Rightarrow> Some b) hq (app_server a) = (r, sv)" by fastforce
  have c: "configuration (with_server sv a) = configuration a" by (simp add: configuration_def)
  show ?thesis
  proof (cases "sr_verdict r")
    case (Reached e ck)
    then have "is_public e \<or> e = V1" using reached_unprivileged [OF assms(1) _ assms(2)] s by (simp add: app_step_verdict)
    then show ?thesis
    proof
      assume "is_public e"
      then show ?thesis using public_effect [of e False ci hq "request_param rt hq" ck "with_server sv a"] Reached s c by (simp add: app_step_def)
    next
      assume "e = V1"
      then show ?thesis using Reached s c by (simp add: app_step_def endpoint_effect_def configuration_def on_gw_def v1_settings)
    qed
  qed (use s c in \<open>simp_all add: app_step_def\<close>)
qed

text \<open>With no administrator key at all no request is of that kind.\<close>

definition no_admins :: "app \<Rightarrow> bool" where
  "no_admins a \<longleftrightarrow> list_all (\<lambda>(k, i). gk_Role i \<noteq> RoleAdmin) (gw_auth (ap_gw a))"

lemma no_admins_cong: "configuration a' = configuration a \<Longrightarrow> no_admins a' = no_admins a"
proof -
  have roles: "no_admins b \<longleftrightarrow> list_all (\<lambda>(k, s). fst (snd (snd (snd s))) \<noteq> RoleAdmin) (map (map_prod id key_settings) (gw_auth (ap_gw b)))" for b
    by (simp add: no_admins_def list_all_length split_beta key_settings_def)
  assume "configuration a' = configuration a"
  then show ?thesis unfolding roles by (simp add: configuration_def gateway_settings_def)
qed

lemma no_admins_by: "no_admins a \<Longrightarrow> \<not> by_admin now hq a"
  by (auto simp: by_admin_def no_admins_def list_all_iff dest!: map_of_SomeD)

subsection \<open>Revoking a key\<close>

lemma settings_keys: "configuration a' = configuration a \<Longrightarrow> map_of (gw_auth (ap_gw a')) k = None \<longleftrightarrow> map_of (gw_auth (ap_gw a)) k = None"
proof -
  assume "configuration a' = configuration a"
  then have "map fst (map (map_prod id key_settings) (gw_auth (ap_gw a'))) = map fst (map (map_prod id key_settings) (gw_auth (ap_gw a)))"
    by (simp add: configuration_def gateway_settings_def)
  then have "fst ` set (gw_auth (ap_gw a')) = fst ` set (gw_auth (ap_gw a))" by (simp add: comp_def) (metis list.set_map)
  then show ?thesis by (simp add: map_of_eq_None_iff)
qed

lemma presents_unique: "presents (Some f) rq s k \<Longrightarrow> presents (Some f) rq s k' \<Longrightarrow> k = k'"
  by (auto simp: presents_def)

lemma absent_key_stopped:
  assumes "gin_router rt" and "map_of (gw_auth (ap_gw a)) k = None" and "\<not> is_public e"
    and "presents (Some (LookupSession (ci_now ci))) (AnthropicAuthMiddleware (hq_api_key hq) (hq_base hq)) (ap_sessions a) k"
  shows "fst (app_step rt False ci hq a) \<noteq> Reached e ck"
proof
  assume "fst (app_step rt False ci hq a) = Reached e ck"
  from endpoints_guarded_facts [OF assms(1) this [unfolded app_step_verdict] assms(3) refl]
  obtain key where "presents (Some (LookupSession (ci_now ci))) (AnthropicAuthMiddleware (hq_api_key hq) (hq_base hq)) (ap_sessions a) key"
    "map_of (gw_auth (ap_gw a)) key \<noteq> None" by auto
  then show False using presents_unique [OF assms(4), of key] assms(2) by simp
qed

lemma deleted_key_absent: "ResolveKey am p = Some k \<Longrightarrow> fst (fst (HandleDeleteKey p am st)) = 200 \<Longrightarrow> map_of (fst (snd (HandleDeleteKey p am st))) k = None"
  by (auto simp: HandleDeleteKey_def RemoveKey_def err_def delete_conv' split: if_splits)

lemma deletion_effect:
  assumes "fst (app_step rt False ci hq a) = Reached endpoint.DeleteKey ck" and "ResolveKey (gw_auth (ap_gw a)) (request_param rt hq) = Some k"
    and "fst (fst (HandleDeleteKey (request_param rt hq) (gw_auth (ap_gw a)) (gw_keys (ap_gw a)))) = 200"
  shows "\<exists>a'. snd (app_step rt False ci hq a) = Proceed a' \<and> map_of (gw_auth (ap_gw a')) k = None"
proof -
  obtain sv where "snd (app_step rt False ci hq a) = endpoint_effect False ci hq (request_param rt hq) ck endpoint.DeleteKey (with_server sv a)"
    using app_step_reached [OF assms(1)] .
  then show ?thesis using deleted_key_absent [OF assms(2,3)] by (simp add: endpoint_effect_def on_auth_def on_gw_def split_beta)
qed

subsection \<open>Creating a key\<close>

lemma creation_effect:
  assumes "fst (app_step rt False ci hq a) = Reached endpoint.CreateKey ck" and "ci_rand ci 24 = Inr b"
    and "dec_create (ci_body ci) = Some (name, role, models, rpm, burst, quota)"
    and "bad_name (if name = [] then ''unnamed'' else name) = None"
  shows "\<exists>a' info. snd (app_step rt False ci hq a) = Proceed a' \<and> map_of (gw_auth (ap_gw a')) (''gw-'' @ base64url b) = Some info
    \<and> \<not> gk_Disabled info \<and> gk_RPM info = rpm \<and> gk_AllowedModels info = models
    \<and> gk_Role info = (if role = RoleAdmin then RoleAdmin else RoleInference)
    \<and> (\<forall>k. k \<noteq> ''gw-'' @ base64url b \<longrightarrow> map_of (gw_auth (ap_gw a')) k = map_of (gw_auth (ap_gw a)) k)"
proof -
  obtain sv where s: "snd (app_step rt False ci hq a) = endpoint_effect False ci hq (request_param rt hq) ck endpoint.CreateKey (with_server sv a)"
    using app_step_reached [OF assms(1)] .
  let ?k = "''gw-'' @ base64url b"
  have g: "GenerateGatewayKey (ci_rand ci) = Proceed ?k" using assms(2) by (simp add: GenerateGatewayKey_def)
  show ?thesis unfolding s endpoint_effect_def endpoint.case create_key_def g Let_def process.case
    using assms(3,4)
    by (auto simp: on_auth_def on_gw_def HandleCreateKey_def AddWithRole_def Let_def RoleInference_def RoleAdmin_def update_conv' simp del: append.simps append_Cons)
qed


subsection \<open>Witnesses\<close>

definition ex_rand :: rand_source where
  "ex_rand n = Inr (replicate n 0)"

definition ex_input :: "json option \<Rightarrow> call_input" where
  "ex_input body =
     \<lparr>ci_now = 0, ci_rand = ex_rand, ci_fmt = (\<lambda>_. []), ci_body = body, ci_form = None, ci_type = [], ci_headers = (\<lambda>_. []), ci_read = ReadFailed,
      ci_messages = ex_messages_env, ci_net = ex_token_env, ci_save = saves, ci_delete = Some None, ci_write = Some None,
      ci_quote = (\<lambda>s. s), ci_tunnel = ex_tenv\<rparr>"

definition ex_call :: "string \<Rightarrow> string \<Rightarrow> string \<Rightarrow> http_request" where
  "ex_call method path key = ex_hq\<lparr>hq_method := method, hq_base := \<lparr>rq_path = path, rq_auth = ''Bearer '' @ key, rq_accept = [], rq_cookie = None\<rparr>\<rparr>"

definition ex_app :: "string \<Rightarrow> app" where
  "ex_app role =
     \<lparr>ap_gw = \<lparr>gw_up = ex_up, gw_auth = [(''gw-1'', (ex_info ''gw-1'' role)), (''gw-2'', ex_info ''gw-2'' ''inference'')], gw_keys = None, gw_custom = None, gw_combos = None, gw_dispatched = []\<rparr>,
      ap_sessions = Map.empty, ap_limiter = NewLimiter 60 10 minute, ap_logins = Map.empty, ap_tunnel = ex_manager\<rparr>"

definition ex_router :: "string \<Rightarrow> string \<Rightarrow> route_entry option" where
  "ex_router m path = find (route_fits m path) routes"

lemma ex_router: "gin_router ex_router"
  using table_router unfolding ex_router_def [abs_def] .

lemma ex_rand_fills: "fills ex_rand"
  by (simp add: fills_def ex_rand_def)

lemma ex_delete: "fst (app_step ex_router False (ex_input None) (ex_call ''DELETE'' ''/api/keys/gw-2'' ''gw-1'') (ex_app ''admin'')) = Reached endpoint.DeleteKey (Some ''gw-1'')"
  unfolding app_step_verdict by code_simp

lemma ex_delete_param: "request_param ex_router (ex_call ''DELETE'' ''/api/keys/gw-2'' ''gw-1'') = ''gw-2''"
  by code_simp

lemma ex_delete_key: "ResolveKey (gw_auth (ap_gw (ex_app ''admin''))) ''gw-2'' = Some ''gw-2''"
    "fst (fst (HandleDeleteKey ''gw-2'' (gw_auth (ap_gw (ex_app ''admin''))) (gw_keys (ap_gw (ex_app ''admin''))))) = 200"
  by (simp_all add: HandleDeleteKey_def ResolveKey_def ex_app_def GetKey_def ex_info_def RoleAdmin_def RemoveKey_def split_beta)

definition ex_create :: json where
  "ex_create = JObj [(''name'', JStr ''app'')]"

lemma ex_create_reached:
  "fst (app_step ex_router False (ex_input (Some ex_create)) (ex_call ''POST'' ''/api/keys'' ''gw-1'') (ex_app ''admin'')) = Reached endpoint.CreateKey (Some ''gw-1'')"
  unfolding app_step_verdict by code_simp

lemma ex_create_decoded: "dec_create (Some ex_create) = Some (''app'', [], [], 0, 0, 0)" "bad_name (if ''app'' = [] then ''unnamed'' else ''app'') = None"
  by (code_simp, code_simp)


end
