(* ===== verification/Background.thy ===== *)
theory Background
  imports Application
begin

text \<open>
  The goroutines that \<^verbatim>\<open>main.go\<close> leaves running beside the HTTP server: the two active health checks
  (\<^verbatim>\<open>health.go\<close>), token renewal and the two workers that lift cooldowns (\<^verbatim>\<open>grok.go\<close>, \<^verbatim>\<open>codebuddy.go\<close>), and the sweeps of
  sessions, rate-limit buckets and login attempts. A goroutine is the sequence of its steps, and a
  run of the system any interleaving of such steps with requests. The goroutines of the tunnel and of the
  log store are in their own theories.

  A panic in a handler is caught by the recovery of the router; a panic in a goroutine ends the process with
  status 2.
\<close>

subsection \<open>Steps of the workers\<close>

datatype background =
    GrokCheck net_env | CBCheck net_env | Prewarm net_env "nat list"
  | LiftGrok gotime | LiftCB gotime | DropSessions gotime | DropClients gotime | DropLogins gotime

definition background_step :: "background \<Rightarrow> app \<Rightarrow> app process" where
  "background_step b a =
     (case b of
        GrokCheck env \<Rightarrow> Proceed (on_up (checkGrok env) a)
      | CBCheck env \<Rightarrow> Proceed (on_up (checkCB env) a)
      | Prewarm env order \<Rightarrow> Proceed (on_up (AutoRefreshWorker env order) a)
      | LiftGrok now \<Rightarrow> Proceed (on_up (\<lambda>s. s\<lparr>us_grok := GrokReenable now (us_grok s)\<rparr>) a)
      | LiftCB now \<Rightarrow>
          (case CBReenable now (us_cb (gw_up (ap_gw a))) of
             (ok, km) \<Rightarrow> if ok then Proceed (on_up (\<lambda>s. s\<lparr>us_cb := km\<rparr>) a) else Exit 2)
      | DropSessions now \<Rightarrow> Proceed (a\<lparr>ap_sessions := cleanup now (ap_sessions a)\<rparr>)
      | DropClients now \<Rightarrow> Proceed (a\<lparr>ap_limiter := cleanup_clients now (ap_limiter a)\<rparr>)
      | DropLogins now \<Rightarrow> Proceed (a\<lparr>ap_logins := login_cleanup now (ap_logins a)\<rparr>))"

text \<open>The loops: the checks and the lifting of cooldowns run once at the start and then at every tick, the others at ticks only.\<close>

definition grokCheckLoop :: "net_env \<Rightarrow> net_env list \<Rightarrow> background list" where
  "grokCheckLoop first ticks = GrokCheck first # map GrokCheck ticks"

definition cbCheckLoop :: "net_env \<Rightarrow> net_env list \<Rightarrow> background list" where
  "cbCheckLoop first ticks = CBCheck first # map CBCheck ticks"

definition ReenableWorker :: "gotime \<Rightarrow> gotime list \<Rightarrow> background list" where
  "ReenableWorker start ticks = LiftGrok start # map LiftGrok ticks"

definition ReenableCBWorker :: "gotime \<Rightarrow> gotime list \<Rightarrow> background list" where
  "ReenableCBWorker start ticks = LiftCB start # map LiftCB ticks"

definition refresh_loop :: "(net_env \<times> nat list) list \<Rightarrow> background list" where
  "refresh_loop ticks = map (\<lambda>(env, order). Prewarm env order) ticks"

definition session_loop :: "gotime list \<Rightarrow> background list" where
  "session_loop ticks = map DropSessions ticks"

subsection \<open>Runs of the system\<close>

datatype app_event = Served call_input http_request | Worked background

fun system_step :: "(string \<Rightarrow> string \<Rightarrow> route_entry option) \<Rightarrow> app_event \<Rightarrow> app \<Rightarrow> app process" where
  "system_step rt (Served ci hq) a = snd (app_step rt False ci hq a)"
| "system_step rt (Worked b) a = background_step b a"

fun system_run :: "(string \<Rightarrow> string \<Rightarrow> route_entry option) \<Rightarrow> app_event list \<Rightarrow> app \<Rightarrow> app process" where
  "system_run rt [] a = Proceed a"
| "system_run rt (ev # evs) a = (case system_step rt ev a of Exit n \<Rightarrow> Exit n | Proceed a' \<Rightarrow> system_run rt evs a')"

fun privileged :: "app_event \<Rightarrow> app \<Rightarrow> bool" where
  "privileged (Served ci hq) a = by_admin (ci_now ci) hq a"
| "privileged (Worked b) a = False"

text \<open>No request of the run is an administrator's at the time it is served.\<close>

fun calm :: "(string \<Rightarrow> string \<Rightarrow> route_entry option) \<Rightarrow> app_event list \<Rightarrow> app \<Rightarrow> bool" where
  "calm rt [] a \<longleftrightarrow> True"
| "calm rt (ev # evs) a \<longleftrightarrow> \<not> privileged ev a \<and> (case system_step rt ev a of Exit n \<Rightarrow> True | Proceed a' \<Rightarrow> calm rt evs a')"

definition long_keys :: "app \<Rightarrow> bool" where
  "long_keys a \<longleftrightarrow> list_all (\<lambda>k. 8 \<le> length (ck_Key k)) (km_keys (us_cb (gw_up (ap_gw a))))"

subsection \<open>What the workers leave alone\<close>

lemma check_probe_settings: "upstream_settings (snd (check_probe env up cred s)) = upstream_settings s"
  by (simp add: check_probe_def split_beta Let_def)

lemma check_settings: "upstream_settings (checkGrok env s) = upstream_settings s" "upstream_settings (checkCB env s) = upstream_settings s"
  by (simp_all add: checkGrok_def checkCB_def split_beta Let_def check_probe_settings split: option.split)

lemma prewarm_settings: "upstream_settings (prewarm_account env i s) = upstream_settings s"
  using Refresh_settings [of env i s] by (auto simp: prewarm_account_def upd_settings split: prod.split option.split)

lemma refresh_worker_settings: "upstream_settings (AutoRefreshWorker env order s) = upstream_settings s"
proof -
  have "upstream_settings (fold (prewarm_account env) xs s) = upstream_settings s" for xs s
    by (induction xs arbitrary: s) (simp_all add: prewarm_settings)
  then show ?thesis by (simp add: AutoRefreshWorker_def)
qed

lemma lift_settings:
  "upstream_settings (s\<lparr>us_grok := GrokReenable now (us_grok s)\<rparr>) = upstream_settings s"
  "upstream_settings (s\<lparr>us_cb := snd (CBReenable now (us_cb s))\<rparr>) = upstream_settings s"
proof -
  have "ga_Email (if cooled now (ga_disabled a) (ga_disabledAt a) then a\<lparr>ga_disabled := False\<rparr> else a) = ga_Email a" for a by simp
  then show "upstream_settings (s\<lparr>us_grok := GrokReenable now (us_grok s)\<rparr>) = upstream_settings s"
    by (simp add: upstream_settings_def GrokReenable_def comp_def)
  have "ck_Key (reenable_key now k) = ck_Key k" for k by (simp add: reenable_key_def)
  then show "upstream_settings (s\<lparr>us_cb := snd (CBReenable now (us_cb s))\<rparr>) = upstream_settings s"
    by (simp add: upstream_settings_def CBReenable_def comp_def)
qed

lemma on_up_configuration:
  "upstream_settings (f (gw_up (ap_gw a))) = upstream_settings (gw_up (ap_gw a)) \<Longrightarrow> configuration (on_up f a) = configuration a"
  by (simp add: configuration_def gateway_settings_def on_up_def on_gw_def)

lemma background_configuration:
  assumes "background_step b a = Proceed a'"
  shows "configuration a' = configuration a"
proof (cases b)
  case (LiftCB now)
  then have "a' = on_up (\<lambda>s. s\<lparr>us_cb := snd (CBReenable now (us_cb (gw_up (ap_gw a))))\<rparr>) a"
    using assms by (simp add: background_step_def split_beta split: if_splits)
  then show ?thesis using lift_settings(2) [of now "gw_up (ap_gw a)"] by (simp add: on_up_configuration)
qed (use assms in \<open>auto simp: background_step_def check_settings refresh_worker_settings lift_settings(1) intro!: on_up_configuration,
    simp_all add: configuration_def\<close>)

lemma background_proceeds: "long_keys a \<Longrightarrow> \<exists>a'. background_step b a = Proceed a'"
  by (cases b) (auto simp: background_step_def long_keys_def CBReenable_def list_all_iff mask8_long)

lemma long_keys_cong: "configuration a' = configuration a \<Longrightarrow> long_keys a' = long_keys a"
proof -
  have keys: "long_keys b \<longleftrightarrow> list_all (\<lambda>k. 8 \<le> length k) (map ck_Key (km_keys (us_cb (gw_up (ap_gw b)))))" for b
    by (simp add: long_keys_def list_all_length)
  assume "configuration a' = configuration a"
  then show ?thesis unfolding keys by (simp add: configuration_def gateway_settings_def upstream_settings_def)
qed

lemma system_step_configuration:
  assumes "gin_router rt" and "\<not> privileged ev a" and "system_step rt ev a = Proceed a'"
  shows "configuration a' = configuration a"
proof (cases ev)
  case (Served ci hq)
  then show ?thesis using unprivileged_step [OF assms(1), of ci hq a] assms(2,3) by auto
next
  case (Worked b)
  then show ?thesis using background_configuration assms(3) by simp
qed

lemma system_step_proceeds:
  assumes "gin_router rt" and "\<not> privileged ev a" and "long_keys a"
  shows "\<exists>a'. system_step rt ev a = Proceed a'"
proof (cases ev)
  case (Served ci hq)
  then show ?thesis using unprivileged_step [OF assms(1), of ci hq a] assms(2) by auto
next
  case (Worked b)
  then show ?thesis using background_proceeds [OF assms(3)] by simp
qed

lemma system_run_configuration:
  "gin_router rt \<Longrightarrow> calm rt evs a \<Longrightarrow> system_run rt evs a = Proceed a' \<Longrightarrow> configuration a' = configuration a"
proof (induction evs arbitrary: a)
  case (Cons ev evs)
  then obtain a1 where a1: "system_step rt ev a = Proceed a1" by (cases "system_step rt ev a") auto
  then have "configuration a' = configuration a1" using Cons by auto
  moreover have "configuration a1 = configuration a" using system_step_configuration [OF Cons.prems(1) _ a1] Cons.prems(2) by simp
  ultimately show ?case by simp
qed simp

lemma system_run_proceeds:
  "gin_router rt \<Longrightarrow> calm rt evs a \<Longrightarrow> long_keys a \<Longrightarrow> \<exists>a'. system_run rt evs a = Proceed a'"
proof (induction evs arbitrary: a)
  case (Cons ev evs)
  obtain a1 where a1: "system_step rt ev a = Proceed a1" using system_step_proceeds [OF Cons.prems(1) _ Cons.prems(3)] Cons.prems(2) by auto
  have "configuration a1 = configuration a" using system_step_configuration [OF Cons.prems(1) _ a1] Cons.prems(2) by simp
  then have "long_keys a1" using long_keys_cong Cons.prems(3) by blast
  then show ?case using Cons.IH [OF Cons.prems(1)] Cons.prems(2) a1 by simp
qed simp

text \<open>Without an administrator key every run is calm.\<close>

lemma no_admins_calm: "gin_router rt \<Longrightarrow> no_admins a \<Longrightarrow> calm rt evs a"
proof (induction evs arbitrary: a)
  case (Cons ev evs)
  have p: "\<not> privileged ev a" using no_admins_by [OF Cons.prems(2)] by (cases ev) auto
  show ?case
  proof (cases "system_step rt ev a")
    case (Proceed a1)
    then have "no_admins a1" using no_admins_cong [OF system_step_configuration [OF Cons.prems(1) p Proceed]] Cons.prems(2) by simp
    then show ?thesis using Cons.IH [OF Cons.prems(1)] Proceed p by simp
  qed (use p in simp)
qed simp

subsection \<open>Properties of whole runs\<close>


text \<open>
  C5: A deleted key stays dead. Once an administrator's request to delete a key was answered with success, a
  request that presents this key, as bearer token, by the header of the Messages interface or through a
  session that was opened with it, reaches no endpoint but the public ones; no run of background work and of
  requests that are not an administrator's changes that.
\<close>

theorem deleted_key_stays_dead:
  assumes "gin_router rt" and "fst (app_step rt False ci hq a) = Reached endpoint.DeleteKey ck"
    and "ResolveKey (gw_auth (ap_gw a)) (request_param rt hq) = Some k"
    and "fst (fst (HandleDeleteKey (request_param rt hq) (gw_auth (ap_gw a)) (gw_keys (ap_gw a)))) = 200"
    and "system_run rt [Served ci hq] a = Proceed a1" and "calm rt evs a1" and "system_run rt evs a1 = Proceed a2"
    and "presents (Some (LookupSession (ci_now ci'))) (AnthropicAuthMiddleware (hq_api_key hq') (hq_base hq')) (ap_sessions a2) k"
  shows "fst (app_step rt False ci' hq' a2) \<notin> {Reached e ck' | e ck'. \<not> is_public e}"
proof -
  have "map_of (gw_auth (ap_gw a1)) k = None" using deletion_effect [OF assms(2-4)] assms(5) by auto
  moreover have "configuration a2 = configuration a1" by (rule system_run_configuration [OF assms(1,6,7)])
  ultimately have "map_of (gw_auth (ap_gw a2)) k = None" using settings_keys by blast
  then show ?thesis using absent_key_stopped [OF assms(1) _ _ assms(8)] by blast
qed

text \<open>
  The condition on the keys matters. A CodeBuddy key of fewer than eight characters can be imported; when the
  upstream sends it into cooldown, the worker that lifts the cooldown panics in its log line, outside any
  handler, and the gateway is gone.
\<close>

theorem short_key_kills_gateway:
  assumes "k \<in> set (km_keys (us_cb (gw_up (ap_gw a))))" and "length (ck_Key k) < 8"
    and "cooled now (ck_disabled k) (ck_disabledAt k)"
  shows "system_run rt (map Worked (ReenableCBWorker now ticks)) a = Exit 2"
proof -
  have "mask8 (ck_Key k) = None" using assms(2) by (simp add: mask8_def slice_to_def)
  then have "\<not> fst (CBReenable now (us_cb (gw_up (ap_gw a))))" using assms(1,3) by (auto simp: CBReenable_def list_all_iff)
  then show ?thesis by (simp add: ReenableCBWorker_def background_step_def split_beta)
qed

subsection \<open>Examples\<close>


theorem deleted_key_stays_dead_witness:
  "\<exists>a1. system_run ex_router [Served (ex_input None) (ex_call ''DELETE'' ''/api/keys/gw-2'' ''gw-1'')] (ex_app ''admin'') = Proceed a1
     \<and> fst (app_step ex_router False (ex_input None) (ex_call ''GET'' ''/v1/models'' ''gw-2'') a1) \<notin> {Reached e ck' | e ck'. \<not> is_public e}"
proof -
  obtain a1 where a1: "system_run ex_router [Served (ex_input None) (ex_call ''DELETE'' ''/api/keys/gw-2'' ''gw-1'')] (ex_app ''admin'') = Proceed a1"
    using deletion_effect [OF ex_delete, unfolded ex_delete_param, OF ex_delete_key] by auto
  have "presents (Some (LookupSession (ci_now (ex_input None)))) (AnthropicAuthMiddleware (hq_api_key (ex_call ''GET'' ''/v1/models'' ''gw-2''))
      (hq_base (ex_call ''GET'' ''/v1/models'' ''gw-2''))) (ap_sessions a1) ''gw-2''"
    by (simp add: ex_call_def ex_hq_def AnthropicAuthMiddleware_def presents_def)
  from deleted_key_stays_dead [OF ex_router ex_delete, unfolded ex_delete_param, OF ex_delete_key a1 _ _ this, of "[]"] a1 show ?thesis by simp
qed

end
