(* ===== verification/LogPipeline.thy ===== *)
theory LogPipeline
  imports Fox_Prelude
begin

text \<open>
  The asynchronous log pipeline of \<^verbatim>\<open>internal/db/db.go\<close>: producers put entries into a bounded
  channel without blocking (\<^verbatim>\<open>LogRequest\<close>, \<^verbatim>\<open>LogRefresh\<close>, \<^verbatim>\<open>LogEvent\<close>), a consumer goroutine collects
  them into a batch and hands it to the log store when it is full, at every tick, and once more when
  the store is closed. The three consumers differ in the type of entry and in the batch size.

  An event of a run is a call of a producer or one branch of the consumer's \<^verbatim>\<open>select\<close>; it carries the
  outcome of the insertion it may make. \<open>pl_accepted\<close> records every entry the channel has taken.
\<close>

record ('a, 'db) pipeline =
  pl_chan :: "'a list"
  pl_batch :: "'a list"
  pl_db :: 'db
  pl_stopped :: bool
  pl_accepted :: "'a list"

datatype ('a, 'env) pl_event = Log 'a | Receive 'env | Tick 'env | Done 'env

definition LOG_BUFFER_SIZE :: nat where
  "LOG_BUFFER_SIZE = 10000"

definition new_pipeline :: "'db \<Rightarrow> ('a, 'db) pipeline" where
  "new_pipeline db = \<lparr>pl_chan = [], pl_batch = [], pl_db = db, pl_stopped = False, pl_accepted = []\<rparr>"

definition enqueue :: "'a \<Rightarrow> ('a, 'db) pipeline \<Rightarrow> ('a, 'db) pipeline" where
  "enqueue r p =
     (if length (pl_chan p) < LOG_BUFFER_SIZE
      then p\<lparr>pl_chan := pl_chan p @ [r], pl_accepted := pl_accepted p @ [r]\<rparr> else p)"

definition flush_batch :: "('env \<Rightarrow> 'a list \<Rightarrow> 'db \<Rightarrow> 'e option \<times> 'db) \<Rightarrow> 'env \<Rightarrow> ('a, 'db) pipeline \<Rightarrow> ('a, 'db) pipeline" where
  "flush_batch ins env p =
     (if pl_batch p = [] then p
      else p\<lparr>pl_db := snd (ins env (pl_batch p) (pl_db p)), pl_batch := []\<rparr>)"

definition consumer_step ::
  "('env \<Rightarrow> 'a list \<Rightarrow> 'db \<Rightarrow> 'e option \<times> 'db) \<Rightarrow> nat \<Rightarrow> ('a, 'env) pl_event \<Rightarrow> ('a, 'db) pipeline \<Rightarrow> ('a, 'db) pipeline" where
  "consumer_step ins n ev p =
     (case ev of
        Log r \<Rightarrow> enqueue r p
      | Receive env \<Rightarrow>
          (if pl_stopped p then p
           else case pl_chan p of
             [] \<Rightarrow> p
           | r # rs \<Rightarrow>
               (let p1 = p\<lparr>pl_chan := rs, pl_batch := pl_batch p @ [r]\<rparr>
                in if n \<le> length (pl_batch p1) then flush_batch ins env p1 else p1))
      | Tick env \<Rightarrow> if pl_stopped p then p else flush_batch ins env p
      | Done env \<Rightarrow> if pl_stopped p then p else (flush_batch ins env p)\<lparr>pl_stopped := True\<rparr>)"

definition consumeRequestLogs where
  "consumeRequestLogs ins evs p = fold (consumer_step ins 200) evs p"

definition consumeRefreshLogs where
  "consumeRefreshLogs ins evs p = fold (consumer_step ins 50) evs p"

definition consumeAccountEvents where
  "consumeAccountEvents ins evs p = fold (consumer_step ins 50) evs p"

subsection \<open>Runs\<close>

fun event_env :: "('a, 'env) pl_event \<Rightarrow> 'env option" where
  "event_env (Log _) = None"
| "event_env (Receive e) = Some e"
| "event_env (Tick e) = Some e"
| "event_env (Done e) = Some e"

fun logged :: "('a, 'env) pl_event list \<Rightarrow> 'a list" where
  "logged [] = []"
| "logged (Log r # evs) = r # logged evs"
| "logged (_ # evs) = logged evs"

definition envs_ok :: "('env \<Rightarrow> bool) \<Rightarrow> ('a, 'env) pl_event \<Rightarrow> bool" where
  "envs_ok works ev = (case event_env ev of None \<Rightarrow> True | Some e \<Rightarrow> works e)"

lemma envs_ok_simps [simp]:
  "envs_ok works (Log r)" "envs_ok works (Receive e) = works e" "envs_ok works (Tick e) = works e" "envs_ok works (Done e) = works e"
  by (simp_all add: envs_ok_def)

lemma flush_fields [simp]:
  "pl_chan (flush_batch ins env p) = pl_chan p" "pl_batch (flush_batch ins env p) = []"
  "pl_stopped (flush_batch ins env p) = pl_stopped p" "pl_accepted (flush_batch ins env p) = pl_accepted p"
  by (simp_all add: flush_batch_def)

text \<open>The memory the pipeline takes is bounded whatever the store answers, and nothing is reordered or duplicated on the way in.\<close>

definition pl_bounded :: "nat \<Rightarrow> ('a, 'db) pipeline \<Rightarrow> bool" where
  "pl_bounded n p \<longleftrightarrow> length (pl_batch p) < n \<and> length (pl_chan p) \<le> LOG_BUFFER_SIZE"

lemma consumer_bounded:
  assumes "0 < n" and "pl_bounded n p"
  shows "pl_bounded n (consumer_step ins n ev p)"
  using assms by (cases ev) (auto simp: consumer_step_def pl_bounded_def enqueue_def Let_def split: list.split)

lemma run_bounded: "0 < n \<Longrightarrow> pl_bounded n p \<Longrightarrow> pl_bounded n (fold (consumer_step ins n) evs p)"
  by (induction evs arbitrary: p) (simp_all add: consumer_bounded)

lemma logged_Cons: "logged (ev # evs) = logged [ev] @ logged evs"
  by (cases ev) simp_all

lemma step_accepted: "\<exists>ys. pl_accepted (consumer_step ins n ev p) = pl_accepted p @ ys \<and> subseq ys (logged [ev])"
proof (cases ev)
  case (Log r)
  then show ?thesis by (simp add: consumer_step_def enqueue_def)
qed (auto simp: consumer_step_def Let_def split: list.split)

lemma run_accepted:
  "\<exists>xs. pl_accepted (fold (consumer_step ins n) evs p) = pl_accepted p @ xs \<and> subseq xs (logged evs)"
proof (induction evs arbitrary: p)
  case (Cons ev evs)
  obtain ys where ys: "pl_accepted (consumer_step ins n ev p) = pl_accepted p @ ys" "subseq ys (logged [ev])"
    using step_accepted [of ins n ev p] by blast
  obtain xs where xs: "pl_accepted (fold (consumer_step ins n) evs (consumer_step ins n ev p)) = pl_accepted (consumer_step ins n ev p) @ xs" "subseq xs (logged evs)"
    using Cons by blast
  have "subseq (ys @ xs) (logged (ev # evs))" unfolding logged_Cons [of ev evs] by (rule list_emb_append_mono [OF ys(2) xs(2)])
  then show ?case using xs(1) ys(1) by auto
qed simp

lemma run_accepts_all:
  "length (pl_chan p) + length (logged evs) \<le> LOG_BUFFER_SIZE
    \<Longrightarrow> pl_accepted (fold (consumer_step ins n) evs p) = pl_accepted p @ logged evs"
proof (induction evs arbitrary: p)
  case (Cons ev evs)
  let ?q = "consumer_step ins n ev p"
  have "length (pl_chan ?q) \<le> length (pl_chan p) + length (logged [ev]) \<and> pl_accepted ?q = pl_accepted p @ logged [ev]"
    using Cons.prems logged_Cons [of ev evs]
    by (cases ev) (auto simp: consumer_step_def enqueue_def Let_def split: list.split)
  then show ?case using Cons.IH [of ?q] Cons.prems logged_Cons [of ev evs] by simp
qed simp

text \<open>
  What the pipeline needs of a log store: a batch of acceptable entries that the store takes is
  appended to its rows in order, and a batch it refuses leaves the rows as they are.
\<close>

locale log_sink =
  fixes ins :: "'env \<Rightarrow> 'a list \<Rightarrow> 'db \<Rightarrow> 'e option \<times> 'db"
    and contents :: "'db \<Rightarrow> 'r list"
    and norm :: "'a \<Rightarrow> 'r"
    and entry_ok :: "'a \<Rightarrow> bool"
    and works :: "'env \<Rightarrow> bool"
  assumes insert_works: "works env \<Longrightarrow> list_all entry_ok b \<Longrightarrow> contents (snd (ins env b db)) = contents db @ map norm b"
    and insert_refused: "fst (ins env b db) \<noteq> None \<Longrightarrow> contents (snd (ins env b db)) = contents db"
begin

definition in_flight :: "'r list \<Rightarrow> ('a, 'db) pipeline \<Rightarrow> bool" where
  "in_flight base p \<longleftrightarrow>
     contents (pl_db p) @ map norm (pl_batch p @ pl_chan p) = base @ map norm (pl_accepted p)
     \<and> list_all entry_ok (pl_batch p @ pl_chan p)"

lemma flush_in_flight: "works env \<Longrightarrow> in_flight base p \<Longrightarrow> in_flight base (flush_batch ins env p)"
  using insert_works [of env "pl_batch p" "pl_db p"] by (auto simp: in_flight_def flush_batch_def)

lemma step_in_flight:
  assumes "in_flight base p" and "envs_ok works ev" and "list_all entry_ok (logged [ev])"
  shows "in_flight base (consumer_step ins n ev p)"
proof (cases ev)
  case (Log r)
  then show ?thesis using assms by (auto simp: consumer_step_def enqueue_def in_flight_def)
next
  case (Receive env)
  show ?thesis
  proof (cases "pl_stopped p \<or> pl_chan p = []")
    case True then show ?thesis using assms(1) Receive by (auto simp: consumer_step_def split: list.split)
  next
    case False
    then obtain r rs where c: "pl_chan p = r # rs" "\<not> pl_stopped p" by (cases "pl_chan p") auto
    have "in_flight base (p\<lparr>pl_chan := rs, pl_batch := pl_batch p @ [r]\<rparr>)" using assms(1) c by (simp add: in_flight_def)
    then show ?thesis using flush_in_flight assms(2) Receive c by (simp add: consumer_step_def Let_def)
  qed
next
  case (Tick env)
  then show ?thesis using assms flush_in_flight by (simp add: consumer_step_def)
next
  case (Done env)
  have "in_flight base (q\<lparr>pl_stopped := b\<rparr>) = in_flight base q" for q b by (simp add: in_flight_def)
  then show ?thesis using assms flush_in_flight Done by (simp add: consumer_step_def)
qed

lemma run_in_flight:
  "in_flight base p \<Longrightarrow> list_all (envs_ok works) evs \<Longrightarrow> list_all entry_ok (logged evs) \<Longrightarrow> in_flight base (fold (consumer_step ins n) evs p)"
proof (induction evs arbitrary: p)
  case (Cons ev evs)
  then show ?case using step_in_flight [of base p ev] by (simp add: logged_Cons [of ev evs])
qed simp

lemma run_from_new:
  assumes "list_all (envs_ok works) evs" and "list_all entry_ok (logged evs)"
    and p_def: "p = fold (consumer_step ins n) evs (new_pipeline db)"
  shows "contents (pl_db p) @ map norm (pl_batch p @ pl_chan p) = contents db @ map norm (pl_accepted p)"
    and "subseq (pl_accepted p) (logged evs)"
proof -
  have "in_flight (contents db) (new_pipeline db)" by (simp add: in_flight_def new_pipeline_def)
  then have "in_flight (contents db) p" unfolding p_def using run_in_flight assms(1,2) by blast
  then show "contents (pl_db p) @ map norm (pl_batch p @ pl_chan p) = contents db @ map norm (pl_accepted p)"
    by (simp add: in_flight_def)
  show "subseq (pl_accepted p) (logged evs)"
    using run_accepted [of ins n evs "new_pipeline db"] by (auto simp: p_def new_pipeline_def)
qed

text \<open>As many receptions as there are entries in the channel and one tick bring everything into the store.\<close>

lemma receive_drains:
  assumes "\<not> pl_stopped p"
  shows "pl_chan (fold (consumer_step ins n) (replicate (length (pl_chan p)) (Receive env)) p) = []
    \<and> \<not> pl_stopped (fold (consumer_step ins n) (replicate (length (pl_chan p)) (Receive env)) p)
    \<and> pl_accepted (fold (consumer_step ins n) (replicate (length (pl_chan p)) (Receive env)) p) = pl_accepted p"
  using assms
proof (induction "length (pl_chan p)" arbitrary: p)
  case (Suc k)
  then obtain r rs where c: "pl_chan p = r # rs" by (cases "pl_chan p") auto
  let ?q = "consumer_step ins n (Receive env) p"
  have "pl_chan ?q = rs" "\<not> pl_stopped ?q" "pl_accepted ?q = pl_accepted p"
    using Suc.prems c by (simp_all add: consumer_step_def Let_def)
  then show ?case using Suc.hyps(1) [of ?q] Suc.hyps(2) c by simp
qed simp

lemma drained:
  assumes "in_flight base p" and "\<not> pl_stopped p" and "works env"
    and q_def: "q = fold (consumer_step ins n) (replicate (length (pl_chan p)) (Receive env) @ [Tick env]) p"
  shows "contents (pl_db q) = base @ map norm (pl_accepted p)"
proof -
  let ?m = "fold (consumer_step ins n) (replicate (length (pl_chan p)) (Receive env)) p"
  have logged_none: "logged (replicate k (Receive env) :: ('a, 'env) pl_event list) = []" for k by (induction k) simp_all
  have m: "pl_chan ?m = []" "\<not> pl_stopped ?m" "pl_accepted ?m = pl_accepted p" using receive_drains [OF assms(2)] by simp_all
  have "in_flight base ?m" by (rule run_in_flight [OF assms(1)]) (simp_all add: logged_none assms(3) list_all_iff)
  then have "in_flight base (flush_batch ins env ?m)" by (rule flush_in_flight [OF assms(3)])
  moreover have "q = flush_batch ins env ?m" using m(2) by (simp add: q_def consumer_step_def)
  ultimately show ?thesis using m by (simp add: in_flight_def)
qed

text \<open>What is still in the channel when the consumer stops stays there for good.\<close>

lemma stopped_for_good:
  assumes "pl_stopped p"
  shows "pl_db (fold (consumer_step ins n) evs p) = pl_db p \<and> pl_stopped (fold (consumer_step ins n) evs p)"
  using assms
proof (induction evs arbitrary: p)
  case (Cons ev evs)
  have "pl_db (consumer_step ins n ev p) = pl_db p \<and> pl_stopped (consumer_step ins n ev p)"
    using Cons.prems by (cases ev) (auto simp: consumer_step_def enqueue_def)
  then show ?case using Cons.IH [of "consumer_step ins n ev p"] by simp
qed simp

lemma close_keeps:
  assumes "in_flight base p" and "\<not> pl_stopped p" and "works env"
  shows "contents (pl_db (fold (consumer_step ins n) (Done env # evs) p)) @ map norm (pl_chan p) = base @ map norm (pl_accepted p)"
proof -
  let ?q = "consumer_step ins n (Done env) p"
  have q: "?q = (flush_batch ins env p)\<lparr>pl_stopped := True\<rparr>" using assms(2) by (simp add: consumer_step_def)
  have "pl_db (fold (consumer_step ins n) (Done env # evs) p) = pl_db (flush_batch ins env p)"
    using stopped_for_good [of ?q n evs] by (simp add: q)
  then show ?thesis using flush_in_flight [OF assms(3,1)] by (simp add: in_flight_def)
qed

end

end
