(* ===== verification/LogStore.thy ===== *)
theory LogStore
  imports Routing PoolAdmin LogPipeline "HOL-Library.Product_Lexorder"
begin

text \<open>
  The request log: \<^verbatim>\<open>internal/db/logstore.go\<close> with its two implementations
  \<^verbatim>\<open>logstore_sqlite.go\<close> and \<^verbatim>\<open>logstore_clickhouse.go\<close>, and the history endpoints of
  \<^verbatim>\<open>internal/handlers/handlers.go\<close>.

  A table is the list of its rows in the order of insertion. The databases are outside the
  repository: that a committed transaction and a sent batch take effect as a whole, that a query sees
  the rows and compares instants, and that AUTOINCREMENT counts upwards is modelled here; the
  outcome of every call is an argument, and so is the order in which a query returns rows that its
  ORDER BY does not separate. Averages and percentages are rational numbers. How an instant is
  printed is an argument. Reading the rows of a query that succeeded does not fail, and the expiry that
  ClickHouse does by itself is left out.
\<close>

subsection \<open>Entries\<close>

record FullLog = RequestLog +
  rl_RequestBody :: string
  rl_ResponseBody :: string

record RefreshLog =
  rf_Timestamp :: gotime
  rf_AccountEmail :: string
  rf_Provider :: string
  rf_Success :: bool
  rf_ErrorMsg :: string
  rf_LatencyMs :: int

record AccountEvent =
  ev_Timestamp :: gotime
  ev_AccountID :: string
  ev_Provider :: string
  ev_EventType :: string
  ev_EventData :: "fields option"

record RequestStats =
  rs_TotalRequests :: int
  rs_TotalErrors :: int
  rs_ErrorRate :: rat
  rs_AvgLatencyMs :: rat
  rs_TotalTokensIn :: int
  rs_TotalTokensOut :: int
  rs_TotalTokens :: int

record ModelStats =
  ms_Model :: string
  ms_TotalRequests :: int
  ms_TotalErrors :: int
  ms_AvgLatencyMs :: rat
  ms_TotalTokensIn :: int
  ms_TotalTokensOut :: int
  ms_TotalTokens :: int

record RecentRequest =
  rq_ID :: string
  rq_Timestamp :: string
  rq_ClientKey :: string
  rq_Model :: string
  rq_Upstream :: string
  rq_AccountID :: string
  rq_StatusCode :: int
  rq_LatencyMs :: int
  rq_TokensIn :: int
  rq_TokensOut :: int
  rq_InputText :: string
  rq_OutputText :: string
  rq_ErrorMsg :: string

record RequestDetail = RecentRequest +
  rd_RequestBody :: "string option"
  rd_ResponseBody :: "string option"

definition max0 :: "int \<Rightarrow> int" where
  "max0 n = (if n < 0 then 0 else n)"

definition stamp :: "gotime \<Rightarrow> gotime \<Rightarrow> gotime" where
  "stamp now ts = (if is_zero ts then now else ts)"

definition event_data :: "(fields \<Rightarrow> string) \<Rightarrow> AccountEvent \<Rightarrow> string" where
  "event_data marshal e = (case ev_EventData e of None \<Rightarrow> [] | Some d \<Rightarrow> marshal d)"

definition body_bytes :: "string \<Rightarrow> string option" where
  "body_bytes s = (if s = [] then None else Some s)"

text \<open>The loop over a batch: row \<open>k\<close> is built by \<open>f k\<close>, and skipped when its insertion fails.\<close>

fun batch_rows :: "(nat \<Rightarrow> string option) \<Rightarrow> (nat \<Rightarrow> 'a \<Rightarrow> 'r) \<Rightarrow> nat \<Rightarrow> 'a list \<Rightarrow> 'r list" where
  "batch_rows err f k [] = []"
| "batch_rows err f k (x # xs) = (if err k = None then [f k x] else []) @ batch_rows err f (k + 1) xs"

subsection \<open>SQLite\<close>

record refresh_row =
  fr_Timestamp :: gotime
  fr_AccountEmail :: string
  fr_Provider :: string
  fr_Success :: int
  fr_ErrorMsg :: string
  fr_LatencyMs :: int

record event_row =
  er_Timestamp :: gotime
  er_AccountID :: string
  er_Provider :: string
  er_EventType :: string
  er_EventData :: string

record sq_db =
  sq_requests :: "(int \<times> FullLog) list"
  sq_seq :: int
  sq_refresh :: "refresh_row list"
  sq_events :: "event_row list"

record sq_env =
  sx_begin :: "string option"
  sx_prepare :: "string option"
  sx_exec :: "nat \<Rightarrow> string option"
  sx_commit :: "string option"
  sx_now :: "nat \<Rightarrow> gotime"

definition sq_tx :: "sq_env \<Rightarrow> 'a list \<Rightarrow> (sq_db \<Rightarrow> sq_db) \<Rightarrow> sq_db \<Rightarrow> string option \<times> sq_db" where
  "sq_tx env batch f db =
     (if batch = [] then (None, db)
      else case sx_begin env of Some e \<Rightarrow> (Some e, db) | None \<Rightarrow>
           case sx_prepare env of Some e \<Rightarrow> (Some e, db) | None \<Rightarrow>
           case sx_commit env of Some e \<Rightarrow> (Some e, db) | None \<Rightarrow> (None, f db))"

definition sq_row :: "gotime \<Rightarrow> FullLog \<Rightarrow> FullLog" where
  "sq_row now r =
     r\<lparr>rl_Timestamp := stamp now (rl_Timestamp r), rl_LatencyMs := max0 (rl_LatencyMs r),
       rl_TokensIn := max0 (rl_TokensIn r), rl_TokensOut := max0 (rl_TokensOut r)\<rparr>"

definition sq_InsertRequestBatch :: "sq_env \<Rightarrow> FullLog list \<Rightarrow> sq_db \<Rightarrow> string option \<times> sq_db" where
  "sq_InsertRequestBatch env batch db =
     sq_tx env batch (\<lambda>db.
       let rows = batch_rows (sx_exec env) (\<lambda>k. sq_row (sx_now env k)) 0 batch
       in db\<lparr>sq_requests := sq_requests db @ zip [sq_seq db + 1..sq_seq db + int (length rows)] rows,
             sq_seq := sq_seq db + int (length rows)\<rparr>) db"

definition sq_refresh_row :: "gotime \<Rightarrow> RefreshLog \<Rightarrow> refresh_row" where
  "sq_refresh_row now r =
     \<lparr>fr_Timestamp = stamp now (rf_Timestamp r), fr_AccountEmail = rf_AccountEmail r, fr_Provider = rf_Provider r,
      fr_Success = (if rf_Success r then 1 else 0), fr_ErrorMsg = rf_ErrorMsg r, fr_LatencyMs = max0 (rf_LatencyMs r)\<rparr>"

definition sq_InsertRefreshBatch :: "sq_env \<Rightarrow> RefreshLog list \<Rightarrow> sq_db \<Rightarrow> string option \<times> sq_db" where
  "sq_InsertRefreshBatch env batch db =
     sq_tx env batch (\<lambda>db. db\<lparr>sq_refresh := sq_refresh db @ batch_rows (sx_exec env) (\<lambda>k. sq_refresh_row (sx_now env k)) 0 batch\<rparr>) db"

definition sq_event_row :: "(fields \<Rightarrow> string) \<Rightarrow> gotime \<Rightarrow> AccountEvent \<Rightarrow> event_row" where
  "sq_event_row marshal now e =
     \<lparr>er_Timestamp = stamp now (ev_Timestamp e), er_AccountID = ev_AccountID e, er_Provider = ev_Provider e,
      er_EventType = ev_EventType e, er_EventData = event_data marshal e\<rparr>"

definition sq_InsertEventBatch :: "(fields \<Rightarrow> string) \<Rightarrow> sq_env \<Rightarrow> AccountEvent list \<Rightarrow> sq_db \<Rightarrow> string option \<times> sq_db" where
  "sq_InsertEventBatch marshal env batch db =
     sq_tx env batch (\<lambda>db. db\<lparr>sq_events := sq_events db @ batch_rows (sx_exec env) (\<lambda>k. sq_event_row marshal (sx_now env k)) 0 batch\<rparr>) db"

text \<open>
  The sweep of \<^verbatim>\<open>retentionLoop\<close>: \<^verbatim>\<open>datetime('now', '-90 days')\<close> has whole seconds; each table's deletion
  may fail alone.
\<close>

definition retention_cutoff :: "gotime \<Rightarrow> gotime" where
  "retention_cutoff now = (now - 90 * 24 * hour) div second * second"

definition sq_prune :: "gotime \<Rightarrow> (nat \<Rightarrow> string option) \<Rightarrow> sq_db \<Rightarrow> sq_db" where
  "sq_prune now err db =
     (let keep = (\<lambda>ts. \<not> ts < retention_cutoff now);
          db = (if err 0 = None then db\<lparr>sq_requests := filter (keep \<circ> rl_Timestamp \<circ> snd) (sq_requests db)\<rparr> else db);
          db = (if err 1 = None then db\<lparr>sq_refresh := filter (keep \<circ> fr_Timestamp) (sq_refresh db)\<rparr> else db)
      in (if err 2 = None then db\<lparr>sq_events := filter (keep \<circ> er_Timestamp) (sq_events db)\<rparr> else db))"

definition error_rate :: "int \<Rightarrow> int \<Rightarrow> rat" where
  "error_rate e n = (if n > 0 then of_int e / of_int n * 100 else 0)"

definition average :: "int list \<Rightarrow> rat" where
  "average xs = (if xs = [] then 0 else of_int (sum_list xs) / of_nat (length xs))"

definition count_errors :: "int list \<Rightarrow> int" where
  "count_errors codes = int (length (filter (\<lambda>c. c \<ge> 400) codes))"

text \<open>\<^verbatim>\<open>SUM\<close> of SQLite fails when it leaves the 64-bit integers; the columns are not negative.\<close>

definition sq_sum :: "int list \<Rightarrow> int option" where
  "sq_sum xs = (if int64_range (sum_list xs) then Some (sum_list xs) else None)"

definition sq_GetRequestStats :: "string option \<Rightarrow> gotime \<Rightarrow> sq_db \<Rightarrow> string + RequestStats" where
  "sq_GetRequestStats qerr since db =
     (case qerr of Some e \<Rightarrow> Inl e | None \<Rightarrow>
      let rs = filter (\<lambda>r. rl_Timestamp r \<ge> since) (map snd (sq_requests db)); n = int (length rs); e = count_errors (map rl_StatusCode rs)
      in case (sq_sum (map rl_TokensIn rs), sq_sum (map rl_TokensOut rs)) of
           (Some tin, Some tout) \<Rightarrow>
             Inr \<lparr>rs_TotalRequests = n, rs_TotalErrors = e, rs_ErrorRate = error_rate e n,
                  rs_AvgLatencyMs = average (map rl_LatencyMs rs), rs_TotalTokensIn = tin, rs_TotalTokensOut = tout,
                  rs_TotalTokens = wrap64 (tin + tout)\<rparr>
         | _ \<Rightarrow> Inl ''integer overflow'')"

definition sq_model_stats :: "FullLog list \<Rightarrow> string \<Rightarrow> ModelStats option" where
  "sq_model_stats rs0 m =
     (let rs = filter (\<lambda>r. rl_Model r = m) rs0
      in case (sq_sum (map rl_TokensIn rs), sq_sum (map rl_TokensOut rs)) of
           (Some tin, Some tout) \<Rightarrow>
             Some \<lparr>ms_Model = m, ms_TotalRequests = int (length rs), ms_TotalErrors = count_errors (map rl_StatusCode rs),
                   ms_AvgLatencyMs = average (map rl_LatencyMs rs), ms_TotalTokensIn = tin, ms_TotalTokensOut = tout,
                   ms_TotalTokens = wrap64 (tin + tout)\<rparr>
         | _ \<Rightarrow> None)"

text \<open>\<open>order\<close> arranges the groups for the ORDER BY.\<close>

definition sq_GetModelStats :: "(ModelStats list \<Rightarrow> ModelStats list) \<Rightarrow> string option \<Rightarrow> gotime \<Rightarrow> int \<Rightarrow> sq_db \<Rightarrow> string + ModelStats list" where
  "sq_GetModelStats order qerr since limit0 db =
     (case qerr of Some e \<Rightarrow> Inl e | None \<Rightarrow>
      let limit = (if limit0 \<le> 0 then 20 else limit0);
          rs = filter (\<lambda>r. rl_Timestamp r \<ge> since) (map snd (sq_requests db));
          groups = map (sq_model_stats rs) (remdups (map rl_Model rs))
      in if None \<in> set groups then Inl ''sqlite model stats iteration: integer overflow''
         else Inr (take (nat limit) (order (map the groups))))"

definition clamp_limit :: "int \<Rightarrow> int" where
  "clamp_limit limit = (let l = (if limit \<le> 0 then 50 else limit) in if l > 500 then 500 else l)"

definition sq_recent :: "(gotime \<Rightarrow> string) \<Rightarrow> int \<times> FullLog \<Rightarrow> RecentRequest" where
  "sq_recent fmt p =
     (case p of (i, r) \<Rightarrow>
        \<lparr>rq_ID = Itoa i, rq_Timestamp = fmt (rl_Timestamp r), rq_ClientKey = rl_ClientKey r, rq_Model = rl_Model r,
         rq_Upstream = rl_Upstream r, rq_AccountID = rl_AccountID r, rq_StatusCode = rl_StatusCode r, rq_LatencyMs = rl_LatencyMs r,
         rq_TokensIn = rl_TokensIn r, rq_TokensOut = rl_TokensOut r, rq_InputText = rl_InputText r, rq_OutputText = rl_OutputText r,
         rq_ErrorMsg = rl_ErrorMsg r\<rparr>)"

definition sq_GetRecentRequests :: "(gotime \<Rightarrow> string) \<Rightarrow> string option \<Rightarrow> int \<Rightarrow> sq_db \<Rightarrow> string + RecentRequest list" where
  "sq_GetRecentRequests fmt qerr limit db =
     (case qerr of
        Some e \<Rightarrow> Inl e
      | None \<Rightarrow>
          Inr (map (sq_recent fmt)
            (take (nat (clamp_limit limit)) (sort_key (\<lambda>(i, r). (- rl_Timestamp r, - i)) (sq_requests db)))))"

definition with_bodies :: "RecentRequest \<Rightarrow> string \<Rightarrow> string \<Rightarrow> RequestDetail" where
  "with_bodies q req resp = RecentRequest.extend q \<lparr>rd_RequestBody = body_bytes req, rd_ResponseBody = body_bytes resp\<rparr>"

definition sq_GetRequestDetail :: "(gotime \<Rightarrow> string) \<Rightarrow> string option \<Rightarrow> 64 word \<Rightarrow> sq_db \<Rightarrow> string + RequestDetail" where
  "sq_GetRequestDetail fmt qerr i db =
     (case qerr of Some e \<Rightarrow> Inl e | None \<Rightarrow>
      case map_of (sq_requests db) (sint i) of
        None \<Rightarrow> Inl ''sql: no rows in result set''
      | Some r \<Rightarrow> Inr (with_bodies (sq_recent fmt (sint i, r)) (rl_RequestBody r) (rl_ResponseBody r)))"

subsection \<open>ClickHouse\<close>

text \<open>The columns have the widths of the schema; a \<^verbatim>\<open>DateTime64(3)\<close> counts milliseconds.\<close>

record ch_row =
  cr_id :: "64 word"
  cr_ts :: int
  cr_request_id :: string
  cr_client_key :: string
  cr_model :: string
  cr_upstream :: string
  cr_account_id :: string
  cr_status_code :: "16 word"
  cr_latency_ms :: "32 word"
  cr_tokens_in :: "32 word"
  cr_tokens_out :: "32 word"
  cr_error_msg :: string
  cr_input_text :: string
  cr_output_text :: string
  cr_request_body :: string
  cr_response_body :: string

record ch_refresh =
  cf_ts :: int
  cf_account_email :: string
  cf_provider :: string
  cf_success :: "8 word"
  cf_error_msg :: string
  cf_latency_ms :: "32 word"

record ch_event =
  ce_ts :: int
  ce_account_id :: string
  ce_provider :: string
  ce_event_type :: string
  ce_event_data :: string

record ch_db =
  ch_requests :: "ch_row list"
  ch_refreshes :: "ch_refresh list"
  ch_events :: "ch_event list"

record ch_env =
  cx_prepare :: "string option"
  cx_append :: "nat \<Rightarrow> string option"
  cx_send :: "string option"
  cx_now :: "nat \<Rightarrow> gotime"
  cx_rand :: "nat \<Rightarrow> 8 word list option"

definition millis :: "gotime \<Rightarrow> int" where
  "millis t = t div 1000000"

definition instant :: "int \<Rightarrow> gotime" where
  "instant ms = ms * 1000000"

definition le_word :: "8 word list \<Rightarrow> 64 word" where
  "le_word bs = foldr (\<lambda>b acc. ucast b + 256 * acc) bs 0"

definition newLogID :: "8 word list option \<Rightarrow> gotime \<Rightarrow> 64 word" where
  "newLogID r now = (case r of Some bs \<Rightarrow> le_word bs | None \<Rightarrow> word_of_int now)"

definition ch_batch :: "ch_env \<Rightarrow> 'a list \<Rightarrow> (string \<Rightarrow> string) \<Rightarrow> (ch_db \<Rightarrow> ch_db) \<Rightarrow> ch_db \<Rightarrow> string option \<times> ch_db" where
  "ch_batch env batch wrap f db =
     (if batch = [] then (None, db)
      else case cx_prepare env of Some e \<Rightarrow> (Some (wrap e), db) | None \<Rightarrow>
           case cx_send env of Some e \<Rightarrow> (Some e, db) | None \<Rightarrow> (None, f db))"

definition ch_request_row :: "64 word \<Rightarrow> gotime \<Rightarrow> FullLog \<Rightarrow> ch_row" where
  "ch_request_row i now r =
     \<lparr>cr_id = i, cr_ts = millis (stamp now (rl_Timestamp r)), cr_request_id = rl_RequestID r, cr_client_key = rl_ClientKey r,
      cr_model = rl_Model r, cr_upstream = rl_Upstream r, cr_account_id = rl_AccountID r, cr_status_code = word_of_int (rl_StatusCode r),
      cr_latency_ms = word_of_int (max0 (rl_LatencyMs r)), cr_tokens_in = word_of_int (max0 (rl_TokensIn r)),
      cr_tokens_out = word_of_int (max0 (rl_TokensOut r)), cr_error_msg = rl_ErrorMsg r, cr_input_text = rl_InputText r,
      cr_output_text = rl_OutputText r, cr_request_body = rl_RequestBody r, cr_response_body = rl_ResponseBody r\<rparr>"

definition ch_InsertRequestBatch :: "ch_env \<Rightarrow> FullLog list \<Rightarrow> ch_db \<Rightarrow> string option \<times> ch_db" where
  "ch_InsertRequestBatch env batch db =
     ch_batch env batch (\<lambda>e. ''prepare: '' @ e) (\<lambda>db.
       db\<lparr>ch_requests := ch_requests db
           @ batch_rows (cx_append env) (\<lambda>k. ch_request_row (newLogID (cx_rand env k) (cx_now env k)) (cx_now env k)) 0 batch\<rparr>) db"

definition ch_refresh_row :: "RefreshLog \<Rightarrow> ch_refresh" where
  "ch_refresh_row r =
     \<lparr>cf_ts = millis (rf_Timestamp r), cf_account_email = rf_AccountEmail r, cf_provider = rf_Provider r,
      cf_success = (if rf_Success r then 1 else 0), cf_error_msg = rf_ErrorMsg r, cf_latency_ms = word_of_int (max0 (rf_LatencyMs r))\<rparr>"

definition ch_InsertRefreshBatch :: "ch_env \<Rightarrow> RefreshLog list \<Rightarrow> ch_db \<Rightarrow> string option \<times> ch_db" where
  "ch_InsertRefreshBatch env batch db =
     ch_batch env batch (\<lambda>e. e) (\<lambda>db. db\<lparr>ch_refreshes := ch_refreshes db @ batch_rows (cx_append env) (\<lambda>_. ch_refresh_row) 0 batch\<rparr>) db"

definition ch_event_row :: "(fields \<Rightarrow> string) \<Rightarrow> AccountEvent \<Rightarrow> ch_event" where
  "ch_event_row marshal e =
     \<lparr>ce_ts = millis (ev_Timestamp e), ce_account_id = ev_AccountID e, ce_provider = ev_Provider e,
      ce_event_type = ev_EventType e, ce_event_data = event_data marshal e\<rparr>"

definition ch_InsertEventBatch :: "(fields \<Rightarrow> string) \<Rightarrow> ch_env \<Rightarrow> AccountEvent list \<Rightarrow> ch_db \<Rightarrow> string option \<times> ch_db" where
  "ch_InsertEventBatch marshal env batch db =
     ch_batch env batch (\<lambda>e. e) (\<lambda>db. db\<lparr>ch_events := ch_events db @ batch_rows (cx_append env) (\<lambda>_. ch_event_row marshal) 0 batch\<rparr>) db"

text \<open>Sums of ClickHouse are unsigned 64-bit integers; \<^verbatim>\<open>int(x)\<close> reads one as signed.\<close>

definition ch_sum :: "32 word list \<Rightarrow> 64 word" where
  "ch_sum xs = sum_list (map ucast xs)"

definition ch_GetRequestStats :: "string option \<Rightarrow> gotime \<Rightarrow> ch_db \<Rightarrow> string + RequestStats" where
  "ch_GetRequestStats qerr since db =
     (case qerr of Some e \<Rightarrow> Inl e | None \<Rightarrow>
        let rs = filter (\<lambda>r. instant (cr_ts r) \<ge> since) (ch_requests db); n = int (length rs);
            e = count_errors (map (uint \<circ> cr_status_code) rs); tin = ch_sum (map cr_tokens_in rs); tout = ch_sum (map cr_tokens_out rs)
        in Inr \<lparr>rs_TotalRequests = n, rs_TotalErrors = e, rs_ErrorRate = error_rate e n,
                rs_AvgLatencyMs = average (map (uint \<circ> cr_latency_ms) rs), rs_TotalTokensIn = sint tin, rs_TotalTokensOut = sint tout,
                rs_TotalTokens = sint (tin + tout)\<rparr>)"

definition ch_model_stats :: "ch_row list \<Rightarrow> string \<Rightarrow> ModelStats" where
  "ch_model_stats rs0 m =
     (let rs = filter (\<lambda>r. cr_model r = m) rs0; tin = ch_sum (map cr_tokens_in rs); tout = ch_sum (map cr_tokens_out rs)
      in \<lparr>ms_Model = m, ms_TotalRequests = int (length rs), ms_TotalErrors = count_errors (map (uint \<circ> cr_status_code) rs),
          ms_AvgLatencyMs = average (map (uint \<circ> cr_latency_ms) rs), ms_TotalTokensIn = sint tin, ms_TotalTokensOut = sint tout,
          ms_TotalTokens = sint (tin + tout)\<rparr>)"

definition ch_GetModelStats :: "(ModelStats list \<Rightarrow> ModelStats list) \<Rightarrow> string option \<Rightarrow> gotime \<Rightarrow> int \<Rightarrow> ch_db \<Rightarrow> string + ModelStats list" where
  "ch_GetModelStats order qerr since limit db =
     (case qerr of Some e \<Rightarrow> Inl e | None \<Rightarrow>
        let rs = filter (\<lambda>r. instant (cr_ts r) \<ge> since) (ch_requests db)
        in Inr (take (nat limit) (order (map (ch_model_stats rs) (remdups (map cr_model rs))))))"

definition ch_recent :: "(gotime \<Rightarrow> string) \<Rightarrow> ch_row \<Rightarrow> RecentRequest" where
  "ch_recent fmt r =
     \<lparr>rq_ID = nat_string (unat (cr_id r)), rq_Timestamp = fmt (instant (cr_ts r)), rq_ClientKey = cr_client_key r, rq_Model = cr_model r,
      rq_Upstream = cr_upstream r, rq_AccountID = cr_account_id r, rq_StatusCode = uint (cr_status_code r), rq_LatencyMs = uint (cr_latency_ms r),
      rq_TokensIn = uint (cr_tokens_in r), rq_TokensOut = uint (cr_tokens_out r), rq_InputText = cr_input_text r,
      rq_OutputText = cr_output_text r, rq_ErrorMsg = cr_error_msg r\<rparr>"

definition ch_GetRecentRequests ::
  "(gotime \<Rightarrow> string) \<Rightarrow> (ch_row list \<Rightarrow> ch_row list) \<Rightarrow> string option \<Rightarrow> int \<Rightarrow> ch_db \<Rightarrow> string + RecentRequest list" where
  "ch_GetRecentRequests fmt order qerr limit db =
     (case qerr of
        Some e \<Rightarrow> Inl e
      | None \<Rightarrow> Inr (map (ch_recent fmt) (take (nat (clamp_limit limit)) (order (ch_requests db)))))"

definition ch_GetRequestDetail :: "(gotime \<Rightarrow> string) \<Rightarrow> string option \<Rightarrow> 64 word \<Rightarrow> ch_db \<Rightarrow> string + RequestDetail" where
  "ch_GetRequestDetail fmt qerr i db =
     (case qerr of Some e \<Rightarrow> Inl e | None \<Rightarrow>
      case find (\<lambda>r. cr_id r = i) (ch_requests db) of
        None \<Rightarrow> Inl ''sql: no rows in result set''
      | Some r \<Rightarrow> Inr (with_bodies (ch_recent fmt r) (cr_request_body r) (cr_response_body r)))"

subsection \<open>Selection and the endpoints\<close>

datatype log_backend = SQLite | ClickHouse

definition NewLogStore :: "string \<Rightarrow> log_backend" where
  "NewLogStore env =
     (let backend = ToLower (TrimSpace (if env = [] then ''sqlite'' else env))
      in if backend = ''clickhouse'' \<or> backend = ''ch'' then ClickHouse else SQLite)"

text \<open>
  The endpoints over the query methods of the selected backend. \<^verbatim>\<open>time.Duration(hours) * time.Hour\<close>
  is a product of 64-bit integers.
\<close>

definition history_hours :: "string \<Rightarrow> int" where
  "history_hours q = (if q = [] then 24 else case Atoi q of Some v \<Rightarrow> if v > 0 then v else 24 | None \<Rightarrow> 24)"

definition history_since :: "gotime \<Rightarrow> int \<Rightarrow> gotime" where
  "history_since now hours = now + wrap64 (wrap64 (- hours) * hour)"

definition HandleHistory ::
  "(gotime \<Rightarrow> string + RequestStats) \<Rightarrow> (gotime \<Rightarrow> int \<Rightarrow> string + ModelStats list) \<Rightarrow> gotime \<Rightarrow> string
    \<Rightarrow> (int \<times> gotime \<times> RequestStats \<times> ModelStats list) answer" where
  "HandleHistory stats models now q =
     (let hours = history_hours q; since = history_since now hours
      in case stats since of
           Inl _ \<Rightarrow> Refused 500 ''internal server error''
         | Inr st \<Rightarrow>
             (case models since 20 of
                Inl _ \<Rightarrow> Refused 500 ''internal server error''
              | Inr ms \<Rightarrow> Answer (hours, since, st, ms)))"

definition recent_limit :: "string \<Rightarrow> int" where
  "recent_limit q = (if q = [] then 50 else case Atoi q of Some v \<Rightarrow> if v > 0 \<and> v \<le> 500 then v else 50 | None \<Rightarrow> 50)"

definition HandleRecentRequests :: "(int \<Rightarrow> string + RecentRequest list) \<Rightarrow> string \<Rightarrow> (RecentRequest list \<times> nat) answer" where
  "HandleRecentRequests recent q =
     (case recent (recent_limit q) of
        Inl _ \<Rightarrow> Refused 500 ''internal server error''
      | Inr logs \<Rightarrow> Answer (logs, length logs))"

definition ParseUint :: "string \<Rightarrow> 64 word option" where
  "ParseUint s = (case parse_nat s of Some n \<Rightarrow> if n < 2 ^ 64 then Some (word_of_nat n) else None | None \<Rightarrow> None)"

definition HandleHistoryDetail :: "(64 word \<Rightarrow> string + RequestDetail) \<Rightarrow> string \<Rightarrow> RequestDetail answer" where
  "HandleHistoryDetail detail param =
     (case ParseUint param of
        None \<Rightarrow> Refused 400 ''invalid id''
      | Some i \<Rightarrow>
          if i = 0 then Refused 400 ''invalid id''
          else case detail i of Inl _ \<Rightarrow> Refused 404 ''request not found'' | Inr d \<Rightarrow> Answer d)"

subsection \<open>Both backends are sinks of the pipeline\<close>

lemma batch_rows_all:
  assumes "\<And>k. err k = None" and "\<And>k x. x \<in> set xs \<Longrightarrow> f k x = g x"
  shows "batch_rows err f k xs = map g xs"
  using assms(2) by (induction xs arbitrary: k) (simp_all add: assms(1))

definition sq_works :: "sq_env \<Rightarrow> bool" where
  "sq_works env \<longleftrightarrow> sx_begin env = None \<and> sx_prepare env = None \<and> sx_commit env = None \<and> sx_exec env = (\<lambda>_. None)"

definition ch_works :: "ch_env \<Rightarrow> bool" where
  "ch_works env \<longleftrightarrow> cx_prepare env = None \<and> cx_send env = None \<and> cx_append env = (\<lambda>_. None)"

lemma sq_tx_works: "sq_works env \<Longrightarrow> batch \<noteq> [] \<Longrightarrow> sq_tx env batch f db = (None, f db)"
  by (simp add: sq_tx_def sq_works_def)

lemma sq_tx_refused: "fst (sq_tx env batch f db) \<noteq> None \<Longrightarrow> snd (sq_tx env batch f db) = db"
  by (auto simp: sq_tx_def split: option.splits if_splits)

lemma ch_batch_works: "ch_works env \<Longrightarrow> batch \<noteq> [] \<Longrightarrow> ch_batch env batch w f db = (None, f db)"
  by (simp add: ch_batch_def ch_works_def)

lemma ch_batch_refused: "fst (ch_batch env batch w f db) \<noteq> None \<Longrightarrow> snd (ch_batch env batch w f db) = db"
  by (auto simp: ch_batch_def split: option.splits if_splits)

definition request_timed :: "FullLog \<Rightarrow> bool" where
  "request_timed r \<longleftrightarrow> \<not> is_zero (rl_Timestamp r)"

definition refresh_timed :: "RefreshLog \<Rightarrow> bool" where
  "refresh_timed r \<longleftrightarrow> \<not> is_zero (rf_Timestamp r)"

definition event_timed :: "AccountEvent \<Rightarrow> bool" where
  "event_timed e \<longleftrightarrow> \<not> is_zero (ev_Timestamp e)"

lemma sq_rows_timed:
  assumes "sq_works env" and "list_all request_timed b"
  shows "batch_rows (sx_exec env) (\<lambda>k. sq_row (sx_now env k)) 0 b = map (sq_row 0) b"
  using assms by (intro batch_rows_all) (auto simp: sq_works_def list_all_iff request_timed_def sq_row_def stamp_def)

interpretation sq_request: log_sink sq_InsertRequestBatch "map snd \<circ> sq_requests" "sq_row 0" request_timed sq_works
proof
  fix env b db
  assume a: "sq_works env" "list_all request_timed b"
  show "(map snd \<circ> sq_requests) (snd (sq_InsertRequestBatch env b db)) = (map snd \<circ> sq_requests) db @ map (sq_row 0) b"
  proof (cases "b = []")
    case False
    then show ?thesis using sq_rows_timed [OF a] by (simp add: sq_InsertRequestBatch_def sq_tx_works [OF a(1) False] Let_def)
  qed (simp add: sq_InsertRequestBatch_def sq_tx_def)
next
  fix env b db
  assume "fst (sq_InsertRequestBatch env b db) \<noteq> None"
  then have "snd (sq_InsertRequestBatch env b db) = db" unfolding sq_InsertRequestBatch_def by (rule sq_tx_refused)
  then show "(map snd \<circ> sq_requests) (snd (sq_InsertRequestBatch env b db)) = (map snd \<circ> sq_requests) db" by simp
qed

interpretation sq_refreshes: log_sink sq_InsertRefreshBatch sq_refresh "sq_refresh_row 0" refresh_timed sq_works
proof
  fix env b db
  assume a: "sq_works env" "list_all refresh_timed b"
  have "batch_rows (sx_exec env) (\<lambda>k. sq_refresh_row (sx_now env k)) 0 b = map (sq_refresh_row 0) b"
    using a by (intro batch_rows_all) (auto simp: sq_works_def list_all_iff refresh_timed_def sq_refresh_row_def stamp_def)
  then show "sq_refresh (snd (sq_InsertRefreshBatch env b db)) = sq_refresh db @ map (sq_refresh_row 0) b"
    by (cases "b = []") (simp_all add: sq_InsertRefreshBatch_def sq_tx_works [OF a(1)], simp add: sq_tx_def)
next
  fix env b db
  assume "fst (sq_InsertRefreshBatch env b db) \<noteq> None"
  then have "snd (sq_InsertRefreshBatch env b db) = db" unfolding sq_InsertRefreshBatch_def by (rule sq_tx_refused)
  then show "sq_refresh (snd (sq_InsertRefreshBatch env b db)) = sq_refresh db" by simp
qed

interpretation sq_event: log_sink "sq_InsertEventBatch marshal" sq_events "sq_event_row marshal 0" event_timed sq_works for marshal
proof
  fix env b db
  assume a: "sq_works env" "list_all event_timed b"
  have "batch_rows (sx_exec env) (\<lambda>k. sq_event_row marshal (sx_now env k)) 0 b = map (sq_event_row marshal 0) b"
    using a by (intro batch_rows_all) (auto simp: sq_works_def list_all_iff event_timed_def sq_event_row_def stamp_def)
  then show "sq_events (snd (sq_InsertEventBatch marshal env b db)) = sq_events db @ map (sq_event_row marshal 0) b"
    by (cases "b = []") (simp_all add: sq_InsertEventBatch_def sq_tx_works [OF a(1)], simp add: sq_tx_def)
next
  fix env b db
  assume "fst (sq_InsertEventBatch marshal env b db) \<noteq> None"
  then have "snd (sq_InsertEventBatch marshal env b db) = db" unfolding sq_InsertEventBatch_def by (rule sq_tx_refused)
  then show "sq_events (snd (sq_InsertEventBatch marshal env b db)) = sq_events db" by simp
qed

text \<open>A ClickHouse row without its random id.\<close>

definition ch_anonymous :: "ch_row \<Rightarrow> ch_row" where
  "ch_anonymous r = r\<lparr>cr_id := 0\<rparr>"

interpretation ch_request: log_sink ch_InsertRequestBatch "map ch_anonymous \<circ> ch_requests" "ch_request_row 0 0" request_timed ch_works
proof
  fix env b db
  assume a: "ch_works env" "list_all request_timed b"
  have "map ch_anonymous (batch_rows (cx_append env) (\<lambda>k. ch_request_row (newLogID (cx_rand env k) (cx_now env k)) (cx_now env k)) j b) = map (ch_request_row 0 0) b" for j
    using a(2) by (induction b arbitrary: j)
      (use a(1) in \<open>simp_all add: ch_works_def request_timed_def ch_anonymous_def ch_request_row_def stamp_def\<close>)
  then show "(map ch_anonymous \<circ> ch_requests) (snd (ch_InsertRequestBatch env b db)) = (map ch_anonymous \<circ> ch_requests) db @ map (ch_request_row 0 0) b"
    by (cases "b = []") (simp_all add: ch_InsertRequestBatch_def ch_batch_works [OF a(1)], simp add: ch_batch_def)
next
  fix env b db
  assume "fst (ch_InsertRequestBatch env b db) \<noteq> None"
  then have "snd (ch_InsertRequestBatch env b db) = db" unfolding ch_InsertRequestBatch_def by (rule ch_batch_refused)
  then show "(map ch_anonymous \<circ> ch_requests) (snd (ch_InsertRequestBatch env b db)) = (map ch_anonymous \<circ> ch_requests) db" by simp
qed

interpretation ch_refresh: log_sink ch_InsertRefreshBatch ch_refreshes ch_refresh_row "\<lambda>_. True" ch_works
proof
  fix env b db
  assume a: "ch_works env"
  have "batch_rows (cx_append env) (\<lambda>_. ch_refresh_row) 0 b = map ch_refresh_row b"
    using a by (intro batch_rows_all) (auto simp: ch_works_def)
  then show "ch_refreshes (snd (ch_InsertRefreshBatch env b db)) = ch_refreshes db @ map ch_refresh_row b"
    by (cases "b = []") (simp_all add: ch_InsertRefreshBatch_def ch_batch_works [OF a], simp add: ch_batch_def)
next
  fix env b db
  assume "fst (ch_InsertRefreshBatch env b db) \<noteq> None"
  then have "snd (ch_InsertRefreshBatch env b db) = db" unfolding ch_InsertRefreshBatch_def by (rule ch_batch_refused)
  then show "ch_refreshes (snd (ch_InsertRefreshBatch env b db)) = ch_refreshes db" by simp
qed

interpretation ch_event: log_sink "ch_InsertEventBatch marshal" ch_events "ch_event_row marshal" "\<lambda>_. True" ch_works for marshal
proof
  fix env b db
  assume a: "ch_works env"
  have "batch_rows (cx_append env) (\<lambda>_. ch_event_row marshal) 0 b = map (ch_event_row marshal) b"
    using a by (intro batch_rows_all) (auto simp: ch_works_def)
  then show "ch_events (snd (ch_InsertEventBatch marshal env b db)) = ch_events db @ map (ch_event_row marshal) b"
    by (cases "b = []") (simp_all add: ch_InsertEventBatch_def ch_batch_works [OF a], simp add: ch_batch_def)
next
  fix env b db
  assume "fst (ch_InsertEventBatch marshal env b db) \<noteq> None"
  then have "snd (ch_InsertEventBatch marshal env b db) = db" unfolding ch_InsertEventBatch_def by (rule ch_batch_refused)
  then show "ch_events (snd (ch_InsertEventBatch marshal env b db)) = ch_events db" by simp
qed

subsection \<open>Nothing is lost on the way to the store\<close>

definition sq_empty :: sq_db where
  "sq_empty = \<lparr>sq_requests = [], sq_seq = 0, sq_refresh = [], sq_events = []\<rparr>"

lemma pipeline_facts:
  assumes "list_all (envs_ok sq_works) evs" and "list_all request_timed (logged evs)" and "sq_works env"
    and p: "p = consumeRequestLogs sq_InsertRequestBatch evs (new_pipeline sq_empty)"
  shows "map snd (sq_requests (pl_db p)) @ map (sq_row 0) (pl_batch p @ pl_chan p) = map (sq_row 0) (pl_accepted p)"
    and "subseq (pl_accepted p) (logged evs)"
    and "length (logged evs) \<le> LOG_BUFFER_SIZE \<Longrightarrow> pl_accepted p = logged evs"
    and "length (pl_batch p) < 200 \<and> length (pl_chan p) \<le> LOG_BUFFER_SIZE"
    and "\<not> pl_stopped p \<Longrightarrow>
      map snd (sq_requests (pl_db (consumeRequestLogs sq_InsertRequestBatch (replicate (length (pl_chan p)) (Receive env) @ [Tick env]) p)))
        = map (sq_row 0) (pl_accepted p)"
proof -
  note p' = p [unfolded consumeRequestLogs_def]
  have start: "sq_request.in_flight [] (new_pipeline sq_empty)"
    by (simp add: sq_request.in_flight_def new_pipeline_def sq_empty_def)
  have fl: "sq_request.in_flight [] p" unfolding p' by (rule sq_request.run_in_flight [OF start assms(1,2)])
  then show "map snd (sq_requests (pl_db p)) @ map (sq_row 0) (pl_batch p @ pl_chan p) = map (sq_row 0) (pl_accepted p)"
    by (simp add: sq_request.in_flight_def)
  show "subseq (pl_accepted p) (logged evs)"
    using sq_request.run_from_new(2) [OF assms(1,2) p'] .
  show "pl_accepted p = logged evs" if "length (logged evs) \<le> LOG_BUFFER_SIZE"
    using run_accepts_all [of "new_pipeline sq_empty" evs] that by (simp add: p' new_pipeline_def)
  have "pl_bounded 200 (new_pipeline sq_empty :: (FullLog, sq_db) pipeline)" by (simp add: pl_bounded_def new_pipeline_def)
  then have "pl_bounded 200 p" unfolding p' by (rule run_bounded [rotated]) simp
  then show "length (pl_batch p) < 200 \<and> length (pl_chan p) \<le> LOG_BUFFER_SIZE" by (simp add: pl_bounded_def)
  show "map snd (sq_requests (pl_db (consumeRequestLogs sq_InsertRequestBatch (replicate (length (pl_chan p)) (Receive env) @ [Tick env]) p)))
        = map (sq_row 0) (pl_accepted p)" if "\<not> pl_stopped p"
    using sq_request.drained [OF fl that assms(3) refl] by (simp add: consumeRequestLogs_def)
qed

text \<open>
  C30: Through any run of producers and consumer on a store that works, the rows in the table, the batch
  and the channel together are exactly the entries taken from the producers, in their order and each
  once; no entry is refused before the capacity of the channel is reached, and batch and channel are
  bounded. When the consumer then gets to read the channel and to see one tick, all of it is in the table.
\<close>

theorem request_log_complete:
  assumes "list_all (envs_ok sq_works) evs" and "list_all request_timed (logged evs)" and "sq_works env"
    and "p = consumeRequestLogs sq_InsertRequestBatch evs (new_pipeline sq_empty)"
  shows "map snd (sq_requests (pl_db p)) @ map (sq_row 0) (pl_batch p @ pl_chan p) = map (sq_row 0) (pl_accepted p)
    \<and> subseq (pl_accepted p) (logged evs)
    \<and> (length (logged evs) \<le> LOG_BUFFER_SIZE \<longrightarrow> pl_accepted p = logged evs)
    \<and> (length (pl_batch p) < 200 \<and> length (pl_chan p) \<le> LOG_BUFFER_SIZE)
    \<and> (\<not> pl_stopped p \<longrightarrow> map snd (sq_requests (pl_db (consumeRequestLogs sq_InsertRequestBatch (replicate (length (pl_chan p)) (Receive env) @ [Tick env]) p))) = map (sq_row 0) (pl_accepted p))"
  by (intro conjI impI pipeline_facts [OF assms])

definition ex_log :: FullLog where
  "ex_log = \<lparr>rl_Timestamp = 1700000000 * second, rl_RequestID = ''r'', rl_ClientKey = ''k'', rl_Model = ''grok-4'', rl_Upstream = ''grok'',
     rl_AccountID = ''a'', rl_StatusCode = 200, rl_LatencyMs = 12, rl_TokensIn = 3, rl_TokensOut = 4, rl_ErrorMsg = [], rl_InputText = ''hi'',
     rl_OutputText = ''ho'', rl_RequestBody = ''{}'', rl_ResponseBody = []\<rparr>"

definition ex_sq :: sq_env where
  "ex_sq = \<lparr>sx_begin = None, sx_prepare = None, sx_exec = (\<lambda>_. None), sx_commit = None, sx_now = (\<lambda>_. 1700000000 * second)\<rparr>"

lemma ex_log_ok: "request_timed ex_log" "sq_works ex_sq"
  by (simp_all add: request_timed_def ex_log_def is_zero_def zero_time_def second_def sq_works_def ex_sq_def)

lemma ex_log_row: "sq_row t ex_log = ex_log"
  by (simp add: sq_row_def ex_log_def max0_def stamp_def is_zero_def zero_time_def second_def)

theorem request_log_complete_witness:
  "map snd (sq_requests (pl_db (consumeRequestLogs sq_InsertRequestBatch (replicate 2 (Receive ex_sq) @ [Tick ex_sq])
      (consumeRequestLogs sq_InsertRequestBatch [Log ex_log, Log ex_log] (new_pipeline sq_empty))))) = [ex_log, ex_log]"
proof -
  let ?evs = "[Log ex_log, Log ex_log] :: (FullLog, sq_env) pl_event list"
  let ?p = "consumeRequestLogs sq_InsertRequestBatch ?evs (new_pipeline sq_empty)"
  have a: "list_all (envs_ok sq_works) ?evs" "list_all request_timed (logged ?evs)" using ex_log_ok by simp_all
  have q: "pl_chan ?p = [ex_log, ex_log]" "pl_accepted ?p = [ex_log, ex_log]" "\<not> pl_stopped ?p"
    by (simp_all add: consumeRequestLogs_def consumer_step_def enqueue_def new_pipeline_def LOG_BUFFER_SIZE_def)
  show ?thesis using mp [OF conjunct2 [OF conjunct2 [OF conjunct2 [OF conjunct2 [OF request_log_complete [OF a ex_log_ok(2) refl]]]]] q(3)] unfolding q by (simp only: list.size ex_log_row list.map numeral_2_eq_2 add_0 add_Suc)
qed

text \<open>
  \<^verbatim>\<open>NewStore\<close> says that \<^verbatim>\<open>Close\<close> flushes. It flushes the batch; entries that are still in the channel
  when the consumer sees the closed \<^verbatim>\<open>done\<close> channel are never written, whatever happens later.
\<close>

theorem close_loses_queue:
  assumes "list_all (envs_ok sq_works) evs" and "list_all request_timed (logged evs)" and "sq_works env"
    and p: "p = consumeRequestLogs sq_InsertRequestBatch evs (new_pipeline sq_empty)" and "\<not> pl_stopped p"
  shows "map snd (sq_requests (pl_db (consumeRequestLogs sq_InsertRequestBatch (Done env # later) p))) @ map (sq_row 0) (pl_chan p)
    = map (sq_row 0) (pl_accepted p)"
proof -
  have start: "sq_request.in_flight [] (new_pipeline sq_empty)"
    by (simp add: sq_request.in_flight_def new_pipeline_def sq_empty_def)
  have "sq_request.in_flight [] p" unfolding p consumeRequestLogs_def by (rule sq_request.run_in_flight [OF start assms(1,2)])
  from sq_request.close_keeps [OF this assms(5,3), of 200 later] show ?thesis by (simp add: consumeRequestLogs_def)
qed

theorem close_loses_queue_witness:
  "map snd (sq_requests (pl_db (consumeRequestLogs sq_InsertRequestBatch [Done ex_sq, Receive ex_sq, Tick ex_sq]
      (consumeRequestLogs sq_InsertRequestBatch [Log ex_log, Receive ex_sq, Log ex_log] (new_pipeline sq_empty))))) = [ex_log]"
proof -
  let ?evs = "[Log ex_log, Receive ex_sq, Log ex_log] :: (FullLog, sq_env) pl_event list"
  let ?p = "consumeRequestLogs sq_InsertRequestBatch ?evs (new_pipeline sq_empty)"
  have a: "list_all (envs_ok sq_works) ?evs" "list_all request_timed (logged ?evs)" using ex_log_ok by simp_all
  have q: "pl_chan ?p = [ex_log]" "pl_accepted ?p = [ex_log, ex_log]" "\<not> pl_stopped ?p"
    by (simp_all add: consumeRequestLogs_def consumer_step_def enqueue_def new_pipeline_def LOG_BUFFER_SIZE_def)
  show ?thesis using close_loses_queue [OF a ex_log_ok(2) refl q(3), of "[Receive ex_sq, Tick ex_sq]"] unfolding q ex_log_row list.map by simp
qed

subsection \<open>The id of a listed request leads to its detail\<close>

definition sq_ids_ok :: "sq_db \<Rightarrow> bool" where
  "sq_ids_ok db \<longleftrightarrow> 0 \<le> sq_seq db \<and> distinct (map fst (sq_requests db)) \<and> (\<forall>i \<in> set (map fst (sq_requests db)). 0 < i \<and> i \<le> sq_seq db)"

lemma sq_ids_ok_empty: "sq_ids_ok sq_empty"
  by (simp add: sq_ids_ok_def sq_empty_def)

lemma sq_ids_ok_insert: "sq_ids_ok db \<Longrightarrow> sq_ids_ok (snd (sq_InsertRequestBatch env b db))"
proof -
  assume ok: "sq_ids_ok db"
  define rows where "rows = batch_rows (sx_exec env) (\<lambda>k. sq_row (sx_now env k)) 0 b"
  let ?n = "int (length rows)"
  let ?new = "zip [sq_seq db + 1..sq_seq db + ?n] rows"
  let ?db = "db\<lparr>sq_requests := sq_requests db @ ?new, sq_seq := sq_seq db + ?n\<rparr>"
  have fst: "map fst ?new = [sq_seq db + 1..sq_seq db + ?n]" by simp
  have "distinct (map fst (sq_requests db @ ?new))"
    using ok unfolding map_append fst by (auto simp: sq_ids_ok_def)
  moreover have "\<forall>i \<in> set (map fst (sq_requests db @ ?new)). 0 < i \<and> i \<le> sq_seq db + ?n"
    using ok unfolding map_append fst by (auto simp: sq_ids_ok_def)
  ultimately have "sq_ids_ok ?db" using ok by (simp add: sq_ids_ok_def)
  moreover have "snd (sq_InsertRequestBatch env b db) = db \<or> snd (sq_InsertRequestBatch env b db) = ?db"
    by (auto simp: sq_InsertRequestBatch_def sq_tx_def Let_def rows_def split: option.split)
  ultimately show ?thesis using ok by auto
qed

lemma sq_ids_ok_prune: "sq_ids_ok db \<Longrightarrow> sq_ids_ok (sq_prune now err db)"
  by (auto simp: sq_ids_ok_def sq_prune_def Let_def distinct_map_filter)

lemma insert_keeps_rows: "set (sq_requests db) \<subseteq> set (sq_requests (snd (sq_InsertRequestBatch env b db)))"
  by (auto simp: sq_InsertRequestBatch_def sq_tx_def Let_def split: option.split)

definition insert_all :: "(sq_env \<times> FullLog list) list \<Rightarrow> sq_db \<Rightarrow> sq_db" where
  "insert_all bs db = fold (\<lambda>(env, b) db. snd (sq_InsertRequestBatch env b db)) bs db"

lemma insert_all_props:
  "sq_ids_ok db \<Longrightarrow> sq_ids_ok (insert_all bs db) \<and> set (sq_requests db) \<subseteq> set (sq_requests (insert_all bs db))"
proof (induction bs arbitrary: db)
  case (Cons b bs)
  obtain env l where b: "b = (env, l)" by fastforce
  show ?case using Cons.IH [OF sq_ids_ok_insert [OF Cons.prems, of env l]] insert_keeps_rows [of db env l]
    by (auto simp: insert_all_def b)
qed (simp add: insert_all_def)

lemma ParseUint_Itoa: "0 < i \<Longrightarrow> i < 2 ^ 63 \<Longrightarrow> ParseUint (Itoa i) = Some (word_of_int i)"
proof -
  assume i: "0 < i" "i < 2 ^ 63"
  then have "nat i < 2 ^ 64" by (simp add: nat_less_iff)
  then show ?thesis using i by (simp add: ParseUint_def Itoa_def flip: of_nat_nat)
qed

lemma sint_small: "0 < i \<Longrightarrow> i < 2 ^ 63 \<Longrightarrow> sint (word_of_int i :: 64 word) = i \<and> (word_of_int i :: 64 word) \<noteq> 0"
proof -
  assume i: "0 < i" "i < 2 ^ 63"
  have "sint (word_of_int i :: 64 word) = i" using wrap64_id [of i] i by (simp add: wrap64_def int64_range_def)
  then show ?thesis using i(1) by (metis less_irrefl sint_0)
qed

text \<open>
  C35: The id shown in a listing, sent back as the text it is, gives the detail of that very request, also
  when other requests were logged in between.
\<close>

theorem recent_ids_resolve:
  assumes "sq_ids_ok db" and "sq_seq (insert_all later db) < 2 ^ 63"
    and "HandleRecentRequests (\<lambda>l. sq_GetRecentRequests fmt None l db) q = Answer (logs, n)" and "l \<in> set logs"
  shows "\<exists>d. HandleHistoryDetail (\<lambda>i. sq_GetRequestDetail fmt None i (insert_all later db)) (rq_ID l) = Answer d
    \<and> RecentRequest.truncate d = l"
proof -
  obtain i r where ir: "(i, r) \<in> set (sq_requests db)" "l = sq_recent fmt (i, r)"
    using assms(3,4) by (auto simp: HandleRecentRequests_def sq_GetRecentRequests_def dest!: in_set_takeD)
  let ?db = "insert_all later db"
  have ok: "sq_ids_ok ?db" and "(i, r) \<in> set (sq_requests ?db)" using insert_all_props [OF assms(1)] ir(1) by auto
  then have look: "map_of (sq_requests ?db) i = Some r" by (simp add: sq_ids_ok_def)
  have "0 < i" "i \<le> sq_seq ?db" using ok \<open>(i, r) \<in> set (sq_requests ?db)\<close> by (force simp: sq_ids_ok_def)+
  then have i: "0 < i" "i < 2 ^ 63" using assms(2) by simp_all
  have "rq_ID l = Itoa i" by (simp add: ir(2) sq_recent_def)
  then show ?thesis using i look ParseUint_Itoa [OF i] sint_small [OF i]
    by (simp add: HandleHistoryDetail_def sq_GetRequestDetail_def with_bodies_def ir(2) RecentRequest.defs)
qed

theorem recent_ids_resolve_witness:
  "let db = insert_all [(ex_sq, [ex_log])] sq_empty
   in \<exists>d. HandleHistoryDetail (\<lambda>i. sq_GetRequestDetail (\<lambda>_. []) None i (insert_all [] db)) (rq_ID (sq_recent (\<lambda>_. []) (1, ex_log))) = Answer d
      \<and> RecentRequest.truncate d = sq_recent (\<lambda>_. []) (1, ex_log)"
proof -
  let ?db = "insert_all [(ex_sq, [ex_log])] sq_empty"
  have db: "sq_requests ?db = [(1, ex_log)]" "sq_seq ?db = 1"
    by (simp_all add: insert_all_def sq_InsertRequestBatch_def sq_tx_def ex_sq_def sq_empty_def ex_log_row Let_def upto.simps)
  have ok: "sq_ids_ok ?db" using insert_all_props [OF sq_ids_ok_empty] by blast
  have small: "sq_seq (insert_all [] ?db) < 2 ^ 63" using db(2) by (simp add: insert_all_def [of "[]"])
  have ans: "HandleRecentRequests (\<lambda>l. sq_GetRecentRequests (\<lambda>_. []) None l ?db) [] = Answer ([sq_recent (\<lambda>_. []) (1, ex_log)], 1)"
    by (simp add: HandleRecentRequests_def sq_GetRecentRequests_def recent_limit_def clamp_limit_def db sort_key_def)
  show ?thesis unfolding Let_def by (rule recent_ids_resolve [OF ok small ans]) simp
qed

subsection \<open>The two backends agree\<close>

definition fits :: "FullLog \<Rightarrow> bool" where
  "fits r \<longleftrightarrow> request_timed r \<and> rl_Timestamp r mod 1000000 = 0 \<and> 0 \<le> rl_StatusCode r \<and> rl_StatusCode r < 2 ^ 16
     \<and> 0 \<le> rl_LatencyMs r \<and> rl_LatencyMs r < 2 ^ 32 \<and> 0 \<le> rl_TokensIn r \<and> rl_TokensIn r < 2 ^ 32
     \<and> 0 \<le> rl_TokensOut r \<and> rl_TokensOut r < 2 ^ 32"

definition ch_view :: "ch_row \<Rightarrow> FullLog" where
  "ch_view r =
     \<lparr>rl_Timestamp = instant (cr_ts r), rl_RequestID = cr_request_id r, rl_ClientKey = cr_client_key r, rl_Model = cr_model r,
      rl_Upstream = cr_upstream r, rl_AccountID = cr_account_id r, rl_StatusCode = uint (cr_status_code r),
      rl_LatencyMs = uint (cr_latency_ms r), rl_TokensIn = uint (cr_tokens_in r), rl_TokensOut = uint (cr_tokens_out r),
      rl_ErrorMsg = cr_error_msg r, rl_InputText = cr_input_text r, rl_OutputText = cr_output_text r,
      rl_RequestBody = cr_request_body r, rl_ResponseBody = cr_response_body r\<rparr>"

lemma sq_row_fits: "fits r \<Longrightarrow> sq_row now r = r"
  by (simp add: sq_row_def fits_def request_timed_def stamp_def max0_def)

lemma uint_fits:
  "0 \<le> i \<Longrightarrow> i < 2 ^ 16 \<Longrightarrow> uint (word_of_int i :: 16 word) = i" "0 \<le> i \<Longrightarrow> i < 2 ^ 32 \<Longrightarrow> uint (word_of_int i :: 32 word) = i"
  by (simp_all add: uint_word_of_int)

lemma ch_view_fits: "fits r \<Longrightarrow> ch_view (ch_request_row i now r) = r"
proof -
  assume f: "fits r"
  then have "instant (millis (rl_Timestamp r)) = rl_Timestamp r"
    by (auto simp: fits_def instant_def millis_def)
  then show ?thesis using f
    by (simp add: ch_view_def ch_request_row_def fits_def request_timed_def stamp_def max0_def uint_fits)
qed

definition ch_empty :: ch_db where
  "ch_empty = \<lparr>ch_requests = [], ch_refreshes = [], ch_events = []\<rparr>"

lemma sq_inserts:
  assumes "sq_works env" and "list_all fits (concat bs)"
  shows "map snd (sq_requests (fold (\<lambda>b db. snd (sq_InsertRequestBatch env b db)) bs db)) = map snd (sq_requests db) @ concat bs"
  using assms(2)
proof (induction bs arbitrary: db)
  case (Cons b bs)
  have "list_all request_timed b" using Cons.prems by (auto simp: list_all_iff fits_def)
  then have "map snd (sq_requests (snd (sq_InsertRequestBatch env b db))) = map snd (sq_requests db) @ map (sq_row 0) b"
    using sq_request.insert_works [OF assms(1), of b db] by simp
  moreover have "map (sq_row 0) b = b" using Cons.prems by (intro map_idI) (auto simp: list_all_iff sq_row_fits)
  ultimately show ?case using Cons by simp
qed simp

lemma ch_view_anonymous: "ch_view (ch_anonymous r) = ch_view r"
  by (simp add: ch_view_def ch_anonymous_def)

lemma ch_inserts:
  assumes "ch_works env" and "list_all fits (concat bs)"
  shows "map ch_view (ch_requests (fold (\<lambda>b db. snd (ch_InsertRequestBatch env b db)) bs db)) = map ch_view (ch_requests db) @ concat bs"
  using assms(2)
proof (induction bs arbitrary: db)
  case (Cons b bs)
  have "list_all request_timed b" using Cons.prems by (auto simp: list_all_iff fits_def)
  then have "map ch_anonymous (ch_requests (snd (ch_InsertRequestBatch env b db))) = map ch_anonymous (ch_requests db) @ map (ch_request_row 0 0) b"
    using ch_request.insert_works [OF assms(1), of b db] by simp
  then have "map ch_view (map ch_anonymous (ch_requests (snd (ch_InsertRequestBatch env b db)))) = map ch_view (map ch_anonymous (ch_requests db) @ map (ch_request_row 0 0) b)"
    by (rule arg_cong)
  then have "map ch_view (ch_requests (snd (ch_InsertRequestBatch env b db))) = map ch_view (ch_requests db) @ map (\<lambda>r. ch_view (ch_request_row 0 0 r)) b"
    by (simp add: ch_view_anonymous comp_def)
  moreover have "map (\<lambda>r. ch_view (ch_request_row 0 0 r)) b = b"
    using Cons.prems by (intro map_idI) (auto simp: list_all_iff ch_view_fits)
  ultimately show ?case using Cons by simp
qed simp

lemma ch_sum_int: "ch_sum xs = word_of_int (sum_list (map uint xs))"
proof (induction xs)
  case (Cons x xs)
  have "ch_sum (x # xs) = word_of_int (uint x) + ch_sum xs" by (simp only: ch_sum_def list.map sum_list.Cons ucast_eq)
  then show ?case using Cons by (simp only: list.map sum_list.Cons of_int_add)
qed (simp add: ch_sum_def)

lemma ch_view_sel [simp]:
  "rl_Model (ch_view r) = cr_model r" "rl_Timestamp (ch_view r) = instant (cr_ts r)" "rl_StatusCode (ch_view r) = uint (cr_status_code r)"
  "rl_LatencyMs (ch_view r) = uint (cr_latency_ms r)" "rl_TokensIn (ch_view r) = uint (cr_tokens_in r)" "rl_TokensOut (ch_view r) = uint (cr_tokens_out r)"
  by (simp_all add: ch_view_def)

lemma ch_view_columns:
  assumes "map ch_view rs = ls"
  shows "map cr_model rs = map rl_Model ls" "map (uint \<circ> cr_status_code) rs = map rl_StatusCode ls" "map (uint \<circ> cr_latency_ms) rs = map rl_LatencyMs ls"
    "ch_sum (map cr_tokens_in rs) = word_of_int (sum_list (map rl_TokensIn ls))" "ch_sum (map cr_tokens_out rs) = word_of_int (sum_list (map rl_TokensOut ls))"
  using assms by (auto simp: ch_sum_int comp_def)

lemma filter_view: "map ch_view (filter (\<lambda>r. P (ch_view r)) rs) = filter P (map ch_view rs)"
  by (simp add: filter_map comp_def)

lemma sum_list_filter_bound:
  assumes "list_all (\<lambda>r. 0 \<le> f r) ls" and "int64_range (sum_list (map f ls))"
  shows "int64_range (sum_list (map f (filter P ls)))"
proof -
  have "0 \<le> sum_list (map f (filter P ls)) \<and> sum_list (map f (filter P ls)) \<le> sum_list (map f ls)"
    using assms(1) by (induction ls) auto
  then show ?thesis using assms(2) by (simp add: int64_range_def)
qed

lemma sint_of_sum: "sint (word_of_int i :: 64 word) = wrap64 i" "sint (word_of_int i + word_of_int j :: 64 word) = wrap64 (i + j)"
  by (simp_all add: wrap64_def)

lemma agreement_facts:
  assumes "sq_works senv" and "ch_works cenv" and "list_all fits (concat bs)"
    and "int64_range (sum_list (map rl_TokensIn (concat bs)))" and "int64_range (sum_list (map rl_TokensOut (concat bs)))" and "0 < limit"
    and s: "s = fold (\<lambda>b db. snd (sq_InsertRequestBatch senv b db)) bs sq_empty"
    and c: "c = fold (\<lambda>b db. snd (ch_InsertRequestBatch cenv b db)) bs ch_empty"
  shows "sq_GetRequestStats None since s = ch_GetRequestStats None since c"
    and "sq_GetModelStats order None since limit s = ch_GetModelStats order None since limit c"
proof -
  let ?ls = "concat bs"
  let ?w = "filter (\<lambda>r. since \<le> rl_Timestamp r) ?ls"
  let ?cs = "filter (\<lambda>r. since \<le> instant (cr_ts r)) (ch_requests c)"
  have srows: "map snd (sq_requests s) = ?ls" using sq_inserts [OF assms(1,3), of sq_empty] by (simp add: s sq_empty_def)
  have crows: "map ch_view (ch_requests c) = ?ls" using ch_inserts [OF assms(2,3), of ch_empty] by (simp add: c ch_empty_def)
  have cw: "map ch_view ?cs = ?w" using filter_view [of "\<lambda>r. since \<le> rl_Timestamp r" "ch_requests c"] by (simp add: crows)
  note cols = ch_view_columns [OF cw]
  have n: "length ?cs = length ?w" using arg_cong [OF cw, of length] by simp
  have pos: "list_all (\<lambda>r. 0 \<le> rl_TokensIn r) ?ls" "list_all (\<lambda>r. 0 \<le> rl_TokensOut r) ?ls"
    using assms(3) by (auto simp: list_all_iff fits_def)
  have inr: "int64_range (sum_list (map rl_TokensIn (filter P ?ls)))" "int64_range (sum_list (map rl_TokensOut (filter P ?ls)))" for P
    by (rule sum_list_filter_bound [OF pos(1) assms(4)], rule sum_list_filter_bound [OF pos(2) assms(5)])
  show "sq_GetRequestStats None since s = ch_GetRequestStats None since c"
    by (simp add: sq_GetRequestStats_def ch_GetRequestStats_def Let_def srows sq_sum_def inr cols n sint_of_sum wrap64_id)
  have model: "sq_model_stats ?w m = Some (ch_model_stats ?cs m)" for m
  proof -
    let ?wm = "filter (\<lambda>r. rl_Model r = m) ?w" and ?cm = "filter (\<lambda>r. cr_model r = m) ?cs"
    have cm: "map ch_view ?cm = ?wm" using filter_view [of "\<lambda>r. rl_Model r = m" ?cs] by (simp only: cw ch_view_sel)
    have "length ?cm = length ?wm" using arg_cong [OF cm, of length] by simp
    then show ?thesis using ch_view_columns [OF cm] inr [of "\<lambda>r. rl_Model r = m \<and> since \<le> rl_Timestamp r"]
      by (simp add: sq_model_stats_def ch_model_stats_def Let_def sq_sum_def sint_of_sum wrap64_id conj_commute)
  qed
  show "sq_GetModelStats order None since limit s = ch_GetModelStats order None since limit c"
    using assms(6) by (simp add: sq_GetModelStats_def ch_GetModelStats_def Let_def srows model cols(1) comp_def image_iff)
qed


definition ex_ch :: ch_env where
  "ex_ch = \<lparr>cx_prepare = None, cx_append = (\<lambda>_. None), cx_send = None, cx_now = (\<lambda>_. 0), cx_rand = (\<lambda>_. Some [1])\<rparr>"


text \<open>
  A long window wraps around: from 2562048 hours on the start of the window can lie in the future, and
  the statistics are empty although the requests are there.
\<close>

theorem long_window_is_empty:
  assumes "list_all (\<lambda>(_, r). rl_Timestamp r \<le> now) (sq_requests db)"
  shows "HandleHistory (\<lambda>since. sq_GetRequestStats None since db) (\<lambda>since l. sq_GetModelStats (\<lambda>ms. ms) None since l db) now ''2562048''
    = Answer (2562048, now + 9223371273709551616,
        \<lparr>rs_TotalRequests = 0, rs_TotalErrors = 0, rs_ErrorRate = 0, rs_AvgLatencyMs = 0, rs_TotalTokensIn = 0, rs_TotalTokensOut = 0, rs_TotalTokens = 0\<rparr>, [])"
proof -
  have hours: "history_hours ''2562048'' = 2562048"
    by (simp add: history_hours_def Atoi_def parse_nat_def digit_val_def digit_chars_def int64_range_def)
  have since: "history_since now 2562048 = now + 9223371273709551616"
    by (simp add: history_since_def wrap64_def time_defs)
  have none: "filter (\<lambda>r. now + 9223371273709551616 \<le> rl_Timestamp r) (map snd (sq_requests db)) = []"
    using assms by (force simp: filter_empty_conv list_all_iff)
  show ?thesis
    unfolding HandleHistory_def Let_def hours since sq_GetRequestStats_def sq_GetModelStats_def none
    by (simp add: sq_sum_def int64_range_def count_errors_def error_rate_def average_def wrap64_def)
qed

theorem long_window_is_empty_witness:
  "HandleHistory (\<lambda>since. sq_GetRequestStats None since (sq_empty\<lparr>sq_requests := [(1, ex_log)]\<rparr>))
      (\<lambda>since l. sq_GetModelStats (\<lambda>ms. ms) None since l (sq_empty\<lparr>sq_requests := [(1, ex_log)]\<rparr>)) (1700000001 * second) ''2562048''
    = Answer (2562048, 1700000001 * second + 9223371273709551616,
        \<lparr>rs_TotalRequests = 0, rs_TotalErrors = 0, rs_ErrorRate = 0, rs_AvgLatencyMs = 0, rs_TotalTokensIn = 0, rs_TotalTokensOut = 0, rs_TotalTokens = 0\<rparr>, [])"
  by (rule long_window_is_empty) (simp add: ex_log_def second_def)

end
