(* ===== verification/Storage.thy ===== *)
theory Storage
  imports LogStore Encoding
begin

text \<open>
  The life of the store (\<^verbatim>\<open>internal/db/db.go\<close>): its configuration from the environment, opening Redis and the selected
  log backend, the schema and the retention loop, the non-blocking writers, the queries, and closing.

  The environment is a function from names to values, empty for a variable that is not set. What the
  drivers answer is an argument. The connections that are open are recorded, so that one can ask
  what a failed start and a close leave behind; the error of a parent directory that cannot be made
  is only logged and not modelled.
\<close>

subsection \<open>Configuration\<close>

type_synonym os_env = "string \<Rightarrow> string"

definition envOr :: "os_env \<Rightarrow> string \<Rightarrow> string \<Rightarrow> string" where
  "envOr env key def = (if env key \<noteq> [] then env key else def)"

definition redisConfig :: "os_env \<Rightarrow> string \<times> string \<times> int" where
  "redisConfig env =
     (envOr env ''REDIS_ADDR'' ''127.0.0.1:6379'', envOr env ''REDIS_PASSWORD'' [],
      if env ''REDIS_DB'' \<noteq> [] then (case Atoi (env ''REDIS_DB'') of Some n \<Rightarrow> n | None \<Rightarrow> 0) else 0)"

definition clickhouseAddr :: "os_env \<Rightarrow> string" where
  "clickhouseAddr env = envOr env ''CLICKHOUSE_ADDR'' ''127.0.0.1:9000''"

definition clickhouseDatabase :: "os_env \<Rightarrow> string" where
  "clickhouseDatabase env = envOr env ''CLICKHOUSE_DB'' ''gateway''"

text \<open>The key as it is logged: what follows the last colon is cut to its ends.\<close>

definition maskRedisKey :: "string \<Rightarrow> string" where
  "maskRedisKey rk =
     (let body = rev (takeWhile (\<lambda>c. c \<noteq> CHR '':'') (rev rk)); pre = take (length rk - length body) rk
      in if CHR '':'' \<notin> set rk \<or> body = [] then rk
         else if length body > 12 then pre @ take 8 body @ ''...'' @ drop (length body - 4) body
         else pre @ ''***'')"

definition bodyString :: "string \<Rightarrow> string" where
  "bodyString raw = (if length raw = 0 then [] else raw)"

subsection \<open>Opening a log backend\<close>

datatype handle = RedisConn | SqliteConn | ClickhouseConn

record sqlite_driver =
  sd_open :: "string \<Rightarrow> go_error option"
  sd_ping :: "go_error option"
  sd_exec :: "nat \<Rightarrow> go_error option"

record clickhouse_driver =
  kd_bootstrap :: "go_error option"
  kd_create :: "string \<Rightarrow> go_error option"
  kd_open :: "go_error option"
  kd_ping :: "go_error option"
  kd_exec :: "nat \<Rightarrow> go_error option"

definition defaultSQLitePath :: string where
  "defaultSQLitePath = ''/var/lib/foxrouters/logs.db''"

definition sqlite_dsn :: "string \<Rightarrow> string" where
  "sqlite_dsn path =
     path @ ''?_pragma=journal_mode(WAL)&_pragma=busy_timeout(5000)&_pragma=synchronous(NORMAL)&_pragma=foreign_keys(on)''"

text \<open>A constructor gives an error or the name of what it opened, and the connections it leaves open.\<close>

definition newSqliteStore :: "os_env \<Rightarrow> sqlite_driver \<Rightarrow> (go_error + string) \<times> handle list" where
  "newSqliteStore env dr =
     (let path = envOr env ''LOG_SQLITE_PATH'' defaultSQLitePath
      in case sd_open dr (sqlite_dsn path) of
           Some e \<Rightarrow> (Inl (''sqlite open '' @ path @ '': '' @ e), [])
         | None \<Rightarrow>
             (case sd_ping dr of
                Some e \<Rightarrow> (Inl (''sqlite ping '' @ path @ '': '' @ e), [])
              | None \<Rightarrow> (Inr path, [SqliteConn])))"

definition db_name_start :: string where
  "db_name_start = ''abcdefghijklmnopqrstuvwxyzABCDEFGHIJKLMNOPQRSTUVWXYZ_''"

definition valid_db_name :: "string \<Rightarrow> bool" where
  "valid_db_name s \<longleftrightarrow>
     (case s of [] \<Rightarrow> False | c # r \<Rightarrow> c \<in> set db_name_start \<and> list_all (\<lambda>d. d \<in> set (db_name_start @ ''0123456789'')) r)"

text \<open>The bootstrap connection is closed on every path; the second connection stays open when its ping fails.\<close>

definition newClickhouseStore :: "(string \<Rightarrow> string) \<Rightarrow> os_env \<Rightarrow> clickhouse_driver \<Rightarrow> (go_error + string) \<times> handle list" where
  "newClickhouseStore quote env dr =
     (let dbName = clickhouseDatabase env
      in case kd_bootstrap dr of
           Some e \<Rightarrow> (Inl (''clickhouse open (bootstrap): '' @ e), [])
         | None \<Rightarrow>
             if \<not> valid_db_name dbName
             then (Inl (''invalid CLICKHOUSE_DB name '' @ quote dbName @ '': must be alphanumeric/underscore, start with letter''), [])
             else case kd_create dr (''CREATE DATABASE IF NOT EXISTS '' @ dbName) of
                    Some e \<Rightarrow> (Inl (''clickhouse create database: '' @ e), [])
                  | None \<Rightarrow>
                      (case kd_open dr of
                         Some e \<Rightarrow> (Inl (''clickhouse open: '' @ e), [])
                       | None \<Rightarrow>
                           (case kd_ping dr of
                              Some e \<Rightarrow> (Inl (''clickhouse ping: '' @ e), [ClickhouseConn])
                            | None \<Rightarrow> (Inr dbName, [ClickhouseConn]))))"

text \<open>The statements of a schema, run in order up to the first that fails.\<close>

fun run_statements :: "(nat \<Rightarrow> go_error option) \<Rightarrow> nat \<Rightarrow> nat \<Rightarrow> go_error option" where
  "run_statements exec k 0 = None"
| "run_statements exec k (Suc n) = (case exec k of Some e \<Rightarrow> Some e | None \<Rightarrow> run_statements exec (Suc k) n)"

text \<open>The eight statements of SQLite; the retention loop is started when all succeeded.\<close>

definition sq_EnsureSchema :: "sqlite_driver \<Rightarrow> go_error option \<times> bool" where
  "sq_EnsureSchema dr =
     (case run_statements (sd_exec dr) 0 8 of
        Some e \<Rightarrow> (Some (''sqlite ensure schema: '' @ e), False)
      | None \<Rightarrow> (None, True))"

definition ch_EnsureSchema :: "clickhouse_driver \<Rightarrow> go_error option" where
  "ch_EnsureSchema dr = run_statements (kd_exec dr) 0 4"

subsection \<open>Retention\<close>

text \<open>What wakes the loop: the timer after the start, the hourly ticker, or the closed \<^verbatim>\<open>done\<close> channel; \<open>err k\<close> is the outcome for the k-th table.\<close>

datatype retention_event = FirstTimer gotime "nat \<Rightarrow> string option" | HourTick gotime "nat \<Rightarrow> string option" | StoreDone

fun retentionLoop :: "retention_event list \<Rightarrow> sq_db \<Rightarrow> sq_db" where
  "retentionLoop [] db = db"
| "retentionLoop (FirstTimer now err # evs) db = retentionLoop evs (sq_prune now err db)"
| "retentionLoop (HourTick now err # evs) db = retentionLoop evs (sq_prune now err db)"
| "retentionLoop (StoreDone # evs) db = db"

subsection \<open>The store\<close>

record Store =
  so_redis :: "string \<times> string \<times> int"
  so_backend :: log_backend
  so_name :: string
  so_schema :: "go_error option"
  so_sweeping :: bool
  so_done :: bool
  so_handles :: "handle list"

record store_drivers =
  dv_ping :: "go_error option"
  dv_sqlite :: sqlite_driver
  dv_clickhouse :: clickhouse_driver
  dv_quote :: "string \<Rightarrow> string"

definition open_backend :: "os_env \<Rightarrow> store_drivers \<Rightarrow> (go_error + string) \<times> handle list" where
  "open_backend env dv =
     (case NewLogStore (env ''LOG_BACKEND'') of
        SQLite \<Rightarrow> newSqliteStore env (dv_sqlite dv)
      | ClickHouse \<Rightarrow> newClickhouseStore (dv_quote dv) env (dv_clickhouse dv))"

definition ensure_schema :: "log_backend \<Rightarrow> store_drivers \<Rightarrow> go_error option \<times> bool" where
  "ensure_schema b dv = (case b of SQLite \<Rightarrow> sq_EnsureSchema (dv_sqlite dv) | ClickHouse \<Rightarrow> (ch_EnsureSchema (dv_clickhouse dv), False))"

text \<open>The result and the open connections; a schema that cannot be made is only logged.\<close>

definition NewStore :: "os_env \<Rightarrow> store_drivers \<Rightarrow> (go_error + Store) \<times> handle list" where
  "NewStore env dv =
     (case dv_ping dv of
        Some e \<Rightarrow> (Inl (''redis ping: '' @ e), [RedisConn])
      | None \<Rightarrow>
          (case open_backend env dv of
             (Inl e, hs) \<Rightarrow> (Inl (''log store init: '' @ e), RedisConn # hs)
           | (Inr name, hs) \<Rightarrow>
               (let b = NewLogStore (env ''LOG_BACKEND''); (err, sweep) = ensure_schema b dv;
                    s = \<lparr>so_redis = redisConfig env, so_backend = b, so_name = name, so_schema = err, so_sweeping = sweep,
                         so_done = False, so_handles = RedisConn # hs\<rparr>
                in (Inr s, so_handles s))))"

text \<open>
  Closing the store closes \<^verbatim>\<open>done\<close>, waits for the consumers for at most ten seconds and closes both connections.
  A second call would close the channel again: \<open>None\<close> is that panic. The backend of SQLite ends its loop and
  may be closed twice.
\<close>

definition Close :: "Store \<Rightarrow> Store option" where
  "Close s = (if so_done s then None else Some (s\<lparr>so_done := True, so_sweeping := False, so_handles := []\<rparr>))"

record sqlite_store =
  sl_closed :: bool
  sl_done :: bool
  sl_open :: bool

definition sq_Close :: "go_error option \<Rightarrow> sqlite_store \<Rightarrow> go_error option \<times> sqlite_store" where
  "sq_Close err s = (if sl_closed s then (None, s) else (err, \<lparr>sl_closed = True, sl_done = True, sl_open = False\<rparr>))"

definition Ready :: "Store option \<Rightarrow> bool" where
  "Ready s = (case s of None \<Rightarrow> False | Some st \<Rightarrow> RedisConn \<in> set (so_handles st))"

subsection \<open>Writers and queries\<close>

text \<open>On a missing store a writer does nothing.\<close>

definition LogRequest :: "FullLog \<Rightarrow> (FullLog, 'db) pipeline option \<Rightarrow> (FullLog, 'db) pipeline option" where
  "LogRequest r p = map_option (enqueue r) p"

definition LogRefresh :: "RefreshLog \<Rightarrow> (RefreshLog, 'db) pipeline option \<Rightarrow> (RefreshLog, 'db) pipeline option" where
  "LogRefresh r p = map_option (enqueue r) p"

definition LogEvent :: "AccountEvent \<Rightarrow> (AccountEvent, 'db) pipeline option \<Rightarrow> (AccountEvent, 'db) pipeline option" where
  "LogEvent e p = map_option (enqueue e) p"

text \<open>The interface of a log backend as the queries use it.\<close>

record log_api =
  la_Kind :: string
  la_Stats :: "gotime \<Rightarrow> string + RequestStats"
  la_Models :: "gotime \<Rightarrow> int \<Rightarrow> string + ModelStats list"
  la_Recent :: "int \<Rightarrow> string + RecentRequest list"
  la_Detail :: "64 word \<Rightarrow> string + RequestDetail"

definition no_stats :: RequestStats where
  "no_stats = \<lparr>rs_TotalRequests = 0, rs_TotalErrors = 0, rs_ErrorRate = 0, rs_AvgLatencyMs = 0, rs_TotalTokensIn = 0, rs_TotalTokensOut = 0, rs_TotalTokens = 0\<rparr>"

definition GetRequestStats :: "log_api option \<Rightarrow> gotime \<Rightarrow> string + RequestStats" where
  "GetRequestStats s since = (case s of None \<Rightarrow> Inr no_stats | Some l \<Rightarrow> la_Stats l since)"

definition GetModelStats :: "log_api option \<Rightarrow> gotime \<Rightarrow> int \<Rightarrow> string + ModelStats list" where
  "GetModelStats s since limit = (case s of None \<Rightarrow> Inr [] | Some l \<Rightarrow> la_Models l since limit)"

definition GetRecentRequests :: "log_api option \<Rightarrow> int \<Rightarrow> string + RecentRequest list" where
  "GetRecentRequests s limit = (case s of None \<Rightarrow> Inr [] | Some l \<Rightarrow> la_Recent l limit)"

definition GetRequestDetail :: "log_api option \<Rightarrow> 64 word \<Rightarrow> string + RequestDetail" where
  "GetRequestDetail s i = (case s of None \<Rightarrow> Inl ''log store not available'' | Some l \<Rightarrow> la_Detail l i)"

subsection \<open>What is open when\<close>

text \<open>
  A start that succeeds holds Redis and the backend the environment selects, and closing the store
  releases both, once.
\<close>

lemma NewStore_ok:
  assumes "NewStore env dv = (Inr s, hs)"
  shows "so_handles s = hs \<and> \<not> so_done s \<and> so_backend s = NewLogStore (env ''LOG_BACKEND'') \<and> so_redis s = redisConfig env
    \<and> hs = [RedisConn, (case so_backend s of SQLite \<Rightarrow> SqliteConn | ClickHouse \<Rightarrow> ClickhouseConn)]"
  using assms
  by (auto simp: NewStore_def open_backend_def newSqliteStore_def newClickhouseStore_def Let_def
      split: option.splits prod.splits sum.splits log_backend.splits if_splits)

lemma close_releases: "NewStore env dv = (Inr s, hs) \<Longrightarrow> \<exists>s'. Close s = Some s' \<and> so_handles s' = [] \<and> \<not> so_sweeping s' \<and> Close s' = None"
  using NewStore_ok [of env dv s hs] by (simp add: Close_def)

lemma sq_Close_twice: "sq_Close e' (snd (sq_Close e s)) = (None, snd (sq_Close e s))"
  by (simp add: sq_Close_def)

text \<open>The store cannot be opened exactly when Redis does not answer or the backend cannot be opened; the schema does not matter.\<close>

lemma NewStore_fails_iff: "isl (fst (NewStore env dv)) \<longleftrightarrow> dv_ping dv \<noteq> None \<or> isl (fst (open_backend env dv))"
  by (auto simp: NewStore_def Let_def split: option.split prod.split sum.split)

text \<open>
  A start that fails leaves connections behind: to Redis whenever it fails, and to ClickHouse as well when the second
  ping fails.
\<close>

theorem failed_start_leaks:
  assumes "fst (NewStore env dv) = Inl e"
  shows "snd (NewStore env dv) \<noteq> []"
  using assms by (auto simp: NewStore_def Let_def split: option.splits prod.splits sum.splits)

subsection \<open>What the logged key shows\<close>

lemma mask_of_body:
  assumes "CHR '':'' \<notin> set body" and "length body > 12"
  shows "maskRedisKey (pre @ '':'' @ body) = pre @ '':'' @ take 8 body @ ''...'' @ drop (length body - 4) body"
proof -
  have "takeWhile (\<lambda>c. c \<noteq> CHR '':'') (rev (pre @ '':'' @ body)) = rev body"
    using assms(1) takeWhile_append2 [of "rev body" "\<lambda>c. c \<noteq> CHR '':''" "rev (pre @ '':'')"] by auto
  moreover have "body \<noteq> []" using assms(2) by auto
  ultimately show ?thesis using assms(2) by (simp add: maskRedisKey_def Let_def)
qed

text \<open>Two credentials that agree in their first eight and last four characters cannot be told apart in the log.\<close>

lemma mask_hides:
  assumes "CHR '':'' \<notin> set b" and "CHR '':'' \<notin> set c" and "length b > 12" and "length c > 12"
    and "take 8 b = take 8 c" and "drop (length b - 4) b = drop (length c - 4) c"
  shows "maskRedisKey (pre @ '':'' @ b) = maskRedisKey (pre @ '':'' @ c)"
  using mask_of_body [OF assms(1,3), of pre] mask_of_body [OF assms(2,4), of pre] assms(5,6) by simp

subsection \<open>Retention is exact\<close>

fun sweep_time :: "retention_event \<Rightarrow> gotime option" where
  "sweep_time (FirstTimer now err) = Some now"
| "sweep_time (HourTick now err) = Some now"
| "sweep_time StoreDone = None"

definition kept :: "gotime \<Rightarrow> sq_db \<Rightarrow> sq_db" where
  "kept now db = sq_prune now (\<lambda>_. None) db"

lemma cutoff_mono: "t \<le> now \<Longrightarrow> retention_cutoff t \<le> retention_cutoff now"
  by (simp add: retention_cutoff_def second_def zdiv_mono1)

text \<open>A later pass removes whatever an earlier one should have removed.\<close>

lemma prune_absorbed:
  assumes "t \<le> now"
  shows "kept now (sq_prune t err db) = kept now db"
proof -
  have c: "\<not> v < retention_cutoff t \<and> \<not> v < retention_cutoff now \<longleftrightarrow> \<not> v < retention_cutoff now" for v
    using cutoff_mono [OF assms] by auto
  show ?thesis by (simp add: kept_def sq_prune_def Let_def comp_def c)
qed

lemma retention_run: "list_all (\<lambda>ev. \<exists>t. sweep_time ev = Some t \<and> t \<le> now) evs \<Longrightarrow> kept now (retentionLoop evs db) = kept now db"
proof (induction evs arbitrary: db)
  case (Cons ev evs)
  then show ?case by (cases ev) (simp_all add: prune_absorbed)
qed simp

lemma retentionLoop_append: "list_all (\<lambda>ev. sweep_time ev \<noteq> None) evs \<Longrightarrow> retentionLoop (evs @ evs') db = retentionLoop evs' (retentionLoop evs db)"
proof (induction evs arbitrary: db)
  case (Cons ev evs)
  then show ?case by (cases ev) simp_all
qed simp

text \<open>
  C39: Whatever failed in the passes before, after a pass of the retention loop that succeeds each of the three tables
  holds exactly those of its rows that are younger than ninety days, in their order: nothing older stays and nothing
  younger is lost.
\<close>

theorem retention_exact:
  assumes "list_all (\<lambda>ev. \<exists>t. sweep_time ev = Some t \<and> t \<le> now) evs"
    and "db' = retentionLoop (evs @ [HourTick now (\<lambda>_. None)]) db"
  shows "sq_requests db' = filter (\<lambda>r. rl_Timestamp (snd r) \<ge> retention_cutoff now) (sq_requests db)
    \<and> sq_refresh db' = filter (\<lambda>r. fr_Timestamp r \<ge> retention_cutoff now) (sq_refresh db)
    \<and> sq_events db' = filter (\<lambda>r. er_Timestamp r \<ge> retention_cutoff now) (sq_events db) \<and> sq_seq db' = sq_seq db"
proof -
  have "list_all (\<lambda>ev. sweep_time ev \<noteq> None) evs" using assms(1) by (auto simp: list_all_iff)
  then have "db' = kept now (retentionLoop evs db)" using assms(2) retentionLoop_append [of evs "[HourTick now (\<lambda>_. None)]" db] by (simp add: kept_def)
  then have "db' = kept now db" using retention_run [OF assms(1)] by simp
  then show ?thesis by (simp add: kept_def sq_prune_def Let_def comp_def not_less)
qed

definition ex_old :: sq_db where
  "ex_old = sq_empty\<lparr>sq_requests := [(1, ex_log), (2, ex_log\<lparr>rl_Timestamp := 1700000000 * second + 91 * 24 * hour\<rparr>)], sq_seq := 2\<rparr>"

theorem retention_exact_witness:
  "sq_requests (retentionLoop ([FirstTimer (1700000000 * second) (\<lambda>_. Some ''locked'')] @ [HourTick (1700000000 * second + 91 * 24 * hour) (\<lambda>_. None)]) ex_old)
     = [(2, ex_log\<lparr>rl_Timestamp := 1700000000 * second + 91 * 24 * hour\<rparr>)]"
proof -
  have "list_all (\<lambda>ev. \<exists>t. sweep_time ev = Some t \<and> t \<le> 1700000000 * second + 91 * 24 * hour) [FirstTimer (1700000000 * second) (\<lambda>_. Some ''locked'')]"
    by (simp add: hour_def minute_def second_def)
  from conjunct1 [OF retention_exact [OF this refl, of ex_old]] show ?thesis
    by (simp add: ex_old_def retention_cutoff_def ex_log_def hour_def minute_def second_def)
qed

end
