(* ===== verification/Adapter.thy ===== *)
theory Adapter
  imports ProxyPool
begin

text \<open>
  How the upstream package reaches the proxy pool. \<^verbatim>\<open>internal/upstream/upstream.go\<close> knows the pool through an
  interface with entries of its own; \<^verbatim>\<open>proxy_adapter.go\<close> implements that interface on the pool by copying the
  six fields the interface has, in both directions. The client code below works on any implementation
  of the interface; the other theories use the pool directly, and this theory shows that the
  difference cannot be observed.
\<close>

subsection \<open>The interface and its client\<close>

record upstream_entry =
  ue_ID :: string
  ue_Protocol :: string
  ue_Host :: string
  ue_Port :: int
  ue_Username :: string
  ue_Password :: string

record ('p, 'e, 't) pool_api =
  api_Next :: "string \<Rightarrow> 'p \<Rightarrow> (proxy_error + 'e) \<times> 'p \<times> pool_write list"
  api_Transport :: "'e \<Rightarrow> 'p \<Rightarrow> (go_error + 't) \<times> 'p"
  api_MarkFailed :: "string \<Rightarrow> 'p \<Rightarrow> 'p \<times> pool_write list"
  api_MarkSuccess :: "string \<Rightarrow> 'p \<Rightarrow> 'p \<times> pool_write list"
  api_ID :: "'e \<Rightarrow> string"

text \<open>A client of the HTTP library: its timeout and its transport, \<open>None\<close> for one that connects directly.\<close>

record 't http_client =
  cl_Timeout :: duration
  cl_Transport :: "'t option"

definition upstreamClient :: "'t http_client" where
  "upstreamClient = \<lparr>cl_Timeout = 300 * second, cl_Transport = None\<rparr>"

definition tokenRefreshClient :: "'t http_client" where
  "tokenRefreshClient = \<lparr>cl_Timeout = 30 * second, cl_Transport = None\<rparr>"

definition healthCheckClient :: "'t http_client" where
  "healthCheckClient = \<lparr>cl_Timeout = 30 * second, cl_Transport = None\<rparr>"

text \<open>The registered pool is \<open>None\<close> before \<^verbatim>\<open>SetProxyPool\<close>.\<close>

definition SetProxyPool :: "('p, 'e, 't) pool_api \<Rightarrow> ('p, 'e, 't) pool_api option \<Rightarrow> ('p, 'e, 't) pool_api option" where
  "SetProxyPool pp registered = Some pp"

definition client_timeout :: "'t http_client \<Rightarrow> duration" where
  "client_timeout dflt = (if cl_Timeout dflt > 0 then cl_Timeout dflt else 300 * second)"

definition getClient_on ::
  "('p, 'e, 't) pool_api option \<Rightarrow> 't http_client \<Rightarrow> string \<Rightarrow> 'p \<Rightarrow> ('t http_client \<times> string) \<times> 'p \<times> pool_write list" where
  "getClient_on registered dflt up p =
     (case registered of
        None \<Rightarrow> ((dflt, []), p, [])
      | Some pp \<Rightarrow>
          (case api_Next pp up p of
             (Inl _, p1, w) \<Rightarrow> ((dflt, []), p1, w)
           | (Inr entry, p1, w) \<Rightarrow>
               (case api_Transport pp entry p1 of
                  (Inl _, p2) \<Rightarrow> (let (p3, w3) = api_MarkFailed pp (api_ID pp entry) p2 in ((dflt, []), p3, w @ w3))
                | (Inr t, p2) \<Rightarrow>
                    ((\<lparr>cl_Timeout = client_timeout dflt, cl_Transport = Some t\<rparr>, api_ID pp entry), p2, w))))"

definition markProxyResult_on ::
  "('p, 'e, 't) pool_api option \<Rightarrow> string \<Rightarrow> go_error option \<Rightarrow> int \<Rightarrow> 'p \<Rightarrow> 'p \<times> pool_write list" where
  "markProxyResult_on registered proxyID err statusCode p =
     (if proxyID = [] then (p, [])
      else case registered of
             None \<Rightarrow> (p, [])
           | Some pp \<Rightarrow>
               if err \<noteq> None \<or> statusCode = 502 \<or> statusCode = 503 \<or> statusCode = 504
               then api_MarkFailed pp proxyID p else api_MarkSuccess pp proxyID p)"

subsection \<open>The adapter\<close>

text \<open>Copying an entry into the shape of the interface and back; the other fields get their zero values.\<close>

definition narrow :: "ProxyEntry \<Rightarrow> upstream_entry" where
  "narrow e = \<lparr>ue_ID = pe_ID e, ue_Protocol = pe_Protocol e, ue_Host = pe_Host e, ue_Port = pe_Port e,
     ue_Username = pe_Username e, ue_Password = pe_Password e\<rparr>"

definition widen :: "upstream_entry \<Rightarrow> ProxyEntry" where
  "widen u = \<lparr>pe_ID = ue_ID u, pe_Protocol = ue_Protocol u, pe_Host = ue_Host u, pe_Port = ue_Port u,
     pe_Username = ue_Username u, pe_Password = ue_Password u, pe_Enabled = False, pe_Label = [], pe_Upstreams = None,
     pe_CreatedAt = zero_time, pe_LastUsedAt = zero_time, pe_FailCount = 0\<rparr>"

definition adapter_Next ::
  "incr_result \<Rightarrow> gotime \<Rightarrow> string \<Rightarrow> ProxyPool \<Rightarrow> (proxy_error + upstream_entry) \<times> ProxyPool \<times> pool_write list" where
  "adapter_Next incr now up p =
     (case Next incr now up p of
        (Inl e, p', w) \<Rightarrow> (Inl e, p', w)
      | (Inr e, p', w) \<Rightarrow> (Inr (narrow e), p', w))"

definition adapter_Transport :: "transport_env \<Rightarrow> upstream_entry \<Rightarrow> ProxyPool \<Rightarrow> (go_error + ProxyEntry) \<times> ProxyPool" where
  "adapter_Transport env u p = Transport env (widen u) p"

definition upstreamProxyPoolAdapter ::
  "transport_env \<Rightarrow> incr_result \<Rightarrow> gotime \<Rightarrow> bool \<Rightarrow> (ProxyPool, upstream_entry, ProxyEntry) pool_api" where
  "upstreamProxyPoolAdapter env incr now has_db =
     \<lparr>api_Next = adapter_Next incr now, api_Transport = adapter_Transport env, api_MarkFailed = MarkFailed has_db,
      api_MarkSuccess = MarkSuccess has_db, api_ID = ue_ID\<rparr>"

text \<open>The pool itself behind the interface, as the other theories use it.\<close>

definition direct_pool ::
  "transport_env \<Rightarrow> incr_result \<Rightarrow> gotime \<Rightarrow> bool \<Rightarrow> (ProxyPool, ProxyEntry, ProxyEntry) pool_api" where
  "direct_pool env incr now has_db =
     \<lparr>api_Next = Next incr now, api_Transport = Transport env, api_MarkFailed = MarkFailed has_db,
      api_MarkSuccess = MarkSuccess has_db, api_ID = pe_ID\<rparr>"

lemma getClient_direct:
  "getClient_on (Some (direct_pool env incr now (incr \<noteq> None))) dflt up p =
     (case getClient env incr now up p of
        (None, p', w) \<Rightarrow> ((dflt, []), p', w)
      | (Some (t, i), p', w) \<Rightarrow> ((\<lparr>cl_Timeout = client_timeout dflt, cl_Transport = Some t\<rparr>, i), p', w))"
  by (auto simp: getClient_on_def direct_pool_def getClient_def Let_def split: prod.splits sum.splits)

lemma markProxyResult_direct: "markProxyResult_on (Some (direct_pool env incr now b)) i err st p = markProxyResult b i err st p"
  by (simp add: markProxyResult_on_def direct_pool_def markProxyResult_def)

subsection \<open>Simulation between two implementations\<close>

text \<open>
  What makes two implementations of the interface indistinguishable for the client: on related
  pools they select entries with the same identifier that give related transports, write the same
  to the store and stay related.
\<close>

locale pool_simulation =
  fixes a :: "('p, 'e, 't) pool_api" and b :: "('q, 'f, 'u) pool_api"
    and rel :: "'p \<Rightarrow> 'q \<Rightarrow> bool" and eqv :: "'e \<Rightarrow> 'f \<Rightarrow> bool" and same :: "'t \<Rightarrow> 'u \<Rightarrow> bool"
  assumes Next_rel: "rel p q \<Longrightarrow> api_Next a up p = (r, p', w) \<Longrightarrow>
      \<exists>r' q'. api_Next b up q = (r', q', w) \<and> rel_sum (=) eqv r r' \<and> rel p' q'"
    and Transport_rel: "rel p q \<Longrightarrow> eqv e f \<Longrightarrow> api_Transport a e p = (t, p') \<Longrightarrow>
      \<exists>u q'. api_Transport b f q = (u, q') \<and> rel_sum (=) same t u \<and> rel p' q'"
    and Failed_rel: "rel p q \<Longrightarrow> api_MarkFailed a i p = (p', w) \<Longrightarrow> \<exists>q'. api_MarkFailed b i q = (q', w) \<and> rel p' q'"
    and Success_rel: "rel p q \<Longrightarrow> api_MarkSuccess a i p = (p', w) \<Longrightarrow> \<exists>q'. api_MarkSuccess b i q = (q', w) \<and> rel p' q'"
    and ID_rel: "eqv e f \<Longrightarrow> api_ID b f = api_ID a e"
begin

definition same_client :: "'t http_client \<Rightarrow> 'u http_client \<Rightarrow> bool" where
  "same_client c d \<longleftrightarrow> cl_Timeout d = cl_Timeout c \<and> rel_option same (cl_Transport c) (cl_Transport d)"

lemma getClient_rel:
  assumes "rel p q" and "same_client c d" and "getClient_on (Some a) c up p = ((k, i), p', w)"
  shows "\<exists>l q'. getClient_on (Some b) d up q = ((l, i), q', w) \<and> same_client k l \<and> rel p' q'"
proof -
  obtain r p1 w1 where n: "api_Next a up p = (r, p1, w1)" by (cases "api_Next a up p") auto
  then obtain r' q1 where m: "api_Next b up q = (r', q1, w1)" "rel_sum (=) eqv r r'" "rel p1 q1" using Next_rel [OF assms(1) n] by blast
  show ?thesis
  proof (cases r)
    case (Inl x)
    then show ?thesis using assms(2,3) n m by (cases r') (auto simp: getClient_on_def)
  next
    case (Inr e)
    then obtain f where f: "r' = Inr f" "eqv e f" using m(2) by (cases r') auto
    obtain t p2 where t: "api_Transport a e p1 = (t, p2)" by fastforce
    then obtain u q2 where u: "api_Transport b f q1 = (u, q2)" "rel_sum (=) same t u" "rel p2 q2" using Transport_rel [OF m(3) f(2) t] by blast
    obtain p3 w3 where g: "api_MarkFailed a (api_ID a e) p2 = (p3, w3)" by fastforce
    then obtain q3 where h: "api_MarkFailed b (api_ID a e) q2 = (q3, w3)" "rel p3 q3" using Failed_rel [OF u(3) g] by blast
    show ?thesis using assms(2,3) n m Inr f t u g h ID_rel [OF f(2)]
      by (cases t; cases u) (auto simp: getClient_on_def same_client_def client_timeout_def)
  qed
qed

lemma markProxyResult_rel:
  assumes "rel p q" and "markProxyResult_on (Some a) i err st p = (p', w)"
  shows "\<exists>q'. markProxyResult_on (Some b) i err st q = (q', w) \<and> rel p' q'"
  using assms Failed_rel [OF assms(1), of i p' w] Success_rel [OF assms(1), of i p' w]
  by (auto simp: markProxyResult_on_def split: if_splits)

end

subsection \<open>The adapter simulates the pool\<close>

text \<open>Two pools that differ at most in what a cached transport was built from, not in how it connects.\<close>

definition same_transports :: "(string \<rightharpoonup> ProxyEntry) \<Rightarrow> (string \<rightharpoonup> ProxyEntry) \<Rightarrow> bool" where
  "same_transports f g \<longleftrightarrow> (\<forall>i. map_option conn (g i) = map_option conn (f i))"

definition same_pool :: "ProxyPool \<Rightarrow> ProxyPool \<Rightarrow> bool" where
  "same_pool p q \<longleftrightarrow> q = p\<lparr>transports := transports q\<rparr> \<and> same_transports (transports p) (transports q)"

lemma same_transports_upd: "same_transports f g \<Longrightarrow> conn s = conn t \<Longrightarrow> same_transports (f(i \<mapsto> s)) (g(i \<mapsto> t))"
  by (simp add: same_transports_def)

lemma same_transports_drop: "same_transports f g \<Longrightarrow> same_transports (f(i := None)) (g(i := None))"
  by (simp add: same_transports_def)

lemma same_pool_refl: "same_pool p p"
  by (simp add: same_pool_def same_transports_def)

lemma same_poolE:
  assumes "same_pool p q"
  obtains f where "q = p\<lparr>transports := f\<rparr>" and "same_transports (transports p) f"
  using assms by (auto simp: same_pool_def)

lemma same_poolI: "same_transports (transports p) f \<Longrightarrow> same_pool p (p\<lparr>transports := f\<rparr>)"
  by (simp add: same_pool_def)

lemma rr_pick_transports: "rr_pick incr n (p\<lparr>transports := f\<rparr>) = (fst (rr_pick incr n p), (snd (rr_pick incr n p))\<lparr>transports := f\<rparr>)"
  by (auto simp: rr_pick_def Let_def split: option.split sum.split)

lemma Next_transports:
  "Next incr now up (p\<lparr>transports := f\<rparr>)
     = (fst (Next incr now up p), (fst (snd (Next incr now up p)))\<lparr>transports := f\<rparr>, snd (snd (Next incr now up p)))"
  by (simp add: Next_def scoped_def Let_def rr_pick_transports split_beta)

lemma Next_same:
  assumes "same_pool p q"
  shows "fst (Next incr now up q) = fst (Next incr now up p) \<and> snd (snd (Next incr now up q)) = snd (snd (Next incr now up p))
    \<and> same_pool (fst (snd (Next incr now up p))) (fst (snd (Next incr now up q)))"
  using assms by (elim same_poolE) (simp add: Next_transports same_poolI)

lemma MarkFailed_same:
  assumes "same_pool p q"
  shows "snd (MarkFailed b i q) = snd (MarkFailed b i p) \<and> same_pool (fst (MarkFailed b i p)) (fst (MarkFailed b i q))"
  using assms
  by (elim same_poolE) (auto simp: MarkFailed_def rebuildEnabledLocked_def Let_def same_pool_def same_transports_drop split: option.split)

lemma MarkSuccess_same:
  assumes "same_pool p q"
  shows "snd (MarkSuccess b i q) = snd (MarkSuccess b i p) \<and> same_pool (fst (MarkSuccess b i p)) (fst (MarkSuccess b i q))"
  using assms
  by (elim same_poolE) (auto simp: MarkSuccess_def rebuildEnabledLocked_def Let_def same_pool_def same_transports_drop split: option.split)

text \<open>How a transport is built depends on the fields the interface has.\<close>

definition conn_eq :: "ProxyEntry \<Rightarrow> ProxyEntry \<Rightarrow> bool" where
  "conn_eq e f \<longleftrightarrow> pe_ID f = pe_ID e \<and> conn f = conn e"

lemma buildTransport_conn: "conn_eq e f \<Longrightarrow> buildTransport env f = map_sum id (\<lambda>_. f) (buildTransport env e)"
  by (auto simp: conn_eq_def conn_def buildTransport_def URL_def split: option.split)

lemma Transport_same:
  assumes "same_pool p q" and "conn_eq e f"
  shows "rel_sum (=) (\<lambda>t u. conn u = conn t) (fst (Transport env e p)) (fst (Transport env f q))
    \<and> same_pool (snd (Transport env e p)) (snd (Transport env f q))"
proof -
  obtain g where q: "q = p\<lparr>transports := g\<rparr>" and g: "same_transports (transports p) g" using assms(1) by (rule same_poolE)
  have i: "map_option conn (g (pe_ID e)) = map_option conn (transports p (pe_ID e))" using g by (simp add: same_transports_def)
  have f: "pe_ID f = pe_ID e" "conn f = conn e" using assms(2) by (simp_all add: conn_eq_def)
  show ?thesis
  proof (cases "transports p (pe_ID e)")
    case None
    then show ?thesis using i f buildTransport_conn [OF assms(2), of env] q g
      by (cases "buildTransport env e")
        (auto simp: Transport_def same_pool_def same_transports_upd dest: buildTransport_Inr)
  next
    case (Some t)
    then obtain u where "g (pe_ID e) = Some u" "conn u = conn t" using i by auto
    then show ?thesis using Some f q g by (simp add: Transport_def same_pool_def)
  qed
qed

interpretation ad: pool_simulation "direct_pool env incr now b" "upstreamProxyPoolAdapter env incr now b"
    same_pool "\<lambda>e u. u = narrow e" "\<lambda>t u. conn u = conn t" for env incr now b
proof
  fix p q up r p' w
  assume "same_pool p q" and n: "api_Next (direct_pool env incr now b) up p = (r, p', w)"
  then show "\<exists>r' q'. api_Next (upstreamProxyPoolAdapter env incr now b) up q = (r', q', w) \<and> rel_sum (=) (\<lambda>e u. u = narrow e) r r' \<and> same_pool p' q'"
    using Next_same [of p q incr now up]
    by (cases r; cases "Next incr now up q") (auto simp: direct_pool_def upstreamProxyPoolAdapter_def adapter_Next_def split: sum.split)
next
  fix p q e f t p'
  assume r: "same_pool p q" and f: "f = narrow e" and t: "api_Transport (direct_pool env incr now b) e p = (t, p')"
  have "conn_eq e (widen f)" by (simp add: f conn_eq_def conn_def widen_def narrow_def)
  from Transport_same [OF r this, of env]
  show "\<exists>u q'. api_Transport (upstreamProxyPoolAdapter env incr now b) f q = (u, q') \<and> rel_sum (=) (\<lambda>t u. conn u = conn t) t u \<and> same_pool p' q'"
    using t by (cases "Transport env (widen f) q") (simp add: direct_pool_def upstreamProxyPoolAdapter_def adapter_Transport_def)
next
  fix p q i p' w
  assume r: "same_pool p q"
  show "api_MarkFailed (direct_pool env incr now b) i p = (p', w) \<Longrightarrow> \<exists>q'. api_MarkFailed (upstreamProxyPoolAdapter env incr now b) i q = (q', w) \<and> same_pool p' q'"
    using MarkFailed_same [OF r, of b i] by (cases "MarkFailed b i q") (simp add: direct_pool_def upstreamProxyPoolAdapter_def)
  show "api_MarkSuccess (direct_pool env incr now b) i p = (p', w) \<Longrightarrow> \<exists>q'. api_MarkSuccess (upstreamProxyPoolAdapter env incr now b) i q = (q', w) \<and> same_pool p' q'"
    using MarkSuccess_same [OF r, of b i] by (cases "MarkSuccess b i q") (simp add: direct_pool_def upstreamProxyPoolAdapter_def)
qed (simp add: direct_pool_def upstreamProxyPoolAdapter_def narrow_def)

lemma admin_same:
  assumes "same_pool p q"
  shows "same_pool (fst (snd (Add db nid now e p))) (fst (snd (Add db nid now e q)))"
    and "same_pool (fst (snd (Update sv i inp p))) (fst (snd (Update sv i inp q)))"
    and "same_pool (fst (snd (Delete dl i p))) (fst (snd (Delete dl i q)))"
    and "same_pool (fst (snd (Toggle sv i p))) (fst (snd (Toggle sv i q)))"
  using assms
  by (elim same_poolE; auto simp: Add_def Update_def Delete_def Toggle_def rebuildEnabledLocked_def Let_def same_pool_def same_transports_drop
      split: option.split sum.split)+

lemma pool_apply_same: "same_pool p q \<Longrightarrow> same_pool (pool_apply ev p) (pool_apply ev q)"
  using Transport_same [of p q e e for e]
  by (cases ev) (simp_all add: admin_same Next_same MarkFailed_same MarkSuccess_same conn_eq_def)

text \<open>
  The events of the pool, with the clients going through the adapter. Reporting an outcome builds no
  transport, so that its environment plays no role.
\<close>

definition idle_env :: transport_env where
  "idle_env = \<lparr>parse_url = (\<lambda>_. None), socks5 = (\<lambda>_ _. None)\<rparr>"

fun adapter_apply :: "client_event \<Rightarrow> ProxyPool \<Rightarrow> ProxyPool" where
  "adapter_apply (Admin ev) p = pool_apply ev p"
| "adapter_apply (Client env incr now up) p =
     fst (snd (getClient_on (Some (upstreamProxyPoolAdapter env incr now (incr \<noteq> None))) upstreamClient up p))"
| "adapter_apply (Report b i err st) p = fst (markProxyResult_on (Some (upstreamProxyPoolAdapter idle_env None 0 b)) i err st p)"

lemma adapter_client:
  assumes "same_pool p q"
  shows "case (getClient env incr now up p, getClient_on (Some (upstreamProxyPoolAdapter env incr now (incr \<noteq> None))) \<lparr>cl_Timeout = d, cl_Transport = None\<rparr> up q) of
           ((None, p', w), ((c, i), q', w')) \<Rightarrow> c = \<lparr>cl_Timeout = d, cl_Transport = None\<rparr> \<and> i = [] \<and> w' = w \<and> same_pool p' q'
         | ((Some (t, j), p', w), ((c, i), q', w')) \<Rightarrow>
             i = j \<and> cl_Timeout c = (if d > 0 then d else 300 * second) \<and> map_option conn (cl_Transport c) = Some (conn t) \<and> w' = w \<and> same_pool p' q'"
proof -
  let ?c = "\<lparr>cl_Timeout = d, cl_Transport = None\<rparr> :: ProxyEntry http_client"
  let ?a = "direct_pool env incr now (incr \<noteq> None)" and ?b = "upstreamProxyPoolAdapter env incr now (incr \<noteq> None)"
  obtain k i p' w where g: "getClient_on (Some ?a) ?c up p = ((k, i), p', w)" by (cases "getClient_on (Some ?a) ?c up p") auto
  have "ad.same_client ?c ?c" by (simp add: ad.same_client_def)
  from ad.getClient_rel [OF assms this g] obtain l q' where h: "getClient_on (Some ?b) ?c up q = ((l, i), q', w)" "ad.same_client k l" "same_pool p' q'"
    by blast
  show ?thesis using g h(2,3) unfolding h(1) getClient_direct
    by (auto simp: ad.same_client_def client_timeout_def option_rel_Some1 split: prod.splits option.splits)
qed

lemma adapter_apply_same:
  assumes "same_pool p q"
  shows "same_pool (client_apply ev p) (adapter_apply ev q)"
proof (cases ev)
  case (Client env incr now up)
  then show ?thesis using adapter_client [OF assms, where d = "300 * second" and env = env and incr = incr and now = now and up = up]
    by (auto simp: upstreamClient_def split: prod.splits option.splits)
next
  case (Report b i err st)
  obtain p' w where g: "markProxyResult b i err st p = (p', w)" by fastforce
  then have "markProxyResult_on (Some (direct_pool idle_env None 0 b)) i err st p = (p', w)" by (simp add: markProxyResult_direct)
  from ad.markProxyResult_rel [OF assms this] show ?thesis using g Report by auto
qed (simp add: pool_apply_same assms)

lemma adapter_run_same: "same_pool p q \<Longrightarrow> same_pool (fold client_apply evs p) (fold adapter_apply evs q)"
  by (induction evs arbitrary: p q) (simp_all add: adapter_apply_same)

text \<open>
  C40: The adapter between the upstream package and the pool is transparent. Through any history of
  administration, requests and reported outcomes, a request that goes through the adapter gets a
  direct client exactly when it would get one from the pool itself, and otherwise the same proxy, a
  transport to the same address with the same credentials, and the timeout of the client it replaces;
  the writes to the store are the same.
\<close>

theorem adapter_transparent:
  "case (getClient env incr now up (fold client_apply evs p),
         getClient_on (Some (upstreamProxyPoolAdapter env incr now (incr \<noteq> None))) \<lparr>cl_Timeout = d, cl_Transport = None\<rparr> up (fold adapter_apply evs p)) of
     ((None, p', w), ((c, i), q', w')) \<Rightarrow> c = \<lparr>cl_Timeout = d, cl_Transport = None\<rparr> \<and> i = [] \<and> w' = w \<and> same_pool p' q'
   | ((Some (t, j), p', w), ((c, i), q', w')) \<Rightarrow>
       i = j \<and> cl_Timeout c = (if d > 0 then d else 300 * second) \<and> map_option conn (cl_Transport c) = Some (conn t) \<and> w' = w \<and> same_pool p' q'"
  by (rule adapter_client [OF adapter_run_same [OF same_pool_refl]])

end
