(* ===== verification/Boot.thy ===== *)
theory Boot
  imports Background Storage Adapter Rows
begin

text \<open>
  Starting the process: \<^verbatim>\<open>main\<close> of \<^verbatim>\<open>main.go\<close> up to the listening server, in its order. The store is opened, the
  pools, the key manager, the registries and the proxies are loaded from Redis, and the limiter, the sessions and the
  tunnel manager are made. A load that fails is logged and leaves its component empty.

  A \<open>machine\<close> is what the process finds: environment, files, randomness, the clock, the answers of
  the drivers, and the codecs of the values in Redis. The rows of Redis are one
  record, and what the scans over them answer another.
\<close>

subsection \<open>What the process finds\<close>

record machine =
  mc_env :: os_env
  mc_file :: "string \<Rightarrow> string option"
  mc_rand :: rand_source
  mc_now :: gotime
  mc_drivers :: store_drivers
  mc_bool :: "bool \<Rightarrow> string"
  mc_time :: "string \<Rightarrow> gotime option"
  mc_float :: "string \<Rightarrow> rat option"
  mc_scopes :: "string \<Rightarrow> string list option"

record redis_rows =
  rr_keys :: key_rows
  rr_grok :: key_rows
  rr_cb :: key_rows
  rr_proxies :: px_db
  rr_models :: json_rows
  rr_aliases :: alias_rows
  rr_combos :: combo_db
  rr_tunnel :: "json option option"

record redis_scan =
  rc_keys :: "go_error + string list"
  rc_grok :: "string list \<times> go_error option"
  rc_cb :: "string list \<times> go_error option"
  rc_proxies :: "string list \<times> go_error option"
  rc_enabled :: "go_error option"
  rc_models :: "go_error option"
  rc_aliases :: "go_error option"
  rc_combos :: "go_error option"
  rc_bad :: "string \<Rightarrow> bool"

text \<open>The prefixes of the rows; \<open>rc_bad\<close> says which HGETALL fails.\<close>

definition RK_GROK_ACCOUNT :: string where "RK_GROK_ACCOUNT = ''grok:account:''"
definition RK_CB_KEY :: string where "RK_CB_KEY = ''cb:key:''"
definition RK_PROXY :: string where "RK_PROXY = ''fr:proxy:''"

definition DEFAULT_PORT :: string where
  "DEFAULT_PORT = ''20130''"

definition listen_port :: "os_env \<Rightarrow> string" where
  "listen_port env = envOr env ''PORT'' DEFAULT_PORT"

definition auth_env :: "machine \<Rightarrow> string \<Rightarrow> boot_env" where
  "auth_env m rk =
     \<lparr>GATEWAY_API_KEYS = mc_env m ''GATEWAY_API_KEYS'', GATEWAY_KEY_FILE = mc_env m ''GATEWAY_KEY_FILE'',
      key_file_data = mc_file m (mc_env m ''GATEWAY_KEY_FILE''), gateway_key_txt = mc_file m ''./gateway-key.txt'',
      GATEWAY_AUTH_DISABLE = mc_env m ''GATEWAY_AUTH_DISABLE'', GATEWAY_NO_AUTOBOOTSTRAP = mc_env m ''GATEWAY_NO_AUTOBOOTSTRAP'',
      random_key = rk, boot_time = mc_now m\<rparr>"

definition cb_env :: "machine \<Rightarrow> cb_boot" where
  "cb_env m =
     \<lparr>CB_API_KEYS = mc_env m ''CB_API_KEYS'', CB_API_KEY = mc_env m ''CB_API_KEY'', CB_KEY_FILE = mc_env m ''CB_KEY_FILE'',
      cb_key_file_data = mc_file m (mc_env m ''CB_KEY_FILE''), codebuddy_key_txt = mc_file m ''./codebuddy-key.txt''\<rparr>"

subsection \<open>The first key\<close>

text \<open>
  The branch of \<^verbatim>\<open>NewManager\<close> that makes a random key is taken when the manager would be empty without it. The key is
  written to a file, whose path is also where configured keys are read from if the variable is set.
\<close>

definition autobootstraps :: "boot_env \<Rightarrow> go_error + GatewayKeyDTO list \<Rightarrow> key_store \<Rightarrow> bool" where
  "autobootstraps env dtos st \<longleftrightarrow>
     fst (NewManager (env\<lparr>GATEWAY_NO_AUTOBOOTSTRAP := ''1''\<rparr>) dtos st) = []
     \<and> GATEWAY_AUTH_DISABLE env \<noteq> ''1'' \<and> GATEWAY_NO_AUTOBOOTSTRAP env \<noteq> ''1''"

definition bootstrap_file :: "os_env \<Rightarrow> string" where
  "bootstrap_file env = envOr env ''GATEWAY_KEY_FILE'' ''bootstrap-key.txt''"

definition start_manager ::
  "machine \<Rightarrow> go_error + GatewayKeyDTO list \<Rightarrow> key_store \<Rightarrow> (Manager \<times> key_store \<times> (string \<times> string) option) process" where
  "start_manager m dtos st =
     (if autobootstraps (auth_env m []) dtos st
      then case GenerateRandomKey (mc_rand m) 32 of
             Exit n \<Rightarrow> Exit n
           | Proceed rk \<Rightarrow>
               (case NewManager (auth_env m rk) dtos st of
                  (am, st') \<Rightarrow> Proceed (am, st', Some (bootstrap_file (mc_env m), ''gw-'' @ rk @ [CHR 0x0A])))
      else case NewManager (auth_env m []) dtos st of (am, st') \<Rightarrow> Proceed (am, st', None))"

subsection \<open>Start\<close>

text \<open>The state after the start; \<open>sd_file\<close> is the file with the first key, \<open>sd_warnings\<close> the loads that failed, by the name of the module.\<close>

record started =
  sd_app :: app
  sd_store :: Store
  sd_file :: "(string \<times> string) option"
  sd_warnings :: "(string \<times> go_error) list"

definition warned :: "string \<Rightarrow> go_error option \<Rightarrow> (string \<times> go_error) list" where
  "warned mod_name r = (case r of None \<Rightarrow> [] | Some e \<Rightarrow> [(mod_name, e)])"

definition load_pools ::
  "machine \<Rightarrow> redis_rows \<Rightarrow> redis_scan \<Rightarrow> upstream_state \<times> (string \<times> go_error) list \<times> (string \<times> go_error) list" where
  "load_pools m rr rc =
     (let (ge, grok) = LoadGrok (mc_time m) (mc_now m) (Some (LoadGrokAccounts (rc_grok rc) (rc_bad rc \<circ> (@) RK_GROK_ACCOUNT) (rr_grok rr))) NewGrokAccountManager;
          (ce, cb) = LoadCB (mc_float m) (cb_env m) (LoadCBKeys (rc_cb rc) (rc_bad rc \<circ> (@) RK_CB_KEY) (rr_cb rr)) NewCBKeyManager;
          (pe, proxies) = Load (Some (LoadProxies (mc_scopes m) (rc_enabled rc) (rc_bad rc \<circ> (@) RK_PROXY) (rc_proxies rc) (rr_proxies rr))) NewProxyPool
      in (\<lparr>us_grok = grok, us_cb = cb, us_gh = NewUpstreamHealth ''grok'', us_ch = NewUpstreamHealth ''codebuddy'', us_proxy = proxies, us_calls = 0\<rparr>,
          warned ''grok'' ge @ warned ''cb'' ce, warned ''proxy-pool'' pe))"

definition load_registries :: "redis_rows \<Rightarrow> redis_scan \<Rightarrow> (CustomRegistry \<times> ComboRegistry) \<times> (string \<times> go_error) list" where
  "load_registries rr rc =
     (let (me, custom) = LoadCustom (Some (LoadCustomModels (rc_models rc) (rr_models rr), LoadCustomAliases (rc_aliases rc) (rr_aliases rr))) NewCustomRegistry;
          (oe, cs) = LoadCombos (Some (LoadComboRows (rc_combos rc) (rr_combos rr))) NewComboRegistry
      in ((custom, cs), warned ''custom'' me @ warned ''combo'' oe))"

definition new_tunnel :: "os_env \<Rightarrow> json option option \<Rightarrow> tn_state" where
  "new_tunnel env stored =
     NewTunnelManager True stored (envOr env ''CLOUDFLARED_PATH'' ''/usr/local/bin/cloudflared'')
       (envOr env ''TUNNEL_UPSTREAM_URL'' (''http://127.0.0.1:'' @ listen_port env))"

definition boot :: "machine \<Rightarrow> redis_rows \<Rightarrow> redis_scan \<Rightarrow> started process" where
  "boot m rr rc =
     (case fst (NewStore (mc_env m) (mc_drivers m)) of
        Inl e \<Rightarrow> Exit 1
      | Inr store \<Rightarrow>
          (case start_manager m (LoadGatewayKeys (rc_keys rc) (rr_keys rr)) (Some (mc_bool m, mc_now m, rr_keys rr)) of
             Exit n \<Rightarrow> Exit n
           | Proceed (am, st, file) \<Rightarrow>
               (let (up, w1, w3) = load_pools m rr rc; ((custom, cs), w2) = load_registries rr rc
                in Proceed
                     \<lparr>sd_app =
                        \<lparr>ap_gw = \<lparr>gw_up = up, gw_auth = am, gw_keys = st, gw_custom = Some custom, gw_combos = Some cs, gw_dispatched = []\<rparr>,
                         ap_sessions = Map.empty, ap_limiter = NewLimiter 60 10 minute, ap_logins = Map.empty,
                         ap_tunnel = new_tunnel (mc_env m) (rr_tunnel rr)\<rparr>,
                      sd_store = store, sd_file = file, sd_warnings = w1 @ w2 @ w3\<rparr>)))"

text \<open>The tunnel is started in a goroutine of its own, after the server's state exists.\<close>

definition auto_start :: "(string \<Rightarrow> string) \<Rightarrow> tn_env \<Rightarrow> app \<Rightarrow> app" where
  "auto_start quote env a = a\<lparr>ap_tunnel := AutoStart quote env (ap_tunnel a)\<rparr>"

subsection \<open>When the process does not start\<close>

lemma start_manager_exit:
  "start_manager m dtos st = Exit n \<longleftrightarrow> n = 1 \<and> autobootstraps (auth_env m []) dtos st \<and> isl (mc_rand m 32)"
  by (auto simp: start_manager_def GenerateRandomKey_def split: sum.splits prod.splits if_splits process.splits)

lemma boot_exits:
  "boot m rr rc = Exit n \<longleftrightarrow>
     n = 1 \<and> (dv_ping (mc_drivers m) \<noteq> None \<or> isl (fst (open_backend (mc_env m) (mc_drivers m)))
       \<or> autobootstraps (auth_env m []) (LoadGatewayKeys (rc_keys rc) (rr_keys rr)) (Some (mc_bool m, mc_now m, rr_keys rr)) \<and> isl (mc_rand m 32))"
proof (cases "fst (NewStore (mc_env m) (mc_drivers m))")
  case (Inl e)
  then have "dv_ping (mc_drivers m) \<noteq> None \<or> isl (fst (open_backend (mc_env m) (mc_drivers m)))"
    using NewStore_fails_iff [of "mc_env m" "mc_drivers m"] by simp
  then show ?thesis using Inl by (auto simp: boot_def)
next
  case (Inr s)
  then have ok: "dv_ping (mc_drivers m) = None" "\<not> isl (fst (open_backend (mc_env m) (mc_drivers m)))"
    using NewStore_fails_iff [of "mc_env m" "mc_drivers m"] by auto
  show ?thesis
  proof (cases "start_manager m (LoadGatewayKeys (rc_keys rc) (rr_keys rr)) (Some (mc_bool m, mc_now m, rr_keys rr))")
    case (Exit k)
    then have "boot m rr rc = Exit k" by (simp add: boot_def Inr)
    then show ?thesis using ok iffD1 [OF start_manager_exit Exit] by auto
  next
    case (Proceed x)
    then have "\<not> (autobootstraps (auth_env m []) (LoadGatewayKeys (rc_keys rc) (rr_keys rr)) (Some (mc_bool m, mc_now m, rr_keys rr)) \<and> isl (mc_rand m 32))"
      using start_manager_exit [of m _ _ 1] by (metis process.distinct(1))
    then show ?thesis using Inr ok Proceed by (auto simp: boot_def split_beta)
  qed
qed


lemma boot_Proceed:
  assumes "boot m rr rc = Proceed s"
  obtains am st f where
    "start_manager m (LoadGatewayKeys (rc_keys rc) (rr_keys rr)) (Some (mc_bool m, mc_now m, rr_keys rr)) = Proceed (am, st, f)"
    "gw_auth (ap_gw (sd_app s)) = am" "gw_keys (ap_gw (sd_app s)) = st" "sd_file s = f"
    "gw_up (ap_gw (sd_app s)) = fst (load_pools m rr rc)"
    "gw_custom (ap_gw (sd_app s)) = Some (fst (fst (load_registries rr rc)))" "gw_combos (ap_gw (sd_app s)) = Some (snd (fst (load_registries rr rc)))"
    "sd_warnings s = fst (snd (load_pools m rr rc)) @ snd (load_registries rr rc) @ snd (snd (load_pools m rr rc))"
    "ap_tunnel (sd_app s) = new_tunnel (mc_env m) (rr_tunnel rr)" "ap_sessions (sd_app s) = Map.empty"
    "NewStore (mc_env m) (mc_drivers m) = (Inr (sd_store s), so_handles (sd_store s))"
proof -
  obtain store hs where "NewStore (mc_env m) (mc_drivers m) = (Inr store, hs)"
    using assms by (cases "NewStore (mc_env m) (mc_drivers m)") (auto simp: boot_def split: sum.splits)
  moreover from this have "hs = so_handles store" using NewStore_ok by blast
  ultimately show thesis using assms that by (auto simp: boot_def split_beta split: process.splits)
qed

subsection \<open>The first start\<close>

lemma add_bootstrap_nonempty: "am \<noteq> [] \<Longrightarrow> fst (add_bootstrap now ks (am, st)) \<noteq> []"
proof (induction ks arbitrary: am st)
  case (Cons k ks)
  have "AList.update k (bootstrap_info now k) am \<noteq> []" by (cases am) auto
  then show ?case using Cons by simp
qed simp

lemma add_bootstrap_empty: "fst (add_bootstrap now ks ([], st)) = [] \<longleftrightarrow> ks = []"
  by (cases ks) (simp_all add: add_bootstrap_nonempty)

definition loaded_keys :: "go_error + GatewayKeyDTO list \<Rightarrow> key_store \<Rightarrow> Manager" where
  "loaded_keys dtos st =
     (if st = None then [] else case loadGatewayKeys dtos of Inl _ \<Rightarrow> [] | Inr infos \<Rightarrow> fold (\<lambda>i. AList.update (gk_Key i) i) infos [])"

lemma NewManager_cases:
  "NewManager env dtos st =
     (if loaded_keys dtos st \<noteq> [] then (loaded_keys dtos st, st)
      else if bootstrapKeys env \<noteq> [] then add_bootstrap (boot_time env) (bootstrapKeys env) ([], st)
      else if GATEWAY_AUTH_DISABLE env = ''1'' \<or> GATEWAY_NO_AUTOBOOTSTRAP env = ''1'' then ([], st)
      else (let k = ''gw-'' @ random_key env; i = bootstrap_info (boot_time env) k in ([(k, i)], saveGatewayKey i st)))"
proof -
  have l: "(if st = None then [] else case loadGatewayKeys dtos of Inl _ \<Rightarrow> [] | Inr infos \<Rightarrow> fold (\<lambda>i. AList.update (gk_Key i) i) infos []) = loaded_keys dtos st"
    by (simp add: loaded_keys_def)
  show ?thesis
    unfolding NewManager_def l using add_bootstrap_empty [of "boot_time env" "bootstrapKeys env" st]
    by (auto simp: Let_def split: prod.split)
qed

lemma autobootstraps_iff:
  "autobootstraps env dtos st \<longleftrightarrow>
     loaded_keys dtos st = [] \<and> bootstrapKeys env = [] \<and> GATEWAY_AUTH_DISABLE env \<noteq> ''1'' \<and> GATEWAY_NO_AUTOBOOTSTRAP env \<noteq> ''1''"
proof -
  have "bootstrapKeys (env\<lparr>GATEWAY_NO_AUTOBOOTSTRAP := ''1''\<rparr>) = bootstrapKeys env" by (simp add: bootstrapKeys_def)
  then show ?thesis
    using add_bootstrap_empty [of "boot_time env" "bootstrapKeys env" st] by (auto simp: autobootstraps_def NewManager_cases)
qed

lemma auth_env_random: "bootstrapKeys (auth_env m rk) = bootstrapKeys (auth_env m [])"
  by (simp add: bootstrapKeys_def auth_env_def)

lemma start_manager_first:
  assumes "autobootstraps (auth_env m []) dtos st" and "mc_rand m 32 = Inr b"
  shows "start_manager m dtos st =
    (let k = ''gw-'' @ hex_EncodeToString b; i = bootstrap_info (mc_now m) k
     in Proceed ([(k, i)], saveGatewayKey i st, Some (bootstrap_file (mc_env m), k @ [CHR 0x0A])))"
proof -
  have "NewManager (auth_env m (hex_EncodeToString b)) dtos st =
      (let k = ''gw-'' @ hex_EncodeToString b; i = bootstrap_info (mc_now m) k in ([(k, i)], saveGatewayKey i st))"
    using assms(1) by (simp add: autobootstraps_iff NewManager_cases auth_env_random [of m "hex_EncodeToString b"]) (simp add: auth_env_def)
  then show ?thesis using assms by (simp add: start_manager_def GenerateRandomKey_def Let_def)
qed

lemma first_boot_app:
  assumes "boot m rr rc = Proceed s"
    and "autobootstraps (auth_env m []) (LoadGatewayKeys (rc_keys rc) (rr_keys rr)) (Some (mc_bool m, mc_now m, rr_keys rr))"
    and "mc_rand m 32 = Inr b" and "k = ''gw-'' @ hex_EncodeToString b"
  shows "gw_auth (ap_gw (sd_app s)) = [(k, bootstrap_info (mc_now m) k)]" and "sd_file s = Some (bootstrap_file (mc_env m), k @ [CHR 0x0A])"
proof -
  have sm: "start_manager m (LoadGatewayKeys (rc_keys rc) (rr_keys rr)) (Some (mc_bool m, mc_now m, rr_keys rr))
      = Proceed ([(k, bootstrap_info (mc_now m) k)], saveGatewayKey (bootstrap_info (mc_now m) k) (Some (mc_bool m, mc_now m, rr_keys rr)),
          Some (bootstrap_file (mc_env m), k @ [CHR 0x0A]))"
    using start_manager_first [OF assms(2,3)] assms(4) by (simp add: Let_def)
  show "gw_auth (ap_gw (sd_app s)) = [(k, bootstrap_info (mc_now m) k)]" "sd_file s = Some (bootstrap_file (mc_env m), k @ [CHR 0x0A])"
    by (rule boot_Proceed [OF assms(1)], simp add: sm)+
qed


subsection \<open>Losing Redis\<close>

lemma fields_line: "\<forall>c \<in> set w. \<not> p c \<Longrightarrow> p n \<Longrightarrow> cur @ w \<noteq> [] \<Longrightarrow> fields_func p cur (w @ [n]) = [cur @ w]"
  by (induction w arbitrary: cur) auto

lemma TrimSpace_fixed:
  assumes "\<forall>q \<in> set space_seqs. hd q \<notin> set s \<and> last q \<notin> set s"
  shows "TrimSpace s = s"
proof -
  have "\<not> prefix q s \<and> \<not> prefix (rev q) (rev s)" if q: "q \<in> set space_seqs" for q
  proof -
    have "hd q \<in> set q" "last q \<in> set q" using q space_seqs_nonempty(1) by (cases "q = []", auto)+
    moreover have "\<not> set q \<subseteq> set s" using calculation bspec [OF assms q] by blast
    ultimately show ?thesis using set_mono_prefix [of q s] set_mono_prefix [of "rev q" "rev s"] by auto
  qed
  then have "seq_len space_seqs s = 0" "seq_len (map rev space_seqs) (rev s) = 0"
    by (auto simp: seq_len_zero_iff [OF space_seqs_nonempty(1)] seq_len_zero_iff [OF space_seqs_nonempty(2)])
  then show ?thesis by (simp add: TrimSpace_def trim_by_fixed)
qed

lemma key_chars: "set (''gw-'' @ hex_EncodeToString b) \<subseteq> set (''gw-'' @ hex_digits)"
  using hex_alphabet [of b] by auto

lemma split_written_key: "split_keys [CHR '','', CHR 0x0A, CHR 0x0D] ((''gw-'' @ hex_EncodeToString b) @ [CHR 0x0A]) = [''gw-'' @ hex_EncodeToString b]"
proof -
  let ?k = "''gw-'' @ hex_EncodeToString b"
  have "list_all (\<lambda>c. c \<notin> set [CHR '','', CHR 0x0A, CHR 0x0D]) (''gw-'' @ hex_digits)" by (simp add: hex_digits_def)
  then have "\<forall>c \<in> set ?k. c \<notin> set [CHR '','', CHR 0x0A, CHR 0x0D]" using key_chars [of b] unfolding list_all_iff by blast
  then have f: "fields_func (\<lambda>c. c \<in> set [CHR '','', CHR 0x0A, CHR 0x0D]) [] (?k @ [CHR 0x0A]) = [?k]"
    using fields_line [of ?k "\<lambda>c. c \<in> set [CHR '','', CHR 0x0A, CHR 0x0D]" "CHR 0x0A" "[]"] by simp
  have "list_all (\<lambda>q. hd q \<notin> set (''gw-'' @ hex_digits) \<and> last q \<notin> set (''gw-'' @ hex_digits)) space_seqs" by code_simp
  then have "TrimSpace ?k = ?k" using key_chars [of b] by (intro TrimSpace_fixed) (auto simp only: list_all_iff)
  then show ?thesis unfolding split_keys_def f by simp
qed

lemma empty_scan: "rc_keys rc = Inr [] \<or> isl (rc_keys rc) \<Longrightarrow> loaded_keys (LoadGatewayKeys (rc_keys rc) rows) st = []"
  by (auto simp: loaded_keys_def LoadGatewayKeys_def loadGatewayKeys_def List.map_filter_def split: sum.splits)

text \<open>
  With a key file configured the first key outlives Redis. The key of the first start is written to that
  file; a later start with the same environment that finds the file and no key in Redis has exactly this key,
  as an administrator's, and makes no other.
\<close>

theorem key_file_recovers:
  assumes "boot m rr rc = Proceed s"
    and "autobootstraps (auth_env m []) (LoadGatewayKeys (rc_keys rc) (rr_keys rr)) (Some (mc_bool m, mc_now m, rr_keys rr))"
    and "mc_rand m 32 = Inr b" and "mc_env m ''GATEWAY_KEY_FILE'' \<noteq> []"
    and "sd_file s = Some (path, txt)" and "mc_file m' path = Some txt" and "mc_env m' = mc_env m"
    and "rc_keys rc' = Inr []" and "boot m' rr' rc' = Proceed s'"
  shows "map fst (gw_auth (ap_gw (sd_app s'))) = map fst (gw_auth (ap_gw (sd_app s)))
    \<and> list_all (\<lambda>(k, i). gk_Role i = RoleAdmin \<and> Valid (gw_auth (ap_gw (sd_app s'))) k) (gw_auth (ap_gw (sd_app s'))) \<and> sd_file s' = None"
proof -
  let ?k = "''gw-'' @ hex_EncodeToString b"
  note first = first_boot_app [OF assms(1-3) refl]
  have f: "path = mc_env m ''GATEWAY_KEY_FILE''" "txt = ?k @ [CHR 0x0A]" using first(2) assms(4,5) by (simp_all add: bootstrap_file_def envOr_def)
  have none: "bootstrapKeys (auth_env m []) = []" using assms(2) by (simp add: autobootstraps_iff)
  have keys: "bootstrapKeys (auth_env m' []) = [?k]"
    using none assms(4,6,7) f split_written_key [of b]
    by (simp add: bootstrapKeys_def auth_env_def del: append_Cons append.simps split: if_splits)
  let ?st = "Some (mc_bool m', mc_now m', rr_keys rr')" and ?d = "LoadGatewayKeys (rc_keys rc') (rr_keys rr')"
  have l: "loaded_keys ?d ?st = []" using empty_scan assms(8) by blast
  have "start_manager m' ?d ?st = Proceed ([(?k, bootstrap_info (mc_now m') ?k)], saveGatewayKey (bootstrap_info (mc_now m') ?k) ?st, None)"
    by (simp add: start_manager_def autobootstraps_iff l keys NewManager_cases del: append_Cons append.simps) (simp add: auth_env_def)
  then have "gw_auth (ap_gw (sd_app s')) = [(?k, bootstrap_info (mc_now m') ?k)]" "sd_file s' = None"
    by (rule_tac [!] boot_Proceed [OF assms(9)]) simp_all
  then show ?thesis using first(1) by (simp add: Valid_def bootstrap_info_def)
qed

text \<open>
  A scan of the keys that fails is taken for a Redis without keys: although keys are stored, the gateway starts with a new
  administrator key only, and no stored key is accepted until the next restart.
\<close>

theorem load_failure_bootstraps:
  assumes "boot m rr rc = Proceed s" and "rc_keys rc = Inl e" and "bootstrapKeys (auth_env m []) = []"
    and "mc_env m ''GATEWAY_AUTH_DISABLE'' \<noteq> ''1''" and "mc_env m ''GATEWAY_NO_AUTOBOOTSTRAP'' \<noteq> ''1''"
  shows "\<exists>b. mc_rand m 32 = Inr b \<and> (\<forall>k. Valid (gw_auth (ap_gw (sd_app s))) k \<longleftrightarrow> k = ''gw-'' @ hex_EncodeToString b)"
proof -
  have a: "autobootstraps (auth_env m []) (LoadGatewayKeys (rc_keys rc) (rr_keys rr)) (Some (mc_bool m, mc_now m, rr_keys rr))"
    using assms(2-5) empty_scan [of rc] by (simp add: autobootstraps_iff) (simp add: auth_env_def)
  have "boot m rr rc \<noteq> Exit 1" using assms(1) by simp
  then have "\<not> isl (mc_rand m 32)" using boot_exits a by blast
  then obtain b where b: "mc_rand m 32 = Inr b" by (cases "mc_rand m 32") auto
  show ?thesis using first_boot_app(1) [OF assms(1) a b refl] b by (auto simp: Valid_def bootstrap_info_def)
qed

subsection \<open>Examples\<close>

definition ex_drivers :: store_drivers where
  "ex_drivers = \<lparr>dv_ping = None, dv_sqlite = \<lparr>sd_open = (\<lambda>_. None), sd_ping = None, sd_exec = (\<lambda>_. None)\<rparr>,
     dv_clickhouse = \<lparr>kd_bootstrap = None, kd_create = (\<lambda>_. None), kd_open = None, kd_ping = None, kd_exec = (\<lambda>_. None)\<rparr>, dv_quote = id\<rparr>"

definition ex_machine :: "string \<Rightarrow> (string \<Rightarrow> string option) \<Rightarrow> machine" where
  "ex_machine keyFile files =
     \<lparr>mc_env = (\<lambda>v. if v = ''GATEWAY_KEY_FILE'' then keyFile else []), mc_file = files, mc_rand = ex_rand, mc_now = 0, mc_drivers = ex_drivers,
      mc_bool = ex_codec, mc_time = (\<lambda>_. Some 3), mc_float = (\<lambda>_. Some 0), mc_scopes = (\<lambda>s. Some (ex_scopes [] s))\<rparr>"

definition ex_redis :: redis_rows where
  "ex_redis = \<lparr>rr_keys = Map.empty, rr_grok = Map.empty, rr_cb = Map.empty, rr_proxies = px_empty, rr_models = Map.empty, rr_aliases = Map.empty,
     rr_combos = \<lparr>cb_rows = Map.empty, cb_counters = (\<lambda>_. 0)\<rparr>, rr_tunnel = None\<rparr>"

definition ex_scan :: redis_scan where
  "ex_scan = \<lparr>rc_keys = Inr [], rc_grok = ([], None), rc_cb = ([], None), rc_proxies = ([], None), rc_enabled = None, rc_models = None,
     rc_aliases = None, rc_combos = None, rc_bad = (\<lambda>_. False)\<rparr>"

definition ex_key :: string where
  "ex_key = ''gw-'' @ hex_EncodeToString (replicate 32 0)"

lemma ex_store: "dv_ping ex_drivers = None" "\<not> isl (fst (open_backend (mc_env (ex_machine kf fs)) ex_drivers))"
  by (simp_all add: ex_drivers_def open_backend_def newSqliteStore_def newClickhouseStore_def Let_def ex_machine_def NewLogStore_def
      clickhouseDatabase_def envOr_def valid_db_name_def db_name_start_def split: log_backend.split)

lemma ex_rand_value: "mc_rand (ex_machine kf fs) 32 = Inr (replicate 32 0)" "mc_drivers (ex_machine kf fs) = ex_drivers"
  "mc_rand (ex_machine kf fs) = ex_rand" "mc_env (ex_machine kf fs) = (\<lambda>v. if v = ''GATEWAY_KEY_FILE'' then kf else [])"
  by (simp_all add: ex_machine_def ex_rand_def)

lemma ex_boots: "\<exists>s. boot (ex_machine kf fs) rr rc = Proceed s"
proof (cases "boot (ex_machine kf fs) rr rc")
  case (Exit n)
  then show ?thesis using boot_exits [of "ex_machine kf fs" rr rc n] ex_store by (simp add: ex_rand_value) (simp add: ex_rand_def)
qed simp

lemma ex_autobootstraps:
  "autobootstraps (auth_env (ex_machine kf (\<lambda>_. None)) []) (LoadGatewayKeys (rc_keys ex_scan) (rr_keys ex_redis)) st"
  using empty_scan [of ex_scan "rr_keys ex_redis" st]
  by (simp add: autobootstraps_iff bootstrapKeys_def ex_scan_def) (simp add: auth_env_def ex_rand_value ex_machine_def)


theorem key_file_recovers_witness:
  "\<exists>s s'. boot (ex_machine ''k.txt'' (\<lambda>_. None)) ex_redis ex_scan = Proceed s
     \<and> boot (ex_machine ''k.txt'' (\<lambda>f. if f = ''k.txt'' then Some (ex_key @ [CHR 0x0A]) else None)) ex_redis ex_scan = Proceed s'
     \<and> map fst (gw_auth (ap_gw (sd_app s'))) = map fst (gw_auth (ap_gw (sd_app s)))
     \<and> list_all (\<lambda>(k, i). gk_Role i = RoleAdmin \<and> Valid (gw_auth (ap_gw (sd_app s'))) k) (gw_auth (ap_gw (sd_app s'))) \<and> sd_file s' = None"
proof -
  let ?m' = "ex_machine ''k.txt'' (\<lambda>f. if f = ''k.txt'' then Some (ex_key @ [CHR 0x0A]) else None)"
  obtain s s' where s: "boot (ex_machine ''k.txt'' (\<lambda>_. None)) ex_redis ex_scan = Proceed s" "boot ?m' ex_redis ex_scan = Proceed s'"
    using ex_boots by blast
  have f: "sd_file s = Some (''k.txt'', ex_key @ [CHR 0x0A])"
    using first_boot_app(2) [OF s(1) ex_autobootstraps ex_rand_value(1) ex_key_def] by (simp add: bootstrap_file_def envOr_def ex_rand_value)
  have "map fst (gw_auth (ap_gw (sd_app s'))) = map fst (gw_auth (ap_gw (sd_app s)))
     \<and> list_all (\<lambda>(k, i). gk_Role i = RoleAdmin \<and> Valid (gw_auth (ap_gw (sd_app s'))) k) (gw_auth (ap_gw (sd_app s'))) \<and> sd_file s' = None"
    by (rule key_file_recovers [OF s(1) ex_autobootstraps ex_rand_value(1) _ f _ _ _ s(2)]) (simp_all add: ex_machine_def ex_scan_def)
  then show ?thesis using s by blast
qed

end
