(* ===== verification/Recovery.thy ===== *)
theory Recovery
  imports Boot
begin

text \<open>
  What a restart keeps. The history of a running gateway leaves rows in Redis; a start from these rows brings the
  components back. The stores of accounts and of CodeBuddy keys share one contract: saving an entry
  writes the row of its own key and no other.
\<close>

subsection \<open>Rows written one by one\<close>

locale saved_rows =
  fixes key :: "'a \<Rightarrow> string" and save :: "'a \<Rightarrow> key_rows \<Rightarrow> key_rows"
  assumes own: "save x st (key x) \<noteq> None"
    and other: "k \<noteq> key x \<Longrightarrow> save x st k = st k"
begin

lemma save_dom: "dom (save x st) = insert (key x) (dom st)"
proof (rule set_eqI)
  fix k show "k \<in> dom (save x st) \<longleftrightarrow> k \<in> insert (key x) (dom st)"
    using own [of x st] other [of k x st] by (cases "k = key x") (auto simp: dom_def)
qed

lemma saves_dom: "dom (fold save xs st) = key ` set xs \<union> dom st"
  by (induction xs arbitrary: st) (auto simp: save_dom)

lemma saves_row: "distinct (map key xs) \<Longrightarrow> x \<in> set xs \<Longrightarrow> \<exists>st'. fold save xs st (key x) = save x st' (key x)"
proof (induction xs rule: rev_induct)
  case (snoc y xs)
  show ?case
  proof (cases "x = y")
    case False
    then have "x \<in> set xs" using snoc.prems by simp
    then have "key x \<in> key ` set xs" by (rule imageI)
    moreover have "key y \<notin> key ` set xs" using snoc.prems(1) by simp
    ultimately have "key x \<noteq> key y" by metis
    then show ?thesis using snoc \<open>x \<in> set xs\<close> by (simp add: other)
  qed auto
qed simp

text \<open>A load that reads each saved entry back, up to \<open>back\<close>, reads back exactly what was saved.\<close>

lemma load_saves:
  assumes "distinct (map key xs)" and "set ks = key ` set xs"
    and "\<And>x st h. x \<in> set xs \<Longrightarrow> save x st (key x) = Some h \<Longrightarrow> load (key x) h = Some (back x)"
  shows "set (List.map_filter (\<lambda>(k, r). load k r) (map (\<lambda>k. (k, row k (fold save xs Map.empty))) ks)) = back ` set xs"
proof -
  have "load (key x) (row (key x) (fold save xs Map.empty)) = Some (back x)" if x: "x \<in> set xs" for x
  proof -
    obtain st where st: "fold save xs Map.empty (key x) = save x st (key x)" using saves_row [OF assms(1) x] by blast
    obtain h where h: "save x st (key x) = Some h" using own by blast
    then show ?thesis using assms(3) [OF x h] st by (simp add: row_def)
  qed
  then show ?thesis using assms(2) by (force simp: List.map_filter_def comp_def image_iff)
qed

end

interpretation grok_rows: saved_rows ga_Email "\<lambda>a. SaveGrokAccount None eb (toDTO a)" for eb
  by unfold_locales (simp_all add: SaveGrokAccount_def toDTO_def)

interpretation cb_key_rows: saved_rows ck_Key "saveCBKey None eb ef now" for eb ef now
  by unfold_locales (simp_all add: saveCBKey_def SaveCBKey_def)

subsection \<open>Histories\<close>

text \<open>
  What happened before: the operations on keys, proxies and registries, and the accounts and CodeBuddy keys as they were last
  saved.
\<close>

record history =
  hy_keys :: "key_op list"
  hy_proxies :: "pool_event list"
  hy_registries :: "registry_event list"
  hy_accounts :: "GrokAccount list"
  hy_cb :: "CBKey list"
  hy_tunnel :: "json option option"

text \<open>How times, fractions and scopes are printed, and when the rows were written.\<close>

record writer =
  wr_float :: "rat \<Rightarrow> string"
  wr_scopes :: "string list \<Rightarrow> string"
  wr_time :: gotime

definition keys_before :: "machine \<Rightarrow> writer \<Rightarrow> history \<Rightarrow> Manager \<times> key_store" where
  "keys_before m wr h = fold key_apply (hy_keys h) ([], Some (mc_bool m, wr_time wr, Map.empty))"

definition proxies_before :: "machine \<Rightarrow> writer \<Rightarrow> history \<Rightarrow> ProxyPool \<times> px_db" where
  "proxies_before m wr h = fold (store_step (mc_bool m) (wr_scopes wr)) (hy_proxies h) (NewProxyPool, px_empty)"

definition registries_before :: "history \<Rightarrow> registry_world" where
  "registries_before h = fold registry_step (hy_registries h) registry_start"

definition left_in_redis :: "machine \<Rightarrow> writer \<Rightarrow> history \<Rightarrow> redis_rows" where
  "left_in_redis m wr h =
     \<lparr>rr_keys = (case snd (keys_before m wr h) of None \<Rightarrow> Map.empty | Some (_, _, rows) \<Rightarrow> rows),
      rr_grok = fold (\<lambda>a. SaveGrokAccount None (mc_bool m) (toDTO a)) (hy_accounts h) Map.empty,
      rr_cb = fold (saveCBKey None (mc_bool m) (wr_float wr) (wr_time wr)) (hy_cb h) Map.empty,
      rr_proxies = snd (proxies_before m wr h),
      rr_models = w_models (registries_before h), rr_aliases = w_aliases (registries_before h), rr_combos = w_combo_db (registries_before h),
      rr_tunnel = hy_tunnel h\<rparr>"

definition storable_account :: "machine \<Rightarrow> GrokAccount \<Rightarrow> bool" where
  "storable_account m a \<longleftrightarrow>
     ga_AccessToken a \<noteq> [] \<and> ga_RefreshToken a \<noteq> [] \<and> ga_Expired a \<noteq> [] \<and> mc_time m (ga_Expired a) = Some (ga_expiresAt a)
     \<and> int64_range (ga_ExpiresIn a) \<and> int64_range (unix (ga_disabledAt a)) \<and> (is_zero (ga_disabledAt a) \<or> 0 < unix (ga_disabledAt a))"

definition storable_key :: "machine \<Rightarrow> writer \<Rightarrow> CBKey \<Rightarrow> bool" where
  "storable_key m wr k \<longleftrightarrow>
     mc_float m (wr_float wr (ck_creditsUsed k)) = Some (ck_creditsUsed k) \<and> int64_range (ck_totalReqs k) \<and> int64_range (unix (ck_disabledAt k))"

text \<open>Every write of the history reached Redis, no counter overflowed, and the printed forms can be read back.\<close>

definition sound_history :: "machine \<Rightarrow> writer \<Rightarrow> history \<Rightarrow> bool" where
  "sound_history m wr h \<longleftrightarrow>
     bool_codec (mc_bool m) \<and> scope_codec (wr_scopes wr) (mc_scopes m)
     \<and> run_ok (hy_keys h) ([], Some (mc_bool m, wr_time wr, Map.empty)) \<and> fst (keys_before m wr h) \<noteq> []
     \<and> all_persisted (hy_proxies h) NewProxyPool
     \<and> list_all (\<lambda>e. int64_range (pe_Port e) \<and> int64_range (pe_FailCount e)) (pp_entries (fst (proxies_before m wr h)))
     \<and> distinct (map ga_Email (hy_accounts h)) \<and> list_all (storable_account m) (hy_accounts h)
     \<and> distinct (map ck_Key (hy_cb h)) \<and> list_all (storable_key m wr) (hy_cb h) \<and> hy_cb h \<noteq> []"

text \<open>The scans answer without error, in any order, what is there.\<close>

definition full_scan :: "redis_rows \<Rightarrow> redis_scan \<Rightarrow> bool" where
  "full_scan rr rc \<longleftrightarrow>
     (\<exists>ks. rc_keys rc = Inr ks \<and> set ks = dom (rr_keys rr))
     \<and> set (fst (rc_grok rc)) = dom (rr_grok rr) \<and> snd (rc_grok rc) = None
     \<and> set (fst (rc_cb rc)) = dom (rr_cb rr) \<and> snd (rc_cb rc) = None
     \<and> set (fst (rc_proxies rc)) - {''enabled'', ''rr''} = dom (px_rows (rr_proxies rr)) \<and> snd (rc_proxies rc) = None
     \<and> rc_enabled rc = None \<and> rc_models rc = None \<and> rc_aliases rc = None \<and> rc_combos rc = None \<and> rc_bad rc = (\<lambda>_. False)"

definition reloaded_account :: "GrokAccount \<Rightarrow> GrokAccount" where
  "reloaded_account a = a\<lparr>ga_disabledAt := kept_time (ga_disabled a) (ga_disabledAt a)\<rparr>"

definition reloaded_key :: "CBKey \<Rightarrow> CBKey" where
  "reloaded_key k = k\<lparr>ck_disabledAt := kept_time (ck_disabled k) (ck_disabledAt k)\<rparr>"

subsection \<open>The components come back\<close>

lemma keys_back:
  assumes "sound_history m wr h" and "full_scan (left_in_redis m wr h) rc" and "boot m (left_in_redis m wr h) rc = Proceed s"
  shows "map_of (gw_auth (ap_gw (sd_app s))) k = map_option restarted (map_of (fst (keys_before m wr h)) k)" and "sd_file s = None"
proof -
  let ?rows = "rr_keys (left_in_redis m wr h)" and ?kb = "keys_before m wr h"
  have "mirror (mc_bool m) ([], Some (mc_bool m, wr_time wr, Map.empty))" by (simp add: mirror_def mirror_at_def)
  from mirror_run [OF this, of "hy_keys h"] have mi: "mirror (mc_bool m) ?kb" using assms(1) by (simp add: sound_history_def keys_before_def)
  then obtain t where "snd ?kb = Some (mc_bool m, t, ?rows)" by (auto simp: mirror_def left_in_redis_def)
  then have mir: "mirror (mc_bool m) (fst ?kb, Some (mc_bool m, t, ?rows))" using mi by (cases ?kb) auto
  obtain ks where ks: "rc_keys rc = Inr ks" "set ks = dom ?rows" using assms(2) by (auto simp: full_scan_def)
  have ne: "bool_codec (mc_bool m)" "fst ?kb \<noteq> []" using assms(1) by (simp_all add: sound_history_def)
  let ?d = "LoadGatewayKeys (Inr ks) ?rows" and ?st = "(mc_bool m, mc_now m, ?rows)"
  have again: "map_of am' j = map_option restarted (map_of (fst ?kb) j)" if "NewManager env ?d (Some ?st) = (am', st')" for env am' st' j
    using mirror_restart [OF mir ne ks(2) that] by blast
  have "loaded_keys ?d (Some ?st) \<noteq> []"
  proof
    assume l: "loaded_keys ?d (Some ?st) = []"
    define env where "env = (auth_env m [])\<lparr>GATEWAY_AUTH_DISABLE := ''1'', GATEWAY_API_KEYS := [], GATEWAY_KEY_FILE := [], gateway_key_txt := None\<rparr>"
    have "NewManager env ?d (Some ?st) = ([], Some ?st)" using l by (simp add: NewManager_cases env_def bootstrapKeys_def)
    from again [OF this, of "fst (hd (fst ?kb))"] ne(2) show False by (cases "fst ?kb") auto
  qed
  then have sm: "start_manager m ?d (Some ?st) = Proceed (loaded_keys ?d (Some ?st), Some ?st, None)"
    "NewManager (auth_env m []) ?d (Some ?st) = (loaded_keys ?d (Some ?st), Some ?st)"
    by (simp_all add: start_manager_def autobootstraps_iff NewManager_cases)
  show "map_of (gw_auth (ap_gw (sd_app s))) k = map_option restarted (map_of (fst ?kb) k)"
    by (rule boot_Proceed [OF assms(3)]) (use again [OF sm(2), of k] sm(1) ks(1) in simp)
  show "sd_file s = None"
    by (rule boot_Proceed [OF assms(3)]) (use sm(1) ks(1) in simp)
qed

lemma accounts_back:
  assumes "sound_history m wr h" and "full_scan (left_in_redis m wr h) rc"
  shows "fst (LoadGrok (mc_time m) (mc_now m) (Some (LoadGrokAccounts (rc_grok rc) (rc_bad rc \<circ> (@) RK_GROK_ACCOUNT) (rr_grok (left_in_redis m wr h)))) NewGrokAccountManager) = None"
    and "set (gm_accounts (us_grok (fst (load_pools m (left_in_redis m wr h) rc)))) = reloaded_account ` set (hy_accounts h)"
proof -
  obtain ks where ks: "rc_grok rc = (ks, None)" "set ks = ga_Email ` set (hy_accounts h)"
    using assms(2) grok_rows.saves_dom [of "mc_bool m" "hy_accounts h" Map.empty]
    by (cases "rc_grok rc") (auto simp: full_scan_def left_in_redis_def)
  have one: "load_account (mc_time m) (mc_now m) (ga_Email a) r = Some (reloaded_account a)"
    if "a \<in> set (hy_accounts h)" "SaveGrokAccount None (mc_bool m) (toDTO a) st (ga_Email a) = Some r" for a st r
    using that assms(1) grok_account_survives_restart [of "mc_bool m" a "mc_time m" st r "mc_now m"]
    by (simp add: sound_history_def storable_account_def list_all_iff reloaded_account_def)
  let ?l = "LoadGrok (mc_time m) (mc_now m) (Some (LoadGrokAccounts (rc_grok rc) (rc_bad rc \<circ> (@) RK_GROK_ACCOUNT) (rr_grok (left_in_redis m wr h)))) NewGrokAccountManager"
  have b: "rc_bad rc = (\<lambda>_. False)" using assms(2) by (simp add: full_scan_def)
  show "fst ?l = None" by (simp add: LoadGrok_def LoadGrokAccounts_def ks(1))
  have "set (gm_accounts (snd ?l)) = reloaded_account ` set (hy_accounts h)"
    using grok_rows.load_saves [of "hy_accounts h" "remdups ks" "mc_bool m" "load_account (mc_time m) (mc_now m)" reloaded_account] one assms(1) ks
    by (simp add: LoadGrok_def LoadGrokAccounts_def b left_in_redis_def sound_history_def)
  then show "set (gm_accounts (us_grok (fst (load_pools m (left_in_redis m wr h) rc)))) = reloaded_account ` set (hy_accounts h)"
    by (simp add: load_pools_def split_beta Let_def)
qed

lemma cb_back:
  assumes "sound_history m wr h" and "full_scan (left_in_redis m wr h) rc"
  shows "fst (LoadCB (mc_float m) (cb_env m) (LoadCBKeys (rc_cb rc) (rc_bad rc \<circ> (@) RK_CB_KEY) (rr_cb (left_in_redis m wr h))) NewCBKeyManager) = None"
    and "set (km_keys (us_cb (fst (load_pools m (left_in_redis m wr h) rc)))) = reloaded_key ` set (hy_cb h)"
proof -
  obtain ks where ks: "rc_cb rc = (ks, None)" "set ks = ck_Key ` set (hy_cb h)"
    using assms(2) cb_key_rows.saves_dom [of "mc_bool m" "wr_float wr" "wr_time wr" "hy_cb h" Map.empty]
    by (cases "rc_cb rc") (auto simp: full_scan_def left_in_redis_def)
  have one: "Some (load_cb_key (mc_float m) (ck_Key k) r) = Some (reloaded_key k)"
    if "k \<in> set (hy_cb h)" "saveCBKey None (mc_bool m) (wr_float wr) (wr_time wr) k st (ck_Key k) = Some r" for k st r
    using that assms(1) cb_key_survives_restart [of "mc_bool m" "mc_float m" "wr_float wr" k "wr_time wr" st r]
    by (simp add: sound_history_def storable_key_def list_all_iff reloaded_key_def)
  let ?rows = "rr_cb (left_in_redis m wr h)"
  let ?l = "LoadCB (mc_float m) (cb_env m) (LoadCBKeys (rc_cb rc) (rc_bad rc \<circ> (@) RK_CB_KEY) ?rows) NewCBKeyManager"
  have b: "rc_bad rc = (\<lambda>_. False)" using assms(2) by (simp add: full_scan_def)
  have "ks \<noteq> []" using ks(2) assms(1) by (auto simp: sound_history_def)
  then have l: "?l = (None, NewCBKeyManager\<lparr>km_keys := map (\<lambda>k. load_cb_key (mc_float m) k (row k ?rows)) (remdups ks)\<rparr>)"
    by (simp add: LoadCB_def LoadCBKeys_def ks(1) b NewCBKeyManager_def comp_def)
  then show "fst ?l = None" by simp
  have "set (List.map_filter (\<lambda>(k, r). Some (load_cb_key (mc_float m) k r)) (map (\<lambda>k. (k, row k ?rows)) (remdups ks))) = reloaded_key ` set (hy_cb h)"
    using cb_key_rows.load_saves [of "hy_cb h" "remdups ks" "mc_bool m" "wr_float wr" "wr_time wr" "\<lambda>k r. Some (load_cb_key (mc_float m) k r)" reloaded_key]
      one assms(1) ks by (simp add: left_in_redis_def sound_history_def)
  then have "set (km_keys (snd ?l)) = reloaded_key ` set (hy_cb h)"
    unfolding l by (simp add: List.map_filter_def comp_def image_image)
  then show "set (km_keys (us_cb (fst (load_pools m (left_in_redis m wr h) rc)))) = reloaded_key ` set (hy_cb h)"
    by (simp add: load_pools_def split_beta Let_def)
qed

lemma proxies_back:
  assumes "sound_history m wr h" and "full_scan (left_in_redis m wr h) rc"
  shows "fst (Load (Some (LoadProxies (mc_scopes m) (rc_enabled rc) (rc_bad rc \<circ> (@) RK_PROXY) (rc_proxies rc) (rr_proxies (left_in_redis m wr h)))) NewProxyPool) = None"
    and "core ` set (pp_entries (us_proxy (fst (load_pools m (left_in_redis m wr h) rc)))) = core ` set (pp_entries (fst (proxies_before m wr h)))"
proof -
  let ?pb = "proxies_before m wr h"
  obtain ks where ks: "rc_proxies rc = (ks, None)" "set ks - {''enabled'', ''rr''} = dom (px_rows (snd ?pb))"
    using assms(2) by (cases "rc_proxies rc") (auto simp: full_scan_def left_in_redis_def)
  have r: "rc_enabled rc = None" "rc_bad rc = (\<lambda>_. False)" "rr_proxies (left_in_redis m wr h) = snd ?pb"
    using assms(2) by (simp_all add: full_scan_def left_in_redis_def)
  have "all_persisted (hy_proxies h) NewProxyPool" using assms(1) by (simp add: sound_history_def)
  from run_synced [OF px_empty_synced this, of "wr_scopes wr" "mc_bool m"] have "synced (wr_scopes wr) (fst ?pb, snd ?pb)"
    unfolding proxies_before_def prod.collapse by blast
  from synced_load [OF _ this ks(2), of "mc_scopes m"] obtain q where
    "Load (Some (LoadProxies (mc_scopes m) None (\<lambda>_. False) (ks, None) (snd ?pb))) NewProxyPool = (None, q)"
    "core ` set (pp_entries q) = core ` set (pp_entries (fst ?pb))"
    using assms(1) unfolding sound_history_def by blast
  then show "fst (Load (Some (LoadProxies (mc_scopes m) (rc_enabled rc) (rc_bad rc \<circ> (@) RK_PROXY) (rc_proxies rc) (rr_proxies (left_in_redis m wr h)))) NewProxyPool) = None"
    "core ` set (pp_entries (us_proxy (fst (load_pools m (left_in_redis m wr h) rc)))) = core ` set (pp_entries (fst ?pb))"
    by (simp_all add: load_pools_def split_beta Let_def r ks(1) comp_def)
qed

lemma registries_back:
  assumes "full_scan (left_in_redis m wr h) rc"
  shows "fst (fst (load_registries (left_in_redis m wr h) rc)) = w_custom (registries_before h)"
    and "combos (snd (fst (load_registries (left_in_redis m wr h) rc))) = combos (w_combos (registries_before h))"
    and "snd (load_registries (left_in_redis m wr h) rc) = []"
  using registries_survive_restart [OF registries_before_def, of h] assms
  by (simp_all add: load_registries_def split_beta Let_def left_in_redis_def full_scan_def warned_def LoadCombos_def LoadComboRows_def)


subsection \<open>Example\<close>

definition ex_writer :: writer where
  "ex_writer = \<lparr>wr_float = (\<lambda>_. ''0''), wr_scopes = ex_scope_enc, wr_time = 0\<rparr>"

definition ex_history :: history where
  "ex_history = \<lparr>hy_keys = [KAdd 0 ''gw-1'' ''bootstrap'' ''admin'' None 0 0 0], hy_proxies = ex_events,
     hy_registries = [RAddAlias ''fast'' ''grok-3''], hy_accounts = [ex_banned], hy_cb = [new_cb_key ''ck_1''], hy_tunnel = None\<rparr>"

definition ex_full_scan :: redis_scan where
  "ex_full_scan = ex_scan\<lparr>rc_keys := Inr [''gw-1''], rc_grok := ([''a''], None), rc_cb := ([''ck_1''], None), rc_proxies := ([''enabled'', ''p1''], None)\<rparr>"

abbreviation ex_node :: machine where
  "ex_node \<equiv> ex_machine [] (\<lambda>_. None)"

lemma ex_keys_before: "keys_before ex_node ex_writer ex_history = ([(''gw-1'', ex_info ''gw-1'' ''admin'')], Some (ex_codec, 0, ex_rows))"
  by (simp add: keys_before_def ex_history_def ex_writer_def ex_machine_def AddWithRole_def Let_def ex_info_def bootstrap_info_def ex_rows_def
      saveGatewayKey_def on_rows_def)

lemma ex_proxies_before: "proxies_before ex_node ex_writer ex_history = ex_world"
  by (simp add: proxies_before_def ex_history_def ex_writer_def ex_machine_def ex_world_def)

lemma ex_sound: "sound_history ex_node ex_writer ex_history"
proof -
  have "run_ok (hy_keys ex_history) ([], Some (ex_codec, 0, Map.empty))" by (simp add: ex_history_def int64_range_def unix_def)
  moreover have "list_all (storable_account ex_node) (hy_accounts ex_history)"
    by (simp add: ex_history_def storable_account_def ex_banned_def ex_account_def ex_machine_def int64_range_def unix_def zero_time_def is_zero_def second_def)
  moreover have "list_all (storable_key ex_node ex_writer) (hy_cb ex_history)"
    by (simp add: ex_history_def storable_key_def ex_machine_def ex_writer_def new_cb_key_def int64_range_def unix_def zero_time_def second_def)
  moreover have "list_all (\<lambda>e. int64_range (pe_Port e) \<and> int64_range (pe_FailCount e)) (pp_entries (fst ex_world))"
    by (simp add: ex_world_pool ex_disabled_def ex_entry_def int64_range_def)
  moreover have "bool_codec ex_codec" by (simp add: bool_codec_def ex_codec_def)
  ultimately show ?thesis
    using ex_scope_codec ex_events_persisted
    by (simp add: sound_history_def ex_keys_before ex_proxies_before) (simp add: ex_history_def ex_machine_def ex_writer_def)
qed

lemma ex_scanned: "full_scan (left_in_redis ex_node ex_writer ex_history) ex_full_scan"
proof -
  have "dom ex_rows = {''gw-1''}" by (simp add: ex_rows_def SaveGatewayKey_def gatewayKeyDTOFromInfo_def ex_info_def bootstrap_info_def)
  moreover have "rr_keys (left_in_redis ex_node ex_writer ex_history) = ex_rows" by (simp add: left_in_redis_def ex_keys_before)
  moreover have "dom (rr_grok (left_in_redis ex_node ex_writer ex_history)) = {''a''}" "dom (rr_cb (left_in_redis ex_node ex_writer ex_history)) = {''ck_1''}"
    using grok_rows.saves_dom [of ex_codec "hy_accounts ex_history" Map.empty] cb_key_rows.saves_dom [of ex_codec "wr_float ex_writer" 0 "hy_cb ex_history" Map.empty]
    by (simp_all add: left_in_redis_def ex_history_def ex_machine_def ex_writer_def ex_banned_def ex_account_def new_cb_key_def)
  moreover have "dom (px_rows (rr_proxies (left_in_redis ex_node ex_writer ex_history))) = {''p1''}"
    by (simp add: left_in_redis_def ex_proxies_before ex_world_rows)
  ultimately show ?thesis
    by (simp add: full_scan_def ex_full_scan_def ex_scan_def)
qed


end
