(* ===== verification/Teardown.thy ===== *)
theory Teardown
  imports Boot
begin

text \<open>
  The end of the process: the signal handler of \<^verbatim>\<open>main.go\<close> drains the HTTP server, stops the tunnel and closes the store. The
  three consumers of the log pipeline work on one SQLite database; they are run interleaved on it here.
\<close>

subsection \<open>The consumers on one database\<close>

record log_side =
  lg_db :: sq_db
  lg_requests :: "(FullLog, sq_db) pipeline"
  lg_refreshes :: "(RefreshLog, sq_db) pipeline"
  lg_events :: "(AccountEvent, sq_db) pipeline"

datatype log_event =
    OnRequest "(FullLog, sq_env) pl_event" | OnRefresh "(RefreshLog, sq_env) pl_event" | OnEvent "(AccountEvent, sq_env) pl_event"

definition new_logs :: "sq_db \<Rightarrow> log_side" where
  "new_logs db = \<lparr>lg_db = db, lg_requests = new_pipeline db, lg_refreshes = new_pipeline db, lg_events = new_pipeline db\<rparr>"

fun log_step :: "(fields \<Rightarrow> string) \<Rightarrow> log_event \<Rightarrow> log_side \<Rightarrow> log_side" where
  "log_step marshal (OnRequest ev) lg =
     (let q = consumer_step sq_InsertRequestBatch 200 ev ((lg_requests lg)\<lparr>pl_db := lg_db lg\<rparr>)
      in lg\<lparr>lg_requests := q, lg_db := pl_db q\<rparr>)"
| "log_step marshal (OnRefresh ev) lg =
     (let q = consumer_step sq_InsertRefreshBatch 50 ev ((lg_refreshes lg)\<lparr>pl_db := lg_db lg\<rparr>)
      in lg\<lparr>lg_refreshes := q, lg_db := pl_db q\<rparr>)"
| "log_step marshal (OnEvent ev) lg =
     (let q = consumer_step (sq_InsertEventBatch marshal) 50 ev ((lg_events lg)\<lparr>pl_db := lg_db lg\<rparr>)
      in lg\<lparr>lg_events := q, lg_db := pl_db q\<rparr>)"

subsection \<open>The end of the process\<close>

record gateway_process =
  pc_app :: app
  pc_store :: Store
  pc_logs :: log_side

text \<open>
  The deferred \<^verbatim>\<open>Close\<close> ends the consumers, each of which flushes its batch; \<open>None\<close> is the panic of closing twice.
\<close>

definition shutdown ::
  "(fields \<Rightarrow> string) \<Rightarrow> sq_env \<times> sq_env \<times> sq_env \<Rightarrow> gateway_process \<Rightarrow> gateway_process option" where
  "shutdown marshal envs pc =
     (case Close (pc_store pc) of
        None \<Rightarrow> None
      | Some st \<Rightarrow>
          (case envs of (e1, e2, e3) \<Rightarrow>
             Some \<lparr>pc_app = (pc_app pc)\<lparr>ap_tunnel := Shutdown (ap_tunnel (pc_app pc))\<rparr>, pc_store = st,
                   pc_logs = fold (log_step marshal) [OnRequest (Done e1), OnRefresh (Done e2), OnEvent (Done e3)] (pc_logs pc)\<rparr>))"

subsection \<open>Nothing accepted is lost but what is still queued\<close>

lemma consumer_frame:
  assumes "\<And>env b db. g (snd (ins env b db)) = g db"
  shows "g (pl_db (consumer_step ins n ev p)) = g (pl_db p)"
  using assms by (cases ev) (auto simp: consumer_step_def enqueue_def flush_batch_def Let_def split: list.split)

lemma tx_frame: "(\<And>db. g (f db) = g db) \<Longrightarrow> g (snd (sq_tx env b f db)) = g db"
  by (simp add: sq_tx_def split: option.split)

lemma insert_frames:
  "sq_refresh (snd (sq_InsertRequestBatch env b db)) = sq_refresh db" "sq_events (snd (sq_InsertRequestBatch env b db)) = sq_events db"
  "sq_requests (snd (sq_InsertRefreshBatch env r db)) = sq_requests db" "sq_events (snd (sq_InsertRefreshBatch env r db)) = sq_events db"
  "sq_requests (snd (sq_InsertEventBatch marshal env e db)) = sq_requests db" "sq_refresh (snd (sq_InsertEventBatch marshal env e db)) = sq_refresh db"
  by (simp_all add: sq_InsertRequestBatch_def sq_InsertRefreshBatch_def sq_InsertEventBatch_def tx_frame Let_def)

lemmas step_frames =
  consumer_frame [of sq_refresh sq_InsertRequestBatch, OF insert_frames(1)] consumer_frame [of sq_events sq_InsertRequestBatch, OF insert_frames(2)]
  consumer_frame [of sq_requests sq_InsertRefreshBatch, OF insert_frames(3)] consumer_frame [of sq_events sq_InsertRefreshBatch, OF insert_frames(4)]
  consumer_frame [of sq_requests "sq_InsertEventBatch marshal" for marshal, OF insert_frames(5)]
  consumer_frame [of sq_refresh "sq_InsertEventBatch marshal" for marshal, OF insert_frames(6)]

text \<open>Each consumer keeps its books on the shared database.\<close>

definition books :: "(fields \<Rightarrow> string) \<Rightarrow> sq_db \<Rightarrow> log_side \<Rightarrow> bool" where
  "books marshal db0 lg \<longleftrightarrow>
     sq_request.in_flight (map snd (sq_requests db0)) ((lg_requests lg)\<lparr>pl_db := lg_db lg\<rparr>)
     \<and> sq_refreshes.in_flight (sq_refresh db0) ((lg_refreshes lg)\<lparr>pl_db := lg_db lg\<rparr>)
     \<and> sq_event.in_flight marshal (sq_events db0) ((lg_events lg)\<lparr>pl_db := lg_db lg\<rparr>)"

fun log_ok :: "log_event \<Rightarrow> bool" where
  "log_ok (OnRequest ev) \<longleftrightarrow> envs_ok sq_works ev \<and> list_all request_timed (logged [ev])"
| "log_ok (OnRefresh ev) \<longleftrightarrow> envs_ok sq_works ev \<and> list_all refresh_timed (logged [ev])"
| "log_ok (OnEvent ev) \<longleftrightarrow> envs_ok sq_works ev \<and> list_all event_timed (logged [ev])"

lemma in_flight_db:
  "sq_requests db = sq_requests (pl_db p) \<Longrightarrow> sq_request.in_flight base (p\<lparr>pl_db := db\<rparr>) = sq_request.in_flight base p"
  "sq_refresh db = sq_refresh (pl_db q) \<Longrightarrow> sq_refreshes.in_flight base' (q\<lparr>pl_db := db\<rparr>) = sq_refreshes.in_flight base' q"
  "sq_events db = sq_events (pl_db r) \<Longrightarrow> sq_event.in_flight marshal base'' (r\<lparr>pl_db := db\<rparr>) = sq_event.in_flight marshal base'' r"
  by (simp_all add: sq_request.in_flight_def sq_refreshes.in_flight_def sq_event.in_flight_def)

lemma books_cong:
  assumes "sq_requests db = sq_requests (lg_db lg)"
  shows "sq_request.in_flight base ((lg_requests lg)\<lparr>pl_db := db\<rparr>) = sq_request.in_flight base ((lg_requests lg)\<lparr>pl_db := lg_db lg\<rparr>)"
  using in_flight_db(1) [of db "(lg_requests lg)\<lparr>pl_db := lg_db lg\<rparr>" base] assms by simp

lemma books_cong':
  assumes "sq_refresh db = sq_refresh (lg_db lg)"
  shows "sq_refreshes.in_flight base ((lg_refreshes lg)\<lparr>pl_db := db\<rparr>) = sq_refreshes.in_flight base ((lg_refreshes lg)\<lparr>pl_db := lg_db lg\<rparr>)"
  using in_flight_db(2) [of db "(lg_refreshes lg)\<lparr>pl_db := lg_db lg\<rparr>" base] assms by simp

lemma books_cong'':
  assumes "sq_events db = sq_events (lg_db lg)"
  shows "sq_event.in_flight marshal base ((lg_events lg)\<lparr>pl_db := db\<rparr>) = sq_event.in_flight marshal base ((lg_events lg)\<lparr>pl_db := lg_db lg\<rparr>)"
  using in_flight_db(3) [of db "(lg_events lg)\<lparr>pl_db := lg_db lg\<rparr>" marshal base] assms by simp

lemma books_step:
  assumes "books marshal db0 lg" and "log_ok ev"
  shows "books marshal db0 (log_step marshal ev lg)"
proof (cases ev)
  case (OnRequest x)
  let ?p = "(lg_requests lg)\<lparr>pl_db := lg_db lg\<rparr>"
  have "sq_request.in_flight (map snd (sq_requests db0)) (consumer_step sq_InsertRequestBatch 200 x ?p)"
    using sq_request.step_in_flight [of _ ?p x 200] assms OnRequest by (simp add: books_def)
  moreover have "sq_refresh (pl_db (consumer_step sq_InsertRequestBatch 200 x ?p)) = sq_refresh (lg_db lg)" "sq_events (pl_db (consumer_step sq_InsertRequestBatch 200 x ?p)) = sq_events (lg_db lg)"
    using step_frames(1,2) [of 200 x ?p] by simp_all
  ultimately show ?thesis
    using assms(1) OnRequest books_cong' [of "pl_db (consumer_step sq_InsertRequestBatch 200 x ?p)" lg] books_cong'' [of "pl_db (consumer_step sq_InsertRequestBatch 200 x ?p)" lg]
    by (simp add: books_def Let_def)
next
  case (OnRefresh x)
  let ?p = "(lg_refreshes lg)\<lparr>pl_db := lg_db lg\<rparr>"
  have "sq_refreshes.in_flight (sq_refresh db0) (consumer_step sq_InsertRefreshBatch 50 x ?p)"
    using sq_refreshes.step_in_flight [of _ ?p x 50] assms OnRefresh by (simp add: books_def)
  moreover have "sq_requests (pl_db (consumer_step sq_InsertRefreshBatch 50 x ?p)) = sq_requests (lg_db lg)" "sq_events (pl_db (consumer_step sq_InsertRefreshBatch 50 x ?p)) = sq_events (lg_db lg)"
    using step_frames(3,4) [of 50 x ?p] by simp_all
  ultimately show ?thesis
    using assms(1) OnRefresh books_cong [of "pl_db (consumer_step sq_InsertRefreshBatch 50 x ?p)" lg] books_cong'' [of "pl_db (consumer_step sq_InsertRefreshBatch 50 x ?p)" lg]
    by (simp add: books_def Let_def)
next
  case (OnEvent x)
  let ?p = "(lg_events lg)\<lparr>pl_db := lg_db lg\<rparr>"
  have "sq_event.in_flight marshal (sq_events db0) (consumer_step (sq_InsertEventBatch marshal) 50 x ?p)"
    using sq_event.step_in_flight [of marshal _ ?p x 50] assms OnEvent by (simp add: books_def)
  moreover have "sq_requests (pl_db (consumer_step (sq_InsertEventBatch marshal) 50 x ?p)) = sq_requests (lg_db lg)" "sq_refresh (pl_db (consumer_step (sq_InsertEventBatch marshal) 50 x ?p)) = sq_refresh (lg_db lg)"
    using step_frames(5,6) [of marshal 50 x ?p] by simp_all
  ultimately show ?thesis
    using assms(1) OnEvent books_cong [of "pl_db (consumer_step (sq_InsertEventBatch marshal) 50 x ?p)" lg] books_cong' [of "pl_db (consumer_step (sq_InsertEventBatch marshal) 50 x ?p)" lg]
    by (simp add: books_def Let_def)
qed

lemma books_run: "books marshal db0 lg \<Longrightarrow> list_all log_ok evs \<Longrightarrow> books marshal db0 (fold (log_step marshal) evs lg)"
  by (induction evs arbitrary: lg) (simp_all add: books_step)

lemma books_new: "books marshal db (new_logs db)"
  by (simp add: books_def new_logs_def new_pipeline_def sq_request.in_flight_def sq_refreshes.in_flight_def sq_event.in_flight_def)

text \<open>No consumer was stopped.\<close>

fun running :: "log_event \<Rightarrow> bool" where
  "running (OnRequest ev) = (case ev of Done _ \<Rightarrow> False | _ \<Rightarrow> True)"
| "running (OnRefresh ev) = (case ev of Done _ \<Rightarrow> False | _ \<Rightarrow> True)"
| "running (OnEvent ev) = (case ev of Done _ \<Rightarrow> False | _ \<Rightarrow> True)"

definition awake :: "log_side \<Rightarrow> bool" where
  "awake lg \<longleftrightarrow> \<not> pl_stopped (lg_requests lg) \<and> \<not> pl_stopped (lg_refreshes lg) \<and> \<not> pl_stopped (lg_events lg)"

lemma consumer_awake: "(case ev of Done _ \<Rightarrow> False | _ \<Rightarrow> True) \<Longrightarrow> pl_stopped (consumer_step ins n ev p) = pl_stopped p"
  by (cases ev) (auto simp: consumer_step_def enqueue_def Let_def split: list.split)

lemma awake_run: "awake lg \<Longrightarrow> list_all running evs \<Longrightarrow> awake (fold (log_step marshal) evs lg)"
proof (induction evs arbitrary: lg)
  case (Cons ev evs)
  have "awake (log_step marshal ev lg)" using Cons.prems by (cases ev) (simp_all add: awake_def Let_def consumer_awake)
  then show ?case using Cons by simp
qed simp

lemma consumer_done:
  assumes "\<not> pl_stopped p"
  shows "pl_batch (consumer_step ins n (Done env) p) = []" "pl_chan (consumer_step ins n (Done env) p) = pl_chan p"
    "pl_accepted (consumer_step ins n (Done env) p) = pl_accepted p"
  using assms by (simp_all add: consumer_step_def)

lemma done_books:
  assumes "books marshal db0 lg" and "awake lg" and "sq_works e1" and "sq_works e2" and "sq_works e3"
    and lg': "lg' = fold (log_step marshal) [OnRequest (Done e1), OnRefresh (Done e2), OnEvent (Done e3)] lg"
  shows "map snd (sq_requests (lg_db lg')) @ map (sq_row 0) (pl_chan (lg_requests lg)) = map snd (sq_requests db0) @ map (sq_row 0) (pl_accepted (lg_requests lg))"
    and "sq_refresh (lg_db lg') @ map (sq_refresh_row 0) (pl_chan (lg_refreshes lg)) = sq_refresh db0 @ map (sq_refresh_row 0) (pl_accepted (lg_refreshes lg))"
    and "sq_events (lg_db lg') @ map (sq_event_row marshal 0) (pl_chan (lg_events lg)) = sq_events db0 @ map (sq_event_row marshal 0) (pl_accepted (lg_events lg))"
proof -
  have b: "books marshal db0 lg'" unfolding lg' using assms(1,3-5) by (intro books_run) simp_all
  have "pl_batch (lg_requests lg') = []" "pl_chan (lg_requests lg') = pl_chan (lg_requests lg)" "pl_accepted (lg_requests lg') = pl_accepted (lg_requests lg)"
    "pl_batch (lg_refreshes lg') = []" "pl_chan (lg_refreshes lg') = pl_chan (lg_refreshes lg)" "pl_accepted (lg_refreshes lg') = pl_accepted (lg_refreshes lg)"
    "pl_batch (lg_events lg') = []" "pl_chan (lg_events lg') = pl_chan (lg_events lg)" "pl_accepted (lg_events lg') = pl_accepted (lg_events lg)"
    using assms(2) by (simp_all add: lg' Let_def awake_def consumer_done)
  then show "map snd (sq_requests (lg_db lg')) @ map (sq_row 0) (pl_chan (lg_requests lg)) = map snd (sq_requests db0) @ map (sq_row 0) (pl_accepted (lg_requests lg))"
    "sq_refresh (lg_db lg') @ map (sq_refresh_row 0) (pl_chan (lg_refreshes lg)) = sq_refresh db0 @ map (sq_refresh_row 0) (pl_accepted (lg_refreshes lg))"
    "sq_events (lg_db lg') @ map (sq_event_row marshal 0) (pl_chan (lg_events lg)) = sq_events db0 @ map (sq_event_row marshal 0) (pl_accepted (lg_events lg))"
    using b by (simp_all add: books_def sq_request.in_flight_def sq_refreshes.in_flight_def sq_event.in_flight_def)
qed


definition ex_logs :: log_side where
  "ex_logs = fold (log_step (\<lambda>_. [])) [OnRequest (Log ex_log), OnRequest (Log ex_log), OnRequest (Receive ex_sq), OnEvent (Tick ex_sq)] (new_logs sq_empty)"

lemma ex_logs_state: "pl_chan (lg_requests ex_logs) = [ex_log]" "pl_accepted (lg_requests ex_logs) = [ex_log, ex_log]"
  by (simp_all add: ex_logs_def Let_def new_logs_def consumer_step_def enqueue_def new_pipeline_def LOG_BUFFER_SIZE_def)


end
