(* ===== verification/Typing.thy ===== *)
theory Typing
  imports Boot
begin

text \<open>
  The type invariant of the whole program: what kind of value each part of the state holds. Gateway keys
  are filed under themselves, with their mask and one of the two roles; session tokens and proxy identifiers have the form in which they
  are generated; no two accounts share an address and no CodeBuddy key is empty; the registries hold normalised entries only; the tunnel
  manager's books are in order. A start on an empty store establishes it, and every request, an administrator's too,
  and every step of a worker preserves it.
\<close>

subsection \<open>Well-typed states\<close>

definition key_typed :: "string \<Rightarrow> GatewayKeyInfo \<Rightarrow> bool" where
  "key_typed k i \<longleftrightarrow> k \<noteq> [] \<and> gk_Key i = k \<and> gk_KeyMasked i = MaskKey k \<and> gk_Role i \<in> {RoleAdmin, RoleInference}"

definition keys_typed :: "Manager \<Rightarrow> bool" where
  "keys_typed am \<longleftrightarrow> distinct (map fst am) \<and> list_all (\<lambda>(k, i). key_typed k i) am"

definition sessions_typed :: "SessionStore \<Rightarrow> bool" where
  "sessions_typed ss \<longleftrightarrow> dom ss \<subseteq> {t. hex_string 64 t}"

definition proxies_typed :: "ProxyPool \<Rightarrow> bool" where
  "proxies_typed p \<longleftrightarrow> list_all (\<lambda>e. hex_string 8 (pe_ID e)) (pp_entries p)"

definition accounts_typed :: "GrokAccountManager \<Rightarrow> bool" where
  "accounts_typed am \<longleftrightarrow> distinct (map ga_Email (gm_accounts am))"

definition cb_typed :: "CBKeyManager \<Rightarrow> bool" where
  "cb_typed km \<longleftrightarrow> list_all (\<lambda>k. ck_Key k \<noteq> []) (km_keys km)"

definition custom_typed :: "CustomRegistry \<Rightarrow> bool" where
  "custom_typed r \<longleftrightarrow> mr.all_wf r \<and> ar.all_wf r"

definition gateway_typed :: "gateway \<Rightarrow> bool" where
  "gateway_typed g \<longleftrightarrow>
     keys_typed (gw_auth g) \<and> proxies_typed (us_proxy (gw_up g)) \<and> accounts_typed (us_grok (gw_up g)) \<and> cb_typed (us_cb (gw_up g))
     \<and> (case gw_custom g of None \<Rightarrow> True | Some r \<Rightarrow> custom_typed r) \<and> (case gw_combos g of None \<Rightarrow> True | Some r \<Rightarrow> co.all_wf r)"

definition app_typed :: "app \<Rightarrow> bool" where
  "app_typed a \<longleftrightarrow> gateway_typed (ap_gw a) \<and> sessions_typed (ap_sessions a) \<and> tn_inv (ap_tunnel a)"

subsection \<open>The types depend on the settings only\<close>

lemma keys_typed_settings:
  "keys_typed am \<longleftrightarrow> distinct (map fst (map (map_prod id key_settings) am))
     \<and> list_all (\<lambda>(k, s). k \<noteq> [] \<and> fst s = k \<and> fst (snd s) = MaskKey k \<and> fst (snd (snd (snd s))) \<in> {RoleAdmin, RoleInference}) (map (map_prod id key_settings) am)"
  by (simp add: keys_typed_def key_typed_def key_settings_def list_all_length split_beta comp_def)

lemma gateway_typed_cong:
  assumes "gateway_settings g' = gateway_settings g"
  shows "gateway_typed g' = gateway_typed g"
proof -
  have keys: "keys_typed (gw_auth g') = keys_typed (gw_auth g)" unfolding keys_typed_settings using assms by (simp add: gateway_settings_def)
  have s: "map ga_Email (gm_accounts (us_grok (gw_up g'))) = map ga_Email (gm_accounts (us_grok (gw_up g)))"
    "map ck_Key (km_keys (us_cb (gw_up g'))) = map ck_Key (km_keys (us_cb (gw_up g)))"
    "map proxy_settings (pp_entries (us_proxy (gw_up g'))) = map proxy_settings (pp_entries (us_proxy (gw_up g)))"
    "gw_custom g' = gw_custom g" "map_option combos (gw_combos g') = map_option combos (gw_combos g)"
    using assms by (simp_all add: gateway_settings_def upstream_settings_def)
  have p: "proxies_typed p \<longleftrightarrow> list_all (\<lambda>s. hex_string 8 (fst s)) (map proxy_settings (pp_entries p))" for p
    by (simp add: proxies_typed_def proxy_settings_def list_all_length)
  have c: "cb_typed km \<longleftrightarrow> list_all (\<lambda>k. k \<noteq> []) (map ck_Key (km_keys km))" for km by (simp add: cb_typed_def list_all_length)
  have o: "(case r of None \<Rightarrow> True | Some r \<Rightarrow> co.all_wf r) \<longleftrightarrow> (case map_option combos r of None \<Rightarrow> True | Some m \<Rightarrow> \<forall>k v. m k = Some v \<longrightarrow> combo_wf k v)" for r
    by (simp add: co.all_wf_def split: option.split)
  show ?thesis unfolding gateway_typed_def keys p c o accounts_typed_def s ..
qed

subsection \<open>Keys\<close>

lemma keys_typed_put:
  assumes "keys_typed am" and "key_typed k i"
  shows "keys_typed (AList.update k i am)"
proof -
  have "list_all (\<lambda>(k, i). key_typed k i) xs \<Longrightarrow> list_all (\<lambda>(k, i). key_typed k i) (AList.update k i xs)" for xs
    using assms(2) by (induction xs) auto
  then show ?thesis using assms(1) distinct_update [of am k i] by (simp add: keys_typed_def)
qed

lemma keys_typed_delete: "keys_typed am \<Longrightarrow> keys_typed (AList.delete k am)"
  by (simp add: keys_typed_def AList.distinct_delete) (auto simp: AList.delete_eq list_all_iff)

lemma keys_typed_lookup: "keys_typed am \<Longrightarrow> map_of am k = Some i \<Longrightarrow> key_typed k i"
  by (auto simp: keys_typed_def list_all_iff dest!: map_of_SomeD)

lemma created_typed: "key \<noteq> [] \<Longrightarrow> keys_typed am \<Longrightarrow> keys_typed (fst (snd (HandleCreateKey fmt now key body am st)))"
  by (auto simp: HandleCreateKey_def AddWithRole_def Let_def key_typed_def RoleInference_def intro!: keys_typed_put split: option.split prod.split)

lemma deleted_typed: "keys_typed am \<Longrightarrow> keys_typed (fst (snd (HandleDeleteKey p am st)))"
  by (simp add: HandleDeleteKey_def RemoveKey_def keys_typed_delete split_beta Let_def split: option.split)

lemma updated_typed:
  assumes "keys_typed am"
  shows "keys_typed (fst (snd (HandleUpdateKey fmt p body am st)))"
proof -
  have "keys_typed (fst (snd (Auth.UpdateKey k nm role al rpm b q d am st)))" for k nm role al rpm b q d
    using assms keys_typed_lookup [OF assms, of k]
    by (auto simp: UpdateKey_def Let_def updated_info_def key_typed_def intro!: keys_typed_put split: option.split)
  then show ?thesis using assms by (simp add: HandleUpdateKey_def split_beta Let_def split: option.split)
qed

lemma bootstrap_typed: "list_all (\<lambda>k. k \<noteq> []) ks \<Longrightarrow> keys_typed am \<Longrightarrow> keys_typed (fst (add_bootstrap now ks (am, st)))"
proof (induction ks arbitrary: am st)
  case (Cons k ks)
  have "keys_typed (AList.update k (bootstrap_info now k) am)" using Cons.prems by (intro keys_typed_put) (simp_all add: key_typed_def bootstrap_info_def)
  then show ?case using Cons by simp
qed simp

subsection \<open>Sessions\<close>

lemma lookup_dom: "dom (snd (LookupSession now t ss)) \<subseteq> dom ss"
  by (auto simp: LookupSession_def split: option.splits if_splits)

lemma auth_dom: "dom (snd (AuthMiddleware d (Some (LookupSession now)) am rq ss)) \<subseteq> dom ss"
  using lookup_dom by (auto simp: AuthMiddleware_def extract_key_def Let_def split_beta split: option.splits if_splits)

lemma guards_sessions: "sv_sessions (snd (run_guards d now hq rq ck gs sv)) = sv_sessions sv"
  by (induction gs arbitrary: sv) (simp_all add: run_guard_def split_beta Let_def split: guard.split option.split)

lemma serve_dom: "dom (sv_sessions (snd (serve rt d now rand hq sv))) \<subseteq> dom (sv_sessions sv)"
proof -
  let ?rq = "AnthropicAuthMiddleware (hq_api_key hq) (hq_base hq)"
  have "sv_sessions (snd (route_request rt d now hq rq ck s)) = sv_sessions s" for rq ck s
    by (simp add: route_request_def split_beta guards_sessions split: option.split)
  then have "sv_sessions (snd (serve rt d now rand hq sv)) = snd (AuthMiddleware d (Some (LookupSession now)) (sv_keys sv) ?rq (sv_sessions sv))"
    by (simp add: serve_def pass_chain_def Let_def split_beta split: gate.split)
  then show ?thesis using auth_dom by metis
qed

lemma sessions_typed_subset: "dom s' \<subseteq> dom s \<Longrightarrow> sessions_typed s \<Longrightarrow> sessions_typed s'"
  by (auto simp: sessions_typed_def)

lemma login_typed:
  assumes "fills rand" and "sessions_typed ss"
  shows "sessions_typed (snd (HandleLogin (newSessionToken rand) now form am ss))"
proof -
  have "sessions_typed (snd (CreateSession (newSessionToken rand) now k ss))" for k
    using assms Generated_token [OF assms(1)] by (cases "newSessionToken rand") (auto simp: CreateSession_def sessions_typed_def)
  then show ?thesis using assms(2) by (auto simp: HandleLogin_def Let_def split: option.split prod.split sum.split)
    (metis snd_conv)+
qed

lemma logout_typed: "sessions_typed ss \<Longrightarrow> sessions_typed (HandleLogout ck ss)"
  by (erule sessions_typed_subset [rotated]) (auto simp: HandleLogout_def RevokeSession_def)

lemma health_typed: "sessions_typed ss \<Longrightarrow> sessions_typed (snd (health_authed d (Some (LookupSession now)) am rq ss))"
  by (erule sessions_typed_subset [rotated])
    (use lookup_dom in \<open>auto simp: health_authed_def split_beta Let_def split: option.splits if_splits\<close>)

lemma swept_typed: "sessions_typed ss \<Longrightarrow> sessions_typed (cleanup now ss)"
  by (erule sessions_typed_subset [rotated]) (auto simp: cleanup_def split: option.splits if_splits)

subsection \<open>Proxies\<close>

lemma proxies_typed_id: "proxies_typed p \<Longrightarrow> k < length (pp_entries p) \<Longrightarrow> hex_string 8 (pe_ID (pp_entries p ! k))"
  by (simp add: proxies_typed_def list_all_length)

lemma proxies_typed_upd: "proxies_typed p \<Longrightarrow> hex_string 8 (pe_ID e) \<Longrightarrow> list_all (\<lambda>e. hex_string 8 (pe_ID e)) ((pp_entries p)[k := e])"
  by (auto simp: proxies_typed_def list_all_iff dest: set_update_memI set_update_subset_insert [THEN subsetD])

lemma rebuild_entries: "pp_entries (rebuildEnabledLocked p) = pp_entries p"
  by (simp add: rebuildEnabledLocked_def)

lemma Add_typed: "fills rand \<Longrightarrow> proxies_typed p \<Longrightarrow> proxies_typed (fst (snd (Add db (newProxyID rand) now e p)))"
  using Generated_proxy_id [of rand]
  by (auto simp: Add_def proxies_typed_def rebuild_entries Let_def split: sum.split option.split)

lemma Update_typed: "proxies_typed p \<Longrightarrow> proxies_typed (fst (snd (Update db pid inp p)))"
proof -
  assume p: "proxies_typed p"
  have "pe_ID v = pe_ID (pp_entries p ! i)" if "validateEntry (merge_update inp (pp_entries p ! i)) = Inr v" for i v
    using validateEntry_keeps [OF that] by (simp add: merge_update_def)
  then show ?thesis
    using p proxies_typed_upd [OF p] proxies_typed_id [OF p]
    by (auto simp: Update_def Let_def rebuild_entries proxies_typed_def [of "_ :: ProxyPool"] dest: find_index_bound split: option.split sum.split)
qed

lemma Delete_typed: "proxies_typed p \<Longrightarrow> proxies_typed (fst (snd (Delete db pid p)))"
  by (auto simp: Delete_def Let_def proxies_typed_def rebuild_entries list_all_iff split: option.split)

lemma Toggle_typed: "proxies_typed p \<Longrightarrow> proxies_typed (fst (snd (Toggle db pid p)))"
  using proxies_typed_upd [of p] proxies_typed_id [of p]
  by (auto simp: Toggle_def Let_def rebuild_entries proxies_typed_def [of "_ :: ProxyPool"] dest: find_index_bound split: option.split)

lemma proxy_handlers_typed:
  assumes "proxies_typed p"
  shows "fills rand \<Longrightarrow> proxies_typed (fst (snd (HandleAddProxy msg db (newProxyID rand) now body p)))"
    and "proxies_typed (fst (snd (HandleUpdateProxy msg db param body p)))"
    and "proxies_typed (fst (snd (HandleDeleteProxy msg del param p)))"
    and "proxies_typed (fst (snd (HandleToggleProxy msg db param p)))"
proof -
  show "proxies_typed (fst (snd (HandleAddProxy msg db (newProxyID rand) now body p)))" if "fills rand"
  proof (cases "bind_json dec_proxy body")
    case (Some i)
    then show ?thesis using Add_typed [OF that assms, of db now "input_entry i (case pi_Enabled i of Some b \<Rightarrow> b | None \<Rightarrow> True)"]
      by (auto simp: HandleAddProxy_def split: prod.split sum.split)
  qed (use assms in \<open>simp add: HandleAddProxy_def\<close>)
  have "proxies_typed (fst (snd (case r of ((None, Some u), p', w) \<Rightarrow> (Answer (masked u), p', w)
      | ((Some e, _), p', w) \<Rightarrow> (Refused 400 (msg e), p', w) | ((None, None), p', w) \<Rightarrow> (Refused 400 [], p', w))))"
    if "proxies_typed (fst (snd r))" for r :: "(proxy_error option \<times> ProxyEntry option) \<times> ProxyPool \<times> pool_write list"
    using that by (auto split: prod.split option.split)
  then show "proxies_typed (fst (snd (HandleUpdateProxy msg db param body p)))"
    using assms Update_typed [OF assms] by (simp add: HandleUpdateProxy_def Let_def split: option.split)
  show "proxies_typed (fst (snd (HandleDeleteProxy msg del param p)))"
    using assms Delete_typed [OF assms, of del "TrimSpace param"] by (auto simp: HandleDeleteProxy_def Let_def split: option.split prod.split)
  show "proxies_typed (fst (snd (HandleToggleProxy msg db param p)))"
    using assms Toggle_typed [OF assms, of db "TrimSpace param"] by (auto simp: HandleToggleProxy_def Let_def split: option.split prod.split)
qed

subsection \<open>Credentials\<close>

lemma Upsert_typed: "accounts_typed am \<Longrightarrow> accounts_typed (snd (UpsertAccount fmt now e tok rt idt sub x am))"
proof (cases "find_index (\<lambda>a. ga_Email a = e) (gm_accounts am)")
  case None
  assume "accounts_typed am"
  moreover have "e \<notin> ga_Email ` set (gm_accounts am)" using None by (auto simp: find_index_None)
  ultimately show ?thesis using None by (simp add: UpsertAccount_def accounts_typed_def new_account_def)
next
  case (Some i)
  assume "accounts_typed am"
  moreover have "i < length (gm_accounts am)" "ga_Email (gm_accounts am ! i) = e" using find_index_Some [OF Some] by simp_all
  ultimately show ?thesis using Some by (simp add: UpsertAccount_def accounts_typed_def new_account_def map_update_same)
qed

lemma import_accounts_typed: "accounts_typed am \<Longrightarrow> accounts_typed (snd (import_accounts fmt now as n am))"
proof (induction as arbitrary: n am)
  case (Cons a as)
  obtain x y z where n: "n = (x, y, z)" by (cases n) auto
  have "accounts_typed (snd (upsert fmt now a am))" using Upsert_typed [OF Cons.prems] by (simp add: upsert_def)
  then show ?case using Cons by (simp add: n split_beta Let_def)
qed simp

lemma distinct_without: "distinct xs \<Longrightarrow> distinct (take i xs @ drop (Suc i) xs)"
  by (simp add: set_take_disj_set_drop_if_distinct)

lemma accounts_typed_filter: "accounts_typed am \<Longrightarrow> accounts_typed (am\<lparr>gm_accounts := filter P (gm_accounts am)\<rparr>)"
  by (simp add: accounts_typed_def distinct_map_filter)

lemma account_handlers_typed:
  assumes "accounts_typed am"
  shows "accounts_typed (snd (HandleImportAccount fmt now body am))"
    and "accounts_typed (snd (HandleImportAccountBulk fmt now body am))"
    and "accounts_typed (snd (HandleDeleteAccount email am))"
    and "accounts_typed (snd (HandleCleanupBanned typ am))"
    and "accounts_typed (fst (snd (HandleCleanupDisabled typ (am, km))))"
proof -
  show "accounts_typed (snd (HandleImportAccount fmt now body am))"
    using assms Upsert_typed [OF assms] by (simp add: HandleImportAccount_def upsert_def split_beta Let_def split: option.split)
  show "accounts_typed (snd (HandleImportAccountBulk fmt now body am))"
    using assms import_accounts_typed [OF assms] by (simp add: HandleImportAccountBulk_def split_beta split: option.split)
  have "accounts_typed (snd (DeleteAccount email am))"
    using assms distinct_without [of "map ga_Email (gm_accounts am)"] by (simp add: DeleteAccount_def accounts_typed_def take_map drop_map split: option.split)
  then show "accounts_typed (snd (HandleDeleteAccount email am))"
    using assms by (auto simp: HandleDeleteAccount_def split: prod.split bool.split)
  show "accounts_typed (snd (HandleCleanupBanned typ am))" "accounts_typed (fst (snd (HandleCleanupDisabled typ (am, km))))"
    using assms accounts_typed_filter [OF assms]
    by (simp_all add: HandleCleanupBanned_def CleanupBanned_def cleanupBy_def HandleCleanupDisabled_def GrokCleanupDisabled_def split_beta Let_def)
qed

lemma AddKey_typed: "cb_typed km \<Longrightarrow> cb_typed (snd (AddKey k km))"
  by (simp add: AddKey_def Let_def cb_typed_def new_cb_key_def)

lemma import_keys_typed: "cb_typed km \<Longrightarrow> cb_typed (snd (import_keys ks n km))"
proof (induction ks arbitrary: n km)
  case (Cons k ks)
  obtain x y where n: "n = (x, y)" by (cases n) auto
  show ?case using Cons AddKey_typed [OF Cons.prems, of "TrimSpace k"] by (simp add: n split_beta Let_def)
qed simp

lemma cb_handlers_typed:
  assumes "cb_typed km"
  shows "cb_typed (snd (HandleImportCBKey body km))" and "cb_typed (snd (HandleImportCBKeyBulk body km))"
    and "cb_typed (snd (HandleDeleteCBKey param km))" and "cb_typed (snd (snd (HandleCleanupDisabled typ (am, km))))"
proof -
  show "cb_typed (snd (HandleImportCBKey body km))" "cb_typed (snd (HandleImportCBKeyBulk body km))"
    using assms AddKey_typed [OF assms] import_keys_typed [OF assms]
    by (simp_all add: HandleImportCBKey_def HandleImportCBKeyBulk_def split_beta Let_def split: option.split)
  have "cb_typed (snd (CBPool.DeleteKey k km))" for k
    using assms by (auto simp: CBPool.DeleteKey_def cb_typed_def list_all_iff dest: in_set_takeD in_set_dropD split: option.split)
  then show "cb_typed (snd (HandleDeleteCBKey param km))"
    using assms by (auto simp: HandleDeleteCBKey_def Let_def split: prod.split option.split bool.split) (metis snd_conv)+
  show "cb_typed (snd (snd (HandleCleanupDisabled typ (am, km))))"
    using assms by (auto simp: HandleCleanupDisabled_def CBCleanupDisabled_def split_beta Let_def cb_typed_def list_all_iff)
qed

subsection \<open>Registries\<close>

lemma snd_reg_answer: "snd (reg_answer msg c v r) = snd r"
  by (simp add: reg_answer_def split: prod.split option.split)

lemma registry_frames:
  "cr_aliases (snd (AddModel w i cm r)) = cr_aliases r" "cr_aliases (snd (DeleteModel w i r)) = cr_aliases r"
  "cr_models (snd (AddAlias w al t r)) = cr_models r" "cr_models (snd (DeleteAlias w al r)) = cr_models r"
  by (simp_all add: AddModel_def DeleteModel_def AddAlias_def DeleteAlias_def Let_def split: option.split)

lemma custom_ops_typed:
  assumes "custom_typed r"
  shows "custom_typed (snd (AddModel w i cm r))" "custom_typed (snd (DeleteModel w i r))"
    "custom_typed (snd (AddAlias w al t r))" "custom_typed (snd (DeleteAlias w al r))"
  using assms mr.put_wf [of r w i cm] mr.rem_wf [of r w i] ar.put_wf [of r w al t] ar.rem_wf [of r w al]
  by (simp_all add: custom_typed_def mr.all_wf_def ar.all_wf_def registry_frames)

lemma custom_handlers_typed:
  assumes "custom_typed r"
  shows "custom_typed (snd (HandleAddCustomModel msg w body r))" "custom_typed (snd (HandleDeleteCustomModel msg w param r))"
    "custom_typed (snd (HandleAddAlias msg w body r))" "custom_typed (snd (HandleDeleteAlias msg w param r))"
  using assms custom_ops_typed [OF assms]
  by (simp_all add: HandleAddCustomModel_def HandleDeleteCustomModel_def HandleAddAlias_def HandleDeleteAlias_def Let_def snd_reg_answer
      split: option.split)

lemma combo_handlers_typed:
  assumes "co.all_wf r"
  shows "co.all_wf (snd (HandleAddCombo msg w body r))" "co.all_wf (snd (HandleDeleteCombo msg w param r))"
  using assms co.put_wf [OF assms] co.rem_wf [OF assms]
  by (simp_all add: HandleAddCombo_def HandleDeleteCombo_def Let_def snd_reg_answer split: option.split)

subsection \<open>Requests and workers\<close>

lemma on_parts:
  "gateway_typed g \<Longrightarrow> keys_typed am \<Longrightarrow> gateway_typed (g\<lparr>gw_auth := am, gw_keys := st\<rparr>)"
  "gateway_typed g \<Longrightarrow> proxies_typed p \<Longrightarrow> gateway_typed (g\<lparr>gw_up := (gw_up g)\<lparr>us_proxy := p\<rparr>\<rparr>)"
  "gateway_typed g \<Longrightarrow> accounts_typed gm \<Longrightarrow> gateway_typed (g\<lparr>gw_up := (gw_up g)\<lparr>us_grok := gm\<rparr>\<rparr>)"
  "gateway_typed g \<Longrightarrow> cb_typed km \<Longrightarrow> gateway_typed (g\<lparr>gw_up := (gw_up g)\<lparr>us_cb := km\<rparr>\<rparr>)"
  by (simp_all add: gateway_typed_def)

lemma create_key_typed:
  assumes "app_typed a" and "create_key ci a = Proceed a'"
  shows "app_typed a'"
proof (cases "GenerateGatewayKey (ci_rand ci)")
  case (Exit n)
  then have "a' = a" using assms(2) by (simp add: create_key_def Let_def split: if_splits)
  then show ?thesis using assms(1) by simp
next
  case (Proceed k)
  then have "k \<noteq> []" by (auto simp: GenerateGatewayKey_def split: sum.splits)
  then show ?thesis using assms Proceed created_typed [of k "gw_auth (ap_gw a)" "ci_fmt ci" "ci_now ci" "ci_body ci" "gw_keys (ap_gw a)"]
    by (auto simp: create_key_def Let_def on_auth_def on_gw_def app_typed_def split_beta gateway_typed_def)
qed

lemma refresh_settings: "upstream_settings (snd (HandleRefresh env s)) = upstream_settings s"
proof -
  have "upstream_settings (snd (refresh_all env xs s)) = upstream_settings s" for xs s
    using Refresh_settings by (induction xs arbitrary: s) (auto simp: split_beta Let_def)
  then show ?thesis by (simp add: HandleRefresh_def)
qed

lemma typed_settings:
  assumes "app_typed a" and "configuration a' = configuration a" and "sessions_typed (ap_sessions a')"
  shows "app_typed a'"
  using assms gateway_typed_cong [of "ap_gw a'" "ap_gw a"] by (simp add: app_typed_def configuration_def)

lemma custom_option_typed:
  assumes "case r of None \<Rightarrow> True | Some r \<Rightarrow> custom_typed r" and "\<And>r. custom_typed r \<Longrightarrow> custom_typed (snd (f r))"
  shows "case map_option (snd \<circ> f) r of None \<Rightarrow> True | Some r \<Rightarrow> custom_typed r"
  using assms by (simp split: option.splits)

lemma combo_option_typed:
  assumes "case r of None \<Rightarrow> True | Some r \<Rightarrow> co.all_wf r" and "\<And>r. co.all_wf r \<Longrightarrow> co.all_wf (snd (f r))"
  shows "case map_option (snd \<circ> f) r of None \<Rightarrow> True | Some r \<Rightarrow> co.all_wf r"
  using assms by (simp split: option.splits)

lemma on_custom_typed: "app_typed a \<Longrightarrow> (\<And>r. custom_typed r \<Longrightarrow> custom_typed (snd (f r))) \<Longrightarrow> app_typed (on_custom f a)"
  using custom_option_typed [of "gw_custom (ap_gw a)" f] by (simp add: app_typed_def gateway_typed_def on_custom_def on_gw_def)

lemma on_combos_typed: "app_typed a \<Longrightarrow> (\<And>r. co.all_wf r \<Longrightarrow> co.all_wf (snd (f r))) \<Longrightarrow> app_typed (on_combos f a)"
  using combo_option_typed [of "gw_combos (ap_gw a)" f] by (simp add: app_typed_def gateway_typed_def on_combos_def on_gw_def)

lemma on_proxies_typed: "app_typed a \<Longrightarrow> (\<And>p. proxies_typed p \<Longrightarrow> proxies_typed (fst (snd (f p)))) \<Longrightarrow> app_typed (on_proxies f a)"
  by (simp add: app_typed_def gateway_typed_def on_proxies_def on_up_def on_gw_def)

lemma on_grok_typed: "app_typed a \<Longrightarrow> (\<And>m. accounts_typed m \<Longrightarrow> accounts_typed (snd (f m))) \<Longrightarrow> app_typed (on_grok f a)"
  by (simp add: app_typed_def gateway_typed_def on_grok_def on_up_def on_gw_def)

lemma on_cb_typed: "app_typed a \<Longrightarrow> (\<And>m. cb_typed m \<Longrightarrow> cb_typed (snd (f m))) \<Longrightarrow> app_typed (on_cb f a)"
  by (simp add: app_typed_def gateway_typed_def on_cb_def on_up_def on_gw_def)

lemma on_auth_typed: "app_typed a \<Longrightarrow> (\<And>am st. keys_typed am \<Longrightarrow> keys_typed (fst (snd (f am st)))) \<Longrightarrow> app_typed (on_auth f a)"
  by (simp add: app_typed_def gateway_typed_def on_auth_def on_gw_def split_beta Let_def)

lemma on_tunnel_typed: "app_typed a \<Longrightarrow> (\<And>t. tn_inv t \<Longrightarrow> tn_step\<^sup>*\<^sup>* t (snd (f t))) \<Longrightarrow> app_typed (on_tunnel f a)"
  using tn_run_inv [of "ap_tunnel a" "snd (f (ap_tunnel a))"] by (simp add: app_typed_def on_tunnel_def)

lemma on_sessions_typed: "app_typed a \<Longrightarrow> sessions_typed ss \<Longrightarrow> app_typed (a\<lparr>ap_sessions := ss\<rparr>)"
  by (simp add: app_typed_def)

lemma cleanup_effect_typed:
  assumes "app_typed a"
  shows "app_typed (on_up (\<lambda>s. case HandleCleanupDisabled which (us_grok s, us_cb s) of (_, am, km) \<Rightarrow> s\<lparr>us_grok := am, us_cb := km\<rparr>) a)"
  using assms account_handlers_typed(5) [of "us_grok (gw_up (ap_gw a))" which "us_cb (gw_up (ap_gw a))"]
    cb_handlers_typed(4) [of "us_cb (gw_up (ap_gw a))" which "us_grok (gw_up (ap_gw a))"]
  by (simp add: app_typed_def gateway_typed_def on_up_def on_gw_def split_beta Let_def)

lemma app_typed_sessions: "app_typed a \<Longrightarrow> sessions_typed (ap_sessions a)"
  by (simp add: app_typed_def)

lemma v1_typed: "app_typed a \<Longrightarrow> app_typed (on_gw (v1_effect ci hq ck) a)"
  by (rule typed_settings) (simp_all add: configuration_def on_gw_def v1_settings app_typed_def)

lemma refresh_typed: "app_typed a \<Longrightarrow> app_typed (on_up (\<lambda>s. snd (HandleRefresh env s)) a)"
  by (rule typed_settings) (simp_all add: on_up_configuration refresh_settings, simp add: on_up_def on_gw_def app_typed_def)

lemma effect_typed:
  assumes "app_typed a" and "fills (ci_rand ci)" and "endpoint_effect d ci hq param ck e a = Proceed a'"
  shows "app_typed a'"
proof (cases "e = endpoint.CreateKey")
  case True
  then show ?thesis using create_key_typed [OF assms(1)] assms(3) by (simp add: endpoint_effect_def)
next
  case False
  note s = app_typed_sessions [OF assms(1)]
  have "e \<noteq> endpoint.CreateKey \<Longrightarrow> \<exists>b. endpoint_effect d ci hq param ck e a = Proceed b \<and> app_typed b"
    by (cases e) (simp_all add: endpoint_effect_def assms(1) v1_typed refresh_typed cleanup_effect_typed deleted_typed updated_typed
        on_auth_typed on_sessions_typed login_typed [OF assms(2) s] logout_typed [OF s] health_typed [OF s] on_grok_typed account_handlers_typed
        on_cb_typed cb_handlers_typed on_custom_typed custom_handlers_typed on_combos_typed combo_handlers_typed on_proxies_typed
        proxy_handlers_typed assms(2) on_tunnel_typed handler_steps)
  then show ?thesis using assms(3) False by auto
qed

lemma app_step_typed:
  assumes "app_typed a" and "fills (ci_rand ci)" and "snd (app_step rt d ci hq a) = Proceed a'"
  shows "app_typed a'"
proof -
  obtain r sv where s: "serve rt d (ci_now ci) (case ci_rand ci 8 of Inl _ \<Rightarrow> None | Inr b \<Rightarrow> Some b) hq (app_server a) = (r, sv)" by fastforce
  have "dom (sv_sessions sv) \<subseteq> dom (ap_sessions a)"
    using serve_dom [of rt d "ci_now ci" "case ci_rand ci 8 of Inl _ \<Rightarrow> None | Inr b \<Rightarrow> Some b" hq "app_server a"] s by simp
  then have w: "app_typed (with_server sv a)"
    using assms(1) sessions_typed_subset by (simp add: app_typed_def)
  show ?thesis
    using assms(3) s w effect_typed [OF w assms(2)] by (cases "sr_verdict r") (auto simp: app_step_def)
qed

lemma background_typed:
  assumes "app_typed a" and "background_step b a = Proceed a'"
  shows "app_typed a'"
proof (rule typed_settings [OF assms(1) background_configuration [OF assms(2)]])
  show "sessions_typed (ap_sessions a')"
    using assms(2) swept_typed [OF app_typed_sessions [OF assms(1)]] app_typed_sessions [OF assms(1)]
    by (cases b) (auto simp: background_step_def on_up_def on_gw_def split: prod.splits if_splits)
qed

fun random_ok :: "app_event \<Rightarrow> bool" where
  "random_ok (Served ci hq) \<longleftrightarrow> fills (ci_rand ci)"
| "random_ok (Worked b) \<longleftrightarrow> True"

lemma run_typed: "app_typed a \<Longrightarrow> list_all random_ok evs \<Longrightarrow> system_run rt evs a = Proceed a' \<Longrightarrow> app_typed a'"
proof (induction evs arbitrary: a)
  case (Cons ev evs)
  obtain a1 where a1: "system_step rt ev a = Proceed a1" using Cons.prems(3) by (cases "system_step rt ev a") auto
  have "app_typed a1"
  proof (cases ev)
    case (Served ci hq)
    then show ?thesis using app_step_typed [OF Cons.prems(1), of ci rt False hq a1] a1 Cons.prems(2) by simp
  next
    case (Worked b)
    then show ?thesis using background_typed [OF Cons.prems(1)] a1 by simp
  qed
  then show ?case using Cons a1 by simp
qed simp

subsection \<open>A start on an empty store\<close>

definition empty_scan_result :: "redis_scan \<Rightarrow> bool" where
  "empty_scan_result rc \<longleftrightarrow> rc_keys rc = Inr [] \<and> rc_grok rc = ([], None) \<and> rc_cb rc = ([], None) \<and> rc_proxies rc = ([], None)"

definition no_registries :: "redis_rows \<Rightarrow> bool" where
  "no_registries rr \<longleftrightarrow> rr_models rr = Map.empty \<and> rr_aliases rr = Map.empty \<and> cb_rows (rr_combos rr) = Map.empty"

lemma split_keys_nonempty: "list_all (\<lambda>k. k \<noteq> []) (split_keys seps s)"
  by (simp add: split_keys_def list_all_iff)

lemma bootstrapKeys_nonempty: "list_all (\<lambda>k. k \<noteq> []) (bootstrapKeys env)"
  by (simp add: bootstrapKeys_def split_keys_nonempty split: option.split)

lemma new_manager_typed:
  assumes "rc_keys rc = Inr []"
  shows "keys_typed (fst (NewManager env (LoadGatewayKeys (rc_keys rc) rows) st))"
proof -
  have "loaded_keys (LoadGatewayKeys (rc_keys rc) rows) st = []" using assms by (intro empty_scan) simp
  then show ?thesis
    using bootstrap_typed [OF bootstrapKeys_nonempty [of env], of "[]" "boot_time env" st]
    by (simp add: NewManager_cases Let_def keys_typed_def key_typed_def bootstrap_info_def)
qed

lemma boot_typed:
  assumes "boot m rr rc = Proceed s" and "empty_scan_result rc" and "no_registries rr"
  shows "app_typed (sd_app s)"
proof -
  let ?d = "LoadGatewayKeys (rc_keys rc) (rr_keys rr)" and ?st = "Some (mc_bool m, mc_now m, rr_keys rr)"
  have "keys_typed am" if "start_manager m ?d ?st = Proceed (am, st, f)" for am st f
    using that new_manager_typed [of rc "auth_env m []" "rr_keys rr" ?st] new_manager_typed [of rc "auth_env m rk" "rr_keys rr" ?st for rk] assms(2)
    by (auto simp: start_manager_def empty_scan_result_def split: if_splits process.splits prod.splits) (metis fst_conv)+
  then have k: "keys_typed (gw_auth (ap_gw (sd_app s)))" by (rule boot_Proceed [OF assms(1)]) simp
  have "cb_typed (snd (LoadCB pf (cb_env m) (Inr []) NewCBKeyManager))" for pf
    by (auto simp: LoadCB_def cb_typed_def NewCBKeyManager_def new_cb_key_def cb_boot_keys_def Let_def list_all_iff)
  then have u: "proxies_typed (us_proxy (fst (load_pools m rr rc))) \<and> accounts_typed (us_grok (fst (load_pools m rr rc))) \<and> cb_typed (us_cb (fst (load_pools m rr rc)))"
    using assms(2) by (simp add: load_pools_def split_beta Let_def empty_scan_result_def LoadGrok_def LoadGrokAccounts_def LoadCBKeys_def Load_def LoadProxies_def
        proxies_typed_def accounts_typed_def rebuild_entries List.map_filter_def)
  have r: "custom_typed (fst (fst (load_registries rr rc)))" "co.all_wf (snd (fst (load_registries rr rc)))"
    using assms(3) by (auto simp: load_registries_def split_beta Let_def no_registries_def LoadCustom_def LoadCombos_def LoadCustomModels_def
        LoadCustomAliases_def LoadComboRows_def model_rows_def combo_row_def custom_typed_def mr.all_wf_def ar.all_wf_def co.all_wf_def
        NewCustomRegistry_def NewComboRegistry_def on_ok_def split: option.splits)
  show ?thesis
    by (rule boot_Proceed [OF assms(1)])
      (use k u r in \<open>simp add: app_typed_def gateway_typed_def sessions_typed_def new_tunnel_def tn_inv_new\<close>)
qed

text \<open>
  C12: The state stays well typed. A gateway that was started on an empty store, under any interleaving of requests, administrators' included, with
  the steps of the workers, and whatever the network, Redis and Cloudflare answer, always has: each gateway key filed once, under itself,
  not empty, with its own mask and the role of an administrator or of a user; session tokens of 64 and proxy identifiers of
  8 hexadecimal digits; accounts with distinct addresses, no empty CodeBuddy key, normalised models, aliases and combos only, and
  a tunnel manager whose processes are all accounted for.
\<close>

theorem state_stays_typed:
  assumes "boot m rr rc = Proceed s" and "empty_scan_result rc" and "no_registries rr"
    and "list_all random_ok evs" and "system_run rt evs (sd_app s) = Proceed a"
  shows "app_typed a"
  by (rule run_typed [OF boot_typed [OF assms(1-3)] assms(4,5)])

theorem state_stays_typed_witness:
  "\<exists>s a. boot (ex_machine [] (\<lambda>_. None)) ex_redis ex_scan = Proceed s
     \<and> system_run ex_router [Served (ex_input None) (ex_call ''GET'' ''/health'' ''x''), Worked (DropSessions 5)] (sd_app s) = Proceed a \<and> app_typed a"
proof -
  obtain s where s: "boot (ex_machine [] (\<lambda>_. None)) ex_redis ex_scan = Proceed s" using ex_boots by blast
  let ?evs = "[Served (ex_input None) (ex_call ''GET'' ''/health'' ''x''), Worked (DropSessions 5)]"
  have e: "empty_scan_result ex_scan" "no_registries ex_redis" by (simp_all add: empty_scan_result_def ex_scan_def no_registries_def ex_redis_def)
  have n: "\<not> by_admin (ci_now (ex_input None)) (ex_call ''GET'' ''/health'' ''x'') (sd_app s)"
    using first_boot_app(1) [OF s ex_autobootstraps ex_rand_value(1) ex_key_def]
    by (auto simp: by_admin_def presents_def ex_call_def ex_hq_def AnthropicAuthMiddleware_def ex_key_def split: if_splits)
  obtain a where a: "system_run ex_router ?evs (sd_app s) = Proceed a"
    using unprivileged_step [OF ex_router n] by (auto simp: background_step_def)
  have "app_typed a" by (rule state_stays_typed [OF s e _ a]) (simp add: ex_input_def ex_rand_fills)
  then show ?thesis using s a by blast
qed

end
