(* ===== verification/Views.thy ===== *)
theory Views
  imports Workers Server Rows
begin

text \<open>
  What the components show of themselves: the race-free copies that handlers work on, the
  accessors of the pools and registries, the headers of a Grok request, the two pages that are public and computed, and
  the Prometheus metrics.

  A copy is taken under the lock of what is copied; it is a value here. Lists over maps come in the order of the
  given enumeration of the keys, and header names are in the canonical form in which Go sends them.
\<close>

subsection \<open>Gateway keys\<close>

record GatewayKeySnapshot =
  ks_Key :: string
  ks_KeyMasked :: string
  ks_Name :: string
  ks_Role :: string
  ks_AllowedModels :: "string list"
  ks_RPM :: int
  ks_Burst :: int
  ks_TokenQuota :: int
  ks_TokensUsed :: int
  ks_Requests :: int
  ks_CreatedAt :: gotime
  ks_Disabled :: bool

definition key_Snapshot :: "GatewayKeyInfo \<Rightarrow> GatewayKeySnapshot" where
  "key_Snapshot k =
     \<lparr>ks_Key = gk_Key k, ks_KeyMasked = gk_KeyMasked k, ks_Name = gk_Name k, ks_Role = gk_Role k, ks_AllowedModels = gk_AllowedModels k,
      ks_RPM = gk_RPM k, ks_Burst = gk_Burst k, ks_TokenQuota = gk_TokenQuota k, ks_TokensUsed = gk_TokensUsed k,
      ks_Requests = gk_Requests k, ks_CreatedAt = gk_CreatedAt k, ks_Disabled = gk_Disabled k\<rparr>"

fun any_match :: "string list \<Rightarrow> string \<Rightarrow> bool" where
  "any_match [] model = False"
| "any_match (p # ps) model = (if MatchModel p model then True else any_match ps model)"

definition snapshot_IsModelAllowed :: "GatewayKeySnapshot \<Rightarrow> string \<Rightarrow> bool" where
  "snapshot_IsModelAllowed s model = (if ks_AllowedModels s = [] then True else any_match (ks_AllowedModels s) model)"

definition info_IsModelAllowed :: "GatewayKeyInfo \<Rightarrow> string \<Rightarrow> bool" where
  "info_IsModelAllowed k model = (if gk_AllowedModels k = [] then True else any_match (gk_AllowedModels k) model)"

definition Manager_GetAll :: "Manager \<Rightarrow> GatewayKeySnapshot list" where
  "Manager_GetAll am = map (key_Snapshot \<circ> snd) am"

definition Manager_Count :: "Manager \<Rightarrow> nat" where
  "Manager_Count am = length am"

definition Manager_Add :: "gotime \<Rightarrow> string \<Rightarrow> string \<Rightarrow> int \<Rightarrow> int \<Rightarrow> int \<Rightarrow> Manager \<Rightarrow> key_store \<Rightarrow> GatewayKeySnapshot \<times> Manager \<times> key_store" where
  "Manager_Add now key name rpm burst quota am st =
     (let (i, am', st') = AddWithRole now key name RoleInference None rpm burst quota am st in (key_Snapshot i, am', st'))"

text \<open>The whitelist is consulted through a copy and, by old callers, on the entry itself; both agree with the specification of the whitelist.\<close>

lemma whitelist_views:
  "snapshot_IsModelAllowed (key_Snapshot k) model = IsModelAllowed (gk_AllowedModels k) model"
  "info_IsModelAllowed k model = IsModelAllowed (gk_AllowedModels k) model"
proof -
  have "any_match ps model = list_ex (\<lambda>p. MatchModel p model) ps" for ps by (induction ps) auto
  then show "snapshot_IsModelAllowed (key_Snapshot k) model = IsModelAllowed (gk_AllowedModels k) model"
    "info_IsModelAllowed k model = IsModelAllowed (gk_AllowedModels k) model"
    by (auto simp: snapshot_IsModelAllowed_def info_IsModelAllowed_def key_Snapshot_def IsModelAllowed_def list_ex_iff)
qed

lemma snapshot_complete: "key_Snapshot i = key_Snapshot j \<longleftrightarrow> i = j"
  by (cases i; cases j) (auto simp: key_Snapshot_def)

lemma Manager_Add_counts: "map_of am key = None \<Longrightarrow> Manager_Count (fst (snd (Manager_Add now key name rpm burst quota am st))) = Suc (Manager_Count am)"
proof -
  have "map_of am key = None \<Longrightarrow> length (AList.update key v am) = Suc (length am)" for v by (induction am) auto
  then show "map_of am key = None \<Longrightarrow> Manager_Count (fst (snd (Manager_Add now key name rpm burst quota am st))) = Suc (Manager_Count am)"
    by (simp add: Manager_Add_def Manager_Count_def AddWithRole_def Let_def)
qed

subsection \<open>Grok accounts\<close>

record GrokAccountSnapshot =
  gs_Email :: string
  gs_Sub :: string
  gs_AccessToken :: string
  gs_RefreshToken :: string
  gs_IDToken :: string
  gs_Expired :: string
  gs_ExpiresIn :: int
  gs_ExpiresAt :: gotime
  gs_LastRefresh :: string
  gs_Disabled :: bool
  gs_DisabledAt :: gotime
  gs_TokenStatus :: string

definition account_Snapshot :: "gotime \<Rightarrow> GrokAccount \<Rightarrow> GrokAccountSnapshot" where
  "account_Snapshot now a =
     \<lparr>gs_Email = ga_Email a, gs_Sub = ga_Sub a, gs_AccessToken = ga_AccessToken a, gs_RefreshToken = ga_RefreshToken a, gs_IDToken = ga_IDToken a,
      gs_Expired = ga_Expired a, gs_ExpiresIn = ga_ExpiresIn a, gs_ExpiresAt = ga_expiresAt a, gs_LastRefresh = ga_LastRefresh a,
      gs_Disabled = ga_disabled a, gs_DisabledAt = ga_disabledAt a,
      gs_TokenStatus =
        (if ga_disabled a \<and> is_zero (ga_disabledAt a) then ''banned''
         else if ga_disabled a then ''cooldown''
         else if now > ga_expiresAt a - REFRESH_BUFFER then ''expired'' else ''active'')\<rparr>"

definition grok_Len :: "GrokAccountManager \<Rightarrow> nat" where
  "grok_Len am = length (gm_accounts am)"

definition AddAccount :: "GrokAccount \<Rightarrow> GrokAccountManager \<Rightarrow> GrokAccountManager" where
  "AddAccount acc am = am\<lparr>gm_accounts := gm_accounts am @ [acc]\<rparr>"

definition UpdateExisting :: "go_error option \<Rightarrow> (bool \<Rightarrow> string) \<Rightarrow> GrokAccount \<Rightarrow> key_rows option \<Rightarrow> key_rows option" where
  "UpdateExisting r eb acc db = map_option (SaveGrokAccount r eb (toDTO acc)) db"

text \<open>\<open>n1\<close>, \<open>n2\<close> and \<open>n3\<close> are the readings of the clock for the three identifiers.\<close>

definition grokHeaders :: "int \<Rightarrow> int \<Rightarrow> int \<Rightarrow> string \<Rightarrow> string \<Rightarrow> string \<Rightarrow> (string \<times> string) list" where
  "grokHeaders n1 n2 n3 token accept model =
     [(''Authorization'', ''Bearer '' @ token), (''Content-Type'', ''application/json''), (''Accept'', accept),
      (''X-Xai-Token-Auth'', ''xai-grok-cli''), (''X-Authenticateresponse'', ''authenticate-response''),
      (''X-Grok-Client-Version'', ''0.2.93''), (''X-Grok-Client-Identifier'', ''grok-shell''), (''X-Grok-Client-Mode'', ''tui''),
      (''User-Agent'', ''grok-shell/0.2.93 (linux; x86_64)''), (''X-Grok-Conv-Id'', ''conv-'' @ Itoa n1), (''X-Grok-Req-Id'', ''req-'' @ Itoa n2),
      (''X-Grok-Model-Override'', model), (''X-Grok-Session-Id'', ''sess-'' @ Itoa n3), (''X-Grok-Agent-Id'', ''agent-shell'')]"

lemma snapshot_status: "gs_TokenStatus (account_Snapshot now a) = TokenStatus now a"
  by (simp add: account_Snapshot_def TokenStatus_def IsExpired_def)

text \<open>No header of a Grok request overwrites another, and it carries the token of the chosen account and the model.\<close>

lemma grokHeaders_fields:
  "distinct (map fst (grokHeaders n1 n2 n3 token accept model))"
  "map_of (grokHeaders n1 n2 n3 token accept model) ''Authorization'' = Some (''Bearer '' @ token)"
  "map_of (grokHeaders n1 n2 n3 token accept model) ''X-Grok-Model-Override'' = Some model"
  by (simp_all add: grokHeaders_def)

subsection \<open>Other pools and registries\<close>

definition cb_Len :: "CBKeyManager \<Rightarrow> nat" where
  "cb_Len km = length (km_keys km)"

definition cb_key_Stats :: "CBKey \<Rightarrow> rat \<times> int \<times> bool" where
  "cb_key_Stats k = (ck_creditsUsed k, ck_totalReqs k, ck_disabled k)"

definition pool_Len :: "ProxyPool option \<Rightarrow> nat" where
  "pool_Len p = (case p of None \<Rightarrow> 0 | Some q \<Rightarrow> length (pp_entries q))"

definition SnapshotModels :: "CustomRegistry option \<Rightarrow> (string \<rightharpoonup> CustomModel)" where
  "SnapshotModels r = (case r of None \<Rightarrow> Map.empty | Some c \<Rightarrow> cr_models c)"

definition SnapshotAliases :: "CustomRegistry option \<Rightarrow> (string \<rightharpoonup> string)" where
  "SnapshotAliases r = (case r of None \<Rightarrow> Map.empty | Some c \<Rightarrow> cr_aliases c)"

definition ListCombos :: "string list \<Rightarrow> ComboRegistry option \<Rightarrow> Combo list" where
  "ListCombos order r = (case r of None \<Rightarrow> [] | Some c \<Rightarrow> List.map_filter (combos c) order)"

lemma ListCombos_all: "dom (combos c) \<subseteq> set order \<Longrightarrow> set (ListCombos order (Some c)) = ran (combos c)"
  by (force simp: ListCombos_def List.map_filter_def ran_def image_iff)

subsection \<open>Public pages\<close>

definition HandleHealthMinimal :: "string \<Rightarrow> reply" where
  "HandleHealthMinimal version = (200, [(''status'', JStr ''healthy''), (''service'', JStr ''foxrouters''), (''version'', JStr version)])"

definition endpoint_list :: "string list" where
  "endpoint_list =
     (let arrow = [CHR 0xE2, CHR 0x86, CHR 0x92]; dash = [CHR 0xE2, CHR 0x80, CHR 0x94]
      in [''POST /v1/chat/completions '' @ dash @ '' grok-* '' @ arrow @ '' Grok, cb/* '' @ arrow @ '' CodeBuddy'',
          ''GET  /v1/models'', ''GET  /accounts'', ''POST /accounts/refresh'',
          ''GET  /health '' @ dash @ '' upstream health + circuit breaker status'', ''GET  /cb-stats'',
          ''GET  /history '' @ dash @ '' request stats + model breakdown'',
          ''GET  /history/recent '' @ dash @ '' recent request logs'',
          ''GET  /history/detail/:id '' @ dash @ '' full request/response JSON for a single log'',
          ''GET  /dashboard '' @ dash @ '' web UI dashboard''])"

definition index_page :: "string \<Rightarrow> GrokAccountManager \<Rightarrow> CBKeyManager \<Rightarrow> reply" where
  "index_page version am km =
     (200, [(''service'', JStr ''foxrouters''), (''version'', JStr version), (''mode'', JStr ''unified (grok + codebuddy)''),
            (''endpoints'', JArr (map JStr endpoint_list)), (''grok_accounts'', JNum (of_nat (grok_Len am))), (''cb_keys'', JNum (of_nat (cb_Len km)))])"

subsection \<open>Metrics\<close>

record metrics =
  mt_active :: "string \<rightharpoonup> nat"
  mt_disabled :: "string \<rightharpoonup> nat"
  mt_circuit :: "string \<rightharpoonup> int"
  mt_requests :: "string \<times> string \<Rightarrow> nat"
  mt_durations :: "string \<Rightarrow> rat list"

definition SetCircuitState :: "string \<Rightarrow> int \<Rightarrow> metrics \<Rightarrow> metrics" where
  "SetCircuitState up state m = m\<lparr>mt_circuit := (mt_circuit m)(up \<mapsto> state)\<rparr>"

definition SetPoolGauges :: "string \<Rightarrow> nat \<Rightarrow> nat \<Rightarrow> metrics \<Rightarrow> metrics" where
  "SetPoolGauges ty active disabled m =
     m\<lparr>mt_active := (mt_active m)(ty \<mapsto> active), mt_disabled := (mt_disabled m)(ty \<mapsto> disabled)\<rparr>"

definition publish_gauges :: "(string \<times> nat \<times> nat) list \<Rightarrow> metrics \<Rightarrow> metrics" where
  "publish_gauges = fold (\<lambda>(ty, active, disabled). SetPoolGauges ty active disabled)"

text \<open>What the proxy records of one request: its status as text and its duration in seconds.\<close>

definition observe_request :: "string \<Rightarrow> int \<Rightarrow> rat \<Rightarrow> metrics \<Rightarrow> metrics" where
  "observe_request up status elapsed m =
     m\<lparr>mt_requests := (mt_requests m)((up, Itoa status) := Suc (mt_requests m (up, Itoa status))),
       mt_durations := (mt_durations m)(up := mt_durations m up @ [elapsed])\<rparr>"

lemma gauges_cover_pools:
  assumes "m' = publish_gauges (updatePoolGauges am km keys) m"
  shows "\<exists>a d. mt_active m' ''grok'' = Some a \<and> mt_disabled m' ''grok'' = Some d \<and> a + d = grok_Len am"
    and "\<exists>a d. mt_active m' ''codebuddy'' = Some a \<and> mt_disabled m' ''codebuddy'' = Some d \<and> a + d = cb_Len km"
    and "\<exists>a d. mt_active m' ''auth'' = Some a \<and> mt_disabled m' ''auth'' = Some d \<and> a + d = Manager_Count keys"
  using pool_gauge_total [of ga_disabled "gm_accounts am"] pool_gauge_total [of ck_disabled "km_keys km"] pool_gauge_total [of "gk_Disabled \<circ> snd" keys]
  by (simp_all add: assms publish_gauges_def updatePoolGauges_def split_beta SetPoolGauges_def grok_Len_def cb_Len_def Manager_Count_def)

lemma observe_other: "up' \<noteq> up \<Longrightarrow> mt_requests (observe_request up st e m) (up', s) = mt_requests m (up', s)"
  by (simp add: observe_request_def)

end
