(* ===== verification/Spec2Isabelle.thy ===== *)
theory Spec2Isabelle
  imports Recovery Teardown Typing Views
begin

text \<open>
  \<^bold>\<open>FoxRouters: a model of the gateway and what makes it correct.\<close>

  FoxRouters is an HTTP gateway in Go. Clients with a gateway key send OpenAI chat completions, or
  Anthropic messages, and the gateway forwards them to one of two upstreams, Grok (a pool of OAuth
  accounts) or CodeBuddy (a pool of API keys), through an optional pool of outbound proxies.

  \<^bold>\<open>The parts and how they interact.\<close> A request passes the middlewares: the key and session checks
  (\<^verbatim>\<open>auth.AuthMiddleware\<close>, \<^verbatim>\<open>AdminMiddleware\<close>), the rate limiter, and for browser sessions the CSRF
  guard and the login limiter. \<^verbatim>\<open>proxy.ProxyRequest\<close> then resolves the model through the custom
  registry, the combo registry and the reasoning-effort aliases, checks the key's whitelist, and
  dispatches to \<^verbatim>\<open>ProxyGrok\<close> or \<^verbatim>\<open>ProxyCodeBuddy\<close>, in a fallback chain if the model is a fallback
  combo. Each upstream function asks its circuit breaker, takes an account or key from its pool,
  sends the request through a proxy of the proxy pool, reacts to the status by disabling, cooling
  down or refreshing the credential and trying the next, and finally copies the answer to the
  client while reading tokens and text from it. The consumption is charged to the gateway key, in
  memory and in Redis. \<^verbatim>\<open>HandleMessages\<close> wraps the same function for Anthropic clients by translating
  the request and, through its own response writers, the answer. The administrative endpoints change
  the keys, pools and registries. Every request is logged through a buffered channel into SQLite or
  ClickHouse, which the history endpoints query. A tunnel manager runs \<^verbatim>\<open>cloudflared\<close> subprocesses that
  publish the gateway. \<^verbatim>\<open>main\<close> opens the store, loads the components from Redis, starts the background workers and the
  server, and on a signal stops the tunnel and closes the store.

  \<^bold>\<open>Theories and sources\<close> (paths below \<^verbatim>\<open>src/\<close>).

  \<^item> \<open>Fox_Prelude\<close>: strings, trimming, splitting, decimal numbers, the clock, 64-bit round-robin
    indices, and the list lemmas the components share.
  \<^item> \<open>Health\<close>: \<^verbatim>\<open>internal/upstream/health.go\<close>, the circuit breaker, its invariant, and an abstract
    three-state breaker it refines.
  \<^item> \<open>ProxyPool\<close>: \<^verbatim>\<open>internal/proxy/pool.go\<close> and its callers in \<^verbatim>\<open>internal/upstream/upstream.go\<close>:
    validation, the cached enabled slice, rotation, automatic disabling, the transport cache.
  \<^item> \<open>Registry\<close>: \<^verbatim>\<open>internal/proxy/custom.go\<close>, \<^verbatim>\<open>combo.go\<close>, \<^verbatim>\<open>validate.go\<close>; a locale for keyed
    registries, interpreted for models, aliases and combos.
  \<^item> \<open>KeyStore\<close>, \<open>Auth\<close>: the key rows of \<^verbatim>\<open>internal/db/db.go\<close>, and \<^verbatim>\<open>internal/auth/auth.go\<close> with
    \<^verbatim>\<open>session_store.go\<close>: the key manager, bootstrap, sessions and both middlewares; the agreement of
    memory and Redis over any history of key operations.
  \<^item> \<open>RateLimit\<close>: \<^verbatim>\<open>internal/ratelimit/ratelimit.go\<close>, \<^verbatim>\<open>login_limiter.go\<close>, \<^verbatim>\<open>csrf_guard.go\<close>; a locale for
    the key lookup the limiter relies on, interpreted by the key manager.
  \<^item> \<open>Pools\<close>: the retry loop shared by both upstreams, a locale interpreted in \<open>Upstream\<close>.
  \<^item> \<open>GrokPool\<close>, \<open>CBPool\<close>, \<open>Upstream\<close>, \<open>Response\<close>: \<^verbatim>\<open>internal/upstream/grok.go\<close> and \<^verbatim>\<open>codebuddy.go\<close>: the
    pools, the request loops, and what is done with the answer; \<^verbatim>\<open>internal/proxy/buffered_writer.go\<close>.
  \<^item> \<open>Json\<close>: decoded JSON values and decoding into structs.
  \<^item> \<open>ModelList\<close>, \<open>Routing\<close>, \<open>Gateway\<close>: \<^verbatim>\<open>internal/proxy/proxy.go\<close> and \<^verbatim>\<open>anthropic_models.go\<close>: the model
    listing, \<^verbatim>\<open>ProxyRequest\<close>, and properties of whole requests.
  \<^item> \<open>AnthropicRequest\<close>, \<open>AnthropicStream\<close>, \<open>Messages\<close>: \<^verbatim>\<open>internal/handlers/anthropic.go\<close>: translation
    of requests, the event writer with a monitor for the Anthropic event protocol, and the handler
    around \<^verbatim>\<open>ProxyRequest\<close>.
  \<^item> \<open>KeyAdmin\<close>, \<open>PoolAdmin\<close>: \<^verbatim>\<open>internal/handlers/handlers.go\<close>, \<^verbatim>\<open>proxies.go\<close>, \<^verbatim>\<open>combos.go\<close>, \<^verbatim>\<open>custom.go\<close>:
    the administrative endpoints, login and logout.
  \<^item> \<open>Rows\<close>: the other Redis rows of \<^verbatim>\<open>internal/db/db.go\<close>, for accounts, upstream keys, proxies, models,
    aliases and combos, and what the pools and registries make of them after a restart.
  \<^item> \<open>LogPipeline\<close>, \<open>LogStore\<close>: the log channels and consumers of \<^verbatim>\<open>internal/db/db.go\<close>, a locale for a log
    backend interpreted for the three tables of \<^verbatim>\<open>logstore_sqlite.go\<close> and \<^verbatim>\<open>logstore_clickhouse.go\<close>, their
    queries, and the history endpoints.
  \<^item> \<open>LogRing\<close>, \<open>Tunnel\<close>: \<^verbatim>\<open>internal/tunnel/manager.go\<close> and \<^verbatim>\<open>internal/handlers/tunnels.go\<close>: the ring buffer
    that implements a bounded log (a locale), the search for the tunnel's address, the manager and its
    endpoints.
  \<^item> \<open>Workers\<close>: the worker that renews tokens (\<^verbatim>\<open>grok.go\<close>), the forced renewal, the test of a proxy, the
    telemetry of \<^verbatim>\<open>health.go\<close> and \<^verbatim>\<open>metrics_pool.go\<close>, and the remaining listings.
  \<^item> \<open>Server\<close>: \<^verbatim>\<open>main.go\<close>: the chain of middlewares, the route table with its guards, and the header and
    compression middlewares of \<^verbatim>\<open>ratelimit.go\<close>. The router is a parameter with its documented contract.
  \<^item> \<open>Encoding\<close>: the random keys, tokens and identifiers, and the hexadecimal and base64 encodings they use.
  \<^item> \<open>Views\<close>: snapshots and counts of the pools, the headers sent to Grok, the index page, and \<^verbatim>\<open>internal/metrics/metrics.go\<close>.
  \<^item> \<open>Adapter\<close>: \<^verbatim>\<open>proxy_adapter.go\<close> and the interface of \<^verbatim>\<open>upstream.go\<close> it implements; a locale for two pools that
    behave alike, interpreted by the pool itself and the pool behind the adapter.
  \<^item> \<open>Settings\<close>, \<open>Application\<close>: the one state of the server (\<^verbatim>\<open>main.go\<close>), the effect of every endpoint on it, and which part of
    it is set up by administrators.
  \<^item> \<open>Background\<close>: the goroutines beside the server, runs of requests interleaved with their steps, and
    what such runs keep.
  \<^item> \<open>Storage\<close>: opening, schema, retention and closing of the log stores and of \<^verbatim>\<open>db.Store\<close>, with its configuration.
  \<^item> \<open>Boot\<close>, \<open>Recovery\<close>, \<open>Teardown\<close>: the start of \<^verbatim>\<open>main.go\<close>, a start on what an earlier life left in Redis (a locale for
    saved rows, interpreted for accounts and CodeBuddy keys), and the shutdown.
  \<^item> \<open>Typing\<close>: well-typed states of the application, kept from the start on by every request and worker.

  \<^bold>\<open>State and operations.\<close> A struct is a record with prefixed field names, a method a function on it;
  a mutex makes a method one step, so histories are lists of operations. What the outside returns,
  Redis, the network, the random source, the JSON codec and the clock, is an argument, and every
  statement holds for all its values unless a hypothesis restricts it. Go maps are association
  lists or partial functions. Errors are values; a panic of the source is a value as well. Counters
  that wrap in Go are 64-bit words or wrapped integers where the wrap-around matters. Where the code
  gives up its mutex inside an operation or works in goroutines, the order is explicit: the tunnel
  manager has a step relation of critical sections, exits and finished stops, of which the operations
  are runs; the log pipeline is a list of producer and consumer events.

  \<^bold>\<open>What the lemmas show.\<close> Routing: which upstream receives which body, the whitelist, the fallback
  chain, accounting. Resilience: the breaker's invariant and refinement, that a working account or
  key is reached, that a fallback combo survives an outage. Access: what passing the middlewares
  implies, quotas, sessions, login, that administrators cannot be deleted away, rate and login
  bounds. Persistence: a restart rebuilds the keys, the accounts, the proxies and the registries.
  Logging: nothing accepted is lost or reordered on the way to the store, both backends report the
  same statistics, listed ids lead to their request. Tunnels: no process is left behind in any
  interleaving, and what \<^verbatim>\<open>Enable\<close> leaves running and stored. Composition: which requests reach which
  endpoint through the whole server; that only administrators change what is set up and that a deleted key stays
  dead, in every interleaving of requests and background work; that a created key works and the first start lets
  its administrator in; when the process does not start; that a restart restores everything and a shutdown
  leaves nothing behind; that the state stays well typed; that the adapter of the proxy pool is transparent. Streams: independence of how the bytes are cut,
  transparency of buffering, the event protocol of the Messages stream, faithfulness of text, tool
  calls and usage. A group of theorems proves behaviours of the code that contradict its intent or
  its comments.

  \<^bold>\<open>Bounds and termination.\<close> No fuel is used: every loop of the source that is modelled is structural
  recursion over a finite list (accounts, keys, candidates, lines, reads), or over the number of
  entries in the pool, as in the source. Limits of the source (body sizes, line lengths, truncation)
  are the source's numbers.

  \<^bold>\<open>Not modelled.\<close> The static login and dashboard pages, the files that only rename functions of other packages, log
  messages, the registration of metrics with the Prometheus client and the ticker that publishes the pool gauges (the
  published values are), the HTTP server with its timeouts and the draining of its connections, the TTL of the ClickHouse tables, and
  the bytes of a compressed answer. In runs of \<open>Background\<close> a request and a step of a worker are each one step, and the goroutines of
  the tunnel and of the log store are left out: they have runs of their own in \<open>Tunnel\<close>, \<open>LogPipeline\<close>, \<open>Storage\<close> and
  \<open>Teardown\<close>. Concurrency inside an operation that releases its mutex in between is treated in \<open>Tunnel\<close>,
  \<open>LogPipeline\<close>, \<open>Workers\<close> and, for the transport cache, in \<open>ProxyPool\<close>.
\<close>

end
